(* ===== verification/Prelude.thy ===== *)
theory Prelude
  imports Main "HOL-Library.Word" "HOL-Library.Multiset"
begin

text \<open>
  The vocabulary the component theories share: the C integer types at their width, byte
  buffers with the little-endian and big-endian reads the driver uses, the status codes of
  \<^verbatim>\<open>include/osdep_service.h\<close>, the named collections that carry the component proofs,
  and the generic facts about words and lists they rest on.

  A buffer is the list of the bytes from \<^verbatim>\<open>rx_data\<close> up to the end of the allocation.
  C leaves a read outside the allocation undefined; \<open>byte_at\<close> reads 0 there, and every
  lemma that depends on the bytes read states the length it needs.
\<close>

unbundle bit_operations_syntax

section \<open>Types\<close>

type_synonym u8 = "8 word"
type_synonym u16 = "16 word"
type_synonym u32 = "32 word"
type_synonym u64 = "64 word"
type_synonym mac = "u8 list"

named_theorems rx_defs
  \<open>definitions of the small receive-path operations, for unfolding\<close>

named_theorems frame_laws
  \<open>what the frame operations keep and change\<close>

text \<open>Return codes \<^verbatim>\<open>_FAIL\<close>, \<^verbatim>\<open>_SUCCESS\<close> and \<^verbatim>\<open>RTW_RX_HANDLED\<close>.\<close>

datatype rx_ret = RX_FAIL | RX_SUCCESS | RX_HANDLED

section \<open>Byte buffers\<close>

definition byte_at :: "u8 list \<Rightarrow> nat \<Rightarrow> u8" where
  "byte_at bs i = (if i < length bs then bs ! i else 0)"

definition bytes_at :: "u8 list \<Rightarrow> nat \<Rightarrow> nat \<Rightarrow> u8 list" where
  "bytes_at bs off n = map (\<lambda>i. byte_at bs (off + i)) [0..<n]"

definition le16_at :: "u8 list \<Rightarrow> nat \<Rightarrow> u16" where
  "le16_at bs off = ucast (byte_at bs off) OR push_bit 8 (ucast (byte_at bs (off + 1)))"

definition be16_at :: "u8 list \<Rightarrow> nat \<Rightarrow> u16" where
  "be16_at bs off = push_bit 8 (ucast (byte_at bs off)) OR ucast (byte_at bs (off + 1))"

text \<open>\<^verbatim>\<open>RTW_GET_LE64\<close>: eight bytes, the first the least significant.\<close>

definition le64_at :: "u8 list \<Rightarrow> nat \<Rightarrow> u64" where
  "le64_at bs off =
     (ucast (byte_at bs off) :: u64)
     OR push_bit 8 (ucast (byte_at bs (off + 1)))
     OR push_bit 16 (ucast (byte_at bs (off + 2)))
     OR push_bit 24 (ucast (byte_at bs (off + 3)))
     OR push_bit 32 (ucast (byte_at bs (off + 4)))
     OR push_bit 40 (ucast (byte_at bs (off + 5)))
     OR push_bit 48 (ucast (byte_at bs (off + 6)))
     OR push_bit 56 (ucast (byte_at bs (off + 7)))"

lemma length_bytes_at [simp]: "length (bytes_at bs off n) = n"
  by (simp add: bytes_at_def)

lemma byte_at_append1: "i < length xs \<Longrightarrow> byte_at (xs @ ys) i = byte_at xs i"
  by (simp add: byte_at_def nth_append)

lemma byte_at_append2: "length xs \<le> i \<Longrightarrow> byte_at (xs @ ys) i = byte_at ys (i - length xs)"
  by (auto simp: byte_at_def nth_append)

lemma bytes_at_inside:
  assumes "off + n \<le> length bs"
  shows "bytes_at bs off n = take n (drop off bs)"
  using assms by (intro nth_equalityI) (auto simp: bytes_at_def byte_at_def)

lemma byte_at_take_drop:
  "off + i < length bs \<Longrightarrow> byte_at bs (off + i) = drop off bs ! i"
  by (simp add: byte_at_def)

section \<open>Masks\<close>

lemma and_pow2_bit: "(x AND 2 ^ n \<noteq> 0) = bit x n" for x :: "'a::len word"
proof
  assume "x AND 2 ^ n \<noteq> 0"
  then obtain m where "bit (x AND 2 ^ n) m"
    by (auto simp: bit_eq_iff)
  then show "bit x n"
    by (auto simp: bit_and_iff bit_exp_iff)
next
  assume b: "bit x n"
  then have "n < LENGTH('a)"
    by (rule bit_imp_le_length)
  with b have "bit (x AND 2 ^ n) n"
    by (simp add: bit_and_iff bit_exp_iff)
  then show "x AND 2 ^ n \<noteq> 0"
    by auto
qed


section \<open>Ranges\<close>

lemma u8_range: "uint w < 256" "unat w < 256" for w :: u8
proof -
  show "uint w < 256"
    by (rule order.strict_trans2 [OF unsigned_less [of w]]) simp
  show "unat w < 256"
    by (rule order.strict_trans2 [OF unsigned_less [of w]]) simp
qed

lemma uint_ucast_u8 [simp]: "uint (ucast w :: u16) = uint w" for w :: u8
  using u8_range [of w] uint_nonnegative [of w]
  by (simp add: unsigned_ucast_eq take_bit_eq_mod)

lemma u8_pos:
  fixes w :: u8
  assumes "0 < w"
  shows "1 \<le> uint w" "0 < unat w"
proof -
  show "0 < unat w"
    using assms by (simp add: unat_gt_0 word_gt_0)
  moreover have "int (unat w) = uint w"
    by simp
  ultimately show "1 \<le> uint w"
    by linarith
qed

lemma u8_uint_unat: "int (unat w) = uint w" for w :: u8
  by simp


lemma bit_of_small:
  fixes w :: "'a::len word"
  assumes "unat w < 2 ^ k" "bit w n"
  shows "n < k"
proof -
  have "take_bit k (unat w) = unat w"
    using assms(1) by (rule take_bit_nat_eq_self)
  moreover have "bit (unat w) n"
    using assms(2) bit_imp_le_length [OF assms(2)] by (simp add: bit_unsigned_iff)
  ultimately have "bit (take_bit k (unat w)) n" by simp
  then show ?thesis by (simp add: bit_take_bit_iff)
qed


section \<open>Writing into a buffer\<close>

text \<open>The buffer with \<open>bs\<close> written from \<open>off\<close> on; a write outside the buffer has no effect.\<close>

definition put_bytes :: "u8 list \<Rightarrow> nat \<Rightarrow> u8 list \<Rightarrow> u8 list" where
  "put_bytes buf off bs =
     map (\<lambda>i. if off \<le> i \<and> i < off + length bs then bs ! (i - off) else buf ! i) [0..<length buf]"

lemma length_put_bytes [simp]: "length (put_bytes buf off bs) = length buf"
  by (simp add: put_bytes_def)

lemma byte_at_put_bytes:
  "byte_at (put_bytes buf off bs) i =
     (if off \<le> i \<and> i < off + length bs \<and> i < length buf then bs ! (i - off) else byte_at buf i)"
  by (auto simp: byte_at_def put_bytes_def)

lemma bytes_at_put_bytes_same:
  "off + length bs \<le> length buf \<Longrightarrow> bytes_at (put_bytes buf off bs) off (length bs) = bs"
  by (intro nth_equalityI) (auto simp: bytes_at_def byte_at_put_bytes)

lemma bytes_at_put_bytes_outside:
  "off' + n \<le> off \<or> off + length bs \<le> off' \<Longrightarrow>
     bytes_at (put_bytes buf off bs) off' n = bytes_at buf off' n"
  by (auto simp: bytes_at_def byte_at_put_bytes)

lemma bytes_at_append: "bytes_at buf off (m + n) = bytes_at buf off m @ bytes_at buf (off + m) n"
  by (intro nth_equalityI) (auto simp: bytes_at_def nth_append add.assoc)

lemma put_bytes_0: "length bs \<le> length buf \<Longrightarrow> put_bytes buf 0 bs = bs @ drop (length bs) buf"
  by (intro nth_equalityI) (auto simp: put_bytes_def nth_append)

text \<open>A 32-bit value as its four bytes, the least significant first.\<close>

definition le32_bytes :: "u32 \<Rightarrow> u8 list" where
  "le32_bytes v = [ucast v, ucast (drop_bit 8 v), ucast (drop_bit 16 v), ucast (drop_bit 24 v)]"

lemma length_le32_bytes [simp]: "length (le32_bytes v) = 4"
  by (simp add: le32_bytes_def)


lemma bit_mult2: "bit (a * 2) n \<longleftrightarrow> n < LENGTH('a) \<and> 0 < n \<and> bit a (n - 1)" for a :: "'a::len word"
proof -
  have "a * 2 = push_bit 1 a"
    by (simp only: push_bit_eq_mult power_one_right)
  then show ?thesis
    by (simp only: bit_push_bit_iff) auto
qed

text \<open>Big-endian 16-bit values, written and read.\<close>

definition be16_bytes :: "u16 \<Rightarrow> u8 list" where
  "be16_bytes v = [ucast (drop_bit 8 v), ucast v]"

lemma length_be16_bytes [simp]: "length (be16_bytes v) = 2"
  by (simp add: be16_bytes_def)

lemma be16_roundtrip: "be16_at (xs @ be16_bytes v @ ys) (length xs) = v"
proof -
  have b: "byte_at (xs @ be16_bytes v @ ys) (length xs) = ucast (drop_bit 8 v)"
    "byte_at (xs @ be16_bytes v @ ys) (Suc (length xs)) = ucast v"
    by (simp_all add: byte_at_def nth_append be16_bytes_def)
  show ?thesis
  proof (rule bit_word_eqI)
    fix n assume n: "n < LENGTH(16)"
    show "bit (be16_at (xs @ be16_bytes v @ ys) (length xs)) n = bit v n"
    proof (cases "n < 8")
      case True
      then show ?thesis
        by (simp add: be16_at_def b bit_or_iff bit_push_bit_iff bit_ucast_iff)
    next
      case False
      then show ?thesis
        using n by (auto simp: be16_at_def b bit_or_iff bit_push_bit_iff bit_ucast_iff bit_drop_bit_eq)
    qed
  qed
qed

lemma be16_bytes_at:
  fixes a b c e :: u8
  shows "be16_bytes (be16_at [a, b, c, e] 0) = [a, b]" "be16_bytes (be16_at [a, b, c, e] 2) = [c, e]"
proof -
  have hi: "ucast (drop_bit 8 (push_bit 8 (ucast x) OR ucast y :: u16)) = x" for x y :: u8
    by (rule bit_word_eqI) (auto simp: bit_simps dest: bit_imp_le_length)
  have lo: "ucast (push_bit 8 (ucast x) OR ucast y :: u16) = y" for x y :: u8
    by (rule bit_word_eqI) (auto simp: bit_simps)
  have b: "byte_at [a, b, c, e] 0 = a" "byte_at [a, b, c, e] (0 + 1) = b" "byte_at [a, b, c, e] 2 = c" "byte_at [a, b, c, e] (2 + 1) = e"
    by (simp_all add: byte_at_def)
  show "be16_bytes (be16_at [a, b, c, e] 0) = [a, b]" "be16_bytes (be16_at [a, b, c, e] 2) = [c, e]"
    unfolding be16_bytes_def be16_at_def b hi lo by (rule refl)+
qed

end
