(* ===== verification/Pn_Iv.thy ===== *)
theory Pn_Iv
  imports Prelude
begin

text \<open>
  Cipher suites, IV headers and packet numbers: \<^verbatim>\<open>include/rtw_security.h\<close>,
  \<^verbatim>\<open>rtw_iv_to_pn\<close> and \<^verbatim>\<open>rtw_pn_to_iv\<close> of \<^verbatim>\<open>core/rtw_security.c\<close>, and the two
  replay-check macros \<^verbatim>\<open>VALID_PN_CHK\<close> (one in \<^verbatim>\<open>core/rtw_recv.c\<close>, one in
  \<^verbatim>\<open>include/rtw_recv.h\<close>). The lemmas show the round trip between packet numbers and IV
  headers, that the two copies of the macro are the same function, and exactly which
  packet numbers they let through.
\<close>

section \<open>Cipher suites\<close>

abbreviation (input) SEC_NO_PRIVACY :: u8 where "SEC_NO_PRIVACY \<equiv> 0x00"
abbreviation (input) SEC_WEP40 :: u8 where "SEC_WEP40 \<equiv> 0x01"
abbreviation (input) SEC_TKIP :: u8 where "SEC_TKIP \<equiv> 0x02"
abbreviation (input) SEC_AES :: u8 where "SEC_AES \<equiv> 0x04"
abbreviation (input) SEC_WEP104 :: u8 where "SEC_WEP104 \<equiv> 0x05"
abbreviation (input) SEC_SMS4 :: u8 where "SEC_SMS4 \<equiv> 0x06"
abbreviation (input) SEC_GCMP :: u8 where "SEC_GCMP \<equiv> 0x07"
abbreviation (input) SEC_CCMP_256 :: u8 where "SEC_CCMP_256 \<equiv> 0x14"
abbreviation (input) SEC_GCMP_256 :: u8 where "SEC_GCMP_256 \<equiv> 0x17"

datatype auth_alg = AuthOpen | AuthShared | Auth8021X | AuthAuto | AuthWAPI | AuthMax

text \<open>The suites whose IV header carries a 48-bit packet number.\<close>

definition has_pn :: "u8 \<Rightarrow> bool" where
  "has_pn enc \<longleftrightarrow> enc = SEC_TKIP \<or> enc = SEC_AES \<or> enc = SEC_GCMP \<or> enc = SEC_CCMP_256
     \<or> enc = SEC_GCMP_256"

text \<open>\<^verbatim>\<open>SET_ICE_IV_LEN\<close>: the IV and ICV lengths of a suite.\<close>

definition set_ice_iv_len :: "u8 \<Rightarrow> u8 \<times> u8" where
  "set_ice_iv_len enc =
     (if enc = SEC_WEP40 \<or> enc = SEC_WEP104 then (4, 4)
      else if enc = SEC_TKIP then (8, 4)
      else if enc = SEC_AES then (8, 8)
      else if enc = SEC_GCMP \<or> enc = SEC_GCMP_256 then (8, 16)
      else if enc = SEC_CCMP_256 then (8, 16)
      else if enc = SEC_SMS4 then (18, 16)
      else (0, 0))"

text \<open>
  \<^verbatim>\<open>GET_ENCRY_ALGO\<close>: the suite of a frame, from the authentication algorithm, the
  pairwise or group privacy of the BSS and of the station. Where no case of the switch
  matches, the macro leaves its argument as it was.
\<close>

definition get_encry_algo :: "auth_alg \<Rightarrow> u8 \<Rightarrow> u8 \<Rightarrow> u8 \<Rightarrow> u8 \<Rightarrow> bool \<Rightarrow> u8" where
  "get_encry_algo auth privacy grp_privacy sta_privacy encry_algo bmcst =
     (case auth of
        AuthOpen \<Rightarrow> privacy
      | AuthShared \<Rightarrow> privacy
      | AuthAuto \<Rightarrow> privacy
      | Auth8021X \<Rightarrow> (if bmcst then grp_privacy else sta_privacy)
      | AuthWAPI \<Rightarrow> privacy
      | AuthMax \<Rightarrow> encry_algo)"

section \<open>IV headers and packet numbers\<close>

text \<open>
  \<^verbatim>\<open>rtw_iv_to_pn\<close>: the first six bytes of the caller's buffer \<open>pn\<close> are overwritten;
  the key id is returned beside it. \<open>None\<close> is \<^verbatim>\<open>_FAIL\<close>, with nothing written.
\<close>

definition rtw_iv_to_pn :: "u8 list \<Rightarrow> u8 list \<Rightarrow> u8 \<Rightarrow> (u8 list \<times> u8) option" where
  "rtw_iv_to_pn iv pn enc =
     (if \<not> has_pn enc then None
      else
        let p01 = (if enc = SEC_TKIP then pn[0 := byte_at iv 2, 1 := byte_at iv 0]
                   else pn[0 := byte_at iv 0, 1 := byte_at iv 1])
        in Some (p01[2 := byte_at iv 4, 3 := byte_at iv 5, 4 := byte_at iv 6,
                     5 := byte_at iv 7],
                 drop_bit 6 (byte_at iv 3)))"

definition rtw_pn_to_iv :: "u8 list \<Rightarrow> u8 list \<Rightarrow> u8 \<Rightarrow> u8 \<Rightarrow> u8 list option" where
  "rtw_pn_to_iv pn iv key_id enc =
     (if \<not> has_pn enc then None
      else
        let i02 = (if enc = SEC_TKIP
                   then iv[0 := byte_at pn 1,
                           1 := (byte_at pn 1 OR 0x20) AND 0x7F,
                           2 := byte_at pn 0]
                   else iv[0 := byte_at pn 0, 1 := byte_at pn 1, 2 := 0])
        in Some (i02[3 := 0x20 OR push_bit 6 (key_id AND 3),
                     4 := byte_at pn 2, 5 := byte_at pn 3, 6 := byte_at pn 4,
                     7 := byte_at pn 5]))"

text \<open>The packet number a frame's IV header carries, as the callers compute it.\<close>

definition pn_of_iv :: "u8 list \<Rightarrow> u8 \<Rightarrow> u64" where
  "pn_of_iv iv enc =
     (case rtw_iv_to_pn iv (replicate 8 0) enc of
        None \<Rightarrow> le64_at (replicate 8 0) 0
      | Some (pn, _) \<Rightarrow> le64_at pn 0)"

text \<open>\<^verbatim>\<open>CCMPH_2_PN\<close>: the packet number of a CCMP or GCMP header read as one 64-bit word.\<close>

definition ccmph_2_pn :: "u64 \<Rightarrow> u64" where
  "ccmph_2_pn ch = (ch AND 0xffff) OR drop_bit 16 (ch AND 0xffffffff00000000)"

section \<open>The replay check\<close>

definition pn_less_chk :: "u64 \<Rightarrow> u64 \<Rightarrow> bool" where
  "pn_less_chk a b \<longleftrightarrow> (a - b) AND 0x800000000000 \<noteq> 0"

definition valid_pn_chk :: "u64 \<Rightarrow> u64 \<Rightarrow> bool" where
  "valid_pn_chk new old \<longleftrightarrow> old = 0 \<or> pn_less_chk old new"

definition PN_48_MASK :: u64 where
  "PN_48_MASK = 0xFFFFFFFFFFFF"

definition pn_less_chk_h :: "u64 \<Rightarrow> u64 \<Rightarrow> bool" where
  "pn_less_chk_h a b \<longleftrightarrow>
     ((a AND PN_48_MASK) - (b AND PN_48_MASK)) AND 0x800000000000 \<noteq> 0"

definition valid_pn_chk_h :: "u64 \<Rightarrow> u64 \<Rightarrow> bool" where
  "valid_pn_chk_h new old \<longleftrightarrow> old = 0 \<or> pn_less_chk_h old new"

lemma bit47_mask: "(x AND 0x800000000000 \<noteq> 0) = bit x 47" for x :: u64
proof -
  have "(0x800000000000 :: u64) = 2 ^ 47" by simp
  then show ?thesis by (simp only: and_pow2_bit)
qed

lemma PN_48_MASK_mask: "PN_48_MASK = mask 48"
  by (simp add: PN_48_MASK_def mask_eq_exp_minus_1)

lemma bit47_diff_masked_int:
  "bit (take_bit 48 k - take_bit 48 l) 47 = bit (k - l) 47" for k l :: int
proof -
  have "bit (take_bit 48 (take_bit 48 k - take_bit 48 l)) 47 = bit (take_bit 48 (k - l)) 47"
    by (simp only: take_bit_diff)
  then show ?thesis
    by (simp add: bit_take_bit_iff)
qed

lemma bit47_diff_masked:
  "bit ((a AND mask 48) - (b AND mask 48)) 47 = bit (a - b) 47" for a b :: u64
  by transfer (simp add: bit_take_bit_iff bit47_diff_masked_int flip: take_bit_eq_mask)

lemma pn_less_chk_bit: "pn_less_chk a b = bit (a - b) 47"
  by (simp only: pn_less_chk_def bit47_mask)

lemma pn_less_chk_h_bit: "pn_less_chk_h a b = bit (a - b) 47"
  by (simp only: pn_less_chk_h_def bit47_mask PN_48_MASK_mask bit47_diff_masked)

section \<open>Which packet numbers pass\<close>

lemma odd_div_iff_half:
  "odd (x div 2 ^ n) = (2 ^ n \<le> x mod 2 ^ Suc n)" for x :: int
proof -
  have eq: "take_bit (Suc n) x = take_bit n x + (if bit x n then 2 ^ n else 0)"
    by (simp add: take_bit_Suc_from_most of_bool_def)
  have lo: "0 \<le> take_bit n x" and hi: "take_bit n x < 2 ^ n"
    by simp_all
  have "(2 ^ n \<le> take_bit (Suc n) x) = bit x n"
  proof (cases "bit x n")
    case True
    have "2 ^ n \<le> take_bit n x + 2 ^ n"
      using lo by linarith
    with True show ?thesis by (simp only: eq if_True)
  next
    case False
    have "\<not> 2 ^ n \<le> take_bit n x"
      using hi by linarith
    with False show ?thesis by (simp only: eq if_False add_0_right)
  qed
  then show ?thesis
    by (simp only: take_bit_eq_mod bit_iff_odd)
qed

lemma bit_diff_half:
  fixes a b :: "'a::len word"
  assumes "Suc n \<le> LENGTH('a)"
  shows "bit (a - b) n = (2 ^ n \<le> (uint a - uint b) mod 2 ^ Suc n)"
proof -
  have "bit (a - b) n = odd (uint (a - b) div 2 ^ n)"
    using assms by (simp add: bit_uint_iff flip: bit_iff_odd)
  also have "\<dots> = (2 ^ n \<le> uint (a - b) mod 2 ^ Suc n)"
    by (rule odd_div_iff_half)
  also have "uint (a - b) mod 2 ^ Suc n = (uint a - uint b) mod 2 ^ Suc n"
    unfolding uint_word_ariths
    by (rule mod_mod_cancel) (rule le_imp_power_dvd [OF assms])
  finally show ?thesis .
qed

lemma pn_less_chk_mod:
  "pn_less_chk a b = (2 ^ 47 \<le> (uint a - uint b) mod 2 ^ 48)"
  using bit_diff_half [of 47 a b] by (simp add: pn_less_chk_bit)

lemma pn_less_chk_window:
  assumes "uint old < 2 ^ 48" "uint new < 2 ^ 48"
  shows "pn_less_chk old new =
    (uint old < uint new \<and> uint new - uint old \<le> 2 ^ 47
     \<or> uint new < uint old \<and> 2 ^ 47 \<le> uint old - uint new)"
proof (cases "uint old < uint new")
  case True
  have "(uint old - uint new) mod 2 ^ 48 = (uint old - uint new + 2 ^ 48) mod 2 ^ 48"
    by (simp only: mod_add_self2)
  also have "\<dots> = uint old - uint new + 2 ^ 48"
  proof (rule mod_pos_pos_trivial)
    show "0 \<le> uint old - uint new + 2 ^ 48"
      using uint_nonnegative [of old] assms(2) by linarith
    show "uint old - uint new + 2 ^ 48 < 2 ^ 48"
      using True by linarith
  qed
  finally have "(uint old - uint new) mod 2 ^ 48 = uint old - uint new + 2 ^ 48" .
  then show ?thesis
    using True by (auto simp: pn_less_chk_mod)
next
  case False
  then have "(uint old - uint new) mod 2 ^ 48 = uint old - uint new"
    using assms(1) uint_nonnegative [of new] by (intro mod_pos_pos_trivial; linarith)
  then show ?thesis
    using False by (auto simp: pn_less_chk_mod)
qed

section \<open>Properties\<close>

text \<open>
  The two replay checks are one function: the unmasked \<^verbatim>\<open>VALID_PN_CHK\<close> of the
  primary's receive path (\<^verbatim>\<open>core/rtw_recv.c\<close>) and the masked one the cooperative path
  uses (\<^verbatim>\<open>include/rtw_recv.h\<close>) agree on every pair of 64-bit values, so a frame is
  judged a replay by both paths or by neither.
\<close>

theorem valid_pn_chk_copies_agree: "valid_pn_chk_h new old = valid_pn_chk new old"
  by (simp add: valid_pn_chk_h_def valid_pn_chk_def pn_less_chk_h_bit pn_less_chk_bit)

text \<open>
  On 48-bit packet numbers the check is a comparison on the circle: with a non-zero
  stored number, a packet passes exactly when it is ahead by at most \<open>2 ^ 47\<close>, or behind by
  at least \<open>2 ^ 47\<close>. The comment above the macro ("PN > old PN") describes only the
  first half.
\<close>

theorem valid_pn_chk_iff:
  assumes "uint old < 2 ^ 48" "uint new < 2 ^ 48" "old \<noteq> 0"
  shows "valid_pn_chk new old =
    (uint old < uint new \<and> uint new - uint old \<le> 2 ^ 47
     \<or> uint new < uint old \<and> 2 ^ 47 \<le> uint old - uint new)"
  using pn_less_chk_window [OF assms(1,2)] assms(3) by (simp add: valid_pn_chk_def)

theorem valid_pn_chk_iff_witness:
  "valid_pn_chk 1 0xC00000000000 \<and> valid_pn_chk 6 5 \<and> \<not> valid_pn_chk 5 5"
  using valid_pn_chk_iff [where old = "0xC00000000000" and new = 1]
    valid_pn_chk_iff [where old = 5 and new = 6] valid_pn_chk_iff [where old = 5 and new = 5]
  by simp

lemma key_id_byte: "drop_bit 6 (push_bit 6 kid) AND 3 = kid AND 3" for kid :: u8
proof -
  have "(3 :: u8) = mask 2"
    by (simp add: mask_eq_exp_minus_1)
  then have "bit (3 :: u8) n \<longleftrightarrow> n < 2" for n
    by (simp only: bit_mask_iff) auto
  then show ?thesis
    by (intro bit_word_eqI) (auto simp: bit_drop_bit_eq bit_push_bit_iff bit_and_iff)
qed

text \<open>
  The packet number survives the IV header: for every suite that carries one, reading
  back the header \<^verbatim>\<open>rtw_pn_to_iv\<close> wrote gives the six bytes of the packet number (the
  rest of the caller's buffer untouched) and the two key-id bits.
\<close>

theorem rtw_iv_to_pn_pn_to_iv:
  assumes "has_pn enc" "length pn = 8" "length iv = 8" "length pn' = 8"
  shows "\<exists>iv'. rtw_pn_to_iv pn iv kid enc = Some iv' \<and> length iv' = 8
    \<and> rtw_iv_to_pn iv' pn' enc = Some (take 6 pn @ drop 6 pn', kid AND 3)"
proof -
  obtain p0 p1 p2 p3 p4 p5 p6 p7 where pn: "pn = [p0, p1, p2, p3, p4, p5, p6, p7]"
    using assms(2) by (auto simp: numeral_eq_Suc length_Suc_conv)
  obtain i0 i1 i2 i3 i4 i5 i6 i7 where iv: "iv = [i0, i1, i2, i3, i4, i5, i6, i7]"
    using assms(3) by (auto simp: numeral_eq_Suc length_Suc_conv)
  obtain q0 q1 q2 q3 q4 q5 q6 q7 where pn': "pn' = [q0, q1, q2, q3, q4, q5, q6, q7]"
    using assms(4) by (auto simp: numeral_eq_Suc length_Suc_conv)
  show ?thesis
    using assms(1) by (simp add: rtw_pn_to_iv_def rtw_iv_to_pn_def Let_def pn iv pn' byte_at_def key_id_byte)
qed

theorem rtw_iv_to_pn_pn_to_iv_witness:
  "rtw_iv_to_pn [7, 0x27, 9, 0xA0, 1, 2, 3, 4] (replicate 8 0) SEC_TKIP
     = Some ([9, 7, 1, 2, 3, 4, 0, 0], 2)"
proof -
  have "rtw_pn_to_iv [9, 7, 1, 2, 3, 4, 0, 0] (replicate 8 0) 2 SEC_TKIP
      = Some [7, 0x27, 9, 0xA0, 1, 2, 3, 4]"
    by (simp add: rtw_pn_to_iv_def has_pn_def byte_at_def Let_def numeral_eq_Suc)
  then show ?thesis
    using rtw_iv_to_pn_pn_to_iv
      [of SEC_TKIP "[9, 7, 1, 2, 3, 4, 0, 0]" "replicate 8 0" "replicate 8 0" 2]
    by (simp add: has_pn_def numeral_eq_Suc)
qed

end
