(* ===== verification/Rx_Types.thy ===== *)
theory Rx_Types
  imports Pn_Iv
begin

text \<open>
  The state the receive path works on: the frame attributes \<^verbatim>\<open>rx_pkt_attrib\<close>, the frame
  header \<^verbatim>\<open>recv_frame_hdr\<close> with its buffer pointers, the reorder control block, the
  station, security and receive contexts and the adapter (\<^verbatim>\<open>include/rtw_recv.h\<close>,
  \<^verbatim>\<open>include/sta_info.h\<close>, \<^verbatim>\<open>include/rtw_security.h\<close>), with the frame pools and
  the buffer operations on them.

  Each record keeps the fields the modelled code reads or writes. C flags that are only
  ever 0 or 1 are booleans. Pointers are what they designate: a station is named by its
  address, a reorder control block by its station and TID, an adapter by a number. The
  pointers \<^verbatim>\<open>rx_data\<close> and \<^verbatim>\<open>rx_tail\<close> are offsets into the buffer that starts at
  \<^verbatim>\<open>rx_head\<close>; \<^verbatim>\<open>rx_end\<close> is its length. List membership (\<^verbatim>\<open>rtw_list_delete\<close>) is
  the frame's presence in one of the queues.
\<close>

section \<open>Frames\<close>

record rx_pkt_attrib =
  a_hdrlen :: nat
  a_to_fr_ds :: nat
  a_amsdu :: bool
  a_qos :: bool
  a_priority :: nat
  a_seq_num :: u16
  a_frag_num :: u8
  a_mfrag :: bool
  a_privacy :: bool
  a_bdecrypted :: bool
  a_encrypt :: u8
  a_iv_len :: nat
  a_icv_len :: nat
  a_crc_err :: bool
  a_icv_err :: bool
  a_dst :: mac
  a_src :: mac
  a_ta :: mac
  a_ra :: mac
  a_bssid :: mac
  a_key_index :: nat
  a_recv_signal_power :: int
  a_physts_rpt_valid :: bool
  a_order :: bool
  a_pw_save :: bool
  a_mdata :: bool
  a_ack_policy :: nat

text \<open>A socket buffer of the kernel: its identity and its length.\<close>

record skb =
  skb_id :: nat
  skb_len :: nat

record recv_frame =
  rf_id :: nat
  rf_adapter :: nat
  rf_attrib :: rx_pkt_attrib
  rf_pkt :: "skb option"
  rf_len :: int
  rf_buf :: "u8 list"
  rf_data :: int
  rf_tail :: int
  rf_psta :: "mac option"
  rf_preorder :: "(mac \<times> nat) option"
  rf_keytrack :: int

abbreviation rf_end :: "recv_frame \<Rightarrow> int" where
  "rf_end f \<equiv> int (length (rf_buf f))"

text \<open>A frame whose pointers are in order and whose length is what lies between them.\<close>

definition frame_wf :: "recv_frame \<Rightarrow> bool" where
  "frame_wf f \<longleftrightarrow> 0 \<le> rf_data f \<and> rf_data f \<le> rf_tail f \<and> rf_tail f \<le> rf_end f
     \<and> rf_len f = rf_tail f - rf_data f"

text \<open>The byte \<open>i\<close> positions after \<^verbatim>\<open>rx_data\<close>, and the bytes of the frame.\<close>

definition rx_byte :: "recv_frame \<Rightarrow> nat \<Rightarrow> u8" where
  "rx_byte f i = byte_at (rf_buf f) (nat (rf_data f) + i)"

definition rx_bytes :: "recv_frame \<Rightarrow> nat \<Rightarrow> nat \<Rightarrow> u8 list" where
  "rx_bytes f off n = bytes_at (rf_buf f) (nat (rf_data f) + off) n"

definition frame_bytes :: "recv_frame \<Rightarrow> u8 list" where
  "frame_bytes f = rx_bytes f 0 (nat (rf_len f))"

definition is_mcast :: "mac \<Rightarrow> bool" where
  "is_mcast addr \<longleftrightarrow> byte_at addr 0 AND 1 \<noteq> 0"

section \<open>Moving the data and tail pointers\<close>

text \<open>\<^verbatim>\<open>None\<close> is the NULL result, which leaves the frame as it was.\<close>

definition recvframe_pull :: "recv_frame \<Rightarrow> int \<Rightarrow> recv_frame option" where
  "recvframe_pull f sz =
     (if rf_data f + sz > rf_tail f then None
      else Some (f\<lparr>rf_data := rf_data f + sz, rf_len := rf_len f - sz\<rparr>))"

definition recvframe_put :: "recv_frame \<Rightarrow> int \<Rightarrow> recv_frame option" where
  "recvframe_put f sz =
     (if rf_tail f + sz > rf_end f then None
      else Some (f\<lparr>rf_tail := rf_tail f + sz, rf_len := rf_len f + sz\<rparr>))"

definition recvframe_pull_tail :: "recv_frame \<Rightarrow> int \<Rightarrow> recv_frame option" where
  "recvframe_pull_tail f sz =
     (if rf_tail f - sz < rf_data f then None
      else Some (f\<lparr>rf_tail := rf_tail f - sz, rf_len := rf_len f - sz\<rparr>))"

text \<open>The callers that ignore the result go on with the frame as it is.\<close>

definition or_same :: "recv_frame \<Rightarrow> recv_frame option \<Rightarrow> recv_frame" where
  "or_same f r = (case r of None \<Rightarrow> f | Some f' \<Rightarrow> f')"

lemma recvframe_pull_wf [frame_laws]:
  "frame_wf f \<Longrightarrow> 0 \<le> sz \<Longrightarrow> frame_wf (or_same f (recvframe_pull f sz))"
  by (auto simp: frame_wf_def recvframe_pull_def or_same_def)

lemma recvframe_put_wf [frame_laws]:
  "frame_wf f \<Longrightarrow> 0 \<le> sz \<Longrightarrow> frame_wf (or_same f (recvframe_put f sz))"
  by (auto simp: frame_wf_def recvframe_put_def or_same_def)

lemma recvframe_pull_tail_wf [frame_laws]:
  "frame_wf f \<Longrightarrow> 0 \<le> sz \<Longrightarrow> frame_wf (or_same f (recvframe_pull_tail f sz))"
  by (auto simp: frame_wf_def recvframe_pull_tail_def or_same_def)

lemma or_same_id [simp]:
  "rf_id (or_same f (recvframe_pull f sz)) = rf_id f"
  "rf_id (or_same f (recvframe_put f sz)) = rf_id f"
  "rf_id (or_same f (recvframe_pull_tail f sz)) = rf_id f"
  by (simp_all add: or_same_def recvframe_pull_def recvframe_put_def recvframe_pull_tail_def)

lemma or_same_attrib [simp]:
  "rf_attrib (or_same f (recvframe_pull f sz)) = rf_attrib f"
  "rf_attrib (or_same f (recvframe_put f sz)) = rf_attrib f"
  "rf_attrib (or_same f (recvframe_pull_tail f sz)) = rf_attrib f"
  by (simp_all add: or_same_def recvframe_pull_def recvframe_put_def recvframe_pull_tail_def)

section \<open>Reorder control, stations, security context\<close>

record recv_reorder_ctrl =
  ro_enable :: bool
  ro_indicate_seq :: u16
  ro_wsize_b :: u8
  ro_pending :: "recv_frame list"
  ro_timer :: bool
  ro_waiting :: bool
  ro_ack_or_timeout :: bool
  ro_reorder_wow :: bool

record sta_info =
  sta_addr :: mac
  sta_reorder :: "recv_reorder_ctrl list"
  sta_tid_rxseq :: "u16 list"
  sta_iv :: "u8 list list"
  sta_last_tid :: nat
  sta_bmc_tid_rxseq :: "u16 list"
  sta_nonqos_rxseq :: u16
  sta_nonqos_bmc_rxseq :: u16
  sta_duplicate_cnt :: u32
  sta_defrag_q :: "recv_frame list"
  sta_keytrack :: int
  sta_ieee8021x_blocked :: bool
  sta_dot118021XPrivacy :: u8
  sta_uncst_key :: "u8 list"
  sta_tkiprxmickey :: "u8 list"
  sta_amsdu_disable :: bool

text \<open>\<open>ro_timer\<close> is whether \<^verbatim>\<open>reordering_ctrl_timer\<close> is pending.\<close>

record security_priv =
  sec_auth :: auth_alg
  sec_privacy :: u8
  sec_grp_privacy :: u8
  sec_grp_keyid :: nat
  sec_binstall_grpkey :: bool
  sec_grp_key :: "u8 list list"
  sec_busetkipkey :: bool
  sec_key_index :: nat
  sec_hw_decrypted :: bool
  sec_iv_seq :: "u64 list"
  sec_grp_rxmickey :: "u8 list list"
  sec_bcheck_grpkey :: bool
  sec_def_key :: "u8 list list"
  sec_def_keylen :: "nat list"
  sec_sw_decrypt :: bool
  sec_wpapsk :: bool

section \<open>Receive context and adapter\<close>

text \<open>
  \<open>rp_os_rx\<close> lists the packets handed to the operating system
  (\<^verbatim>\<open>rtw_os_recv_indicate_pkt\<close>), oldest first.
\<close>

record recv_priv =
  rp_adapter :: nat
  rp_free_queue :: "recv_frame list"
  rp_free_cnt :: u32
  rp_os_rx :: "u8 list list"
  rp_rx_drop :: u64
  rp_drop_count :: u64
  rp_ampdu_drop_count :: u64
  rp_ampdu_forced_count :: u64
  rp_ampdu_loss_count :: u64
  rp_ampdu_window_shift_cnt :: u64
  rp_rssi :: int
  rp_pending :: "recv_frame list"
  rp_non_be :: bool

record adapter =
  ad_id :: nat
  ad_mac :: mac
  ad_fw_ap :: bool
  ad_fw_station :: bool
  ad_fw_asoc :: bool
  ad_fw_monitor :: bool
  ad_fw_linking :: bool
  ad_fw_adhoc :: bool
  ad_fw_mp :: bool
  ad_drv_stopped :: bool
  ad_surprise_removed :: bool
  ad_amsdu_spp :: nat
  ad_stapriv :: "mac \<Rightarrow> sta_info option"
  ad_sec :: security_priv
  ad_mlme_key_index :: nat
  ad_recv :: recv_priv
  ad_cur_channel :: nat
  ad_cur_bwmode :: nat
  ad_cur_ch_offset :: nat
  ad_oper_channel :: nat
  ad_cur_net_mac :: mac
  ad_dev_up :: bool
  ad_dev_rtw :: bool
  ad_acs_mode :: bool

text \<open>
  \<^verbatim>\<open>rtw_get_stainfo\<close>: every group address is looked up as the broadcast address.
\<close>

definition bc_addr :: mac where
  "bc_addr = replicate 6 0xff"

definition rtw_get_stainfo :: "adapter \<Rightarrow> mac \<Rightarrow> sta_info option" where
  "rtw_get_stainfo ad hwaddr = ad_stapriv ad (if is_mcast hwaddr then bc_addr else hwaddr)"

definition sta_update :: "mac \<Rightarrow> (sta_info \<Rightarrow> sta_info) \<Rightarrow> adapter \<Rightarrow> adapter" where
  "sta_update addr g ad = ad\<lparr>ad_stapriv := (ad_stapriv ad)(addr := map_option g (ad_stapriv ad addr))\<rparr>"

section \<open>The frame pool\<close>

text \<open>
  A queue of frames is the list of its elements, the head first. \<^verbatim>\<open>rtw_alloc_recvframe\<close>
  is the dequeue of any such queue; on an adapter's free queue it also maintains the
  counter, when the frame belongs to that adapter.
\<close>

definition dequeue_recvframe :: "recv_frame list \<Rightarrow> recv_frame option \<times> recv_frame list" where
  "dequeue_recvframe q = (case q of [] \<Rightarrow> (None, []) | f # fs \<Rightarrow> (Some f, fs))"

definition rtw_alloc_recvframe :: "recv_priv \<Rightarrow> recv_frame option \<times> recv_priv" where
  "rtw_alloc_recvframe rp =
     (case rp_free_queue rp of
        [] \<Rightarrow> (None, rp)
      | f # fs \<Rightarrow>
          (Some f,
           rp\<lparr>rp_free_queue := fs,
              rp_free_cnt := (if rf_adapter f = rp_adapter rp then rp_free_cnt rp - 1
                              else rp_free_cnt rp)\<rparr>))"

text \<open>
  \<^verbatim>\<open>rtw_free_recvframe\<close>: the socket buffer, if the frame still has one, is released
  (\<^verbatim>\<open>rtw_os_free_recvframe\<close>), the length and the phy-status flag are cleared, and the
  frame goes to the tail of the pool.
\<close>

definition reset_recvframe :: "recv_frame \<Rightarrow> recv_frame" where
  "reset_recvframe f =
     f\<lparr>rf_pkt := None, rf_len := 0,
       rf_attrib := (rf_attrib f)\<lparr>a_physts_rpt_valid := False\<rparr>\<rparr>"

definition rtw_free_recvframe :: "recv_frame \<Rightarrow> recv_priv \<Rightarrow> recv_priv" where
  "rtw_free_recvframe f rp =
     rp\<lparr>rp_free_queue := rp_free_queue rp @ [reset_recvframe f],
        rp_free_cnt := (if rf_adapter f = rp_adapter rp then rp_free_cnt rp + 1
                        else rp_free_cnt rp)\<rparr>"

definition rtw_enqueue_recvframe :: "recv_frame \<Rightarrow> recv_frame list \<Rightarrow> recv_frame list" where
  "rtw_enqueue_recvframe f q = q @ [f]"

fun rtw_free_recvframe_queue :: "recv_frame list \<Rightarrow> recv_priv \<Rightarrow> recv_priv" where
  "rtw_free_recvframe_queue [] rp = rp"
| "rtw_free_recvframe_queue (f # fs) rp = rtw_free_recvframe_queue fs (rtw_free_recvframe f rp)"

definition frame_ids :: "recv_frame list \<Rightarrow> nat multiset" where
  "frame_ids fs = image_mset rf_id (mset fs)"

definition pool_ids :: "recv_priv \<Rightarrow> nat multiset" where
  "pool_ids rp = frame_ids (rp_free_queue rp)"

lemma frame_ids_simps [simp]:
  "frame_ids [] = {#}"
  "frame_ids (f # fs) = add_mset (rf_id f) (frame_ids fs)"
  "frame_ids (fs @ gs) = frame_ids fs + frame_ids gs"
  by (simp_all add: frame_ids_def)

lemma reset_recvframe_id [simp]: "rf_id (reset_recvframe f) = rf_id f"
  by (simp add: reset_recvframe_def)

text \<open>
  The contract of a pool: what leaves it is no longer in it, what is released is in it
  again, and nothing else moves.
\<close>

locale frame_pool =
  fixes alloc :: "'p \<Rightarrow> recv_frame option \<times> 'p"
    and release :: "recv_frame \<Rightarrow> 'p \<Rightarrow> 'p"
    and ids :: "'p \<Rightarrow> nat multiset"
  assumes alloc_None: "alloc p = (None, p') \<Longrightarrow> p' = p \<and> ids p = {#}"
    and alloc_Some: "alloc p = (Some f, p') \<Longrightarrow> ids p = add_mset (rf_id f) (ids p')"
    and release_ids: "ids (release f p) = add_mset (rf_id f) (ids p)"
begin

lemma release_all_ids: "ids (fold release fs p) = ids p + frame_ids fs"
  by (induction fs arbitrary: p) (simp_all add: release_ids)

lemma alloc_release_ids:
  assumes "alloc p = (Some f, p')" "rf_id g = rf_id f"
  shows "ids (release g p') = ids p"
  using assms by (simp add: release_ids alloc_Some)

end

interpretation pool: frame_pool rtw_alloc_recvframe rtw_free_recvframe pool_ids
  by unfold_locales
    (auto simp: rtw_alloc_recvframe_def rtw_free_recvframe_def pool_ids_def split: list.splits)

lemma rtw_free_recvframe_queue_fold:
  "rtw_free_recvframe_queue fs rp = fold rtw_free_recvframe fs rp"
  by (induction fs arbitrary: rp) simp_all

lemma pool_ids_free_queue [simp]:
  "pool_ids (rtw_free_recvframe_queue fs rp) = pool_ids rp + frame_ids fs"
  by (simp add: rtw_free_recvframe_queue_fold pool.release_all_ids)

lemma pool_ids_free [simp]: "pool_ids (rtw_free_recvframe f rp) = add_mset (rf_id f) (pool_ids rp)"
  by (rule pool.release_ids)

text \<open>
  The counter matches the queue as long as every frame of the pool belongs to the adapter.
\<close>

definition pool_ok :: "recv_priv \<Rightarrow> bool" where
  "pool_ok rp \<longleftrightarrow> rp_free_cnt rp = of_nat (length (rp_free_queue rp))
     \<and> (\<forall>f \<in> set (rp_free_queue rp). rf_adapter f = rp_adapter rp)"

lemma pool_ok_alloc: "pool_ok rp \<Longrightarrow> pool_ok (snd (rtw_alloc_recvframe rp))"
  by (auto simp: pool_ok_def rtw_alloc_recvframe_def split: list.splits)

lemma pool_ok_free:
  "pool_ok rp \<Longrightarrow> rf_adapter f = rp_adapter rp \<Longrightarrow> pool_ok (rtw_free_recvframe f rp)"
  by (auto simp: pool_ok_def rtw_free_recvframe_def reset_recvframe_def)

section \<open>Concrete values for the witnesses\<close>

definition ex_recv_priv :: recv_priv where
  "ex_recv_priv = \<lparr>rp_adapter = 0, rp_free_queue = [], rp_free_cnt = 0, rp_os_rx = [],
     rp_rx_drop = 0, rp_drop_count = 0, rp_ampdu_drop_count = 0, rp_ampdu_forced_count = 0,
     rp_ampdu_loss_count = 0, rp_ampdu_window_shift_cnt = 0, rp_rssi = 0,
     rp_pending = [], rp_non_be = False\<rparr>"

definition ex_sta :: sta_info where
  "ex_sta = \<lparr>sta_addr = [2, 0, 0, 0, 0, 2], sta_reorder = [], sta_tid_rxseq = [], sta_iv = [],
     sta_last_tid = 0, sta_bmc_tid_rxseq = [], sta_nonqos_rxseq = 0, sta_nonqos_bmc_rxseq = 0,
     sta_duplicate_cnt = 0, sta_defrag_q = [], sta_keytrack = 0, sta_ieee8021x_blocked = False,
     sta_dot118021XPrivacy = SEC_TKIP, sta_uncst_key = replicate 16 7, sta_tkiprxmickey = [],
     sta_amsdu_disable = False\<rparr>"

definition ex_sec :: security_priv where
  "ex_sec = \<lparr>sec_auth = Auth8021X, sec_privacy = SEC_TKIP, sec_grp_privacy = SEC_TKIP,
     sec_grp_keyid = 1, sec_binstall_grpkey = True, sec_grp_key = [], sec_busetkipkey = True,
     sec_key_index = 0, sec_hw_decrypted = False, sec_iv_seq = [],
     sec_grp_rxmickey = [], sec_bcheck_grpkey = False,
     sec_def_key = [], sec_def_keylen = [], sec_sw_decrypt = False, sec_wpapsk = True\<rparr>"

definition ex_adapter :: adapter where
  "ex_adapter = \<lparr>ad_id = 0, ad_mac = [2, 0, 0, 0, 0, 1], ad_fw_ap = False, ad_fw_station = True,
     ad_fw_asoc = True, ad_fw_monitor = False,
     ad_fw_linking = False, ad_fw_adhoc = False, ad_fw_mp = False, ad_drv_stopped = False, ad_surprise_removed = False,
     ad_amsdu_spp = 0, ad_stapriv = [[2, 0, 0, 0, 0, 2] \<mapsto> ex_sta], ad_sec = ex_sec, ad_mlme_key_index = 0,
     ad_recv = ex_recv_priv,
     ad_cur_channel = 6, ad_cur_bwmode = 0, ad_cur_ch_offset = 0, ad_oper_channel = 6,
     ad_cur_net_mac = [2, 0, 0, 0, 0, 2], ad_dev_up = True, ad_dev_rtw = True, ad_acs_mode = False\<rparr>"

end
