(* ===== verification/Sec_Arc4.thy ===== *)
theory Sec_Arc4
  imports Rx_Types
begin

text \<open>
  ARC4, CRC-32 and WEP of \<^verbatim>\<open>core/rtw_security.c\<close>. The lemmas show that the cipher's state
  stays a permutation of the byte values, that encryption is its own inverse, that the
  table-driven CRC computes the bitwise CRC-32, and that \<^verbatim>\<open>rtw_wep_decrypt\<close> undoes
  \<^verbatim>\<open>rtw_wep_encrypt\<close>.
\<close>

section \<open>ARC4\<close>

record arc4context =
  arc_x :: u32
  arc_y :: u32
  arc_state :: "u8 list"

text \<open>One iteration of the key schedule: \<open>counter\<close>, \<open>keyindex\<close>, \<open>stateindex\<close>, state.\<close>

definition arcfour_init_step ::
  "u8 list \<Rightarrow> nat \<Rightarrow> nat \<Rightarrow> nat \<times> u32 \<times> u8 list \<Rightarrow> nat \<times> u32 \<times> u8 list" where
  "arcfour_init_step key key_len counter s =
     (case s of (keyindex, stateindex, state) \<Rightarrow>
        let t = state ! counter;
            si = (stateindex + ucast (byte_at key keyindex) + ucast t) AND 0xff;
            u = state ! unat si;
            state' = state[unat si := t, counter := u]
        in (if Suc keyindex \<ge> key_len then 0 else Suc keyindex, si, state'))"

definition arcfour_init :: "u8 list \<Rightarrow> nat \<Rightarrow> arc4context" where
  "arcfour_init key key_len =
     \<lparr>arc_x = 0, arc_y = 0,
      arc_state = snd (snd (fold (arcfour_init_step key key_len) [0..<256] (0, 0, map of_nat [0..<256])))\<rparr>"

definition arcfour_byte :: "arc4context \<Rightarrow> u8 \<times> arc4context" where
  "arcfour_byte ctx =
     (let x = (arc_x ctx + 1) AND 0xff;
          sx = arc_state ctx ! unat x;
          y = (ucast sx + arc_y ctx) AND 0xff;
          sy = arc_state ctx ! unat y;
          state' = (arc_state ctx)[unat y := sx, unat x := sy]
      in (state' ! unat ((ucast sx + ucast sy :: u32) AND 0xff), \<lparr>arc_x = x, arc_y = y, arc_state = state'\<rparr>))"

fun arcfour_encrypt :: "arc4context \<Rightarrow> u8 list \<Rightarrow> u8 list \<times> arc4context" where
  "arcfour_encrypt ctx [] = ([], ctx)"
| "arcfour_encrypt ctx (b # bs) =
     (let (k, ctx1) = arcfour_byte ctx; (ds, ctx2) = arcfour_encrypt ctx1 bs
      in ((b XOR k) # ds, ctx2))"

lemma length_arcfour_encrypt [simp]: "length (fst (arcfour_encrypt ctx bs)) = length bs"
  by (induction bs arbitrary: ctx) (simp_all add: Let_def case_prod_beta)

text \<open>The key stream does not depend on the data, so encryption is an involution.\<close>

lemma arcfour_encrypt_twice: "fst (arcfour_encrypt ctx (fst (arcfour_encrypt ctx bs))) = bs"
proof (induction bs arbitrary: ctx)
  case (Cons b bs)
  obtain k ctx1 where k: "arcfour_byte ctx = (k, ctx1)" by (cases "arcfour_byte ctx")
  show ?case
    using Cons [of ctx1] by (auto simp: k xor.assoc split: prod.splits)
qed simp

lemma arcfour_encrypt_append:
  "arcfour_encrypt ctx (xs @ ys) =
     (let (ds, ctx1) = arcfour_encrypt ctx xs; (es, ctx2) = arcfour_encrypt ctx1 ys in (ds @ es, ctx2))"
  by (induction xs arbitrary: ctx) (auto simp: Let_def split: prod.splits)

section \<open>CRC-32\<close>

text \<open>\<open>crc32_reverse\<close> is the assignment of \<^verbatim>\<open>p1[0..3]\<close> from \<^verbatim>\<open>p[3..0]\<close>.\<close>

definition crc32_reverseBit :: "u8 \<Rightarrow> u8" where
  "crc32_reverseBit data =
     (push_bit 7 data AND 0x80) OR (push_bit 5 data AND 0x40) OR (push_bit 3 data AND 0x20)
     OR (push_bit 1 data AND 0x10) OR (drop_bit 1 data AND 0x08) OR (drop_bit 3 data AND 0x04)
     OR (drop_bit 5 data AND 0x02) OR (drop_bit 7 data AND 0x01)"

definition CRC32_POLY :: u32 where
  "CRC32_POLY = 0x04c11db7"

definition crc32_shift :: "u32 \<Rightarrow> u32" where
  "crc32_shift c = (if c AND 0x80000000 \<noteq> 0 then push_bit 1 c XOR CRC32_POLY else push_bit 1 c)"

text \<open>The table entry of index \<open>i\<close>, and the table \<^verbatim>\<open>crc32_init\<close> fills.\<close>

definition crc32_reverse :: "u32 \<Rightarrow> u32" where
  "crc32_reverse c =
     ucast (crc32_reverseBit (ucast (drop_bit 24 c)))
     OR push_bit 8 (ucast (crc32_reverseBit (ucast (drop_bit 16 c))))
     OR push_bit 16 (ucast (crc32_reverseBit (ucast (drop_bit 8 c))))
     OR push_bit 24 (ucast (crc32_reverseBit (ucast c)))"

definition crc32_entry :: "u8 \<Rightarrow> u32" where
  "crc32_entry i =
     crc32_reverse ((crc32_shift ^^ 8) (push_bit 24 (ucast (crc32_reverseBit i))))"

definition crc32_table :: "u32 list" where
  "crc32_table = map (\<lambda>i. crc32_entry (of_nat i)) [0..<256]"

definition crc32_step :: "u32 \<Rightarrow> u8 \<Rightarrow> u32" where
  "crc32_step crc b = crc32_table ! unat ((crc XOR ucast b) AND 0xff) XOR drop_bit 8 crc"

definition getcrc32 :: "u8 list \<Rightarrow> u32" where
  "getcrc32 buf = NOT (foldl crc32_step 0xffffffff buf)"

text \<open>The reference: the reflected polynomial, bit by bit.\<close>

definition crc_bit :: "u32 \<Rightarrow> u32" where
  "crc_bit c = (if bit c 0 then drop_bit 1 c XOR 0xEDB88320 else drop_bit 1 c)"

definition crc_byte :: "u32 \<Rightarrow> u8 \<Rightarrow> u32" where
  "crc_byte c b = (crc_bit ^^ 8) (c XOR ucast b)"

definition crc32_ref :: "u8 list \<Rightarrow> u32" where
  "crc32_ref buf = NOT (foldl crc_byte 0xffffffff buf)"


text \<open>The bitwise step is linear, and a word whose low byte is zero is only shifted.\<close>

lemma crc_bit_xor: "crc_bit (a XOR b) = crc_bit a XOR crc_bit b"
  by (simp add: crc_bit_def bit_xor_iff drop_bit_xor ac_simps)

lemma crc_bits_xor: "(crc_bit ^^ n) (a XOR b) = (crc_bit ^^ n) a XOR (crc_bit ^^ n) b"
  by (induction n) (simp_all add: crc_bit_xor)

lemma crc_bits_high: "n \<le> 8 \<Longrightarrow> (\<forall>k < 8. \<not> bit a k) \<Longrightarrow> (crc_bit ^^ n) a = drop_bit n a"
proof (induction n)
  case (Suc n)
  then show ?case by (simp add: crc_bit_def bit_drop_bit_eq)
qed simp

lemma bit_crc32_reverseBit: "bit (crc32_reverseBit d) n \<longleftrightarrow> n < 8 \<and> bit d (7 - n)"
proof (cases "n < 8")
  case True
  then have "n = 0 \<or> n = 1 \<or> n = 2 \<or> n = 3 \<or> n = 4 \<or> n = 5 \<or> n = 6 \<or> n = 7"
    by linarith
  then show ?thesis
    by (elim disjE)
      (simp_all add: crc32_reverseBit_def bit_or_iff bit_and_iff bit_push_bit_iff bit_drop_bit_eq bit_numeral_rec
        bit_mult2)
qed (auto dest: bit_imp_le_length)

lemma bit_crc32_reverse_all:
  "list_all (\<lambda>n. bit (crc32_reverse c) n = bit c (31 - n)) [0..<32]"
  by (simp add: upt_rec crc32_reverse_def bit_or_iff bit_push_bit_iff bit_ucast_iff
      bit_crc32_reverseBit bit_drop_bit_eq)

lemma bit_crc32_reverse: "bit (crc32_reverse c) n \<longleftrightarrow> n < 32 \<and> bit c (31 - n)"
proof (cases "n < 32")
  case True
  then show ?thesis
    using bit_crc32_reverse_all [of c] by (simp add: list_all_iff)
qed (auto dest: bit_imp_le_length)

lemma crc32_reverse_xor: "crc32_reverse (a XOR b) = crc32_reverse a XOR crc32_reverse b"
  by (intro bit_word_eqI) (simp add: bit_crc32_reverse bit_xor_iff)

lemma crc32_reverse_push: "crc32_reverse (push_bit 1 a) = drop_bit 1 (crc32_reverse a)"
  by (intro bit_word_eqI) (auto simp: bit_crc32_reverse bit_push_bit_iff bit_drop_bit_eq bit_mult2)

lemma bit31: "(c AND 0x80000000 \<noteq> 0) = bit c 31" for c :: u32
proof -
  have "(0x80000000 :: u32) = 2 ^ 31" by simp
  then show ?thesis by (simp only: and_pow2_bit)
qed

lemma crc32_reverse_poly: "crc32_reverse CRC32_POLY = 0xEDB88320"
  by code_simp

lemma crc32_reverse_shift: "crc32_reverse (crc32_shift c) = crc_bit (crc32_reverse c)"
proof -
  have "bit (crc32_reverse c) 0 = bit c 31"
    by (simp add: bit_crc32_reverse)
  then show ?thesis
    by (cases "bit c 31") (simp_all only: crc32_shift_def crc_bit_def bit31 if_True if_False
        crc32_reverse_xor crc32_reverse_push crc32_reverse_poly)
qed

lemma crc32_reverse_shifts: "crc32_reverse ((crc32_shift ^^ n) c) = (crc_bit ^^ n) (crc32_reverse c)"
  by (induction n) (simp_all add: crc32_reverse_shift)

lemma crc32_entry_ref: "crc32_entry i = (crc_bit ^^ 8) (ucast i)"
proof -
  have "crc32_reverse (push_bit 24 (ucast (crc32_reverseBit i))) = ucast i"
  proof (rule bit_word_eqI)
    fix n assume n: "n < LENGTH(32)"
    have "bit (crc32_reverse (push_bit 24 (ucast (crc32_reverseBit i)))) n
        = (n < 8 \<and> bit i (7 - (31 - n - 24)))"
      using n by (auto simp: bit_crc32_reverse bit_crc32_reverseBit bit_push_bit_iff bit_ucast_iff)
    also have "\<dots> = bit (ucast i :: u32) n"
    proof (cases "n < 8")
      case True
      then have "7 - (31 - n - 24) = n" by linarith
      with True show ?thesis by (simp add: bit_ucast_iff)
    next
      case False
      then show ?thesis by (auto simp: bit_ucast_iff dest: bit_imp_le_length)
    qed
    finally show "bit (crc32_reverse (push_bit 24 (ucast (crc32_reverseBit i)))) n = bit (ucast i :: u32) n" .
  qed
  then show ?thesis by (simp add: crc32_entry_def crc32_reverse_shifts del: funpow.simps)
qed

lemma and_0xff: "x AND 0xff = take_bit 8 x" for x :: u32
  by (simp add: take_bit_eq_mask mask_eq_exp_minus_1)

lemma unat_take8: "unat (take_bit 8 x) < 256" for x :: u32
proof -
  have "unat (take_bit 8 x) = take_bit 8 (unat x)"
    by (rule unsigned_take_bit_eq)
  then show ?thesis
    by (simp only: take_bit_eq_mod) simp
qed

lemma crc32_table_entry:
  assumes "unat x < 256"
  shows "crc32_table ! unat x = (crc_bit ^^ 8) x"
proof -
  have "unat x < 2 ^ 8" using assms by simp
  then have "ucast (of_nat (unat x) :: u8) = x"
    using bit_of_small [of x 8] by (intro bit_word_eqI) (auto simp: bit_ucast_iff)
  then show ?thesis
    using assms by (simp add: crc32_table_def crc32_entry_ref del: funpow.simps)
qed

lemma crc32_step_ref: "crc32_step c b = crc_byte c b"
proof -
  let ?x = "c XOR ucast b :: u32"
  have split: "?x = take_bit 8 ?x XOR push_bit 8 (drop_bit 8 c)"
    by (intro bit_word_eqI)
      (auto simp: bit_xor_iff bit_take_bit_iff bit_push_bit_iff bit_drop_bit_eq bit_ucast_iff
        dest: bit_imp_le_length)
  have hi: "(crc_bit ^^ 8) (push_bit 8 (drop_bit 8 c)) = drop_bit 8 c"
  proof -
    have "(crc_bit ^^ 8) (push_bit 8 (drop_bit 8 c)) = drop_bit 8 (push_bit 8 (drop_bit 8 c))"
      by (rule crc_bits_high) (simp_all add: bit_push_bit_iff)
    also have "\<dots> = drop_bit 8 c"
      by (intro bit_word_eqI) (auto simp: bit_drop_bit_eq bit_push_bit_iff dest: bit_imp_le_length)
    finally show ?thesis .
  qed
  have lo: "crc32_table ! unat (take_bit 8 ?x) = (crc_bit ^^ 8) (take_bit 8 ?x)"
    by (rule crc32_table_entry [OF unat_take8])
  have "crc_byte c b = (crc_bit ^^ 8) (take_bit 8 ?x XOR push_bit 8 (drop_bit 8 c))"
    unfolding crc_byte_def by (subst split) (rule refl)
  also have "\<dots> = crc32_step c b"
    by (simp only: crc_bits_xor hi lo crc32_step_def and_0xff)
  finally show ?thesis by simp
qed


section \<open>The cipher state\<close>

lemma and_0xff_less: "unat (x AND 0xff) < 256" for x :: u32
  by (simp only: and_0xff unat_take8)

lemma swap_perm:
  "i < length xs \<Longrightarrow> j < length xs \<Longrightarrow> mset (xs[j := xs ! i, i := xs ! j]) = mset xs"
  by (simp add: mset_swap)

lemma arcfour_init_step_perm:
  assumes "length state = 256" "counter < 256"
  shows "mset (snd (snd (arcfour_init_step key kl counter (ki, si, state)))) = mset state"
  using assms by (simp add: arcfour_init_step_def Let_def swap_perm and_0xff_less)

lemma arcfour_init_perm_aux:
  "list_all (\<lambda>c. c < 256) cs \<Longrightarrow> length state = 256 \<Longrightarrow>
     mset (snd (snd (fold (arcfour_init_step key kl) cs (ki, si, state)))) = mset state"
proof (induction cs arbitrary: ki si state)
  case (Cons c cs)
  obtain ki' si' st' where st: "arcfour_init_step key kl c (ki, si, state) = (ki', si', st')"
    by (cases "arcfour_init_step key kl c (ki, si, state)") auto
  have m: "mset st' = mset state"
    using arcfour_init_step_perm [of state c key kl ki si] Cons(2,3) st by simp
  then have "length st' = 256"
    using Cons(3) by (metis size_mset)
  then show ?case
    using Cons(1) [of st' ki' si'] Cons(2) m st by simp
qed simp

definition arc4_perm :: "arc4context \<Rightarrow> bool" where
  "arc4_perm ctx \<longleftrightarrow> mset (arc_state ctx) = mset (map of_nat [0..<256])"

lemma arcfour_init_perm: "arc4_perm (arcfour_init key kl)"
proof -
  have "list_all (\<lambda>c. c < 256) [0..<256]" by (simp add: list_all_iff)
  then show ?thesis
    by (simp only: arc4_perm_def arcfour_init_def arc4context.simps) (simp add: arcfour_init_perm_aux)
qed

lemma arcfour_byte_perm: "arc4_perm ctx \<Longrightarrow> arc4_perm (snd (arcfour_byte ctx))"
proof -
  assume a: "arc4_perm ctx"
  then have "size (mset (arc_state ctx)) = size (mset (map of_nat [0..<256] :: u8 list))"
    by (simp only: arc4_perm_def)
  then have "length (arc_state ctx) = 256"
    by simp
  then show ?thesis
    using a by (simp add: arc4_perm_def arcfour_byte_def Let_def swap_perm and_0xff_less)
qed

section \<open>WEP\<close>

text \<open>
  What of the transmit attributes (\<^verbatim>\<open>struct pkt_attrib\<close>) the software encryption reads;
  the keys are the ones it looks up. \<open>t_addr\<close> is the address of the first byte, which the
  rounding of the next fragment's address (\<^verbatim>\<open>RND4\<close>) depends on.
\<close>

record tx_attrib =
  t_encrypt :: u8
  t_hdrlen :: nat
  t_iv_len :: nat
  t_icv_len :: nat
  t_nr_frags :: nat
  t_last_txcmdsz :: nat
  t_frag_len :: nat
  t_ra :: mac
  t_ta :: mac
  t_addr :: nat

definition rnd4 :: "nat \<Rightarrow> nat" where
  "rnd4 x = (x div 4 + (if x mod 4 = 0 then 0 else 1)) * 4"

text \<open>
  One fragment at offset \<open>off\<close>: the CRC of the payload is taken, then payload and CRC are
  encrypted with one key stream. \<^verbatim>\<open>cpu_to_le32\<close> makes the CRC's bytes little-endian.
\<close>

definition arc4_fragment :: "u8 list \<Rightarrow> nat \<Rightarrow> nat \<Rightarrow> nat \<Rightarrow> u8 list \<Rightarrow> u8 list" where
  "arc4_fragment key key_len payload n buf =
     (let pt = bytes_at buf payload n;
          crc = le32_bytes (getcrc32 pt);
          (ct, ctx) = arcfour_encrypt (arcfour_init key key_len) pt;
          (ccrc, _) = arcfour_encrypt ctx crc
      in put_bytes (put_bytes buf payload ct) (payload + n) ccrc)"

fun wep_encrypt_frags :: "u8 list \<Rightarrow> nat \<Rightarrow> tx_attrib \<Rightarrow> nat \<Rightarrow> nat \<Rightarrow> u8 list \<Rightarrow> u8 list" where
  "wep_encrypt_frags defkey keylength ta 0 off buf = buf"
| "wep_encrypt_frags defkey keylength ta (Suc n) off buf =
     (let wepkey = bytes_at buf (off + t_hdrlen ta) 3 @ take keylength defkey;
          payload = off + t_iv_len ta + t_hdrlen ta
      in if n = 0 then
           arc4_fragment wepkey (3 + keylength) payload
             (t_last_txcmdsz ta - t_hdrlen ta - t_iv_len ta - t_icv_len ta) buf
         else
           wep_encrypt_frags defkey keylength ta n
             (rnd4 (t_addr ta + off + t_frag_len ta) - t_addr ta)
             (arc4_fragment wepkey (3 + keylength) payload
               (t_frag_len ta - t_hdrlen ta - t_iv_len ta - t_icv_len ta) buf))"

definition rtw_wep_encrypt :: "u8 list \<Rightarrow> nat \<Rightarrow> tx_attrib \<Rightarrow> u8 list \<Rightarrow> u8 list" where
  "rtw_wep_encrypt defkey keylength ta buf =
     (if t_encrypt ta = SEC_WEP40 \<or> t_encrypt ta = SEC_WEP104
      then wep_encrypt_frags defkey keylength ta (t_nr_frags ta) 0 buf else buf)"

text \<open>
  \<^verbatim>\<open>rtw_wep_decrypt\<close>: \<open>defkey\<close> and \<open>keylen\<close> are the default keys and their lengths. The
  CRC it computes is stored in a local variable and not used. \<open>None\<close>: the frame is
  shorter than its header and IV, so the length is negative, becomes a huge \<^verbatim>\<open>u32\<close> and the
  cipher runs off the buffer.
\<close>

definition arc4_in_place :: "u8 list \<Rightarrow> nat \<Rightarrow> nat \<Rightarrow> nat \<Rightarrow> recv_frame \<Rightarrow> recv_frame" where
  "arc4_in_place key key_len off n f =
     f\<lparr>rf_buf := put_bytes (rf_buf f) (nat (rf_data f) + off)
         (fst (arcfour_encrypt (arcfour_init key key_len) (rx_bytes f off n)))\<rparr>"

definition rtw_wep_decrypt :: "(nat \<Rightarrow> u8 list) \<Rightarrow> (nat \<Rightarrow> nat) \<Rightarrow> recv_frame \<Rightarrow> recv_frame option" where
  "rtw_wep_decrypt defkey keylen f =
     (let attr = rf_attrib f in
      if a_encrypt attr = SEC_WEP40 \<or> a_encrypt attr = SEC_WEP104 then
        let keylength = keylen (a_key_index attr);
            wepkey = rx_bytes f (a_hdrlen attr) 3 @ take keylength (defkey (a_key_index attr));
            len = rf_len f - int (a_hdrlen attr) - int (a_iv_len attr)
        in if len < 0 then None
           else Some (arc4_in_place wepkey (3 + keylength) (a_iv_len attr + a_hdrlen attr) (nat len) f)
      else Some f)"

lemma arc4_fragment_bytes:
  assumes "payload + n + 4 \<le> length buf"
  shows "bytes_at (arc4_fragment key kl payload n buf) payload (n + 4)
      = fst (arcfour_encrypt (arcfour_init key kl)
          (bytes_at buf payload n @ le32_bytes (getcrc32 (bytes_at buf payload n))))"
    and "off + m \<le> payload \<Longrightarrow> bytes_at (arc4_fragment key kl payload n buf) off m = bytes_at buf off m"
    and "length (arc4_fragment key kl payload n buf) = length buf"
proof -
  define pt where "pt = bytes_at buf payload n"
  define crc where "crc = le32_bytes (getcrc32 pt)"
  obtain ct ctx where ct: "arcfour_encrypt (arcfour_init key kl) pt = (ct, ctx)"
    by (cases "arcfour_encrypt (arcfour_init key kl) pt") auto
  obtain cc ctx' where cc: "arcfour_encrypt ctx crc = (cc, ctx')"
    by (cases "arcfour_encrypt ctx crc") auto
  have "length pt = n" "length crc = 4"
    by (simp_all add: pt_def crc_def)
  then have len: "length ct = n" "length cc = 4"
    using length_arcfour_encrypt [of "arcfour_init key kl" pt] length_arcfour_encrypt [of ctx crc]
    by (simp_all only: ct cc fst_conv)
  have frag: "arc4_fragment key kl payload n buf = put_bytes (put_bytes buf payload ct) (payload + n) cc"
    using ct cc by (simp add: arc4_fragment_def pt_def crc_def)
  have "bytes_at (arc4_fragment key kl payload n buf) payload n = ct"
    using bytes_at_put_bytes_outside [of payload n "payload + n" cc] assms
      bytes_at_put_bytes_same [of payload ct buf] by (simp add: frag len)
  moreover have "bytes_at (arc4_fragment key kl payload n buf) (payload + n) 4 = cc"
    using bytes_at_put_bytes_same [of "payload + n" cc "put_bytes buf payload ct"] assms
    by (simp add: frag len)
  ultimately show "bytes_at (arc4_fragment key kl payload n buf) payload (n + 4)
      = fst (arcfour_encrypt (arcfour_init key kl)
          (bytes_at buf payload n @ le32_bytes (getcrc32 (bytes_at buf payload n))))"
    using ct cc by (simp add: bytes_at_append arcfour_encrypt_append flip: pt_def crc_def)
  show "off + m \<le> payload \<Longrightarrow> bytes_at (arc4_fragment key kl payload n buf) off m = bytes_at buf off m"
    by (simp add: frag bytes_at_put_bytes_outside)
  show "length (arc4_fragment key kl payload n buf) = length buf"
    by (simp add: frag)
qed

text \<open>Decrypting in place what the fragment encryption wrote gives payload and CRC back.\<close>

lemma arc4_in_place_fragment:
  assumes "rf_buf f = arc4_fragment key kl off n buf" "rf_data f = 0" "off + n + 4 \<le> length buf"
  shows "rx_bytes (arc4_in_place key kl off (n + 4) f) off n = bytes_at buf off n"
    and "rx_bytes (arc4_in_place key kl off (n + 4) f) (off + n) 4
      = le32_bytes (getcrc32 (bytes_at buf off n))"
proof -
  define d where "d = fst (arcfour_encrypt (arcfour_init key kl) (bytes_at (rf_buf f) off (n + 4)))"
  have d: "d = bytes_at buf off n @ le32_bytes (getcrc32 (bytes_at buf off n))"
    using arc4_fragment_bytes(1) [OF assms(3)]
    by (simp only: d_def assms(1) arcfour_encrypt_twice)
  have l: "length d = n + 4" by (simp add: d)
  have "bytes_at (put_bytes (rf_buf f) off d) off (length d) = d"
    using assms arc4_fragment_bytes(3) [OF assms(3)] l by (intro bytes_at_put_bytes_same) simp
  then have "bytes_at (put_bytes (rf_buf f) off d) off n @ bytes_at (put_bytes (rf_buf f) off d) (off + n) 4 = d"
    by (simp only: l bytes_at_append)
  then have "bytes_at (put_bytes (rf_buf f) off d) off n @ bytes_at (put_bytes (rf_buf f) off d) (off + n) 4
      = bytes_at buf off n @ le32_bytes (getcrc32 (bytes_at buf off n))"
    by (simp only: d)
  then have "bytes_at (put_bytes (rf_buf f) off d) off n = bytes_at buf off n"
    "bytes_at (put_bytes (rf_buf f) off d) (off + n) 4 = le32_bytes (getcrc32 (bytes_at buf off n))"
    by simp_all
  moreover have "rx_bytes f off (n + 4) = bytes_at (rf_buf f) off (n + 4)"
    by (simp only: rx_bytes_def assms(2)) simp
  ultimately show "rx_bytes (arc4_in_place key kl off (n + 4) f) off n = bytes_at buf off n"
    "rx_bytes (arc4_in_place key kl off (n + 4) f) (off + n) 4
      = le32_bytes (getcrc32 (bytes_at buf off n))"
    by (simp_all only: arc4_in_place_def d_def [symmetric]) (simp_all add: rx_bytes_def assms(2))
qed

section \<open>Properties\<close>

text \<open>
  C7. The table-driven CRC is CRC-32: for every buffer \<^verbatim>\<open>getcrc32\<close>, with the table that
  \<^verbatim>\<open>crc32_init\<close> builds through reversed bits and bytes, equals the bitwise remainder of
  the reflected polynomial 0xEDB88320.
\<close>

theorem getcrc32_correct: "getcrc32 buf = crc32_ref buf"
proof -
  have "crc32_step = crc_byte" by (intro ext) (rule crc32_step_ref)
  then show ?thesis by (simp add: getcrc32_def crc32_ref_def)
qed

text \<open>
  The ARC4 state is a permutation of the byte values after the key schedule, for every
  key and key length, and stays one under every key-stream byte drawn.
\<close>

theorem arc4_state_permutation:
  "mset (arc_state (((snd \<circ> arcfour_byte) ^^ n) (arcfour_init key key_len)))
     = mset (map of_nat [0..<256])"
proof -
  have "arc4_perm (((snd \<circ> arcfour_byte) ^^ n) (arcfour_init key key_len))"
    by (induction n) (simp_all add: arcfour_init_perm arcfour_byte_perm)
  then show ?thesis by (simp only: arc4_perm_def)
qed


text \<open>
  WEP decryption undoes WEP encryption: on a frame of one fragment,
  \<^verbatim>\<open>rtw_wep_decrypt\<close> with the same key gives back the payload that
  \<^verbatim>\<open>rtw_wep_encrypt\<close> encrypted, followed by the four bytes of its CRC, for every IV and key.
\<close>

theorem wep_decrypt_encrypt:
  fixes ta :: tx_attrib and f :: recv_frame
  defines "off \<equiv> t_iv_len ta + t_hdrlen ta"
  defines "n \<equiv> t_last_txcmdsz ta - t_hdrlen ta - t_iv_len ta - t_icv_len ta"
  assumes "t_encrypt ta = SEC_WEP40 \<or> t_encrypt ta = SEC_WEP104" "t_nr_frags ta = 1"
    "a_encrypt (rf_attrib f) = t_encrypt ta" "a_hdrlen (rf_attrib f) = t_hdrlen ta"
    "a_iv_len (rf_attrib f) = t_iv_len ta" "3 \<le> t_iv_len ta" "off + n + 4 \<le> length buf"
    "rf_buf f = rtw_wep_encrypt (defkey (a_key_index (rf_attrib f))) (keylen (a_key_index (rf_attrib f))) ta buf"
    "rf_data f = 0" "rf_len f = int (off + n + 4)"
  shows "\<exists>f'. rtw_wep_decrypt defkey keylen f = Some f'
    \<and> rx_bytes f' off n = bytes_at buf off n
    \<and> rx_bytes f' (off + n) 4 = le32_bytes (getcrc32 (bytes_at buf off n))"
proof -
  define k where "k = a_key_index (rf_attrib f)"
  define key where "key = bytes_at buf (t_hdrlen ta) 3 @ take (keylen k) (defkey k)"
  have buf: "rf_buf f = arc4_fragment key (3 + keylen k) off n buf"
    using assms(3,4,10) by (auto simp: rtw_wep_encrypt_def off_def n_def key_def k_def)
  have iv: "rx_bytes f (t_hdrlen ta) 3 = bytes_at buf (t_hdrlen ta) 3"
    using arc4_fragment_bytes(2) [OF assms(9), of "t_hdrlen ta" 3] assms(8,11)
    by (simp add: rx_bytes_def buf off_def)
  have len: "rf_len f - int (t_hdrlen ta) - int (t_iv_len ta) = int (n + 4)"
    using assms(12) by (simp add: off_def)
  have n4: "nat (int n + 4) = n + 4" by (simp add: nat_add_distrib)
  have "rtw_wep_decrypt defkey keylen f = Some (arc4_in_place key (3 + keylen k) off (n + 4) f)"
    using assms(3,5-7) by (auto simp: rtw_wep_decrypt_def Let_def len iv key_def k_def off_def n4)
  then show ?thesis
    using arc4_in_place_fragment [OF buf assms(11,9)] by blast
qed

definition ex_tx :: tx_attrib where
  "ex_tx = \<lparr>t_encrypt = SEC_WEP40, t_hdrlen = 2, t_iv_len = 4, t_icv_len = 4, t_nr_frags = 1,
     t_last_txcmdsz = 13, t_frag_len = 0, t_ra = [], t_ta = [], t_addr = 0\<rparr>"

definition ex_wep_attrib :: rx_pkt_attrib where
  "ex_wep_attrib = \<lparr>a_hdrlen = 2, a_to_fr_ds = 2, a_amsdu = False, a_qos = False, a_priority = 0,
     a_seq_num = 0, a_frag_num = 0, a_mfrag = False, a_privacy = True, a_bdecrypted = False,
     a_encrypt = SEC_WEP40, a_iv_len = 4, a_icv_len = 4, a_crc_err = False, a_icv_err = False,
     a_dst = [], a_src = [], a_ta = [], a_ra = [], a_bssid = [], a_key_index = 0,
     a_recv_signal_power = 0, a_physts_rpt_valid = False,
     a_order = False, a_pw_save = False, a_mdata = False, a_ack_policy = 0\<rparr>"

definition ex_wep_frame :: recv_frame where
  "ex_wep_frame = \<lparr>rf_id = 0, rf_adapter = 0, rf_attrib = ex_wep_attrib, rf_pkt = None, rf_len = 13,
     rf_buf = rtw_wep_encrypt [1, 2, 3, 4, 5] 5 ex_tx [8, 0x40, 9, 9, 9, 0, 72, 105, 33, 0, 0, 0, 0],
     rf_data = 0, rf_tail = 13, rf_psta = None, rf_preorder = None, rf_keytrack = 0\<rparr>"

theorem wep_decrypt_encrypt_witness:
  "\<exists>f'. rtw_wep_decrypt (\<lambda>_. [1, 2, 3, 4, 5]) (\<lambda>_. 5) ex_wep_frame = Some f'
    \<and> rx_bytes f' 6 3 = [72, 105, 33]"
proof -
  have e: "t_iv_len ex_tx + t_hdrlen ex_tx = 6"
    "t_last_txcmdsz ex_tx - t_hdrlen ex_tx - t_iv_len ex_tx - t_icv_len ex_tx = 3"
    by (simp_all add: ex_tx_def)
  have "bytes_at [8, 0x40, 9, 9, 9, 0, 72, 105, 33, 0, 0, 0, 0] 6 3 = [72, 105, 33]"
    by (simp add: bytes_at_def byte_at_def upt_rec)
  moreover have "\<exists>f'. rtw_wep_decrypt (\<lambda>_. [1, 2, 3, 4, 5]) (\<lambda>_. 5) ex_wep_frame = Some f'
      \<and> rx_bytes f' 6 3 = bytes_at [8, 0x40, 9, 9, 9, 0, 72, 105, 33, 0, 0, 0, 0] 6 3
      \<and> rx_bytes f' (6 + 3) 4
        = le32_bytes (getcrc32 (bytes_at [8, 0x40, 9, 9, 9, 0, 72, 105, 33, 0, 0, 0, 0] 6 3))"
    by (rule wep_decrypt_encrypt [of ex_tx ex_wep_frame "[8, 0x40, 9, 9, 9, 0, 72, 105, 33, 0, 0, 0, 0]"
        "\<lambda>_. [1, 2, 3, 4, 5]" "\<lambda>_. 5", unfolded e])
      (simp_all add: ex_tx_def ex_wep_frame_def ex_wep_attrib_def)
  ultimately show ?thesis by auto
qed

end
