(* ===== verification/Sec_Tkip.thy ===== *)
theory Sec_Tkip
  imports Sec_Arc4
begin

text \<open>
  TKIP of \<^verbatim>\<open>core/rtw_security.c\<close>: the Michael message integrity code (\<^verbatim>\<open>rtw_secmic*\<close>,
  \<^verbatim>\<open>rtw_seccalctkipmic\<close>), the two key-mixing phases and the software encryption and
  decryption. The lemmas show that the byte-wise Michael is the word-wise algorithm on the
  padded message, that the per-packet RC4 key is unique for each transmitter address and
  packet number (the claim of the comments on \<^verbatim>\<open>phase2\<close>), and that decryption accepts
  and undoes what encryption produced.
\<close>

section \<open>Michael\<close>

record mic_data =
  mic_K0 :: u32
  mic_K1 :: u32
  mic_L :: u32
  mic_R :: u32
  mic_M :: u32
  mic_n :: nat

definition ROL32 :: "u32 \<Rightarrow> nat \<Rightarrow> u32" where
  "ROL32 a n = push_bit n a OR (drop_bit (32 - n) a AND mask n)"

definition ROR32 :: "u32 \<Rightarrow> nat \<Rightarrow> u32" where
  "ROR32 a n = ROL32 a (32 - n)"

definition secmicgetuint32 :: "u8 list \<Rightarrow> u32" where
  "secmicgetuint32 p =
     fold (\<lambda>i res. res OR push_bit (8 * i) (ucast (byte_at p i))) [0..<4] 0"

fun secmicputuint32 :: "nat \<Rightarrow> u32 \<Rightarrow> u8 list" where
  "secmicputuint32 0 val = []"
| "secmicputuint32 (Suc n) val = ucast (val AND 0xff) # secmicputuint32 n (drop_bit 8 val)"

definition secmicclear :: "mic_data \<Rightarrow> mic_data" where
  "secmicclear d = d\<lparr>mic_L := mic_K0 d, mic_R := mic_K1 d, mic_n := 0, mic_M := 0\<rparr>"

definition rtw_secmicsetkey :: "u8 list \<Rightarrow> mic_data" where
  "rtw_secmicsetkey key =
     secmicclear \<lparr>mic_K0 = secmicgetuint32 key, mic_K1 = secmicgetuint32 (drop 4 key),
       mic_L = 0, mic_R = 0, mic_M = 0, mic_n = 0\<rparr>"

text \<open>The block function: the ten statements on \<^verbatim>\<open>L\<close> and \<^verbatim>\<open>R\<close> after the message word.\<close>

definition mic_block :: "u32 \<times> u32 \<Rightarrow> u32 \<times> u32" where
  "mic_block s =
     (case s of (l0, r0) \<Rightarrow>
        let r1 = r0 XOR ROL32 l0 17; l1 = l0 + r1;
            r2 = r1 XOR (drop_bit 8 (l1 AND 0xff00ff00) OR push_bit 8 (l1 AND 0x00ff00ff));
            l2 = l1 + r2;
            r3 = r2 XOR ROL32 l2 3; l3 = l2 + r3;
            r4 = r3 XOR ROR32 l3 2; l4 = l3 + r4
        in (l4, r4))"

definition rtw_secmicappendbyte :: "mic_data \<Rightarrow> u8 \<Rightarrow> mic_data" where
  "rtw_secmicappendbyte d b =
     (let m = mic_M d OR push_bit (8 * mic_n d) (ucast b); n = Suc (mic_n d)
      in if n \<ge> 4 then
           let (l, r) = mic_block (mic_L d XOR m, mic_R d)
           in d\<lparr>mic_L := l, mic_R := r, mic_M := 0, mic_n := 0\<rparr>
         else d\<lparr>mic_M := m, mic_n := n\<rparr>)"

definition rtw_secmicappend :: "mic_data \<Rightarrow> u8 list \<Rightarrow> mic_data" where
  "rtw_secmicappend d src = foldl rtw_secmicappendbyte d src"

lemma appendbyte_n: "mic_n (rtw_secmicappendbyte d b) = (if Suc (mic_n d) \<ge> 4 then 0 else Suc (mic_n d))"
  by (simp add: rtw_secmicappendbyte_def Let_def split: prod.splits)

text \<open>The zero padding loop of \<^verbatim>\<open>rtw_secgetmic\<close>.\<close>

function secmic_zeros :: "mic_data \<Rightarrow> mic_data" where
  "secmic_zeros d = (if mic_n d = 0 then d else secmic_zeros (rtw_secmicappendbyte d 0))"
  by auto
termination
  by (relation "measure (\<lambda>d. if mic_n d = 0 then 0 else if mic_n d \<ge> 4 then 1 else 5 - mic_n d)")
    (auto simp: appendbyte_n)

declare secmic_zeros.simps [simp del]

definition rtw_secgetmic :: "mic_data \<Rightarrow> u8 list \<times> mic_data" where
  "rtw_secgetmic d =
     (let d1 = rtw_secmicappendbyte d 0x5a;
          d2 = rtw_secmicappendbyte d1 0;
          d3 = rtw_secmicappendbyte d2 0;
          d4 = rtw_secmicappendbyte d3 0;
          d5 = rtw_secmicappendbyte d4 0;
          d6 = secmic_zeros d5
      in (secmicputuint32 4 (mic_L d6) @ secmicputuint32 4 (mic_R d6), secmicclear d6))"

definition rtw_seccalctkipmic :: "u8 list \<Rightarrow> u8 list \<Rightarrow> u8 list \<Rightarrow> u8 \<Rightarrow> u8 list" where
  "rtw_seccalctkipmic key header data pri =
     (let d = rtw_secmicsetkey key;
          d = (if byte_at header 1 AND 1 \<noteq> 0 then
                 let d = rtw_secmicappend d (bytes_at header 16 6)
                 in if byte_at header 1 AND 2 \<noteq> 0 then rtw_secmicappend d (bytes_at header 24 6)
                    else rtw_secmicappend d (bytes_at header 10 6)
               else
                 let d = rtw_secmicappend d (bytes_at header 4 6)
                 in if byte_at header 1 AND 2 \<noteq> 0 then rtw_secmicappend d (bytes_at header 16 6)
                    else rtw_secmicappend d (bytes_at header 10 6));
          d = rtw_secmicappend d [pri, 0, 0, 0];
          d = rtw_secmicappend d data
      in fst (rtw_secgetmic d))"

section \<open>Key mixing\<close>

definition RotR1 :: "u16 \<Rightarrow> u16" where
  "RotR1 v = (drop_bit 1 v AND 0x7FFF) XOR push_bit 15 (v AND 1)"

definition Mk16 :: "u8 \<Rightarrow> u8 \<Rightarrow> u16" where
  "Mk16 hi lo = ucast lo XOR push_bit 8 (ucast hi)"

definition TK16 :: "u8 list \<Rightarrow> nat \<Rightarrow> u16" where
  "TK16 tk n = Mk16 (byte_at tk (2 * n + 1)) (byte_at tk (2 * n))"

text \<open>The two rows of \<^verbatim>\<open>Sbox1\<close>.\<close>

definition Sbox1_0 :: "u16 list" where
  "Sbox1_0 =
    [
     0xC6A5, 0xF884, 0xEE99, 0xF68D, 0xFF0D, 0xD6BD, 0xDEB1, 0x9154,
     0x6050, 0x0203, 0xCEA9, 0x567D, 0xE719, 0xB562, 0x4DE6, 0xEC9A,
     0x8F45, 0x1F9D, 0x8940, 0xFA87, 0xEF15, 0xB2EB, 0x8EC9, 0xFB0B,
     0x41EC, 0xB367, 0x5FFD, 0x45EA, 0x23BF, 0x53F7, 0xE496, 0x9B5B,
     0x75C2, 0xE11C, 0x3DAE, 0x4C6A, 0x6C5A, 0x7E41, 0xF502, 0x834F,
     0x685C, 0x51F4, 0xD134, 0xF908, 0xE293, 0xAB73, 0x6253, 0x2A3F,
     0x080C, 0x9552, 0x4665, 0x9D5E, 0x3028, 0x37A1, 0x0A0F, 0x2FB5,
     0x0E09, 0x2436, 0x1B9B, 0xDF3D, 0xCD26, 0x4E69, 0x7FCD, 0xEA9F,
     0x121B, 0x1D9E, 0x5874, 0x342E, 0x362D, 0xDCB2, 0xB4EE, 0x5BFB,
     0xA4F6, 0x764D, 0xB761, 0x7DCE, 0x527B, 0xDD3E, 0x5E71, 0x1397,
     0xA6F5, 0xB968, 0x0000, 0xC12C, 0x4060, 0xE31F, 0x79C8, 0xB6ED,
     0xD4BE, 0x8D46, 0x67D9, 0x724B, 0x94DE, 0x98D4, 0xB0E8, 0x854A,
     0xBB6B, 0xC52A, 0x4FE5, 0xED16, 0x86C5, 0x9AD7, 0x6655, 0x1194,
     0x8ACF, 0xE910, 0x0406, 0xFE81, 0xA0F0, 0x7844, 0x25BA, 0x4BE3,
     0xA2F3, 0x5DFE, 0x80C0, 0x058A, 0x3FAD, 0x21BC, 0x7048, 0xF104,
     0x63DF, 0x77C1, 0xAF75, 0x4263, 0x2030, 0xE51A, 0xFD0E, 0xBF6D,
     0x814C, 0x1814, 0x2635, 0xC32F, 0xBEE1, 0x35A2, 0x88CC, 0x2E39,
     0x9357, 0x55F2, 0xFC82, 0x7A47, 0xC8AC, 0xBAE7, 0x322B, 0xE695,
     0xC0A0, 0x1998, 0x9ED1, 0xA37F, 0x4466, 0x547E, 0x3BAB, 0x0B83,
     0x8CCA, 0xC729, 0x6BD3, 0x283C, 0xA779, 0xBCE2, 0x161D, 0xAD76,
     0xDB3B, 0x6456, 0x744E, 0x141E, 0x92DB, 0x0C0A, 0x486C, 0xB8E4,
     0x9F5D, 0xBD6E, 0x43EF, 0xC4A6, 0x39A8, 0x31A4, 0xD337, 0xF28B,
     0xD532, 0x8B43, 0x6E59, 0xDAB7, 0x018C, 0xB164, 0x9CD2, 0x49E0,
     0xD8B4, 0xACFA, 0xF307, 0xCF25, 0xCAAF, 0xF48E, 0x47E9, 0x1018,
     0x6FD5, 0xF088, 0x4A6F, 0x5C72, 0x3824, 0x57F1, 0x73C7, 0x9751,
     0xCB23, 0xA17C, 0xE89C, 0x3E21, 0x96DD, 0x61DC, 0x0D86, 0x0F85,
     0xE090, 0x7C42, 0x71C4, 0xCCAA, 0x90D8, 0x0605, 0xF701, 0x1C12,
     0xC2A3, 0x6A5F, 0xAEF9, 0x69D0, 0x1791, 0x9958, 0x3A27, 0x27B9,
     0xD938, 0xEB13, 0x2BB3, 0x2233, 0xD2BB, 0xA970, 0x0789, 0x33A7,
     0x2DB6, 0x3C22, 0x1592, 0xC920, 0x8749, 0xAAFF, 0x5078, 0xA57A,
     0x038F, 0x59F8, 0x0980, 0x1A17, 0x65DA, 0xD731, 0x84C6, 0xD0B8,
     0x82C3, 0x29B0, 0x5A77, 0x1E11, 0x7BCB, 0xA8FC, 0x6DD6, 0x2C3A
    ]"

definition Sbox1_1 :: "u16 list" where
  "Sbox1_1 =
    [
     0xA5C6, 0x84F8, 0x99EE, 0x8DF6, 0x0DFF, 0xBDD6, 0xB1DE, 0x5491,
     0x5060, 0x0302, 0xA9CE, 0x7D56, 0x19E7, 0x62B5, 0xE64D, 0x9AEC,
     0x458F, 0x9D1F, 0x4089, 0x87FA, 0x15EF, 0xEBB2, 0xC98E, 0x0BFB,
     0xEC41, 0x67B3, 0xFD5F, 0xEA45, 0xBF23, 0xF753, 0x96E4, 0x5B9B,
     0xC275, 0x1CE1, 0xAE3D, 0x6A4C, 0x5A6C, 0x417E, 0x02F5, 0x4F83,
     0x5C68, 0xF451, 0x34D1, 0x08F9, 0x93E2, 0x73AB, 0x5362, 0x3F2A,
     0x0C08, 0x5295, 0x6546, 0x5E9D, 0x2830, 0xA137, 0x0F0A, 0xB52F,
     0x090E, 0x3624, 0x9B1B, 0x3DDF, 0x26CD, 0x694E, 0xCD7F, 0x9FEA,
     0x1B12, 0x9E1D, 0x7458, 0x2E34, 0x2D36, 0xB2DC, 0xEEB4, 0xFB5B,
     0xF6A4, 0x4D76, 0x61B7, 0xCE7D, 0x7B52, 0x3EDD, 0x715E, 0x9713,
     0xF5A6, 0x68B9, 0x0000, 0x2CC1, 0x6040, 0x1FE3, 0xC879, 0xEDB6,
     0xBED4, 0x468D, 0xD967, 0x4B72, 0xDE94, 0xD498, 0xE8B0, 0x4A85,
     0x6BBB, 0x2AC5, 0xE54F, 0x16ED, 0xC586, 0xD79A, 0x5566, 0x9411,
     0xCF8A, 0x10E9, 0x0604, 0x81FE, 0xF0A0, 0x4478, 0xBA25, 0xE34B,
     0xF3A2, 0xFE5D, 0xC080, 0x8A05, 0xAD3F, 0xBC21, 0x4870, 0x04F1,
     0xDF63, 0xC177, 0x75AF, 0x6342, 0x3020, 0x1AE5, 0x0EFD, 0x6DBF,
     0x4C81, 0x1418, 0x3526, 0x2FC3, 0xE1BE, 0xA235, 0xCC88, 0x392E,
     0x5793, 0xF255, 0x82FC, 0x477A, 0xACC8, 0xE7BA, 0x2B32, 0x95E6,
     0xA0C0, 0x9819, 0xD19E, 0x7FA3, 0x6644, 0x7E54, 0xAB3B, 0x830B,
     0xCA8C, 0x29C7, 0xD36B, 0x3C28, 0x79A7, 0xE2BC, 0x1D16, 0x76AD,
     0x3BDB, 0x5664, 0x4E74, 0x1E14, 0xDB92, 0x0A0C, 0x6C48, 0xE4B8,
     0x5D9F, 0x6EBD, 0xEF43, 0xA6C4, 0xA839, 0xA431, 0x37D3, 0x8BF2,
     0x32D5, 0x438B, 0x596E, 0xB7DA, 0x8C01, 0x64B1, 0xD29C, 0xE049,
     0xB4D8, 0xFAAC, 0x07F3, 0x25CF, 0xAFCA, 0x8EF4, 0xE947, 0x1810,
     0xD56F, 0x88F0, 0x6F4A, 0x725C, 0x2438, 0xF157, 0xC773, 0x5197,
     0x23CB, 0x7CA1, 0x9CE8, 0x213E, 0xDD96, 0xDC61, 0x860D, 0x850F,
     0x90E0, 0x427C, 0xC471, 0xAACC, 0xD890, 0x0506, 0x01F7, 0x121C,
     0xA3C2, 0x5F6A, 0xF9AE, 0xD069, 0x9117, 0x5899, 0x273A, 0xB927,
     0x38D9, 0x13EB, 0xB32B, 0x3322, 0xBBD2, 0x70A9, 0x8907, 0xA733,
     0xB62D, 0x223C, 0x9215, 0x20C9, 0x4987, 0xFFAA, 0x7850, 0x7AA5,
     0x8F03, 0xF859, 0x8009, 0x171A, 0xDA65, 0x31D7, 0xC684, 0xB8D0,
     0xC382, 0xB029, 0x775A, 0x111E, 0xCB7B, 0xFCA8, 0xD66D, 0x3A2C
    ]"

text \<open>\<^verbatim>\<open>_S_\<close>: the two-row lookup.\<close>

definition sbox16 :: "u16 \<Rightarrow> u16" where
  "sbox16 v = Sbox1_0 ! unat (v AND 0xff) XOR Sbox1_1 ! unat (drop_bit 8 v AND 0xff)"

type_synonym p1key = "u16 \<times> u16 \<times> u16 \<times> u16 \<times> u16"

fun phase1_round :: "u8 list \<Rightarrow> nat \<Rightarrow> p1key \<Rightarrow> p1key" where
  "phase1_round tk i (p0, p1, p2, p3, p4) =
     (let q0 = p0 + sbox16 (p4 XOR TK16 tk (i mod 2 + 0));
          q1 = p1 + sbox16 (q0 XOR TK16 tk (i mod 2 + 2));
          q2 = p2 + sbox16 (q1 XOR TK16 tk (i mod 2 + 4));
          q3 = p3 + sbox16 (q2 XOR TK16 tk (i mod 2 + 6));
          q4 = p4 + sbox16 (q3 XOR TK16 tk (i mod 2 + 0)) + of_nat i
      in (q0, q1, q2, q3, q4))"

definition phase1 :: "u8 list \<Rightarrow> u8 list \<Rightarrow> u32 \<Rightarrow> p1key" where
  "phase1 tk ta iv32 =
     fold (phase1_round tk) [0..<8]
       (ucast iv32, ucast (drop_bit 16 iv32), Mk16 (byte_at ta 1) (byte_at ta 0),
        Mk16 (byte_at ta 3) (byte_at ta 2), Mk16 (byte_at ta 5) (byte_at ta 4))"

type_synonym ppk = "u16 \<times> u16 \<times> u16 \<times> u16 \<times> u16 \<times> u16"

fun phase2_mix :: "u8 list \<Rightarrow> p1key \<Rightarrow> u16 \<Rightarrow> ppk" where
  "phase2_mix tk (p0, p1, p2, p3, p4) iv16 =
     (let p5 = p4 + iv16;
          q0 = p0 + sbox16 (p5 XOR TK16 tk 0);
          q1 = p1 + sbox16 (q0 XOR TK16 tk 1);
          q2 = p2 + sbox16 (q1 XOR TK16 tk 2);
          q3 = p3 + sbox16 (q2 XOR TK16 tk 3);
          q4 = p4 + sbox16 (q3 XOR TK16 tk 4);
          q5 = p5 + sbox16 (q4 XOR TK16 tk 5);
          r0 = q0 + RotR1 (q5 XOR TK16 tk 6);
          r1 = q1 + RotR1 (r0 XOR TK16 tk 7);
          r2 = q2 + RotR1 r1;
          r3 = q3 + RotR1 r2;
          r4 = q4 + RotR1 r3;
          r5 = q5 + RotR1 r4
      in (r0, r1, r2, r3, r4, r5))"

definition Lo8 :: "u16 \<Rightarrow> u8" where "Lo8 v = ucast (v AND 0xff)"

definition Hi8 :: "u16 \<Rightarrow> u8" where "Hi8 v = ucast (drop_bit 8 v AND 0xff)"

definition phase2 :: "u8 list \<Rightarrow> p1key \<Rightarrow> u16 \<Rightarrow> u8 list" where
  "phase2 tk p1k iv16 =
     (case phase2_mix tk p1k iv16 of (r0, r1, r2, r3, r4, r5) \<Rightarrow>
        [Hi8 iv16, (Hi8 iv16 OR 0x20) AND 0x7F, Lo8 iv16, Lo8 (drop_bit 1 (r5 XOR TK16 tk 0)),
         Lo8 r0, Hi8 r0, Lo8 r1, Hi8 r1, Lo8 r2, Hi8 r2, Lo8 r3, Hi8 r3, Lo8 r4, Hi8 r4,
         Lo8 r5, Hi8 r5])"

text \<open>\<^verbatim>\<open>GET_TKIP_PN\<close>, split into \<^verbatim>\<open>pnh\<close> and \<^verbatim>\<open>pnl\<close>.\<close>

definition tkip_pnl :: "u8 list \<Rightarrow> u16" where
  "tkip_pnl iv = Mk16 (byte_at iv 0) (byte_at iv 2)"

definition tkip_pnh :: "u8 list \<Rightarrow> u32" where
  "tkip_pnh iv = ucast (byte_at iv 4) OR push_bit 8 (ucast (byte_at iv 5))
     OR push_bit 16 (ucast (byte_at iv 6)) OR push_bit 24 (ucast (byte_at iv 7))"

definition tkip_rc4key :: "u8 list \<Rightarrow> u8 list \<Rightarrow> u8 list \<Rightarrow> u8 list" where
  "tkip_rc4key tk ta iv = phase2 tk (phase1 tk ta (tkip_pnh iv)) (tkip_pnl iv)"

section \<open>Encryption and decryption\<close>

fun tkip_encrypt_frags :: "u8 list \<Rightarrow> tx_attrib \<Rightarrow> nat \<Rightarrow> nat \<Rightarrow> u8 list \<Rightarrow> u8 list" where
  "tkip_encrypt_frags key ta 0 off buf = buf"
| "tkip_encrypt_frags key ta (Suc n) off buf =
     (let rc4key = tkip_rc4key key (t_ta ta) (bytes_at buf (off + t_hdrlen ta) 8);
          payload = off + t_iv_len ta + t_hdrlen ta
      in if n = 0 then
           arc4_fragment rc4key 16 payload
             (t_last_txcmdsz ta - t_hdrlen ta - t_iv_len ta - t_icv_len ta) buf
         else
           tkip_encrypt_frags key ta n
             (rnd4 (t_addr ta + off + t_frag_len ta) - t_addr ta)
             (arc4_fragment rc4key 16 payload
               (t_frag_len ta - t_hdrlen ta - t_iv_len ta - t_icv_len ta) buf))"

definition rtw_tkip_encrypt :: "security_priv \<Rightarrow> u8 list \<Rightarrow> tx_attrib \<Rightarrow> u8 list \<Rightarrow> u8 list" where
  "rtw_tkip_encrypt sec uncst_key ta buf =
     (if t_encrypt ta = SEC_TKIP then
        let key = (if is_mcast (t_ra ta) then sec_grp_key sec ! sec_grp_keyid sec else uncst_key)
        in tkip_encrypt_frags key ta (t_nr_frags ta) 0 buf
      else buf)"

text \<open>
  \<^verbatim>\<open>rtw_tkip_decrypt\<close>. \<open>None\<close> is again the negative length. The bytes compared are the four
  before the end of the decrypted payload.
\<close>

definition rtw_tkip_decrypt :: "adapter \<Rightarrow> recv_frame \<Rightarrow> (rx_ret \<times> recv_frame) option" where
  "rtw_tkip_decrypt ad f =
     (let attr = rf_attrib f; sec = ad_sec ad in
      if a_encrypt attr = SEC_TKIP then
        (case rtw_get_stainfo ad (a_ta attr) of
           None \<Rightarrow> Some (RX_FAIL, f)
         | Some sta \<Rightarrow>
             if is_mcast (a_ra attr) \<and> \<not> sec_binstall_grpkey sec then Some (RX_FAIL, f)
             else
               let key = (if is_mcast (a_ra attr) then sec_grp_key sec ! a_key_index attr
                          else sta_uncst_key sta);
                   len = rf_len f - int (a_hdrlen attr) - int (a_iv_len attr);
                   off = a_iv_len attr + a_hdrlen attr;
                   n = nat len
               in if len < 0 then None
                  else
                    let rc4key = tkip_rc4key key (a_ta attr) (rx_bytes f (a_hdrlen attr) 8);
                        f' = arc4_in_place rc4key 16 off n f;
                        crc = le32_bytes (getcrc32 (rx_bytes f' off (n - 4)))
                    in Some (if rx_bytes f' (off + n - 4) 4 = crc then RX_SUCCESS else RX_FAIL, f'))
      else Some (RX_SUCCESS, f))"


section \<open>The packet key is unique\<close>

lemma phase1_round_inj: "phase1_round tk i s = phase1_round tk i t \<Longrightarrow> s = t"
  by (cases s; cases t) (auto simp: Let_def)

lemma phase1_rounds_inj: "fold (phase1_round tk) is s = fold (phase1_round tk) is t \<Longrightarrow> s = t"
proof (induction "is" arbitrary: s t)
  case (Cons i "is")
  then have "fold (phase1_round tk) is (phase1_round tk i s) = fold (phase1_round tk) is (phase1_round tk i t)"
    by simp
  then have "phase1_round tk i s = phase1_round tk i t"
    by (rule Cons.IH)
  then show ?case by (rule phase1_round_inj)
qed simp

lemma phase2_mix_inj: "phase2_mix tk p i = phase2_mix tk q j \<Longrightarrow> p = q \<and> i = j"
  by (cases p; cases q) (auto simp: Let_def)

lemma Lo8_Hi8_inj: "Lo8 v = Lo8 w \<Longrightarrow> Hi8 v = Hi8 w \<Longrightarrow> v = w"
proof (rule bit_word_eqI)
  fix n assume lo: "Lo8 v = Lo8 w" and hi: "Hi8 v = Hi8 w" and n: "n < LENGTH(16)"
  have m: "(0xff :: u16) = mask 8" by (simp add: mask_eq_exp_minus_1)
  show "bit v n = bit w n"
  proof (cases "n < 8")
    case True
    have "bit (Lo8 v) n = bit (Lo8 w) n" using lo by simp
    then show ?thesis using True by (simp only: Lo8_def m) (simp add: bit_ucast_iff bit_and_iff bit_mask_iff)
  next
    case False
    then obtain k where k: "n = 8 + k" "k < 8"
      using n le_Suc_ex [of 8 n] by auto
    have "bit (Hi8 v) k = bit (Hi8 w) k" using hi by simp
    then show ?thesis
      using k by (simp only: Hi8_def m) (simp add: bit_ucast_iff bit_and_iff bit_mask_iff bit_drop_bit_eq)
  qed
qed

lemma phase2_ppk: "phase2 tk p i = phase2 tk q j \<Longrightarrow> phase2_mix tk p i = phase2_mix tk q j"
  by (auto simp: phase2_def dest: Lo8_Hi8_inj split: prod.splits)

lemma Mk16_inj: "Mk16 a b = Mk16 c d \<longleftrightarrow> a = c \<and> b = d"
proof
  assume eq: "Mk16 a b = Mk16 c d"
  have "b = d"
  proof (rule bit_word_eqI)
    fix n assume "n < LENGTH(8)"
    moreover have "bit (Mk16 a b) n = bit (Mk16 c d) n" using eq by simp
    ultimately show "bit b n = bit d n"
      by (simp add: Mk16_def bit_xor_iff bit_ucast_iff bit_push_bit_iff)
  qed
  moreover have "a = c"
  proof (rule bit_word_eqI)
    fix n assume "n < LENGTH(8)"
    moreover have "bit (Mk16 a b) (n + 8) = bit (Mk16 c d) (n + 8)" using eq by simp
    ultimately show "bit a n = bit c n"
      by (auto simp: Mk16_def bit_xor_iff bit_ucast_iff bit_push_bit_iff dest: bit_imp_le_length)
  qed
  ultimately show "a = c \<and> b = d" by simp
qed simp

lemma halves_inj:
  fixes a b :: u32
  assumes "(ucast a :: u16) = ucast b" "(ucast (drop_bit 16 a) :: u16) = ucast (drop_bit 16 b)"
  shows "a = b"
proof (rule bit_word_eqI)
  fix n assume n: "n < LENGTH(32)"
  show "bit a n = bit b n"
  proof (cases "n < 16")
    case True
    have "bit (ucast a :: u16) n = bit (ucast b :: u16) n" using assms(1) by simp
    then show ?thesis using True by (simp add: bit_ucast_iff)
  next
    case False
    then obtain k where k: "n = 16 + k" "k < 16"
      using n le_Suc_ex [of 16 n] by auto
    have "bit (ucast (drop_bit 16 a) :: u16) k = bit (ucast (drop_bit 16 b) :: u16) k"
      using assms(2) by simp
    then show ?thesis using k by (simp add: bit_ucast_iff bit_drop_bit_eq)
  qed
qed

lemma six_bytes_eq:
  assumes "length xs = 6" "length ys = 6"
    "\<forall>i < 6. byte_at xs i = byte_at ys i"
  shows "xs = ys"
  using assms by (intro nth_equalityI) (auto simp: byte_at_def)

lemma phase1_inj:
  assumes "phase1 tk ta iv = phase1 tk ta' iv'" "length ta = 6" "length ta' = 6"
  shows "ta = ta' \<and> iv = iv'"
proof -
  have "(ucast iv, ucast (drop_bit 16 iv), Mk16 (byte_at ta 1) (byte_at ta 0),
        Mk16 (byte_at ta 3) (byte_at ta 2), Mk16 (byte_at ta 5) (byte_at ta 4))
    = ((ucast iv', ucast (drop_bit 16 iv'), Mk16 (byte_at ta' 1) (byte_at ta' 0),
        Mk16 (byte_at ta' 3) (byte_at ta' 2), Mk16 (byte_at ta' 5) (byte_at ta' 4)) :: p1key)"
    using phase1_rounds_inj assms(1) unfolding phase1_def by blast
  then have iv: "iv = iv'" and b: "byte_at ta 0 = byte_at ta' 0" "byte_at ta 1 = byte_at ta' 1"
    "byte_at ta 2 = byte_at ta' 2" "byte_at ta 3 = byte_at ta' 3" "byte_at ta 4 = byte_at ta' 4"
    "byte_at ta 5 = byte_at ta' 5"
    by (auto simp: Mk16_inj intro: halves_inj)
  have "\<forall>i < 6. byte_at ta i = byte_at ta' i"
    using b by (auto simp: less_Suc_eq numeral_eq_Suc)
  then show ?thesis using iv six_bytes_eq assms(2,3) by blast
qed

section \<open>Byte-wise and word-wise Michael\<close>

fun words_le :: "u8 list \<Rightarrow> u32 list" where
  "words_le (a # b # c # d # xs) =
     (ucast a OR push_bit 8 (ucast b) OR push_bit 16 (ucast c) OR push_bit 24 (ucast d)) # words_le xs"
| "words_le xs = []"

text \<open>The algorithm of the standard: pad with 0x5a, four zeros and zeros up to a multiple of
  four, then one block function per 32-bit word.\<close>

definition michael_pad :: "u8 list \<Rightarrow> u8 list" where
  "michael_pad msg =
     (let m = msg @ [0x5a, 0, 0, 0, 0] in m @ replicate ((4 - length m mod 4) mod 4) 0)"

definition michael_ref :: "u8 list \<Rightarrow> u8 list \<Rightarrow> u32 \<times> u32" where
  "michael_ref key msg =
     foldl (\<lambda>(l, r) w. mic_block (l XOR w, r)) (secmicgetuint32 key, secmicgetuint32 (drop 4 key))
       (words_le (michael_pad msg))"

lemma append_n: "mic_n d < 4 \<Longrightarrow> mic_n (rtw_secmicappend d xs) = (mic_n d + length xs) mod 4"
proof (induction xs arbitrary: d)
  case (Cons x xs)
  have n: "mic_n (rtw_secmicappendbyte d x) = Suc (mic_n d) mod 4"
    using Cons(2) by (cases "mic_n d = 3") (simp_all add: appendbyte_n)
  then have "mic_n (rtw_secmicappendbyte d x) < 4" by simp
  from Cons(1) [OF this] show ?case
    by (simp add: rtw_secmicappend_def n mod_simps)
qed (simp add: rtw_secmicappend_def)

lemma append_app: "rtw_secmicappend d (xs @ ys) = rtw_secmicappend (rtw_secmicappend d xs) ys"
  by (simp add: rtw_secmicappend_def)

lemma secmic_zeros_append:
  "mic_n d < 4 \<Longrightarrow> secmic_zeros d = rtw_secmicappend d (replicate ((4 - mic_n d) mod 4) 0)"
proof (induction d rule: secmic_zeros.induct)
  case (1 d)
  consider "mic_n d = 0" | "mic_n d = 3" | "mic_n d = 1 \<or> mic_n d = 2" using 1(2) by linarith
  then show ?case
  proof cases
    case 1
    then show ?thesis by (subst secmic_zeros.simps) (simp add: rtw_secmicappend_def)
  next
    case 2
    then have "mic_n (rtw_secmicappendbyte d 0) = 0" by (simp add: appendbyte_n)
    with 2 show ?thesis
      by (subst secmic_zeros.simps, subst secmic_zeros.simps) (simp add: rtw_secmicappend_def)
  next
    case 3
    then have n: "mic_n (rtw_secmicappendbyte d 0) = Suc (mic_n d)" by (auto simp: appendbyte_n)
    have "secmic_zeros d = secmic_zeros (rtw_secmicappendbyte d 0)"
      using 3 by (subst secmic_zeros.simps) auto
    also have "\<dots> = rtw_secmicappend (rtw_secmicappendbyte d 0)
        (replicate ((4 - Suc (mic_n d)) mod 4) 0)"
      using 1(1) 3 n by auto
    also have "\<dots> = rtw_secmicappend d (0 # replicate ((4 - Suc (mic_n d)) mod 4) 0)"
      by (simp add: rtw_secmicappend_def)
    also have "0 # replicate ((4 - Suc (mic_n d)) mod 4) (0 :: u8) = replicate ((4 - mic_n d) mod 4) 0"
    proof -
      have "Suc ((4 - Suc (mic_n d)) mod 4) = (4 - mic_n d) mod 4"
        using 3 by (elim disjE) simp_all
      then show ?thesis by (simp only: replicate_Suc [symmetric])
    qed
    finally show ?thesis .
  qed
qed


text \<open>Four bytes into an empty accumulator are one message word.\<close>

lemma append_word:
  assumes "mic_n d = 0" "mic_M d = 0"
  shows "rtw_secmicappend d [a, b, c, e] =
    (let (l, r) = mic_block (mic_L d XOR
        (ucast a OR push_bit 8 (ucast b) OR push_bit 16 (ucast c) OR push_bit 24 (ucast e)), mic_R d)
     in d\<lparr>mic_L := l, mic_R := r\<rparr>)"
  using assms
  by (cases d) (simp add: rtw_secmicappend_def rtw_secmicappendbyte_def Let_def or.assoc
      split: prod.splits)

lemma append_words:
  "mic_n d = 0 \<Longrightarrow> mic_M d = 0 \<Longrightarrow> length xs mod 4 = 0 \<Longrightarrow>
     (mic_L (rtw_secmicappend d xs), mic_R (rtw_secmicappend d xs))
       = foldl (\<lambda>(l, r) w. mic_block (l XOR w, r)) (mic_L d, mic_R d) (words_le xs)"
proof (induction xs arbitrary: d rule: words_le.induct)
  case (1 a b c e xs)
  obtain l r where lr: "mic_block (mic_L d XOR
      (ucast a OR push_bit 8 (ucast b) OR push_bit 16 (ucast c) OR push_bit 24 (ucast e)), mic_R d) = (l, r)"
    by fastforce
  have "rtw_secmicappend d (a # b # c # e # xs) = rtw_secmicappend (d\<lparr>mic_L := l, mic_R := r\<rparr>) xs"
    using append_app [of d "[a, b, c, e]" xs] append_word [OF 1(2,3)] lr by simp
  moreover have "length xs mod 4 = 0"
    using 1(4) by simp
  ultimately show ?case
    using 1(1) [of "d\<lparr>mic_L := l, mic_R := r\<rparr>"] 1(2,3) lr by simp
qed (simp_all add: rtw_secmicappend_def)

lemma putuint32: "secmicputuint32 4 v = le32_bytes v"
proof -
  have m: "(0xff :: u32) = mask 8" by (simp add: mask_eq_exp_minus_1)
  have b: "(ucast (w AND 0xff) :: u8) = ucast w" for w :: u32
    by (intro bit_word_eqI) (simp only: m, simp add: bit_ucast_iff bit_and_iff bit_mask_iff)
  show ?thesis
    by (simp add: numeral_eq_Suc le32_bytes_def b)
qed

lemma secgetmic_ref:
  fixes msg :: "u8 list" and key :: "u8 list"
  defines "d \<equiv> rtw_secmicappend (rtw_secmicsetkey key) msg"
  shows "fst (rtw_secgetmic d) = (case michael_ref key msg of (l, r) \<Rightarrow> le32_bytes l @ le32_bytes r)"
proof -
  let ?m = "msg @ [0x5a, 0, 0, 0, 0]"
  let ?e = "rtw_secmicappend (rtw_secmicsetkey key) ?m"
  have k: "mic_n (rtw_secmicsetkey key) = 0" "mic_M (rtw_secmicsetkey key) = 0"
    "mic_L (rtw_secmicsetkey key) = secmicgetuint32 key"
    "mic_R (rtw_secmicsetkey key) = secmicgetuint32 (drop 4 key)"
    by (simp_all add: rtw_secmicsetkey_def secmicclear_def)
  have n: "mic_n ?e = length ?m mod 4"
    using append_n [of "rtw_secmicsetkey key" ?m] k by simp
  have e: "?e = rtw_secmicappendbyte (rtw_secmicappendbyte (rtw_secmicappendbyte (rtw_secmicappendbyte
      (rtw_secmicappendbyte d 0x5a) 0) 0) 0) 0"
    by (simp add: d_def rtw_secmicappend_def)
  have z: "secmic_zeros ?e = rtw_secmicappend (rtw_secmicsetkey key) (michael_pad msg)"
  proof -
    have "secmic_zeros ?e = rtw_secmicappend ?e (replicate ((4 - length ?m mod 4) mod 4) 0)"
      using secmic_zeros_append [of ?e] unfolding n by simp
    then show ?thesis by (simp only: michael_pad_def Let_def append_app)
  qed
  have "length (michael_pad msg) mod 4 = 0"
  proof -
    have "(k + (4 - k mod 4) mod 4) mod 4 = 0" for k :: nat
    proof -
      define q r where "q = k div 4" and "r = k mod 4"
      then have "k = 4 * q + r" "r < 4" by simp_all
      then have "k + (4 - r) = 4 * (q + 1)" by simp
      then have "k + (4 - k mod 4) = 4 * (q + 1)" by (simp only: r_def)
      then have "(k + (4 - k mod 4)) mod 4 = 0"
        by (simp only: mod_mult_self1_is_0)
      then show ?thesis by (simp only: mod_add_right_eq)
    qed
    then show ?thesis by (simp only: michael_pad_def Let_def length_append length_replicate)
  qed
  then have "(mic_L (secmic_zeros ?e), mic_R (secmic_zeros ?e)) = michael_ref key msg"
    using append_words [OF k(1,2), of "michael_pad msg"] by (simp add: z michael_ref_def k)
  then show ?thesis
    by (auto simp: rtw_secgetmic_def Let_def putuint32 simp flip: e split: prod.splits)
qed

section \<open>Properties\<close>

text \<open>
  The per-packet RC4 key is unique. For a given temporal key, two packets get the
  same 128-bit key only if they have the same transmitter address, the same upper 32 bits
  and the same lower 16 bits of the packet number: both mixing phases lose nothing, as
  the comments on \<^verbatim>\<open>phase2\<close> claim.
\<close>

theorem tkip_key_unique:
  assumes "phase2 tk (phase1 tk ta iv32) iv16 = phase2 tk (phase1 tk ta' iv32') iv16'"
    "length ta = 6" "length ta' = 6"
  shows "ta = ta' \<and> iv32 = iv32' \<and> iv16 = iv16'"
  using phase2_mix_inj [OF phase2_ppk [OF assms(1)]] phase1_inj [OF _ assms(2,3)] by blast

theorem tkip_key_unique_witness:
  "phase2 [] (phase1 [] [1, 2, 3, 4, 5, 6] 7) 9 \<noteq> phase2 [] (phase1 [] [1, 2, 3, 4, 5, 6] 7) 10"
  using tkip_key_unique [of "[]" "[1, 2, 3, 4, 5, 6]" 7 9 "[1, 2, 3, 4, 5, 6]" 7 10] by auto

text \<open>
  The first three bytes of every packet key are the packet number's low half in clear,
  with the second byte set so that the weak keys of the FMS attack do not occur: bit 5
  set, bit 7 clear.
\<close>

theorem tkip_key_avoids_weak:
  "bit (phase2 tk p1k iv16 ! 1) 5 \<and> \<not> bit (phase2 tk p1k iv16 ! 1) 7
   \<and> phase2 tk p1k iv16 ! 0 = Hi8 iv16 \<and> phase2 tk p1k iv16 ! 2 = Lo8 iv16
   \<and> length (phase2 tk p1k iv16) = 16"
  by (auto simp: phase2_def bit_or_iff bit_and_iff bit_numeral_rec split: prod.splits)



text \<open>
  C9. TKIP decryption accepts and undoes TKIP encryption: a unicast frame of one fragment
  encrypted by \<^verbatim>\<open>rtw_tkip_encrypt\<close> passes the integrity check of \<^verbatim>\<open>rtw_tkip_decrypt\<close> with
  the same key and transmitter address, and comes out with its payload.
\<close>

theorem tkip_decrypt_encrypt:
  fixes ta :: tx_attrib and f :: recv_frame
  defines "off \<equiv> t_iv_len ta + t_hdrlen ta"
  defines "n \<equiv> t_last_txcmdsz ta - t_hdrlen ta - t_iv_len ta - t_icv_len ta"
  assumes "t_encrypt ta = SEC_TKIP" "t_nr_frags ta = 1" "\<not> is_mcast (t_ra ta)"
    "a_encrypt (rf_attrib f) = SEC_TKIP" "a_hdrlen (rf_attrib f) = t_hdrlen ta"
    "a_iv_len (rf_attrib f) = t_iv_len ta" "a_ta (rf_attrib f) = t_ta ta" "a_ra (rf_attrib f) = t_ra ta"
    "8 \<le> t_iv_len ta" "off + n + 4 \<le> length buf"
    "rf_buf f = rtw_tkip_encrypt sec (sta_uncst_key sta) ta buf"
    "rf_data f = 0" "rf_len f = int (off + n + 4)" "rtw_get_stainfo ad (t_ta ta) = Some sta"
  shows "\<exists>f'. rtw_tkip_decrypt ad f = Some (RX_SUCCESS, f') \<and> rx_bytes f' off n = bytes_at buf off n"
proof -
  define key where "key = tkip_rc4key (sta_uncst_key sta) (t_ta ta) (bytes_at buf (t_hdrlen ta) 8)"
  have buf: "rf_buf f = arc4_fragment key 16 off n buf"
    using assms(3-5,13) by (simp add: rtw_tkip_encrypt_def off_def n_def key_def)
  have iv: "rx_bytes f (t_hdrlen ta) 8 = bytes_at buf (t_hdrlen ta) 8"
    using arc4_fragment_bytes(2) [OF assms(12), of "t_hdrlen ta" 8] assms(11,14)
    by (simp add: rx_bytes_def buf off_def)
  have len: "rf_len f - int (t_hdrlen ta) - int (t_iv_len ta) = int (n + 4)"
    using assms(15) by (simp add: off_def)
  have n4: "nat (int n + 4) = n + 4" by (simp add: nat_add_distrib)
  note rt = arc4_in_place_fragment [OF buf assms(14,12)]
  have "rtw_tkip_decrypt ad f = Some (RX_SUCCESS, arc4_in_place key 16 off (n + 4) f)"
    using assms(5-10,16) rt
    by (simp add: rtw_tkip_decrypt_def Let_def len iv n4 add.assoc flip: key_def off_def)
  then show ?thesis using rt by blast
qed

definition ex_tkip_tx :: tx_attrib where
  "ex_tkip_tx = \<lparr>t_encrypt = SEC_TKIP, t_hdrlen = 2, t_iv_len = 8, t_icv_len = 4, t_nr_frags = 1,
     t_last_txcmdsz = 17, t_frag_len = 0, t_ra = [2, 0, 0, 0, 0, 1], t_ta = [2, 0, 0, 0, 0, 2],
     t_addr = 0\<rparr>"

definition ex_tkip_buf :: "u8 list" where
  "ex_tkip_buf = [8, 0x41, 1, 0x21, 5, 0x20, 0, 0, 0, 0, 72, 105, 33, 0, 0, 0, 0]"

definition ex_tkip_frame :: recv_frame where
  "ex_tkip_frame = \<lparr>rf_id = 0, rf_adapter = 0,
     rf_attrib = ex_wep_attrib\<lparr>a_encrypt := SEC_TKIP, a_iv_len := 8, a_ra := [2, 0, 0, 0, 0, 1],
       a_ta := [2, 0, 0, 0, 0, 2]\<rparr>,
     rf_pkt = None, rf_len = 17, rf_buf = rtw_tkip_encrypt ex_sec (replicate 16 7) ex_tkip_tx ex_tkip_buf,
     rf_data = 0, rf_tail = 17, rf_psta = None, rf_preorder = None, rf_keytrack = 0\<rparr>"

theorem tkip_decrypt_encrypt_witness:
  "\<exists>f'. rtw_tkip_decrypt ex_adapter ex_tkip_frame = Some (RX_SUCCESS, f')
    \<and> rx_bytes f' 10 3 = [72, 105, 33]"
proof -
  have e: "t_iv_len ex_tkip_tx + t_hdrlen ex_tkip_tx = 10"
    "t_last_txcmdsz ex_tkip_tx - t_hdrlen ex_tkip_tx - t_iv_len ex_tkip_tx - t_icv_len ex_tkip_tx = 3"
    by (simp_all add: ex_tkip_tx_def)
  have b: "bytes_at ex_tkip_buf 10 3 = [72, 105, 33]" "length ex_tkip_buf = 17"
    by (simp_all add: ex_tkip_buf_def bytes_at_def byte_at_def upt_rec)
  have m: "\<not> is_mcast [2, 0, 0, 0, 0, 1]" "\<not> is_mcast [2, 0, 0, 0, 0, 2]"
    by (simp_all add: is_mcast_def byte_at_def)
  have "\<exists>f'. rtw_tkip_decrypt ex_adapter ex_tkip_frame = Some (RX_SUCCESS, f')
      \<and> rx_bytes f' 10 3 = bytes_at ex_tkip_buf 10 3"
    by (rule tkip_decrypt_encrypt [of ex_tkip_tx ex_tkip_frame ex_tkip_buf ex_sec ex_sta ex_adapter, unfolded e])
      (simp_all add: m b, simp_all add: ex_tkip_tx_def ex_tkip_frame_def ex_wep_attrib_def ex_sta_def
        ex_adapter_def rtw_get_stainfo_def m)
  then show ?thesis by (simp add: b)
qed

end
