(* ===== verification/Rx_Dedup.thy ===== *)
theory Rx_Dedup
  imports Rx_Types
begin

text \<open>
  Duplicate and replay detection of \<^verbatim>\<open>core/rtw_recv.c\<close>: \<^verbatim>\<open>recv_decache\<close> (the sequence
  control of the last frame, per TID and per addressing), \<^verbatim>\<open>recv_ucast_pn_decache\<close> and
  \<^verbatim>\<open>recv_bcast_pn_decache\<close> (the packet numbers). The lemmas show which slot a frame is
  compared with, that an accepted frame is refused when it comes again, that the slots do
  not interfere, and what the two packet-number checks do refuse.
\<close>

section \<open>The operations\<close>

text \<open>The packet number of a frame's IV header.\<close>

definition frame_pn :: "recv_frame \<Rightarrow> u64" where
  "frame_pn f = pn_of_iv (rx_bytes f (a_hdrlen (rf_attrib f)) 8) (a_encrypt (rf_attrib f))"

definition recv_ucast_pn_decache :: "recv_frame \<Rightarrow> sta_info \<Rightarrow> rx_ret \<times> sta_info" where
  "recv_ucast_pn_decache f sta =
     (let attr = rf_attrib f; tid = a_priority attr in
      if tid > 15 then (RX_FAIL, sta)
      else if has_pn (a_encrypt attr) then
        let pkt_pn = frame_pn f;
            curr_pn = pn_of_iv (sta_iv sta ! tid) (a_encrypt attr)
        in if \<not> valid_pn_chk pkt_pn curr_pn then (RX_SUCCESS, sta)
           else (RX_SUCCESS,
                 sta\<lparr>sta_last_tid := tid,
                     sta_iv := (sta_iv sta)[tid := rx_bytes f (a_hdrlen attr) 8]\<rparr>)
      else (RX_SUCCESS, sta))"

definition frame_key_id :: "recv_frame \<Rightarrow> nat" where
  "frame_key_id f = unat (drop_bit 6 (rx_byte f (a_hdrlen (rf_attrib f) + 3)))"

definition recv_bcast_pn_decache :: "bool \<Rightarrow> recv_frame \<Rightarrow> security_priv \<Rightarrow> rx_ret \<times> security_priv" where
  "recv_bcast_pn_decache is_sta f sec =
     (if has_pn (a_encrypt (rf_attrib f)) \<and> is_sta then
        let pkt_pn = frame_pn f; key_id = frame_key_id f; curr_pn = sec_iv_seq sec ! key_id
        in if \<not> valid_pn_chk pkt_pn curr_pn then (RX_FAIL, sec)
           else (RX_SUCCESS, sec\<lparr>sec_iv_seq := (sec_iv_seq sec)[key_id := pkt_pn]\<rparr>)
      else (RX_SUCCESS, sec))"

text \<open>The sequence control word \<^verbatim>\<open>recv_decache\<close> compares.\<close>

definition seq_ctrl :: "recv_frame \<Rightarrow> u16" where
  "seq_ctrl f = push_bit 4 (a_seq_num (rf_attrib f)) OR (ucast (a_frag_num (rf_attrib f)) AND 0xf)"

definition recv_decache :: "recv_frame \<Rightarrow> sta_info \<Rightarrow> rx_ret \<times> sta_info" where
  "recv_decache f sta =
     (let attr = rf_attrib f; tid = a_priority attr; sc = seq_ctrl f;
          mc = is_mcast (a_ra attr);
          rxseq = (if a_qos attr then
                     if mc then sta_bmc_tid_rxseq sta ! tid else sta_tid_rxseq sta ! tid
                   else if mc then sta_nonqos_bmc_rxseq sta else sta_nonqos_rxseq sta)
      in if tid > 15 then (RX_FAIL, sta)
         else if sc = rxseq then (RX_FAIL, sta\<lparr>sta_duplicate_cnt := sta_duplicate_cnt sta + 1\<rparr>)
         else (RX_SUCCESS,
               if a_qos attr then
                 if mc then sta\<lparr>sta_bmc_tid_rxseq := (sta_bmc_tid_rxseq sta)[tid := sc]\<rparr>
                 else sta\<lparr>sta_tid_rxseq := (sta_tid_rxseq sta)[tid := sc]\<rparr>
               else if mc then sta\<lparr>sta_nonqos_bmc_rxseq := sc\<rparr>
               else sta\<lparr>sta_nonqos_rxseq := sc\<rparr>))"


section \<open>The slot a frame is compared with\<close>

datatype rx_slot = SlotQosBmc nat | SlotQos nat | SlotBmc | SlotUc

definition slot :: "recv_frame \<Rightarrow> rx_slot" where
  "slot f =
     (if a_qos (rf_attrib f) then
        if is_mcast (a_ra (rf_attrib f)) then SlotQosBmc (a_priority (rf_attrib f))
        else SlotQos (a_priority (rf_attrib f))
      else if is_mcast (a_ra (rf_attrib f)) then SlotBmc else SlotUc)"

fun slot_val :: "rx_slot \<Rightarrow> sta_info \<Rightarrow> u16" where
  "slot_val (SlotQosBmc tid) sta = sta_bmc_tid_rxseq sta ! tid"
| "slot_val (SlotQos tid) sta = sta_tid_rxseq sta ! tid"
| "slot_val SlotBmc sta = sta_nonqos_bmc_rxseq sta"
| "slot_val SlotUc sta = sta_nonqos_rxseq sta"

definition rxseq_wf :: "sta_info \<Rightarrow> bool" where
  "rxseq_wf sta \<longleftrightarrow> length (sta_tid_rxseq sta) = 16 \<and> length (sta_bmc_tid_rxseq sta) = 16"

lemma recv_decache_ret:
  "fst (recv_decache f sta) =
     (if a_priority (rf_attrib f) > 15 \<or> seq_ctrl f = slot_val (slot f) sta then RX_FAIL else RX_SUCCESS)"
  by (simp add: recv_decache_def slot_def Let_def)

lemma recv_decache_slot:
  assumes "rxseq_wf sta" "a_priority (rf_attrib f) \<le> 15"
  shows "slot_val s (snd (recv_decache f sta)) = (if s = slot f then seq_ctrl f else slot_val s sta)"
  using assms by (cases s) (auto simp: recv_decache_def slot_def Let_def rxseq_wf_def nth_list_update)

lemma recv_decache_wf: "rxseq_wf sta \<Longrightarrow> rxseq_wf (snd (recv_decache f sta))"
  by (simp add: recv_decache_def rxseq_wf_def Let_def)

lemma recv_decache_refused_slot:
  "a_priority (rf_attrib f) > 15 \<Longrightarrow> snd (recv_decache f sta) = sta"
  by (simp add: recv_decache_def Let_def)

definition decache_all :: "recv_frame list \<Rightarrow> sta_info \<Rightarrow> sta_info" where
  "decache_all fs sta = fold (\<lambda>f s. snd (recv_decache f s)) fs sta"

lemma decache_all_other:
  "rxseq_wf sta \<Longrightarrow> \<forall>g \<in> set gs. slot g \<noteq> s \<Longrightarrow>
     rxseq_wf (decache_all gs sta) \<and> slot_val s (decache_all gs sta) = slot_val s sta"
proof (induction gs arbitrary: sta)
  case (Cons g gs)
  have "slot_val s (snd (recv_decache g sta)) = slot_val s sta"
    using recv_decache_slot [OF Cons(2), of g s] recv_decache_refused_slot [of g sta] Cons(3)
    by (cases "a_priority (rf_attrib g) \<le> 15") auto
  then show ?case
    using Cons(1) [of "snd (recv_decache g sta)"] Cons(2,3) recv_decache_wf
    by (simp add: decache_all_def)
qed (simp add: decache_all_def)

lemma bit_u8_nibble: "bit (0xf :: u16) n \<longleftrightarrow> n < 4"
proof -
  have "(0xf :: u16) = mask 4"
    by (simp add: mask_eq_exp_minus_1)
  then show ?thesis
    by (simp only: bit_mask_iff) auto
qed

text \<open>The sequence control word determines the sequence and the fragment number.\<close>

lemma seq_ctrl_inj:
  fixes s t :: u16 and a b :: u8
  assumes "s < 4096" "t < 4096" "a < 16" "b < 16"
  shows "push_bit 4 s OR (ucast a AND 0xf) = push_bit 4 t OR (ucast b AND 0xf) \<longleftrightarrow> s = t \<and> a = b"
    (is "?l = ?r \<longleftrightarrow> _")
proof
  assume eq: "?l = ?r"
  have small: "unat s < 2 ^ 12" "unat t < 2 ^ 12" "unat a < 2 ^ 4" "unat b < 2 ^ 4"
    using assms by (simp_all add: word_less_nat_alt)
  have "s = t"
  proof (rule bit_word_eqI)
    fix n assume "n < LENGTH(16)"
    have "\<not> bit (0xf :: u16) (n + 4)" by (simp only: bit_u8_nibble)
    moreover have "bit ?l (n + 4) = bit ?r (n + 4)" using eq by simp
    ultimately have "n < 12 \<Longrightarrow> bit s n = bit t n"
      by (simp add: bit_or_iff bit_and_iff bit_push_bit_iff bit_u8_nibble)
    moreover have "bit s n \<Longrightarrow> n < 12" "bit t n \<Longrightarrow> n < 12"
      by (rule bit_of_small [OF small(1)], assumption) (rule bit_of_small [OF small(2)])
    ultimately show "bit s n = bit t n" by blast
  qed
  moreover have "a = b"
  proof (rule bit_word_eqI)
    fix n assume "n < LENGTH(8)"
    have "n < 4 \<Longrightarrow> bit (0xf :: u16) n" by (simp only: bit_u8_nibble)
    moreover have "bit ?l n = bit ?r n" using eq by simp
    ultimately have "n < 4 \<Longrightarrow> bit a n = bit b n"
      by (simp add: bit_or_iff bit_and_iff bit_push_bit_iff bit_u8_nibble bit_ucast_iff)
    moreover have "bit a n \<Longrightarrow> n < 4" "bit b n \<Longrightarrow> n < 4"
      by (rule bit_of_small [OF small(3)], assumption) (rule bit_of_small [OF small(4)])
    ultimately show "bit a n = bit b n" by blast
  qed
  ultimately show "s = t \<and> a = b" ..
qed simp

lemma seq_ctrl_eq_iff:
  assumes "a_seq_num (rf_attrib f) < 4096" "a_seq_num (rf_attrib g) < 4096"
    "a_frag_num (rf_attrib f) < 16" "a_frag_num (rf_attrib g) < 16"
  shows "seq_ctrl f = seq_ctrl g \<longleftrightarrow> a_seq_num (rf_attrib f) = a_seq_num (rf_attrib g)
    \<and> a_frag_num (rf_attrib f) = a_frag_num (rf_attrib g)"
  unfolding seq_ctrl_def by (rule seq_ctrl_inj [OF assms])


section \<open>The packet-number checks\<close>

definition iv_seq_wf :: "security_priv \<Rightarrow> bool" where
  "iv_seq_wf sec \<longleftrightarrow> length (sec_iv_seq sec) = 4"

lemma frame_key_id_less: "frame_key_id f < 4"
proof -
  have "unat (drop_bit 6 x) < 4" for x :: u8
    using u8_range(2) [of x] by (simp add: drop_bit_eq_div unat_div_distrib less_mult_imp_div_less)
  then show ?thesis by (simp add: frame_key_id_def)
qed

lemma pn_less_chk_irrefl: "\<not> pn_less_chk p p"
  by (simp add: pn_less_chk_def)

text \<open>A run of group frames through the check: the packet numbers accepted for a key id.\<close>

fun bcast_run :: "bool \<Rightarrow> recv_frame list \<Rightarrow> security_priv \<Rightarrow> recv_frame list \<times> security_priv" where
  "bcast_run is_sta [] sec = ([], sec)"
| "bcast_run is_sta (f # fs) sec =
     (let (ret, sec') = recv_bcast_pn_decache is_sta f sec;
          (acc, sec'') = bcast_run is_sta fs sec'
      in (if ret = RX_SUCCESS then f # acc else acc, sec''))"

lemma bcast_run_chain:
  assumes "iv_seq_wf sec" "\<forall>f \<in> set fs. has_pn (a_encrypt (rf_attrib f)) \<and> frame_key_id f = k"
  shows "successively (\<lambda>f g. valid_pn_chk (frame_pn g) (frame_pn f)) (fst (bcast_run True fs sec))
    \<and> (fst (bcast_run True fs sec) \<noteq> [] \<longrightarrow>
         valid_pn_chk (frame_pn (hd (fst (bcast_run True fs sec)))) (sec_iv_seq sec ! k))"
  using assms
proof (induction fs arbitrary: sec)
  case (Cons f fs)
  have k: "k < length (sec_iv_seq sec)"
    using Cons(2,3) frame_key_id_less [of f] by (simp add: iv_seq_wf_def)
  show ?case
  proof (cases "valid_pn_chk (frame_pn f) (sec_iv_seq sec ! k)")
    case True
    define sec' where "sec' = sec\<lparr>sec_iv_seq := (sec_iv_seq sec)[k := frame_pn f]\<rparr>"
    have step: "recv_bcast_pn_decache True f sec = (RX_SUCCESS, sec')"
      using Cons(3) True by (simp add: recv_bcast_pn_decache_def sec'_def)
    have "iv_seq_wf sec'" "sec_iv_seq sec' ! k = frame_pn f"
      using Cons(2) k by (simp_all add: sec'_def iv_seq_wf_def)
    with Cons(1) [of sec'] Cons(3) True show ?thesis
      by (cases "bcast_run True fs sec'") (auto simp: step successively_Cons)
  next
    case False
    then have "recv_bcast_pn_decache True f sec = (RX_FAIL, sec)"
      using Cons(3) by (simp add: recv_bcast_pn_decache_def)
    with Cons(1) [of sec] Cons(2,3) show ?thesis
      by (cases "bcast_run True fs sec") auto
  qed
qed simp

section \<open>Properties\<close>

text \<open>
  C5. Retransmissions are dropped, and nothing else: once a frame has been through
  \<^verbatim>\<open>recv_decache\<close>, and whatever frames of other slots (other TID, group instead of
  unicast, QoS instead of non-QoS) come between, the next frame of its slot is refused
  exactly when it repeats both the sequence and the fragment number.
\<close>

theorem recv_decache_exact:
  assumes "rxseq_wf sta" "a_priority (rf_attrib f) \<le> 15"
    "\<forall>h \<in> set hs. slot h \<noteq> slot f" "slot g = slot f" "a_priority (rf_attrib g) \<le> 15"
    "a_seq_num (rf_attrib f) < 4096" "a_seq_num (rf_attrib g) < 4096"
    "a_frag_num (rf_attrib f) < 16" "a_frag_num (rf_attrib g) < 16"
  shows "fst (recv_decache g (decache_all hs (snd (recv_decache f sta)))) =
    (if a_seq_num (rf_attrib g) = a_seq_num (rf_attrib f)
        \<and> a_frag_num (rf_attrib g) = a_frag_num (rf_attrib f) then RX_FAIL else RX_SUCCESS)"
proof -
  have "slot_val (slot f) (snd (recv_decache f sta)) = seq_ctrl f"
    using recv_decache_slot [OF assms(1,2)] by simp
  then have "slot_val (slot f) (decache_all hs (snd (recv_decache f sta))) = seq_ctrl f"
    using decache_all_other [OF recv_decache_wf [OF assms(1), of f] assms(3)] by simp
  then show ?thesis
    using assms(4,5) seq_ctrl_eq_iff [OF assms(7,6,9,8)] by (simp add: recv_decache_ret)
qed

text \<open>Concrete values for the witnesses.\<close>

definition dd_attrib :: rx_pkt_attrib where
  "dd_attrib = \<lparr>a_hdrlen = 24, a_to_fr_ds = 2, a_amsdu = False, a_qos = True, a_priority = 3,
     a_seq_num = 7, a_frag_num = 0, a_mfrag = False, a_privacy = True, a_bdecrypted = True,
     a_encrypt = 4, a_iv_len = 8, a_icv_len = 8, a_crc_err = False, a_icv_err = False,
     a_dst = [], a_src = [], a_ta = [], a_ra = [2, 0, 0, 0, 0, 1], a_bssid = [], a_key_index = 0,
     a_recv_signal_power = 0, a_physts_rpt_valid = False,
     a_order = False, a_pw_save = False, a_mdata = False, a_ack_policy = 0\<rparr>"

text \<open>A frame whose buffer is 24 bytes of header followed by a CCMP header.\<close>

definition dd_frame :: "u8 list \<Rightarrow> recv_frame" where
  "dd_frame iv = \<lparr>rf_id = 0, rf_adapter = 0, rf_attrib = dd_attrib, rf_pkt = None, rf_len = 32,
     rf_buf = replicate 24 0 @ iv, rf_data = 0, rf_tail = 32, rf_psta = None, rf_preorder = None,
     rf_keytrack = 0\<rparr>"

definition dd_sta :: sta_info where
  "dd_sta = \<lparr>sta_addr = [], sta_reorder = [], sta_tid_rxseq = replicate 16 0xFFFF,
     sta_iv = replicate 16 (replicate 8 0), sta_last_tid = 0,
     sta_bmc_tid_rxseq = replicate 16 0xFFFF, sta_nonqos_rxseq = 0xFFFF,
     sta_nonqos_bmc_rxseq = 0xFFFF, sta_duplicate_cnt = 0, sta_defrag_q = [], sta_keytrack = 0,
     sta_ieee8021x_blocked = False, sta_dot118021XPrivacy = 4, sta_uncst_key = [], sta_tkiprxmickey = [],
     sta_amsdu_disable = False\<rparr>"

definition dd_sec :: security_priv where
  "dd_sec = \<lparr>sec_auth = Auth8021X, sec_privacy = 4, sec_grp_privacy = 4, sec_grp_keyid = 1,
     sec_binstall_grpkey = True, sec_grp_key = [], sec_busetkipkey = False, sec_key_index = 0,
     sec_hw_decrypted = True, sec_iv_seq = [0, 5, 0, 0],
     sec_grp_rxmickey = [], sec_bcheck_grpkey = False,
     sec_def_key = [], sec_def_keylen = [], sec_sw_decrypt = False, sec_wpapsk = True\<rparr>"

theorem recv_decache_exact_witness:
  "fst (recv_decache (dd_frame []) (decache_all [] (snd (recv_decache (dd_frame []) dd_sta)))) = RX_FAIL"
proof -
  have "rxseq_wf dd_sta" "a_priority (rf_attrib (dd_frame [])) \<le> 15"
    "\<forall>h \<in> set []. slot h \<noteq> slot (dd_frame [])" "a_seq_num (rf_attrib (dd_frame [])) < 4096"
    "a_frag_num (rf_attrib (dd_frame [])) < 16"
    by (simp_all add: rxseq_wf_def dd_sta_def dd_frame_def dd_attrib_def)
  from recv_decache_exact [OF this(1-3) refl this(2) this(4,4,5,5)] show ?thesis
    by simp
qed

text \<open>
  C6. Group frames are protected from replay, key by key: of the frames with one key id
  that a station lets through, each carries a packet number the check accepts against
  the one before it, the first against the stored number; and no frame is let through
  twice in a row unless its packet number is 0 (the value that stands for "none yet").
\<close>

theorem bcast_replay_protection:
  assumes "iv_seq_wf sec" "\<forall>f \<in> set fs. has_pn (a_encrypt (rf_attrib f)) \<and> frame_key_id f = k"
  shows "successively (\<lambda>f g. valid_pn_chk (frame_pn g) (frame_pn f)) (fst (bcast_run True fs sec))
    \<and> successively (\<lambda>f g. frame_pn f = 0 \<or> frame_pn g \<noteq> frame_pn f) (fst (bcast_run True fs sec))
    \<and> (fst (bcast_run True fs sec) = []
       \<or> valid_pn_chk (frame_pn (hd (fst (bcast_run True fs sec)))) (sec_iv_seq sec ! k))"
  using bcast_run_chain [OF assms]
  by (auto simp: valid_pn_chk_def pn_less_chk_irrefl elim!: successively_mono)

lemma dd_frame_pn:
  "rx_bytes (dd_frame [6, 0, 0, 0x60, 0, 0, 0, 0]) 24 8 = [6, 0, 0, 0x60, 0, 0, 0, 0]"
  "rx_byte (dd_frame [6, 0, 0, 0x60, 0, 0, 0, 0]) 27 = 0x60"
  by (simp_all add: rx_bytes_def bytes_at_def rx_byte_def dd_frame_def byte_at_def nth_append upt_rec)

theorem bcast_replay_protection_witness:
  "fst (bcast_run True [dd_frame [6, 0, 0, 0x60, 0, 0, 0, 0], dd_frame [6, 0, 0, 0x60, 0, 0, 0, 0]] dd_sec)
     = [dd_frame [6, 0, 0, 0x60, 0, 0, 0, 0]]
   \<and> valid_pn_chk 6 5"
proof -
  let ?f = "dd_frame [6, 0, 0, 0x60, 0, 0, 0, 0]"
  have at: "a_encrypt (rf_attrib ?f) = 4" "a_hdrlen (rf_attrib ?f) = 24"
    by (simp_all add: dd_frame_def dd_attrib_def)
  have "\<exists>kid. rtw_iv_to_pn [6, 0, 0, 0x60, 0, 0, 0, 0] (replicate 8 0) 4
      = Some ([6, 0, 0, 0, 0, 0, 0, 0], kid)"
    by (simp add: rtw_iv_to_pn_def has_pn_def byte_at_def numeral_eq_Suc)
  then have "pn_of_iv [6, 0, 0, 0x60, 0, 0, 0, 0] 4 = 6"
    by (auto simp: pn_of_iv_def le64_at_def byte_at_def)
  then have pn: "frame_pn ?f = 6" and kid: "frame_key_id ?f = 1"
    by (simp_all add: frame_pn_def frame_key_id_def at dd_frame_pn)
  have "iv_seq_wf dd_sec"
    by (simp add: iv_seq_wf_def dd_sec_def)
  moreover have run: "fst (bcast_run True [?f, ?f] dd_sec) = [?f]"
    by (simp add: recv_bcast_pn_decache_def at pn kid has_pn_def valid_pn_chk_def pn_less_chk_def dd_sec_def)
  ultimately show ?thesis
    using bcast_replay_protection [of dd_sec "[?f, ?f]" 1] at kid pn
    by (simp add: has_pn_def dd_sec_def)
qed

text \<open>
  The unicast packet-number cache refuses no replay: for every TID up to 15 the frame
  passes whatever its packet number (the failing return is commented out in the code);
  a number the check rejects only leaves the cache as it was.
\<close>

theorem ucast_pn_never_refuses:
  assumes "a_priority (rf_attrib f) \<le> 15"
  shows "fst (recv_ucast_pn_decache f sta) = RX_SUCCESS
    \<and> (\<not> has_pn (a_encrypt (rf_attrib f))
        \<or> valid_pn_chk (frame_pn f)
            (pn_of_iv (sta_iv sta ! a_priority (rf_attrib f)) (a_encrypt (rf_attrib f)))
        \<or> snd (recv_ucast_pn_decache f sta) = sta)"
  using assms by (simp add: recv_ucast_pn_decache_def Let_def)

theorem ucast_pn_never_refuses_witness:
  "fst (recv_ucast_pn_decache (dd_frame []) (snd (recv_ucast_pn_decache (dd_frame []) dd_sta))) = RX_SUCCESS"
  using ucast_pn_never_refuses [of "dd_frame []"] by (simp add: dd_frame_def dd_attrib_def)

end
