(* ===== verification/Rx_Reorder.thy ===== *)
theory Rx_Reorder
  imports Rx_Types
begin

text \<open>
  The A-MPDU reorder window of \<^verbatim>\<open>core/rtw_recv.c\<close>: \<^verbatim>\<open>check_indicate_seq\<close>,
  \<^verbatim>\<open>enqueue_reorder_recvframe\<close>, \<^verbatim>\<open>recv_indicatepkts_in_order\<close>,
  \<^verbatim>\<open>recv_indicatepkt_reorder\<close> and the timeout handler. The function that consumes a
  frame in order (\<^verbatim>\<open>recv_process_mpdu\<close>) is an argument here; its contract is the locale
  \<open>mpdu_sink\<close>, and \<^verbatim>\<open>Rx_Path\<close> interprets it with the model of that function.

  The first half of the lemmas reduces the 12-bit circular comparisons to distances from
  the window start. The second half shows the invariant of the window, what a step hands
  up, that no frame is lost or duplicated, and that a whole run of frames and timeouts
  hands the frames up in strictly increasing (unwrapped) order.
\<close>

section \<open>Sequence numbers\<close>

definition SN_LESS :: "u16 \<Rightarrow> u16 \<Rightarrow> bool" where
  "SN_LESS a b \<longleftrightarrow> (a - b) AND 0x800 \<noteq> 0"

definition SN_EQUAL :: "u16 \<Rightarrow> u16 \<Rightarrow> bool" where
  "SN_EQUAL a b \<longleftrightarrow> a = b"

section \<open>The operations\<close>

text \<open>The start \<^verbatim>\<open>check_indicate_seq\<close> computes when the frame is past the window end.\<close>

definition shifted_start :: "u16 \<Rightarrow> u16 \<Rightarrow> u16" where
  "shifted_start seq w =
     (if uint w - 1 \<le> uint seq then seq + 1 - w else 0xFFF - (w - (seq + 1)) + 1)"

text \<open>
  \<^verbatim>\<open>check_indicate_seq\<close>: whether the frame is inside or ahead of the window; moves the
  window start. The third component is whether the window was shifted, which the caller's
  counter records.
\<close>

definition check_indicate_seq ::
  "recv_reorder_ctrl \<Rightarrow> u16 \<Rightarrow> bool \<times> recv_reorder_ctrl \<times> bool" where
  "check_indicate_seq rc0 seq_num =
     (let wsize = ucast (ro_wsize_b rc0) :: u16;
          rc = (if ro_indicate_seq rc0 = 0xFFFF then rc0\<lparr>ro_indicate_seq := seq_num\<rparr> else rc0);
          ind = ro_indicate_seq rc;
          wend = (ind + wsize - 1) AND 0xFFF
      in if SN_LESS seq_num ind then (False, rc, False)
         else if SN_EQUAL seq_num ind then
           (True, rc\<lparr>ro_indicate_seq := (ind + 1) AND 0xFFF\<rparr>, False)
         else if SN_LESS wend seq_num then
           (True,
            rc\<lparr>ro_indicate_seq := shifted_start seq_num wsize\<rparr>,
            True)
         else (True, rc, False))"

text \<open>
  \<^verbatim>\<open>enqueue_reorder_recvframe\<close>: the walk over the pending queue to the insertion point.
  \<open>None\<close> is \<^verbatim>\<open>_FALSE\<close>: an entry with the same sequence number was found.
\<close>

fun enqueue_reorder :: "recv_frame list \<Rightarrow> recv_frame \<Rightarrow> recv_frame list option" where
  "enqueue_reorder [] f = Some [f]"
| "enqueue_reorder (g # gs) f =
     (if SN_LESS (a_seq_num (rf_attrib g)) (a_seq_num (rf_attrib f))
      then map_option ((#) g) (enqueue_reorder gs f)
      else if SN_EQUAL (a_seq_num (rf_attrib g)) (a_seq_num (rf_attrib f)) then None
      else Some (f # g # gs))"

definition enqueue_reorder_recvframe ::
  "recv_reorder_ctrl \<Rightarrow> recv_frame \<Rightarrow> bool \<times> recv_reorder_ctrl" where
  "enqueue_reorder_recvframe rc f =
     (case enqueue_reorder (ro_pending rc) f of
        None \<Rightarrow> (False, rc)
      | Some q \<Rightarrow> (True, rc\<lparr>ro_pending := q\<rparr>))"

definition recv_indicatepkts_pkt_loss_cnt :: "recv_priv \<Rightarrow> u64 \<Rightarrow> u64 \<Rightarrow> recv_priv" where
  "recv_indicatepkts_pkt_loss_cnt rp prev_seq current_seq =
     (let n = (if current_seq < prev_seq then 4096 + current_seq - prev_seq
               else current_seq - prev_seq)
      in rp\<lparr>rp_ampdu_loss_count := rp_ampdu_loss_count rp + n, rp_rx_drop := rp_rx_drop rp + n\<rparr>)"

text \<open>
  The loop of \<^verbatim>\<open>recv_indicatepkts_in_order\<close> over the pending queue, and the function
  itself: with \<open>bforced\<close> the window start first jumps to the head of the queue.
\<close>

type_synonym mpdu_fun = "recv_priv \<Rightarrow> recv_frame \<Rightarrow> rx_ret \<times> recv_priv"

fun in_order_loop :: "mpdu_fun \<Rightarrow> recv_priv \<Rightarrow> u16 \<Rightarrow> recv_frame list \<Rightarrow>
    bool \<times> recv_priv \<times> u16 \<times> recv_frame list" where
  "in_order_loop mpdu rp ind [] = (False, rp, ind, [])"
| "in_order_loop mpdu rp ind (f # fs) =
     (if \<not> SN_LESS ind (a_seq_num (rf_attrib f)) then
        let ind' = (if SN_EQUAL ind (a_seq_num (rf_attrib f)) then (ind + 1) AND 0xFFF else ind);
            (ret, rp1) = mpdu rp f;
            rp2 = (if ret \<noteq> RX_SUCCESS then rp1\<lparr>rp_drop_count := rp_drop_count rp1 + 1\<rparr> else rp1)
        in in_order_loop mpdu rp2 ind' fs
      else (True, rp, ind, f # fs))"

definition recv_indicatepkts_in_order ::
  "mpdu_fun \<Rightarrow> recv_priv \<Rightarrow> recv_reorder_ctrl \<Rightarrow> bool \<Rightarrow> bool \<times> recv_priv \<times> recv_reorder_ctrl" where
  "recv_indicatepkts_in_order mpdu rp rc bforced =
     (let rp0 = (if bforced then rp\<lparr>rp_ampdu_forced_count := rp_ampdu_forced_count rp + 1\<rparr> else rp)
      in if bforced \<and> ro_pending rc = [] then (True, rp0, rc)
         else
           let (rp1, ind) =
                 (if bforced then
                    let seq = a_seq_num (rf_attrib (hd (ro_pending rc)))
                    in (recv_indicatepkts_pkt_loss_cnt rp0 (ucast (ro_indicate_seq rc)) (ucast seq), seq)
                  else (rp0, ro_indicate_seq rc));
               (inbuf, rp2, ind', q) = in_order_loop mpdu rp1 ind (ro_pending rc)
           in (inbuf, rp2, rc\<lparr>ro_indicate_seq := ind', ro_pending := q\<rparr>))"

text \<open>
  The two bits of \<^verbatim>\<open>rec_abba_rsp_ack\<close>, tested and cleared at the start of the critical
  section: either one restarts the window at the next frame.
\<close>

definition ro_take_resets :: "recv_reorder_ctrl \<Rightarrow> recv_reorder_ctrl" where
  "ro_take_resets rc0 =
     (let rc1 = (if ro_ack_or_timeout rc0
                 then rc0\<lparr>ro_ack_or_timeout := False, ro_indicate_seq := 0xFFFF\<rparr> else rc0)
      in if ro_reorder_wow rc1
         then rc1\<lparr>ro_reorder_wow := False, ro_indicate_seq := 0xFFFF\<rparr> else rc1)"

text \<open>
  \<^verbatim>\<open>recv_indicatepkt_reorder\<close> on the control block the frame points to; \<open>None\<close> is the
  NULL pointer. The critical section covers the whole update, so it is one step.
\<close>

definition recv_indicatepkt_reorder_ctrl ::
  "mpdu_fun \<Rightarrow> recv_priv \<Rightarrow> recv_reorder_ctrl \<Rightarrow> recv_frame \<Rightarrow>
     rx_ret \<times> recv_priv \<times> recv_reorder_ctrl" where
  "recv_indicatepkt_reorder_ctrl mpdu rp rc0 f =
     (if \<not> a_qos (rf_attrib f) \<or> \<not> ro_enable rc0 then (RX_SUCCESS, rp, rc0)
      else
        let rc2 = ro_take_resets rc0;
            (inwin, rc3, shifted) = check_indicate_seq rc2 (a_seq_num (rf_attrib f));
            rp1 = (if shifted then rp\<lparr>rp_ampdu_window_shift_cnt := rp_ampdu_window_shift_cnt rp + 1\<rparr>
                   else rp)
        in if \<not> inwin then (RX_FAIL, rp1\<lparr>rp_ampdu_drop_count := rp_ampdu_drop_count rp1 + 1\<rparr>, rc3)
           else
             let (queued, rc4) = enqueue_reorder_recvframe rc3 f
             in if \<not> queued then (RX_FAIL, rp1, rc4)
                else
                  let (inbuf, rp2, rc5) = recv_indicatepkts_in_order mpdu rp1 rc4 False
                  in (RX_HANDLED, rp2,
                      if inbuf then
                        (if \<not> ro_waiting rc5 then rc5\<lparr>ro_waiting := True, ro_timer := True\<rparr>
                         else rc5)
                      else rc5\<lparr>ro_waiting := False, ro_timer := False\<rparr>))"

text \<open>
  \<^verbatim>\<open>rtw_reordering_ctrl_timeout_handler\<close>: the timer has fired, so it is no longer
  pending. \<open>cannot_run\<close> is \<^verbatim>\<open>RTW_CANNOT_RUN\<close> of the adapter.
\<close>

definition rtw_reordering_ctrl_timeout_handler ::
  "mpdu_fun \<Rightarrow> bool \<Rightarrow> recv_priv \<Rightarrow> recv_reorder_ctrl \<Rightarrow> recv_priv \<times> recv_reorder_ctrl" where
  "rtw_reordering_ctrl_timeout_handler mpdu cannot_run rp rc =
     (if cannot_run then (rp, rc\<lparr>ro_timer := False\<rparr>)
      else
        let (inbuf, rp', rc') =
              recv_indicatepkts_in_order mpdu rp (rc\<lparr>ro_timer := False, ro_waiting := False\<rparr>) True
        in (rp', if inbuf then rc'\<lparr>ro_timer := True\<rparr> else rc'))"

section \<open>Distances on the circle of 4096 sequence numbers\<close>

definition sn_dist :: "u16 \<Rightarrow> u16 \<Rightarrow> nat" where
  "sn_dist a b = unat ((b - a) AND 0xFFF)"

abbreviation fseq :: "recv_frame \<Rightarrow> u16" where
  "fseq f \<equiv> a_seq_num (rf_attrib f)"

lemma mask12: "(x AND 0xFFF) = take_bit 12 x" for x :: u16
  by (simp add: take_bit_eq_mask mask_eq_exp_minus_1)

lemma uint_take12: "uint (take_bit 12 x) = uint x mod 2 ^ 12" for x :: u16
proof -
  have "uint (take_bit 12 x) = take_bit 12 (uint x)"
    by (rule unsigned_take_bit_eq)
  then show ?thesis
    by (simp only: take_bit_eq_mod)
qed

lemma sn_dist_mod: "int (sn_dist a b) = (uint b - uint a) mod 4096"
proof -
  have "uint (take_bit 12 (b - a)) = (uint b - uint a) mod 2 ^ 16 mod 2 ^ 12"
    by (simp only: uint_take12) (simp add: uint_word_ariths)
  also have "\<dots> = (uint b - uint a) mod 2 ^ 12"
    by (rule mod_mod_cancel) simp
  finally show ?thesis
    by (simp add: sn_dist_def mask12)
qed

lemma sn_dist_less: "sn_dist a b < 4096"
proof -
  have "int (sn_dist a b) < 4096"
    unfolding sn_dist_mod by simp
  then show ?thesis by simp
qed

lemma SN_LESS_iff: "SN_LESS a b = (2048 \<le> sn_dist b a)"
proof -
  have "(0x800 :: u16) = 2 ^ 11" by simp
  then have "SN_LESS a b = bit (a - b) 11"
    unfolding SN_LESS_def by (simp only: and_pow2_bit)
  also have "\<dots> = (2 ^ 11 \<le> (uint a - uint b) mod 2 ^ Suc 11)"
    by (rule bit_diff_half) simp
  also have "(uint a - uint b) mod 2 ^ Suc 11 = int (sn_dist b a)"
    by (simp add: sn_dist_mod)
  finally show ?thesis by simp
qed

lemma sn_dist_self [simp]: "sn_dist a a = 0"
  by (simp add: sn_dist_def)

text \<open>How distances from one sequence number give the distances from another.\<close>

lemma int_mod_range: "0 \<le> x \<Longrightarrow> x < 4096 \<Longrightarrow> x mod 4096 = x" for x :: int
  by simp

lemma int_mod_range_neg: "- 4096 \<le> x \<Longrightarrow> x < 0 \<Longrightarrow> x mod 4096 = x + 4096" for x :: int
  using int_mod_range [of "x + 4096"] by simp

lemma sn_dist_diff: "int (sn_dist a b) = (int (sn_dist c b) - int (sn_dist c a)) mod 4096"
  by (simp add: sn_dist_mod mod_simps)

lemma sn_dist_shift_le: "sn_dist c a \<le> sn_dist c b \<Longrightarrow> sn_dist a b = sn_dist c b - sn_dist c a"
  using sn_dist_diff [of a b c] int_mod_range [of "int (sn_dist c b) - int (sn_dist c a)"]
    sn_dist_less [of c b] by linarith

lemma sn_dist_shift_gr: "sn_dist c b < sn_dist c a \<Longrightarrow> sn_dist a b = 4096 + sn_dist c b - sn_dist c a"
  using sn_dist_diff [of a b c] int_mod_range_neg [of "int (sn_dist c b) - int (sn_dist c a)"]
    sn_dist_less [of c a] by linarith

lemma sn_dist_inj:
  assumes "a < 4096" "b < 4096" "sn_dist c a = sn_dist c b"
  shows "a = b"
proof -
  have a: "uint a < 4096" and b: "uint b < 4096"
    using assms by (simp_all add: word_less_def)
  have "sn_dist a b = 0"
    using sn_dist_shift_le [of c a b] assms(3) by simp
  then have e: "(uint b - uint a) mod 4096 = 0"
    using sn_dist_mod [of a b] by simp
  have "uint a = uint b"
  proof (cases "uint a \<le> uint b")
    case True
    then show ?thesis
      using e b int_mod_range [of "uint b - uint a"] uint_nonnegative [of a] by linarith
  next
    case False
    then show ?thesis
      using e a int_mod_range_neg [of "uint b - uint a"] uint_nonnegative [of b] by linarith
  qed
  then show "a = b" by (simp add: word_uint_eq_iff)
qed

lemma SN_LESS_pos:
  assumes "sn_dist c a < 2048" "sn_dist c b < 2048"
  shows "SN_LESS a b = (sn_dist c a < sn_dist c b)"
  using assms sn_dist_shift_le [of c b a] sn_dist_shift_gr [of c a b]
  by (cases "sn_dist c b \<le> sn_dist c a") (auto simp: SN_LESS_iff)

lemma SN_EQUAL_pos:
  assumes "a < 4096" "b < 4096"
  shows "SN_EQUAL a b = (sn_dist c a = sn_dist c b)"
  using sn_dist_inj [OF assms, of c] by (auto simp: SN_EQUAL_def)

lemma sn_dist_succ:
  assumes "sn_dist c a < 4095"
  shows "sn_dist c ((a + 1) AND 0xFFF) = Suc (sn_dist c a)" "(a + 1) AND 0xFFF < 0x1000"
proof -
  have u: "uint ((a + 1) AND 0xFFF) = (uint a + 1) mod 4096"
  proof -
    have "uint ((a + 1) AND 0xFFF) = (uint a + 1) mod 2 ^ 16 mod 2 ^ 12"
      by (simp only: mask12 uint_take12) (simp add: uint_word_ariths)
    also have "\<dots> = (uint a + 1) mod 2 ^ 12"
      by (rule mod_mod_cancel) simp
    finally show ?thesis by simp
  qed
  have "int (sn_dist c ((a + 1) AND 0xFFF)) = (int (sn_dist c a) + 1) mod 4096"
    by (simp only: sn_dist_mod u) (simp add: mod_simps algebra_simps)
  then show "sn_dist c ((a + 1) AND 0xFFF) = Suc (sn_dist c a)"
    using assms int_mod_range [of "int (sn_dist c a) + 1"] by linarith
  show "(a + 1) AND 0xFFF < 0x1000"
    by (simp add: word_less_def u)
qed


section \<open>The window on unwrapped positions\<close>

text \<open>
  The abstract window: frames have positions (naturals, no wrap-around), the queue is
  sorted by position, and a run from \<open>k\<close> hands up the frames at or below the moving
  start. \<open>pos_insert\<close> is insertion into the sorted queue, refusing a position already
  taken.
\<close>

fun pos_run :: "('a \<Rightarrow> nat) \<Rightarrow> nat \<Rightarrow> 'a list \<Rightarrow> 'a list \<times> nat \<times> 'a list" where
  "pos_run p k [] = ([], k, [])"
| "pos_run p k (x # xs) =
     (if p x \<le> k then
        let (ds, k', r) = pos_run p (if p x = k then Suc k else k) xs in (x # ds, k', r)
      else ([], k, x # xs))"

fun pos_insert :: "('a \<Rightarrow> nat) \<Rightarrow> 'a list \<Rightarrow> 'a \<Rightarrow> 'a list option" where
  "pos_insert p [] f = Some [f]"
| "pos_insert p (g # gs) f =
     (if p g < p f then map_option ((#) g) (pos_insert p gs f)
      else if p g = p f then None else Some (f # g # gs))"

abbreviation sorted_pos :: "('a \<Rightarrow> nat) \<Rightarrow> 'a list \<Rightarrow> bool" where
  "sorted_pos p xs \<equiv> sorted_wrt (\<lambda>x y. p x < p y) xs"

lemma pos_run_split: "pos_run p k xs = (ds, k', r) \<Longrightarrow> xs = ds @ r"
  by (induction p k xs arbitrary: ds k' r rule: pos_run.induct)
    (auto split: if_splits prod.splits)

lemma pos_run_bounds:
  "pos_run p k xs = (ds, k', r) \<Longrightarrow> sorted_pos p xs \<Longrightarrow>
     k \<le> k' \<and> (\<forall>x \<in> set ds. p x < k') \<and> (\<forall>x \<in> set r. k' < p x)
     \<and> (k' = k \<or> ds \<noteq> [] \<and> k' = Suc (p (last ds)))"
proof (induction p k xs arbitrary: ds k' r rule: pos_run.induct)
  case (1 p k)
  then show ?case by simp
next
  case (2 p k x xs)
  show ?case
  proof (cases "p x \<le> k")
    case True
    obtain ds0 where run: "pos_run p (if p x = k then Suc k else k) xs = (ds0, k', r)"
      and ds: "ds = x # ds0"
      using 2(2) True by (auto split: prod.splits)
    have ih: "(if p x = k then Suc k else k) \<le> k'" "\<forall>x \<in> set ds0. p x < k'"
      "\<forall>x \<in> set r. k' < p x"
      "k' = (if p x = k then Suc k else k) \<or> ds0 \<noteq> [] \<and> k' = Suc (p (last ds0))"
      using 2(1) [OF True run] 2(3) by auto
    have "\<forall>y \<in> set xs. p x < p y" using 2(3) by simp
    then have nl: "ds0 \<noteq> [] \<Longrightarrow> p x < p (last ds0)"
      using pos_run_split [OF run] by simp
    show ?thesis
    proof (cases "ds0 = []")
      case True
      with ih \<open>p x \<le> k\<close> show ?thesis
        by (auto simp: ds split: if_splits)
    next
      case False
      then have "p x < p (last ds0)" "p (last ds0) < k'"
        using nl ih(2) by simp_all
      then have "k' = k \<or> k' = Suc (p (last ds0))"
        using ih(4) by (auto split: if_splits)
      with ih(1-3) False \<open>p x \<le> k\<close> show ?thesis
        by (auto simp: ds split: if_splits)
    qed
  next
    case False
    then show ?thesis
      using 2(2,3) by (fastforce simp: not_le)
  qed
qed

lemma pos_insert_set: "pos_insert p q f = Some q' \<Longrightarrow> mset q' = add_mset f (mset q)"
  by (induction p q f arbitrary: q' rule: pos_insert.induct) (auto split: if_splits)

lemma pos_insert_sorted:
  "pos_insert p q f = Some q' \<Longrightarrow> sorted_pos p q \<Longrightarrow> sorted_pos p q'"
proof (induction p q f arbitrary: q' rule: pos_insert.induct)
  case (2 p g gs f)
  show ?case
  proof (cases "p g < p f")
    case True
    then obtain q0 where ins: "pos_insert p gs f = Some q0" and q': "q' = g # q0"
      using 2(2) by auto
    have "set q0 = insert f (set gs)"
      using pos_insert_set [OF ins] by (metis set_mset_add_mset_insert set_mset_mset)
    then show ?thesis
      using 2(1) [OF True ins] 2(3) True q' by auto
  next
    case False
    then have "p f < p g" "q' = f # g # gs"
      using 2(2) by (auto split: if_splits)
    then show ?thesis
      using 2(3) by (auto intro: order.strict_trans)
  qed
qed simp

lemma pos_insert_None: "sorted_pos p q \<Longrightarrow> pos_insert p q f = None \<longleftrightarrow> p f \<in> p ` set q"
  by (induction p q f rule: pos_insert.induct) auto

section \<open>The concrete run against the abstract one\<close>

fun indicate_run :: "u16 \<Rightarrow> recv_frame list \<Rightarrow> recv_frame list \<times> u16 \<times> recv_frame list" where
  "indicate_run ind [] = ([], ind, [])"
| "indicate_run ind (f # fs) =
     (if \<not> SN_LESS ind (fseq f) then
        let (ds, ind', r) = indicate_run (if SN_EQUAL ind (fseq f) then (ind + 1) AND 0xFFF else ind) fs
        in (f # ds, ind', r)
      else ([], ind, f # fs))"

text \<open>One iteration of the loop: the frame is consumed and a failure is counted.\<close>

definition consume :: "mpdu_fun \<Rightarrow> recv_frame \<Rightarrow> recv_priv \<Rightarrow> recv_priv" where
  "consume mpdu f rp =
     (let (ret, rp1) = mpdu rp f
      in if ret \<noteq> RX_SUCCESS then rp1\<lparr>rp_drop_count := rp_drop_count rp1 + 1\<rparr> else rp1)"

lemma in_order_loop_run:
  "in_order_loop mpdu rp ind q =
     (let (ds, ind', r) = indicate_run ind q in (r \<noteq> [], fold (consume mpdu) ds rp, ind', r))"
  by (induction mpdu rp ind q rule: in_order_loop.induct)
    (auto simp: Let_def consume_def split: prod.splits)

abbreviation fpos :: "u16 \<Rightarrow> recv_frame \<Rightarrow> nat" where
  "fpos c f \<equiv> sn_dist c (fseq f)"

definition half_window :: "u16 \<Rightarrow> recv_frame list \<Rightarrow> bool" where
  "half_window c xs \<longleftrightarrow> (\<forall>x \<in> set xs. fseq x < 4096 \<and> fpos c x < 2048) \<and> sorted_pos (fpos c) xs"

lemma half_window_Cons:
  "half_window c (x # xs) \<longleftrightarrow> fseq x < 4096 \<and> fpos c x < 2048 \<and> (\<forall>y \<in> set xs. fpos c x < fpos c y)
     \<and> half_window c xs"
  by (auto simp: half_window_def)

lemma indicate_run_pos:
  assumes "half_window c xs" "ind < 4096" "sn_dist c ind < 2048 \<or> xs = []"
  shows "\<exists>ds ind' r. indicate_run ind xs = (ds, ind', r) \<and> ind' < 4096
     \<and> pos_run (fpos c) (sn_dist c ind) xs = (ds, sn_dist c ind', r)"
  using assms
proof (induction ind xs rule: indicate_run.induct)
  case (1 ind)
  then show ?case by simp
next
  case (2 ind f fs)
  have hf: "fseq f < 4096" "fpos c f < 2048" and hw: "half_window c fs"
    and above: "\<forall>y \<in> set fs. fpos c f < fpos c y"
    and k: "sn_dist c ind < 2048"
    using 2(2,4) by (simp_all add: half_window_Cons)
  have less: "SN_LESS ind (fseq f) = (sn_dist c ind < fpos c f)"
    by (rule SN_LESS_pos [OF k hf(2)])
  have equal: "SN_EQUAL ind (fseq f) = (sn_dist c ind = fpos c f)"
    by (rule SN_EQUAL_pos [OF 2(3) hf(1)])
  show ?case
  proof (cases "sn_dist c ind < fpos c f")
    case True
    then show ?thesis
      using 2(3) by (simp add: less)
  next
    case False
    define ind1 where "ind1 = (if SN_EQUAL ind (fseq f) then (ind + 1) AND 0xFFF else ind)"
    have succ: "sn_dist c ((ind + 1) AND 0xFFF) = Suc (sn_dist c ind)" "(ind + 1) AND 0xFFF < 0x1000"
      using sn_dist_succ [of c ind] k by simp_all
    have k1: "sn_dist c ind1 = (if fpos c f = sn_dist c ind then Suc (sn_dist c ind) else sn_dist c ind)"
      by (auto simp: ind1_def equal succ)
    have "ind1 < 4096"
      using succ 2(3) by (simp add: ind1_def)
    moreover have "sn_dist c ind1 < 2048 \<or> fs = []"
      using above hw k unfolding k1 half_window_def by (cases fs) (auto intro: Suc_lessI)
    ultimately obtain ds ind' r where "indicate_run ind1 fs = (ds, ind', r)" "ind' < 4096"
      "pos_run (fpos c) (sn_dist c ind1) fs = (ds, sn_dist c ind', r)"
      using 2(1) [OF _ hw, folded ind1_def] False less by auto
    then show ?thesis
      using False less by (auto simp: k1 simp flip: ind1_def split: if_splits)
  qed
qed

lemma enqueue_reorder_pos:
  assumes "half_window c q" "fseq f < 4096" "fpos c f < 2048"
  shows "enqueue_reorder q f = pos_insert (fpos c) q f"
  using assms
proof (induction q f rule: enqueue_reorder.induct)
  case (2 g gs f)
  have "SN_LESS (fseq g) (fseq f) = (fpos c g < fpos c f)"
    using 2(2,4) by (intro SN_LESS_pos) (simp_all add: half_window_Cons)
  moreover have "SN_EQUAL (fseq g) (fseq f) = (fpos c g = fpos c f)"
    using 2(2,3) by (intro SN_EQUAL_pos) (simp_all add: half_window_Cons)
  ultimately show ?case
    using 2 by (simp add: half_window_Cons)
qed simp


section \<open>The window start\<close>

lemma uint_lt_4096: "a < 4096 \<Longrightarrow> uint a < 4096" for a :: u16
  by (simp add: word_less_def)

lemma sn_dist_wend:
  fixes w :: u8
  assumes "0 < w"
  shows "sn_dist ind ((ind + ucast w - 1) AND 0xFFF) = unat w - 1"
proof -
  have w: "uint (ucast w :: u16) = uint w" "1 \<le> uint w" "uint w < 256"
    using assms u8_range [of w] u8_pos [of w] by simp_all
  have "uint ((ind + ucast w - 1) AND 0xFFF) = (uint ind + uint w - 1) mod 2 ^ 16 mod 2 ^ 12"
    by (simp only: mask12 uint_take12) (simp add: uint_word_ariths w(1) mod_simps)
  also have "\<dots> = (uint ind + uint w - 1) mod 2 ^ 12"
    by (rule mod_mod_cancel) simp
  finally have u: "uint ((ind + ucast w - 1) AND 0xFFF) = (uint ind + uint w - 1) mod 4096"
    by simp
  have "int (sn_dist ind ((ind + ucast w - 1) AND 0xFFF)) = (uint w - 1) mod 4096"
    by (simp only: sn_dist_mod u) (simp add: mod_simps)
  then show ?thesis
    using w int_mod_range [of "uint w - 1"] u8_uint_unat [of w] by linarith
qed


lemma shifted_start_uint:
  fixes w :: u8
  assumes "seq < 4096" "0 < w"
  shows "uint (shifted_start seq (ucast w)) = (uint seq + 1 - uint w) mod 4096"
proof -
  have w: "uint (ucast w :: u16) = uint w" "1 \<le> uint w" "uint w < 256"
    using assms(2) u8_range [of w] u8_pos [of w] by simp_all
  have s: "0 \<le> uint seq" "uint seq < 4096"
    using uint_lt_4096 [OF assms(1)] uint_nonnegative by simp_all
  show ?thesis
  proof (cases "uint w - 1 \<le> uint seq")
    case True
    then have "uint (shifted_start seq (ucast w)) = (uint seq + 1 - uint w) mod 65536"
      by (simp add: shifted_start_def w(1) uint_word_ariths mod_simps)
    also have "\<dots> = uint seq + 1 - uint w"
      using True w s by (intro mod_pos_pos_trivial) linarith+
    also have "\<dots> = (uint seq + 1 - uint w) mod 4096"
      using True w s by (intro mod_pos_pos_trivial [symmetric]) linarith+
    finally show ?thesis .
  next
    case False
    have "0xFFF - (ucast w - (seq + 1)) + 1 = 0x1000 + seq + 1 - ucast w"
      by (simp add: algebra_simps)
    moreover have "uint (0x1000 :: u16) = 4096"
      by simp
    ultimately have "uint (shifted_start seq (ucast w)) = (4096 + (uint seq + 1 - uint w)) mod 65536"
      using False by (simp add: shifted_start_def w(1) uint_word_ariths mod_simps add.assoc)
    also have "\<dots> = 4096 + (uint seq + 1 - uint w)"
      using False w s by (intro mod_pos_pos_trivial) linarith+
    also have "\<dots> = (uint seq + 1 - uint w) mod 4096"
      using False w s int_mod_range_neg [of "uint seq + 1 - uint w"] by linarith
    finally show ?thesis .
  qed
qed

lemma sn_dist_shifted_start:
  fixes w :: u8
  assumes "seq < 4096" "0 < w" "unat w \<le> sn_dist ind seq"
  shows "sn_dist ind (shifted_start seq (ucast w)) = Suc (sn_dist ind seq) - unat w"
    "shifted_start seq (ucast w) < 4096"
proof -
  have d: "int (sn_dist ind seq) = (uint seq - uint ind) mod 4096" "sn_dist ind seq < 4096"
    by (rule sn_dist_mod, rule sn_dist_less)
  have w: "1 \<le> uint w" "int (unat w) = uint w"
    using assms(2) u8_pos [of w] by simp_all
  have "int (sn_dist ind (shifted_start seq (ucast w))) = (uint seq + 1 - uint w - uint ind) mod 4096"
    by (simp only: sn_dist_mod shifted_start_uint [OF assms(1,2)]) (simp add: mod_simps)
  also have "\<dots> = ((uint seq - uint ind) mod 4096 + (1 - uint w)) mod 4096"
    by (simp only: mod_add_left_eq) (simp add: algebra_simps)
  also have "\<dots> = (int (sn_dist ind seq) + 1 - uint w) mod 4096"
    by (simp only: d(1)) (simp add: algebra_simps)
  also have "\<dots> = int (sn_dist ind seq) + 1 - uint w"
    using w d(2) assms(3) by (intro mod_pos_pos_trivial) linarith+
  finally show "sn_dist ind (shifted_start seq (ucast w)) = Suc (sn_dist ind seq) - unat w"
    using w assms(3) by linarith
  show "shifted_start seq (ucast w) < 4096"
    using shifted_start_uint [OF assms(1,2)] by (simp add: word_less_def)
qed

definition next_start :: "nat \<Rightarrow> nat \<Rightarrow> nat" where
  "next_start w d = (if d = 0 then 1 else Suc d - w)"

lemma check_indicate_seq_active:
  assumes "ro_indicate_seq rc < 4096" "seq < 4096" "0 < ro_wsize_b rc"
    "sn_dist (ro_indicate_seq rc) seq < 2048"
  shows "\<exists>ind'. check_indicate_seq rc seq
       = (True, rc\<lparr>ro_indicate_seq := ind'\<rparr>,
          unat (ro_wsize_b rc) \<le> sn_dist (ro_indicate_seq rc) seq) \<and> ind' < 4096
     \<and> sn_dist (ro_indicate_seq rc) ind'
         = next_start (unat (ro_wsize_b rc)) (sn_dist (ro_indicate_seq rc) seq)"
proof -
  let ?ind = "ro_indicate_seq rc" and ?w = "ro_wsize_b rc"
  let ?d = "sn_dist ?ind seq" and ?wend = "(?ind + ucast ?w - 1) AND 0xFFF"
  have ne: "?ind \<noteq> 0xFFFF" using assms(1) by auto
  have nl: "\<not> SN_LESS seq ?ind" using assms(4) by (simp add: SN_LESS_iff)
  have eq: "SN_EQUAL seq ?ind = (?d = 0)"
    using SN_EQUAL_pos [OF assms(2,1), of ?ind] by simp
  have w: "sn_dist ?ind ?wend = unat ?w - 1" "unat ?w < 256" "0 < unat ?w"
    using sn_dist_wend [OF assms(3)] u8_range [of ?w] u8_pos [of ?w] assms(3) by simp_all
  then have past: "SN_LESS ?wend seq = (unat ?w - 1 < ?d)"
    using SN_LESS_pos [of ?ind ?wend seq] assms(4) by simp
  note chk = check_indicate_seq_def Let_def ne nl eq past if_False simp_thms
  consider "?d = 0" | "0 < ?d" "unat ?w - 1 < ?d" | "0 < ?d" "\<not> unat ?w - 1 < ?d"
    by blast
  then show ?thesis
  proof cases
    case 1
    then show ?thesis
      using sn_dist_succ [of ?ind ?ind] w(3)
      by (intro exI [of _ "(?ind + 1) AND 0xFFF"]) (simp add: chk next_start_def)
  next
    case 2
    then have "unat ?w \<le> ?d" using w(3) by linarith
    with 2 show ?thesis
      using sn_dist_shifted_start [OF assms(2,3), of ?ind]
      by (intro exI [of _ "shifted_start seq (ucast ?w)"]) (simp add: chk next_start_def)
  next
    case 3
    then show ?thesis
      using w(3) assms(1) by (intro exI [of _ ?ind]) (simp add: chk next_start_def)
  qed
qed

lemma check_indicate_seq_old:
  assumes "ro_indicate_seq rc < 4096" "2048 \<le> sn_dist (ro_indicate_seq rc) seq"
  shows "check_indicate_seq rc seq = (False, rc, False)"
proof -
  have "ro_indicate_seq rc \<noteq> 0xFFFF" using assms(1) by auto
  with assms(2) show ?thesis
    by (simp add: check_indicate_seq_def SN_LESS_iff)
qed

lemma check_indicate_seq_init:
  "ro_indicate_seq rc = 0xFFFF \<Longrightarrow> seq < 4096 \<Longrightarrow>
     check_indicate_seq rc seq = check_indicate_seq (rc\<lparr>ro_indicate_seq := seq\<rparr>) seq"
  by (auto simp: check_indicate_seq_def Let_def)


section \<open>One reorder step\<close>

text \<open>
  What a frame's arrival hands up, computed from the control block alone, and what a
  timeout hands up.
\<close>

definition delivered :: "recv_reorder_ctrl \<Rightarrow> recv_frame \<Rightarrow> recv_frame list" where
  "delivered rc f =
     (if \<not> a_qos (rf_attrib f) \<or> \<not> ro_enable rc then []
      else let (inwin, rc', _) = check_indicate_seq (ro_take_resets rc) (fseq f)
           in if \<not> inwin then []
              else case enqueue_reorder (ro_pending rc') f of
                     None \<Rightarrow> []
                   | Some q \<Rightarrow> fst (indicate_run (ro_indicate_seq rc') q))"

definition timeout_delivered :: "recv_reorder_ctrl \<Rightarrow> recv_frame list" where
  "timeout_delivered rc =
     (if ro_pending rc = [] then []
      else fst (indicate_run (fseq (hd (ro_pending rc))) (ro_pending rc)))"

text \<open>
  The window is well formed: at rest (nothing queued and the start not yet set, or a
  reset pending), or the start and the queue are sequence numbers, the queue is sorted
  by distance from the start, and its frames lie strictly inside the window.
\<close>

definition win_active :: "recv_reorder_ctrl \<Rightarrow> bool" where
  "win_active rc \<longleftrightarrow> ro_indicate_seq rc < 4096 \<and> half_window (ro_indicate_seq rc) (ro_pending rc)
     \<and> (\<forall>g \<in> set (ro_pending rc). 0 < fpos (ro_indicate_seq rc) g
          \<and> fpos (ro_indicate_seq rc) g < unat (ro_wsize_b rc))
     \<and> \<not> ro_ack_or_timeout rc \<and> \<not> ro_reorder_wow rc"

definition win_rest :: "recv_reorder_ctrl \<Rightarrow> bool" where
  "win_rest rc \<longleftrightarrow> ro_pending rc = []
     \<and> (ro_indicate_seq rc = 0xFFFF \<or> ro_ack_or_timeout rc \<or> ro_reorder_wow rc)"

definition win_ok :: "recv_reorder_ctrl \<Rightarrow> bool" where
  "win_ok rc \<longleftrightarrow> 0 < ro_wsize_b rc \<and> (win_active rc \<or> win_rest rc)"

text \<open>The sequence number the window starts from when a frame arrives.\<close>

definition win_base :: "recv_reorder_ctrl \<Rightarrow> recv_frame \<Rightarrow> u16" where
  "win_base rc f = (if ro_indicate_seq (ro_take_resets rc) = 0xFFFF then fseq f
     else ro_indicate_seq (ro_take_resets rc))"

lemma take_resets_simps [simp]:
  "ro_pending (ro_take_resets rc) = ro_pending rc"
  "ro_wsize_b (ro_take_resets rc) = ro_wsize_b rc"
  "ro_enable (ro_take_resets rc) = ro_enable rc"
  "ro_timer (ro_take_resets rc) = ro_timer rc"
  "ro_waiting (ro_take_resets rc) = ro_waiting rc"
  "\<not> ro_ack_or_timeout (ro_take_resets rc)"
  "\<not> ro_reorder_wow (ro_take_resets rc)"
  by (simp_all add: ro_take_resets_def)

lemma take_resets_active: "win_active rc \<Longrightarrow> ro_take_resets rc = rc"
  by (simp add: win_active_def ro_take_resets_def)

lemma take_resets_rest: "win_rest rc \<Longrightarrow> ro_indicate_seq (ro_take_resets rc) = 0xFFFF"
  by (auto simp: win_rest_def ro_take_resets_def)

text \<open>The frame's position against the base decides the outcome of the first check.\<close>

lemma win_base_check:
  assumes "win_ok rc" "fseq f < 4096"
  shows "check_indicate_seq (ro_take_resets rc) (fseq f)
      = check_indicate_seq ((ro_take_resets rc)\<lparr>ro_indicate_seq := win_base rc f\<rparr>) (fseq f)"
    and "win_base rc f < 4096"
    and "half_window (win_base rc f) (ro_pending rc)"
    and "\<forall>g \<in> set (ro_pending rc). 0 < fpos (win_base rc f) g
           \<and> fpos (win_base rc f) g < unat (ro_wsize_b rc)"
proof -
  consider "win_active rc" | "win_rest rc" using assms(1) by (auto simp: win_ok_def)
  note cases = this
  show "check_indicate_seq (ro_take_resets rc) (fseq f)
      = check_indicate_seq ((ro_take_resets rc)\<lparr>ro_indicate_seq := win_base rc f\<rparr>) (fseq f)"
    using assms(2) check_indicate_seq_init [of "ro_take_resets rc" "fseq f"]
    by (auto simp: win_base_def)
  have a: "win_active rc \<Longrightarrow> win_base rc f = ro_indicate_seq rc"
    by (auto simp: win_base_def take_resets_active) (auto simp: win_active_def)
  have r: "win_rest rc \<Longrightarrow> win_base rc f = fseq f \<and> ro_pending rc = []"
    by (simp add: win_base_def take_resets_rest) (simp add: win_rest_def)
  show "win_base rc f < 4096" "half_window (win_base rc f) (ro_pending rc)"
    "\<forall>g \<in> set (ro_pending rc). 0 < fpos (win_base rc f) g
       \<and> fpos (win_base rc f) g < unat (ro_wsize_b rc)"
    using cases assms(2) a r by (cases; simp add: win_active_def half_window_def)+
qed


lemma reorder_old:
  assumes "win_ok rc" "a_qos (rf_attrib f)" "ro_enable rc" "fseq f < 4096"
    "2048 \<le> fpos (win_base rc f) f"
  shows "recv_indicatepkt_reorder_ctrl mpdu rp rc f =
      (RX_FAIL, rp\<lparr>rp_ampdu_drop_count := rp_ampdu_drop_count rp + 1\<rparr>,
       (ro_take_resets rc)\<lparr>ro_indicate_seq := win_base rc f\<rparr>)"
    and "delivered rc f = []"
  using assms check_indicate_seq_old
      [of "(ro_take_resets rc)\<lparr>ro_indicate_seq := win_base rc f\<rparr>" "fseq f"]
    win_base_check(1,2) [OF assms(1,4)]
  by (simp_all add: recv_indicatepkt_reorder_ctrl_def delivered_def Let_def)

lemma win_base_start:
  assumes "win_ok rc" "fseq f < 4096" "fpos (win_base rc f) f < 2048"
  shows "\<exists>ind. check_indicate_seq (ro_take_resets rc) (fseq f)
       = (True, (ro_take_resets rc)\<lparr>ro_indicate_seq := ind\<rparr>,
          unat (ro_wsize_b rc) \<le> fpos (win_base rc f) f)
     \<and> ind < 4096
     \<and> sn_dist (win_base rc f) ind = next_start (unat (ro_wsize_b rc)) (fpos (win_base rc f) f)"
  using check_indicate_seq_active
      [of "(ro_take_resets rc)\<lparr>ro_indicate_seq := win_base rc f\<rparr>" "fseq f"]
    win_base_check(1,2) [OF assms(1,2)] assms
  by (auto simp: win_ok_def)

lemma next_start_bound: "0 < w \<Longrightarrow> d < 2048 \<Longrightarrow> next_start w d < 2048"
  by (auto simp: next_start_def)

lemma reorder_dup:
  assumes "win_ok rc" "a_qos (rf_attrib f)" "ro_enable rc" "fseq f < 4096"
    "fpos (win_base rc f) f \<in> fpos (win_base rc f) ` set (ro_pending rc)"
  shows "recv_indicatepkt_reorder_ctrl mpdu rp rc f =
      (RX_FAIL, rp, (ro_take_resets rc)\<lparr>ro_indicate_seq := win_base rc f\<rparr>)"
    and "delivered rc f = []"
proof -
  let ?c = "win_base rc f"
  note wb = win_base_check [OF assms(1,4)]
  have d: "0 < fpos ?c f" "fpos ?c f < unat (ro_wsize_b rc)" "fpos ?c f < 2048"
    using wb(3,4) assms(5) by (auto simp: half_window_def)
  obtain ind where chk: "check_indicate_seq (ro_take_resets rc) (fseq f)
       = (True, (ro_take_resets rc)\<lparr>ro_indicate_seq := ind\<rparr>, False)"
    and ind: "ind < 4096" "sn_dist ?c ind = 0"
    using win_base_start [OF assms(1,4) d(3)] d(1,2) by (auto simp: next_start_def)
  have "ind = ?c"
    using sn_dist_inj [OF ind(1) wb(2), of ?c] ind(2) by simp
  moreover have "enqueue_reorder (ro_pending rc) f = None"
    using assms(5) wb(3) enqueue_reorder_pos [OF wb(3) assms(4) d(3)]
    by (simp add: pos_insert_None half_window_def)
  ultimately show "recv_indicatepkt_reorder_ctrl mpdu rp rc f =
      (RX_FAIL, rp, (ro_take_resets rc)\<lparr>ro_indicate_seq := win_base rc f\<rparr>)" "delivered rc f = []"
    using assms(2,3) chk
    by (simp_all add: recv_indicatepkt_reorder_ctrl_def delivered_def enqueue_reorder_recvframe_def)
qed

lemma half_window_insert:
  assumes "half_window c q" "fseq f < 4096" "fpos c f < 2048" "pos_insert (fpos c) q f = Some q'"
  shows "half_window c q'" "set q' = insert f (set q)"
proof -
  show s: "set q' = insert f (set q)"
    using pos_insert_set [OF assms(4)] by (metis set_mset_add_mset_insert set_mset_mset)
  show "half_window c q'"
    using assms(1-3) pos_insert_sorted [OF assms(4)] s by (auto simp: half_window_def)
qed

text \<open>A frame the window accepts.\<close>

lemma reorder_new:
  assumes "win_ok rc" "a_qos (rf_attrib f)" "ro_enable rc" "fseq f < 4096"
    "fpos (win_base rc f) f < 2048"
    "fpos (win_base rc f) f \<notin> fpos (win_base rc f) ` set (ro_pending rc)"
  shows "\<exists>q ds ind' r.
      pos_insert (fpos (win_base rc f)) (ro_pending rc) f = Some q
    \<and> pos_run (fpos (win_base rc f))
        (next_start (unat (ro_wsize_b rc)) (fpos (win_base rc f) f)) q
        = (ds, sn_dist (win_base rc f) ind', r)
    \<and> ind' < 4096 \<and> delivered rc f = ds
    \<and> (\<forall>mpdu rp. recv_indicatepkt_reorder_ctrl mpdu rp rc f =
         (RX_HANDLED,
          fold (consume mpdu) ds
            (if unat (ro_wsize_b rc) \<le> fpos (win_base rc f) f
             then rp\<lparr>rp_ampdu_window_shift_cnt := rp_ampdu_window_shift_cnt rp + 1\<rparr> else rp),
          (ro_take_resets rc)\<lparr>ro_indicate_seq := ind', ro_pending := r,
             ro_waiting := (r \<noteq> []),
             ro_timer := (r \<noteq> [] \<and> (ro_waiting rc \<longrightarrow> ro_timer rc))\<rparr>))"
proof -
  let ?c = "win_base rc f" and ?w = "unat (ro_wsize_b rc)"
  note wb = win_base_check [OF assms(1,4)]
  obtain ind where chk: "check_indicate_seq (ro_take_resets rc) (fseq f)
       = (True, (ro_take_resets rc)\<lparr>ro_indicate_seq := ind\<rparr>, ?w \<le> fpos ?c f)"
    and ind: "ind < 4096" "sn_dist ?c ind = next_start ?w (fpos ?c f)"
    using win_base_start [OF assms(1,4,5)] by auto
  have "0 < ?w"
    using assms(1) u8_pos by (simp add: win_ok_def)
  then have k: "sn_dist ?c ind < 2048"
    using next_start_bound assms(5) ind(2) by simp
  obtain q where q: "pos_insert (fpos ?c) (ro_pending rc) f = Some q"
    using assms(6) wb(3) pos_insert_None [of "fpos ?c" "ro_pending rc" f]
    by (auto simp: half_window_def)
  then have enq: "enqueue_reorder (ro_pending rc) f = Some q"
    using enqueue_reorder_pos [OF wb(3) assms(4,5)] by simp
  have "half_window ?c q"
    by (rule half_window_insert [OF wb(3) assms(4,5) q])
  then obtain ds ind' r where run: "indicate_run ind q = (ds, ind', r)" "ind' < 4096"
    "pos_run (fpos ?c) (next_start ?w (fpos ?c f)) q = (ds, sn_dist ?c ind', r)"
    using indicate_run_pos [of ?c q ind] ind k by auto
  have "delivered rc f = ds"
    using assms(2,3) chk enq run(1) by (simp add: delivered_def)
  moreover have "recv_indicatepkt_reorder_ctrl mpdu rp rc f =
         (RX_HANDLED,
          fold (consume mpdu) ds
            (if ?w \<le> fpos ?c f
             then rp\<lparr>rp_ampdu_window_shift_cnt := rp_ampdu_window_shift_cnt rp + 1\<rparr> else rp),
          (ro_take_resets rc)\<lparr>ro_indicate_seq := ind', ro_pending := r,
             ro_waiting := (r \<noteq> []),
             ro_timer := (r \<noteq> [] \<and> (ro_waiting rc \<longrightarrow> ro_timer rc))\<rparr>)" for mpdu rp
    using assms(2,3) chk enq run(1)
    by (simp add: recv_indicatepkt_reorder_ctrl_def enqueue_reorder_recvframe_def
        recv_indicatepkts_in_order_def in_order_loop_run Let_def)
  ultimately show ?thesis
    using q run(2,3) by blast
qed


section \<open>Order of delivery\<close>

text \<open>\<open>ahead a b\<close>: \<open>b\<close> lies one to half a circle ahead of \<open>a\<close>.\<close>

definition ahead :: "u16 \<Rightarrow> u16 \<Rightarrow> bool" where
  "ahead a b \<longleftrightarrow> 1 \<le> sn_dist a b \<and> sn_dist a b \<le> 2048"

abbreviation in_order :: "recv_frame list \<Rightarrow> bool" where
  "in_order \<equiv> successively (\<lambda>a b. ahead (fseq a) (fseq b))"

text \<open>What ties the window to the frames already handed up: its start is past the last
  one, directly after it when nothing is queued, and the head of the queue is still ahead
  of it.\<close>

definition log_ok :: "u16 \<Rightarrow> recv_frame list \<Rightarrow> recv_frame list \<Rightarrow> bool" where
  "log_ok ind pend log \<longleftrightarrow> in_order log \<and>
     (log \<noteq> [] \<longrightarrow>
        (let e = sn_dist (fseq (last log)) ind
         in 1 \<le> e \<and> (if pend = [] then e = 1 else e + fpos ind (hd pend) \<le> 2048)))"

lemma sn_dist_add:
  "sn_dist a b + sn_dist b c < 4096 \<Longrightarrow> sn_dist a c = sn_dist a b + sn_dist b c"
  using sn_dist_shift_le [of a b c] sn_dist_shift_gr [of a c b]
  by (cases "sn_dist a b \<le> sn_dist a c") auto

lemma sorted_in_order: "half_window c ds \<Longrightarrow> in_order ds"
proof (induction ds rule: induct_list012)
  case (3 x y zs)
  have "fpos c x < fpos c y" "fpos c y < 2048"
    using 3(3) by (simp_all add: half_window_Cons)
  then have "ahead (fseq x) (fseq y)"
    using sn_dist_shift_le [of c "fseq x" "fseq y"] by (simp add: ahead_def) linarith
  then show ?case
    using 3 by (simp add: half_window_Cons)
qed simp_all

lemma half_window_append:
  "half_window c (xs @ ys) \<Longrightarrow> half_window c xs \<and> half_window c ys"
  by (auto simp: half_window_def sorted_wrt_append)

lemma half_window_rebase:
  assumes "half_window c r" "\<forall>g \<in> set r. sn_dist c ind < fpos c g"
  shows "half_window ind r" "\<forall>g \<in> set r. fpos ind g = fpos c g - sn_dist c ind"
proof -
  show d: "\<forall>g \<in> set r. fpos ind g = fpos c g - sn_dist c ind"
    using assms(2) sn_dist_shift_le [of c ind] by (simp add: less_imp_le)
  have "sorted_pos (fpos ind) r"
    using assms d unfolding half_window_def
    by (auto elim!: sorted_wrt_mono_rel [rotated] intro: diff_less_mono)
  then show "half_window ind r"
    using assms d by (auto simp: half_window_def)
qed

lemma run_log:
  assumes hw: "half_window c q" and ne: "q \<noteq> []"
    and run: "pos_run (fpos c) k q = (ds, sn_dist c ind, r)"
    and log: "in_order log"
      "log \<noteq> [] \<Longrightarrow> 1 \<le> sn_dist (fseq (last log)) c
         \<and> sn_dist (fseq (last log)) c + fpos c (hd q) \<le> 2048"
    and fin: "r = [] \<Longrightarrow> sn_dist c ind = Suc (fpos c (last q))"
  shows "log_ok ind r (log @ ds)"
proof -
  have q: "q = ds @ r" by (rule pos_run_split [OF run])
  have sorted: "sorted_pos (fpos c) q" using hw by (simp add: half_window_def)
  note b = pos_run_bounds [OF run sorted]
  note hws = half_window_append [OF hw [unfolded q]]
  have rb: "\<forall>g \<in> set r. fpos ind g = fpos c g - sn_dist c ind"
    by (rule half_window_rebase) (use hws b in auto)
  have small: "\<forall>g \<in> set q. fpos c g < 2048" using hw by (simp add: half_window_def)
  have first: "log \<noteq> [] \<Longrightarrow> ahead (fseq (last log)) (fseq (hd q))"
    using log(2) sn_dist_add [of "fseq (last log)" c "fseq (hd q)"] by (simp add: ahead_def)
  have ord: "in_order (log @ ds)"
    using log(1) sorted_in_order [of c ds] hws first q
    by (cases ds) (auto simp: successively_append_iff)
  show ?thesis
  proof (cases "ds = []")
    case True
    then have r: "r \<noteq> []" "hd r \<in> set r" "hd q = hd r" using ne q by auto
    then have hr: "fpos ind (hd r) = fpos c (hd r) - sn_dist c ind" "sn_dist c ind < fpos c (hd r)"
      using rb b by auto
    have "log \<noteq> [] \<Longrightarrow> sn_dist (fseq (last log)) ind
        = sn_dist (fseq (last log)) c + sn_dist c ind"
      using log(2) hr(2) r(3) by (intro sn_dist_add) auto
    then show ?thesis
      using True ord r log(2) hr by (auto simp: log_ok_def Let_def)
  next
    case False
    then have l: "last ds \<in> set ds" "last (log @ ds) = last ds" by auto
    then have pl: "fpos c (last ds) < sn_dist c ind" using b by simp
    then have e: "sn_dist (fseq (last ds)) ind = sn_dist c ind - fpos c (last ds)"
      by (intro sn_dist_shift_le) simp
    show ?thesis
    proof (cases "r = []")
      case True
      then show ?thesis
        using fin e ord q l False by (simp add: log_ok_def)
    next
      case r: False
      then have "hd r \<in> set r" by simp
      then have "fpos ind (hd r) = fpos c (hd r) - sn_dist c ind" "sn_dist c ind < fpos c (hd r)"
        "fpos c (hd r) < 2048"
        using rb b small q by auto
      then show ?thesis
        using e pl ord r l False by (simp add: log_ok_def) linarith
    qed
  qed
qed


section \<open>The invariant of the window\<close>

text \<open>Timers: queued frames are covered by a running timer.\<close>

definition timer_ok :: "recv_reorder_ctrl \<Rightarrow> bool" where
  "timer_ok rc \<longleftrightarrow> (ro_pending rc \<noteq> [] \<longrightarrow> ro_timer rc) \<and> (ro_waiting rc \<longrightarrow> ro_timer rc)"

text \<open>The whole invariant, against the frames handed up so far.\<close>

definition ro_inv :: "recv_reorder_ctrl \<Rightarrow> recv_frame list \<Rightarrow> bool" where
  "ro_inv rc log \<longleftrightarrow> ro_enable rc \<and> win_ok rc \<and> timer_ok rc
     \<and> log_ok (ro_indicate_seq rc) (ro_pending rc) log \<and> (log \<noteq> [] \<longrightarrow> win_active rc)"

lemma log_ok_base:
  assumes "ro_inv rc log" "fseq f < 4096"
  shows "in_order log" "log \<noteq> [] \<Longrightarrow> win_base rc f = ro_indicate_seq rc"
proof -
  show "in_order log" using assms(1) by (simp add: ro_inv_def log_ok_def)
  show "win_base rc f = ro_indicate_seq rc" if "log \<noteq> []"
  proof -
    have a: "win_active rc" using assms(1) that by (simp add: ro_inv_def)
    then have "ro_indicate_seq rc \<noteq> 0xFFFF" by (auto simp: win_active_def)
    then show ?thesis by (simp add: win_base_def take_resets_active a)
  qed
qed

lemma ro_inv_reject:
  assumes inv: "ro_inv rc log" and f: "fseq f < 4096"
  shows "ro_inv ((ro_take_resets rc)\<lparr>ro_indicate_seq := win_base rc f\<rparr>) log"
proof -
  let ?rc' = "(ro_take_resets rc)\<lparr>ro_indicate_seq := win_base rc f\<rparr>"
  have ok: "win_ok rc" using inv by (simp add: ro_inv_def)
  have a: "win_active ?rc'"
    using win_base_check(2-4) [OF ok f] by (simp add: win_active_def)
  then have "win_ok ?rc'"
    using ok by (simp add: win_ok_def)
  moreover have "log_ok (win_base rc f) (ro_pending rc) log"
    using inv log_ok_base [OF inv f] by (cases "log = []") (simp_all add: ro_inv_def log_ok_def)
  ultimately show ?thesis
    using inv a by (simp add: ro_inv_def timer_ok_def)
qed

text \<open>The new head of the queue with the arrived frame in it, and the run's last frame.\<close>

lemma pos_insert_hd:
  "pos_insert p q f = Some q' \<Longrightarrow> q' \<noteq> [] \<and> (hd q' = f \<and> (q \<noteq> [] \<longrightarrow> p f < p (hd q)) \<or> q \<noteq> [] \<and> hd q' = hd q)"
  by (cases q) (auto split: if_splits)

lemma pos_run_all:
  assumes "pos_run p (next_start w (p f)) q = (ds, k', [])" "sorted_pos p q" "f \<in> set q" "0 < w"
  shows "k' = Suc (p (last q))"
proof -
  have q: "q = ds" using pos_run_split [OF assms(1)] by simp
  note b = pos_run_bounds [OF assms(1,2)]
  have "last q \<in> set ds" using assms(3) q by (cases q) auto
  then have l: "p (last q) < k'" "p f < k'" using b assms(3) q by auto
  show ?thesis
  proof (cases "k' = next_start w (p f)")
    case True
    then have "p f = 0" "k' = 1"
      using l(2) assms(4) by (auto simp: next_start_def split: if_splits)
    then show ?thesis using l(1) by simp
  next
    case False
    then show ?thesis using b q by simp
  qed
qed

lemma ro_inv_accept:
  assumes inv: "ro_inv rc log" and f: "fseq f < 4096" "fpos (win_base rc f) f < 2048"
    and ins: "pos_insert (fpos (win_base rc f)) (ro_pending rc) f = Some q"
    and run: "pos_run (fpos (win_base rc f))
        (next_start (unat (ro_wsize_b rc)) (fpos (win_base rc f) f)) q
        = (ds, sn_dist (win_base rc f) ind, r)"
    and ind: "ind < 4096"
  shows "ro_inv ((ro_take_resets rc)\<lparr>ro_indicate_seq := ind, ro_pending := r,
      ro_waiting := (r \<noteq> []), ro_timer := (r \<noteq> [] \<and> (ro_waiting rc \<longrightarrow> ro_timer rc))\<rparr>) (log @ ds)"
proof -
  let ?c = "win_base rc f" and ?w = "unat (ro_wsize_b rc)"
  have ok: "win_ok rc" and w: "0 < ?w"
    using inv u8_pos(2) by (auto simp: ro_inv_def win_ok_def)
  note wb = win_base_check(2-4) [OF ok f(1)]
  note hq = half_window_insert [OF wb(2) f ins]
  have sorted: "sorted_pos (fpos ?c) q" using hq(1) by (simp add: half_window_def)
  note b = pos_run_bounds [OF run sorted] and hd = pos_insert_hd [OF ins]
  have q: "q = ds @ r" by (rule pos_run_split [OF run])
  have log: "1 \<le> sn_dist (fseq (last log)) ?c
      \<and> sn_dist (fseq (last log)) ?c + fpos ?c (hd q) \<le> 2048" if "log \<noteq> []"
  proof -
    have c: "ro_indicate_seq rc = ?c"
      by (rule log_ok_base(2) [OF inv f(1) that, symmetric])
    have e: "1 \<le> sn_dist (fseq (last log)) ?c"
      "ro_pending rc = [] \<Longrightarrow> sn_dist (fseq (last log)) ?c = 1"
      "ro_pending rc \<noteq> [] \<Longrightarrow> sn_dist (fseq (last log)) ?c + fpos ?c (hd (ro_pending rc)) \<le> 2048"
      using inv that by (simp_all add: ro_inv_def log_ok_def Let_def c)
    show ?thesis
    proof (cases "ro_pending rc = []")
      case True
      then show ?thesis using e f(2) hd by auto
    next
      case False
      then have "fpos ?c (hd q) \<le> fpos ?c (hd (ro_pending rc))" using hd by auto
      then show ?thesis using e(1,3) False by linarith
    qed
  qed
  have lk: "log_ok ind r (log @ ds)"
  proof (rule run_log [OF hq(1) _ run log_ok_base(1) [OF inv f(1)] log])
    show "q \<noteq> []" using hd by simp
    show "sn_dist ?c ind = Suc (fpos ?c (last q))" if "r = []"
      by (rule pos_run_all [OF run [unfolded that] sorted _ w]) (simp add: hq(2))
  qed
  have "half_window ?c r" by (rule conjunct2 [OF half_window_append [OF hq(1) [unfolded q]]])
  note rb = half_window_rebase [OF this, of ind]
  have "0 < fpos ind g \<and> fpos ind g < ?w" if "g \<in> set r" for g
  proof -
    have g: "sn_dist ?c ind < fpos ?c g" "fpos ind g = fpos ?c g - sn_dist ?c ind"
      using b rb(2) that by auto
    show ?thesis
    proof (cases "g = f")
      case True
      then show ?thesis
        using g b w by (auto simp: next_start_def split: if_splits)
    next
      case False
      then have "fpos ?c g < ?w" using hq(2) q that wb(3) by auto
      then show ?thesis using g by auto
    qed
  qed
  then have "win_active ((ro_take_resets rc)\<lparr>ro_indicate_seq := ind, ro_pending := r,
      ro_waiting := (r \<noteq> []), ro_timer := (r \<noteq> [] \<and> (ro_waiting rc \<longrightarrow> ro_timer rc))\<rparr>)"
    using rb(1) b ind by (simp add: win_active_def)
  then show ?thesis
    using inv lk by (auto simp: ro_inv_def win_ok_def timer_ok_def)
qed


section \<open>Timeouts\<close>

lemma timeout_empty:
  "ro_pending rc = [] \<Longrightarrow> rtw_reordering_ctrl_timeout_handler mpdu False rp rc =
     (rp\<lparr>rp_ampdu_forced_count := rp_ampdu_forced_count rp + 1\<rparr>,
      rc\<lparr>ro_waiting := False, ro_timer := True\<rparr>)"
  by (simp add: rtw_reordering_ctrl_timeout_handler_def recv_indicatepkts_in_order_def)

lemma timeout_queued:
  assumes "win_active rc" "ro_pending rc \<noteq> []"
  shows "\<exists>ds ind r rp0. pos_run (fpos (ro_indicate_seq rc)) (fpos (ro_indicate_seq rc) (hd (ro_pending rc)))
          (ro_pending rc) = (ds, sn_dist (ro_indicate_seq rc) ind, r)
    \<and> ind < 4096 \<and> timeout_delivered rc = ds
    \<and> pool_ids rp0 = pool_ids rp \<and> rp_os_rx rp0 = rp_os_rx rp
    \<and> rtw_reordering_ctrl_timeout_handler mpdu False rp rc =
       (fold (consume mpdu) ds rp0,
        rc\<lparr>ro_indicate_seq := ind, ro_pending := r, ro_waiting := False, ro_timer := (r \<noteq> [])\<rparr>)"
proof -
  let ?c = "ro_indicate_seq rc" and ?q = "ro_pending rc"
  have hw: "half_window ?c ?q" using assms(1) by (simp add: win_active_def)
  moreover have "hd ?q \<in> set ?q" using assms(2) by simp
  ultimately have h: "fseq (hd ?q) < 4096" "fpos ?c (hd ?q) < 2048"
    by (auto simp: half_window_def)
  obtain ds ind r where run: "indicate_run (fseq (hd ?q)) ?q = (ds, ind, r)" "ind < 4096"
    "pos_run (fpos ?c) (fpos ?c (hd ?q)) ?q = (ds, sn_dist ?c ind, r)"
    using indicate_run_pos [OF hw h(1)] h(2) by auto
  define rp0 where "rp0 = recv_indicatepkts_pkt_loss_cnt
    (rp\<lparr>rp_ampdu_forced_count := rp_ampdu_forced_count rp + 1\<rparr>)
    (ucast ?c) (ucast (fseq (hd ?q)))"
  have "rtw_reordering_ctrl_timeout_handler mpdu False rp rc =
       (fold (consume mpdu) ds rp0,
        rc\<lparr>ro_indicate_seq := ind, ro_pending := r, ro_waiting := False, ro_timer := (r \<noteq> [])\<rparr>)"
    using assms(2) run(1)
    by (simp add: rtw_reordering_ctrl_timeout_handler_def recv_indicatepkts_in_order_def
        in_order_loop_run Let_def rp0_def)
  moreover have "timeout_delivered rc = ds"
    using assms(2) run(1) by (simp add: timeout_delivered_def)
  moreover have "pool_ids rp0 = pool_ids rp" "rp_os_rx rp0 = rp_os_rx rp"
    by (simp_all add: rp0_def recv_indicatepkts_pkt_loss_cnt_def pool_ids_def Let_def)
  ultimately show ?thesis using run(2,3) by blast
qed

lemma pos_run_head:
  assumes "pos_run p (p (hd q)) q = (ds, k', r)" "q \<noteq> []"
  shows "ds \<noteq> []" "length r < length q"
proof -
  show "ds \<noteq> []"
    using assms by (cases q) (auto split: prod.splits)
  then show "length r < length q"
    using pos_run_split [OF assms(1)] by simp
qed

lemma pos_run_head_start:
  assumes "pos_run p (p (hd q)) q = (ds, k', r)" "q \<noteq> []" "sorted_pos p q"
  shows "k' = Suc (p (last ds))"
proof -
  note b = pos_run_bounds [OF assms(1,3)] and ne = pos_run_head(1) [OF assms(1,2)]
  have "hd q \<in> set ds"
    using pos_run_split [OF assms(1)] ne by simp
  then have "p (hd q) < k'" using b by simp
  then show ?thesis using b by auto
qed

lemma ro_inv_timeout:
  assumes inv: "ro_inv rc log"
  shows "ro_inv (snd (rtw_reordering_ctrl_timeout_handler mpdu False rp rc)) (log @ timeout_delivered rc)"
proof (cases "ro_pending rc = []")
  case True
  then show ?thesis
    using inv by (auto simp: timeout_empty timeout_delivered_def ro_inv_def win_ok_def win_active_def
        win_rest_def timer_ok_def)
next
  case False
  let ?c = "ro_indicate_seq rc" and ?q = "ro_pending rc"
  have a: "win_active rc"
    using inv False by (auto simp: ro_inv_def win_ok_def win_rest_def)
  then have hw: "half_window ?c ?q" by (simp add: win_active_def)
  then have sorted: "sorted_pos (fpos ?c) ?q" by (simp add: half_window_def)
  obtain ds ind r rp0 where run: "pos_run (fpos ?c) (fpos ?c (hd ?q)) ?q = (ds, sn_dist ?c ind, r)"
    and ind: "ind < 4096" and ds: "timeout_delivered rc = ds"
    and res: "rtw_reordering_ctrl_timeout_handler mpdu False rp rc = (fold (consume mpdu) ds rp0,
        rc\<lparr>ro_indicate_seq := ind, ro_pending := r, ro_waiting := False, ro_timer := (r \<noteq> [])\<rparr>)"
    using timeout_queued [OF a False] by blast
  note b = pos_run_bounds [OF run sorted]
  have q: "?q = ds @ r" by (rule pos_run_split [OF run])
  have lk: "log_ok ind r (log @ ds)"
  proof (rule run_log [OF hw False run])
    show "in_order log" using inv by (simp add: ro_inv_def log_ok_def)
    show "1 \<le> sn_dist (fseq (last log)) ?c \<and> sn_dist (fseq (last log)) ?c + fpos ?c (hd ?q) \<le> 2048"
      if "log \<noteq> []"
      using inv that False by (simp add: ro_inv_def log_ok_def Let_def)
    show "sn_dist ?c ind = Suc (fpos ?c (last ?q))" if "r = []"
      using pos_run_head_start [OF run False sorted] that by (simp add: q)
  qed
  have "half_window ?c r" by (rule conjunct2 [OF half_window_append [OF hw [unfolded q]]])
  note rb = half_window_rebase [OF this, of ind]
  have "fpos ?c g < unat (ro_wsize_b rc)" if "g \<in> set r" for g
    using a that q by (auto simp: win_active_def)
  then have "\<forall>g \<in> set r. 0 < fpos ind g \<and> fpos ind g < unat (ro_wsize_b rc)"
    using b rb(2) by fastforce
  then have "win_active (rc\<lparr>ro_indicate_seq := ind, ro_pending := r, ro_waiting := False,
      ro_timer := (r \<noteq> [])\<rparr>)"
    using a rb(1) b ind by (simp add: win_active_def)
  then show ?thesis
    using inv lk by (simp add: res ds ro_inv_def win_ok_def timer_ok_def)
qed

section \<open>Runs of the reorder window\<close>

text \<open>
  Everything that can happen to one control block: it starts empty (as
  \<^verbatim>\<open>rtw_init_recv_priv\<close> and the ADDBA handler leave it), QoS frames arrive and the timer
  fires. The two lists are the frames the block accepted and the frames it handed up.
\<close>

inductive ro_run ::
  "mpdu_fun \<Rightarrow> recv_priv \<Rightarrow> recv_reorder_ctrl \<Rightarrow> recv_frame list \<Rightarrow> recv_frame list \<Rightarrow> bool"
  for mpdu :: mpdu_fun where
  ro_start: "ro_enable rc \<Longrightarrow> 0 < ro_wsize_b rc \<Longrightarrow> win_rest rc \<Longrightarrow> \<not> ro_waiting rc \<Longrightarrow>
     ro_run mpdu rp rc [] []"
| ro_frame: "ro_run mpdu rp rc acc log \<Longrightarrow> a_qos (rf_attrib f) \<Longrightarrow> fseq f < 4096 \<Longrightarrow>
     recv_indicatepkt_reorder_ctrl mpdu rp rc f = (ret, rp', rc') \<Longrightarrow>
     ro_run mpdu rp' rc' (if ret = RX_HANDLED then acc @ [f] else acc) (log @ delivered rc f)"
| ro_timeout: "ro_run mpdu rp rc acc log \<Longrightarrow> ro_timer rc \<Longrightarrow>
     rtw_reordering_ctrl_timeout_handler mpdu False rp rc = (rp', rc') \<Longrightarrow>
     ro_run mpdu rp' rc' acc (log @ timeout_delivered rc)"

lemma ro_inv_frame:
  assumes inv: "ro_inv rc log" and f: "a_qos (rf_attrib f)" "fseq f < 4096"
    and step: "recv_indicatepkt_reorder_ctrl mpdu rp rc f = (ret, rp', rc')"
  shows "ro_inv rc' (log @ delivered rc f)"
proof -
  have ok: "win_ok rc" "ro_enable rc" using inv by (simp_all add: ro_inv_def)
  consider (old) "2048 \<le> fpos (win_base rc f) f"
    | (dup) "fpos (win_base rc f) f \<in> fpos (win_base rc f) ` set (ro_pending rc)"
    | (new) "fpos (win_base rc f) f < 2048"
      "fpos (win_base rc f) f \<notin> fpos (win_base rc f) ` set (ro_pending rc)"
    by linarith
  then show ?thesis
  proof cases
    case old
    note o = reorder_old [OF ok(1) f(1) ok(2) f(2) old]
    show ?thesis
      using step ro_inv_reject [OF inv f(2)] by (simp add: o)
  next
    case dup
    note d = reorder_dup [OF ok(1) f(1) ok(2) f(2) dup]
    show ?thesis
      using step ro_inv_reject [OF inv f(2)] by (simp add: d)
  next
    case new
    from reorder_new [OF ok(1) f(1) ok(2) f(2) new] show ?thesis
      using step ro_inv_accept [OF inv f(2) new(1)] by auto
  qed
qed

lemma ro_run_inv: "ro_run mpdu rp rc acc log \<Longrightarrow> ro_inv rc log"
proof (induction rule: ro_run.induct)
  case (ro_start rc rp)
  then show ?case
    by (simp add: ro_inv_def win_ok_def timer_ok_def log_ok_def win_rest_def)
next
  case (ro_frame rp rc acc log f ret rp' rc')
  then show ?case by (intro ro_inv_frame) simp_all
next
  case (ro_timeout rp rc acc log rp' rc')
  then show ?case
    using ro_inv_timeout [of rc log mpdu rp] by simp
qed


section \<open>No frame is lost\<close>

lemma indicate_run_split: "indicate_run ind q = (ds, ind', r) \<Longrightarrow> q = ds @ r"
  by (induction ind q arbitrary: ds ind' r rule: indicate_run.induct)
    (auto split: if_splits prod.splits)

lemma enqueue_reorder_mset: "enqueue_reorder q f = Some q' \<Longrightarrow> mset q' = add_mset f (mset q)"
  by (induction q f arbitrary: q' rule: enqueue_reorder.induct) (auto split: if_splits)

lemma check_indicate_seq_pending [simp]:
  "check_indicate_seq rc seq = (b, rc', sh) \<Longrightarrow> ro_pending rc' = ro_pending rc"
  by (auto simp: check_indicate_seq_def Let_def split: if_splits)

lemma frame_ids_mset: "mset xs = mset ys \<Longrightarrow> frame_ids xs = frame_ids ys"
  by (simp add: frame_ids_def)

text \<open>One arrival, for any control block and any consumer.\<close>

lemma reorder_step_frames:
  assumes "recv_indicatepkt_reorder_ctrl mpdu rp rc f = (ret, rp', rc')"
  shows "mset (delivered rc f @ ro_pending rc')
      = (if ret = RX_HANDLED then add_mset f (mset (ro_pending rc)) else mset (ro_pending rc))"
    and "\<exists>rp0. pool_ids rp0 = pool_ids rp \<and> rp_os_rx rp0 = rp_os_rx rp
      \<and> rp' = fold (consume mpdu) (delivered rc f) rp0"
proof -
  obtain inw rc3 sh where chk: "check_indicate_seq (ro_take_resets rc) (fseq f) = (inw, rc3, sh)"
    by (cases "check_indicate_seq (ro_take_resets rc) (fseq f)") auto
  note pend = check_indicate_seq_pending [OF chk]
  define rps where "rps = (if sh then rp\<lparr>rp_ampdu_window_shift_cnt := rp_ampdu_window_shift_cnt rp + 1\<rparr>
    else rp)"
  have rps: "pool_ids rps = pool_ids rp" "rp_os_rx rps = rp_os_rx rp"
    by (simp_all add: rps_def pool_ids_def)
  note defs = recv_indicatepkt_reorder_ctrl_def delivered_def enqueue_reorder_recvframe_def
  show "mset (delivered rc f @ ro_pending rc')
      = (if ret = RX_HANDLED then add_mset f (mset (ro_pending rc)) else mset (ro_pending rc))"
    using assms chk pend
    by (auto simp: defs recv_indicatepkts_in_order_def in_order_loop_run Let_def
        dest!: indicate_run_split enqueue_reorder_mset simp flip: mset_append
        split: if_splits option.splits prod.splits)
  show "\<exists>rp0. pool_ids rp0 = pool_ids rp \<and> rp_os_rx rp0 = rp_os_rx rp
      \<and> rp' = fold (consume mpdu) (delivered rc f) rp0"
  proof (cases "\<not> a_qos (rf_attrib f) \<or> \<not> ro_enable rc")
    case True
    then show ?thesis using assms by (auto simp: defs)
  next
    case on: False
    show ?thesis
    proof (cases "inw \<and> enqueue_reorder (ro_pending rc3) f \<noteq> None")
      case True
      then show ?thesis
        using assms chk on rps
        by (intro exI [of _ rps])
          (auto simp: defs recv_indicatepkts_in_order_def in_order_loop_run Let_def
            simp flip: rps_def split: prod.splits)
    next
      case False
      then show ?thesis
        using assms chk on rps
        by (intro exI [of _ rp'])
          (cases inw; auto simp: defs pool_ids_def Let_def simp flip: rps_def)
    qed
  qed
qed

lemma timeout_frames:
  assumes "rtw_reordering_ctrl_timeout_handler mpdu False rp rc = (rp', rc')"
  shows "timeout_delivered rc @ ro_pending rc' = ro_pending rc"
  using assms
  by (auto simp: rtw_reordering_ctrl_timeout_handler_def recv_indicatepkts_in_order_def
      timeout_delivered_def in_order_loop_run Let_def dest: indicate_run_split
      split: if_splits prod.splits)

text \<open>
  The contract of the function that consumes an indicated frame: the frame is back in
  the pool when it returns, whatever it returns.
\<close>

locale mpdu_sink =
  fixes mpdu :: mpdu_fun
  assumes sink: "mpdu rp f = (ret, rp') \<Longrightarrow> pool_ids rp' = add_mset (rf_id f) (pool_ids rp)"
begin

lemma consume_ids: "pool_ids (consume mpdu f rp) = add_mset (rf_id f) (pool_ids rp)"
  by (cases "mpdu rp f") (auto simp: consume_def pool_ids_def dest!: sink)

lemma consume_all_ids: "pool_ids (fold (consume mpdu) ds rp) = pool_ids rp + frame_ids ds"
  by (induction ds arbitrary: rp) (simp_all add: consume_ids)

lemma reorder_conserves:
  assumes "recv_indicatepkt_reorder_ctrl mpdu rp rc f = (ret, rp', rc')"
  shows "pool_ids rp' + frame_ids (ro_pending rc')
    = pool_ids rp + frame_ids (ro_pending rc) + (if ret = RX_HANDLED then {#rf_id f#} else {#})"
proof -
  note fr = reorder_step_frames [OF assms]
  have "frame_ids (delivered rc f) + frame_ids (ro_pending rc')
      = frame_ids (ro_pending rc) + (if ret = RX_HANDLED then {#rf_id f#} else {#})"
    using fr(1) by (auto simp: frame_ids_def simp flip: image_mset_union mset_append)
  then show ?thesis
    using fr(2) by (auto simp: consume_all_ids ac_simps)
qed

end


section \<open>Properties\<close>

text \<open>Concrete values for the witnesses: a window of four, and a QoS frame of a given number.\<close>

definition ex_attrib :: rx_pkt_attrib where
  "ex_attrib = \<lparr>a_hdrlen = 26, a_to_fr_ds = 2, a_amsdu = False, a_qos = True, a_priority = 0,
     a_seq_num = 0, a_frag_num = 0, a_mfrag = False, a_privacy = True, a_bdecrypted = True,
     a_encrypt = 4, a_iv_len = 8, a_icv_len = 8, a_crc_err = False, a_icv_err = False,
     a_dst = [], a_src = [], a_ta = [], a_ra = [], a_bssid = [], a_key_index = 0,
     a_recv_signal_power = 0, a_physts_rpt_valid = False,
     a_order = False, a_pw_save = False, a_mdata = False, a_ack_policy = 0\<rparr>"

definition ex_frame :: "u16 \<Rightarrow> recv_frame" where
  "ex_frame seq = \<lparr>rf_id = unat seq, rf_adapter = 0, rf_attrib = ex_attrib\<lparr>a_seq_num := seq\<rparr>,
     rf_pkt = None, rf_len = 0, rf_buf = [], rf_data = 0, rf_tail = 0, rf_psta = None,
     rf_preorder = None, rf_keytrack = 0\<rparr>"

definition ex_ctrl :: recv_reorder_ctrl where
  "ex_ctrl = \<lparr>ro_enable = True, ro_indicate_seq = 0xFFFF, ro_wsize_b = 4, ro_pending = [],
     ro_timer = False, ro_waiting = False, ro_ack_or_timeout = False, ro_reorder_wow = False\<rparr>"

definition ex_sink :: mpdu_fun where
  "ex_sink rp f = (RX_SUCCESS, rp)"

lemma ex_frame_sel [simp]:
  "fseq (ex_frame s) = s" "a_qos (rf_attrib (ex_frame s))" "rf_id (ex_frame s) = unat s"
  by (simp_all add: ex_frame_def ex_attrib_def)

lemma ex_consume [simp]: "consume ex_sink f rp = rp"
  by (simp add: consume_def ex_sink_def)

lemmas ex_eval = recv_indicatepkt_reorder_ctrl_def ro_take_resets_def check_indicate_seq_def
  SN_LESS_def SN_EQUAL_def enqueue_reorder_recvframe_def recv_indicatepkts_in_order_def
  delivered_def ex_sink_def shifted_start_def

text \<open>Number 4094 sets the start, 0 waits for 4095, which releases both.\<close>

lemma ex_step1:
  "recv_indicatepkt_reorder_ctrl ex_sink ex_recv_priv ex_ctrl (ex_frame 4094)
     = (RX_HANDLED, ex_recv_priv, ex_ctrl\<lparr>ro_indicate_seq := 4095\<rparr>)"
  "delivered ex_ctrl (ex_frame 4094) = [ex_frame 4094]"
  by (simp_all add: ex_eval ex_ctrl_def)

lemma ex_step2:
  "recv_indicatepkt_reorder_ctrl ex_sink ex_recv_priv (ex_ctrl\<lparr>ro_indicate_seq := 4095\<rparr>) (ex_frame 0)
     = (RX_HANDLED, ex_recv_priv, ex_ctrl\<lparr>ro_indicate_seq := 4095, ro_pending := [ex_frame 0],
          ro_timer := True, ro_waiting := True\<rparr>)"
  "delivered (ex_ctrl\<lparr>ro_indicate_seq := 4095\<rparr>) (ex_frame 0) = []"
  by (simp_all add: ex_eval ex_ctrl_def)

lemma ex_step3:
  "recv_indicatepkt_reorder_ctrl ex_sink ex_recv_priv
     (ex_ctrl\<lparr>ro_indicate_seq := 4095, ro_pending := [ex_frame 0], ro_timer := True,
        ro_waiting := True\<rparr>) (ex_frame 4095)
     = (RX_HANDLED, ex_recv_priv, ex_ctrl\<lparr>ro_indicate_seq := 1\<rparr>)"
  "delivered (ex_ctrl\<lparr>ro_indicate_seq := 4095, ro_pending := [ex_frame 0], ro_timer := True,
        ro_waiting := True\<rparr>) (ex_frame 4095) = [ex_frame 4095, ex_frame 0]"
  by (simp_all add: ex_eval ex_ctrl_def)

lemma ex_run2:
  "ro_run ex_sink ex_recv_priv (ex_ctrl\<lparr>ro_indicate_seq := 4095, ro_pending := [ex_frame 0],
     ro_timer := True, ro_waiting := True\<rparr>) [ex_frame 4094, ex_frame 0] [ex_frame 4094]"
proof -
  have "ro_run ex_sink ex_recv_priv ex_ctrl [] []"
    by (rule ro_start) (simp_all add: ex_ctrl_def win_rest_def)
  from ro_frame [OF this _ _ ex_step1(1)]
  have "ro_run ex_sink ex_recv_priv (ex_ctrl\<lparr>ro_indicate_seq := 4095\<rparr>) [ex_frame 4094] [ex_frame 4094]"
    by (simp add: ex_step1(2))
  from ro_frame [OF this _ _ ex_step2(1)]
  show ?thesis by (simp add: ex_step2(2))
qed

lemma ex_run3:
  "ro_run ex_sink ex_recv_priv (ex_ctrl\<lparr>ro_indicate_seq := 1\<rparr>)
     [ex_frame 4094, ex_frame 0, ex_frame 4095] [ex_frame 4094, ex_frame 4095, ex_frame 0]"
  using ro_frame [OF ex_run2 _ _ ex_step3(1)] by (simp add: ex_step3(2))




text \<open>
  The window is exact about what it refuses. In a reachable state a frame is refused
  exactly when it lies behind the window start (in the half circle before it) or its
  number is already queued; a refused frame changes neither the queue nor what was
  delivered, every other frame is taken.
\<close>

theorem reorder_refuses_exactly:
  assumes "ro_run mpdu rp rc acc log" "a_qos (rf_attrib f)" "fseq f < 4096"
  shows "recv_indicatepkt_reorder_ctrl mpdu rp rc f = (ret, rp', rc') \<Longrightarrow>
    ret = (if 2048 \<le> sn_dist (win_base rc f) (fseq f) \<or> fseq f \<in> fseq ` set (ro_pending rc)
           then RX_FAIL else RX_HANDLED)
    \<and> (ret = RX_FAIL \<longrightarrow> delivered rc f = [] \<and> ro_pending rc' = ro_pending rc)"
proof -
  assume step: "recv_indicatepkt_reorder_ctrl mpdu rp rc f = (ret, rp', rc')"
  let ?c = "win_base rc f"
  have ok: "win_ok rc" "ro_enable rc"
    using ro_run_inv [OF assms(1)] by (simp_all add: ro_inv_def)
  have lt: "\<forall>g \<in> set (ro_pending rc). fseq g < 4096"
    using win_base_check(3) [OF ok(1) assms(3)] by (simp add: half_window_def)
  have dup: "(fpos ?c f \<in> fpos ?c ` set (ro_pending rc)) = (fseq f \<in> fseq ` set (ro_pending rc))"
    using lt assms(3) sn_dist_inj [of _ _ ?c] by (auto simp: image_iff)
  consider (old) "2048 \<le> fpos ?c f" | (dup) "fpos ?c f \<in> fpos ?c ` set (ro_pending rc)"
    | (new) "fpos ?c f < 2048" "fpos ?c f \<notin> fpos ?c ` set (ro_pending rc)"
    by linarith
  then show ?thesis
  proof cases
    case old
    then show ?thesis
      using step reorder_old [OF ok(1) assms(2) ok(2) assms(3) old] by auto
  next
    case dup': dup
    then show ?thesis
      using step reorder_dup [OF ok(1) assms(2) ok(2) assms(3) dup'] dup by auto
  next
    case new
    from reorder_new [OF ok(1) assms(2) ok(2) assms(3) new] show ?thesis
      using step new dup by auto
  qed
qed

theorem reorder_refuses_exactly_witness:
  "fst (recv_indicatepkt_reorder_ctrl ex_sink ex_recv_priv (ex_ctrl\<lparr>ro_indicate_seq := 1\<rparr>)
      (ex_frame 4095)) = RX_FAIL"
proof -
  obtain ret rp' rc' where step: "recv_indicatepkt_reorder_ctrl ex_sink ex_recv_priv
      (ex_ctrl\<lparr>ro_indicate_seq := 1\<rparr>) (ex_frame 4095) = (ret, rp', rc')"
    by (cases "recv_indicatepkt_reorder_ctrl ex_sink ex_recv_priv
      (ex_ctrl\<lparr>ro_indicate_seq := 1\<rparr>) (ex_frame 4095)") auto
  have "2048 \<le> sn_dist (win_base (ex_ctrl\<lparr>ro_indicate_seq := 1\<rparr>) (ex_frame 4095)) 4095"
    by (simp add: win_base_def ro_take_resets_def ex_ctrl_def sn_dist_def)
  then show ?thesis
    using reorder_refuses_exactly [OF ex_run3 _ _ step] step by simp
qed



text \<open>
  The queue is bounded by the negotiated window: fewer frames are held than the
  window size, hence fewer than 255, all inside the window, sorted without repetition.
\<close>

theorem reorder_queue_bounded:
  assumes "ro_run mpdu rp rc acc log"
  shows "length (ro_pending rc) < unat (ro_wsize_b rc)
    \<and> sorted_wrt (\<lambda>g h. sn_dist (ro_indicate_seq rc) (fseq g) < sn_dist (ro_indicate_seq rc) (fseq h))
        (ro_pending rc)"
proof -
  have ok: "win_ok rc" using ro_run_inv [OF assms] by (simp add: ro_inv_def)
  show ?thesis
  proof (cases "ro_pending rc = []")
    case True
    then show ?thesis using ok u8_pos(2) by (simp add: win_ok_def)
  next
    case False
    then have a: "win_active rc" using ok by (auto simp: win_ok_def win_rest_def)
    let ?p = "fpos (ro_indicate_seq rc)" and ?w = "unat (ro_wsize_b rc)"
    have s: "sorted_pos ?p (ro_pending rc)" using a by (simp add: win_active_def half_window_def)
    then have "sorted_wrt (<) (map ?p (ro_pending rc))"
      by (simp add: sorted_wrt_map)
    then have "distinct (map ?p (ro_pending rc))"
      unfolding strict_sorted_iff by (rule conjunct2)
    then have "length (ro_pending rc) = card (?p ` set (ro_pending rc))"
      by (metis distinct_card length_map set_map)
    also have "\<dots> \<le> card {1..<?w}"
      using a by (intro card_mono) (auto simp: win_active_def Suc_le_eq)
    finally show ?thesis
      using s ok u8_pos(2) [of "ro_wsize_b rc"] by (simp add: win_ok_def)
  qed
qed

theorem reorder_queue_bounded_witness:
  "length [ex_frame 0] < 4"
  using reorder_queue_bounded [OF ex_run2] by (simp add: ex_ctrl_def)


text \<open>
  Queued frames never wait without a timer: whenever a run leaves frames in the
  queue, or the waiting flag set, the reorder timer is pending.
\<close>

theorem reorder_timer_armed:
  assumes "ro_run mpdu rp rc acc log"
  shows "(ro_pending rc = [] \<or> ro_timer rc) \<and> (\<not> ro_waiting rc \<or> ro_timer rc)"
  using ro_run_inv [OF assms] by (auto simp: ro_inv_def timer_ok_def)

theorem reorder_timer_armed_witness:
  "ro_pending (ex_ctrl\<lparr>ro_pending := [ex_frame 0], ro_timer := True\<rparr>) \<noteq> []
   \<and> ro_timer (ex_ctrl\<lparr>ro_indicate_seq := 4095, ro_pending := [ex_frame 0], ro_timer := True,
      ro_waiting := True\<rparr>)"
  using reorder_timer_armed [OF ex_run2] by simp

text \<open>Repeated expiries of the timer, with no frame arriving in between.\<close>

fun timeouts :: "mpdu_fun \<Rightarrow> nat \<Rightarrow> recv_priv \<times> recv_reorder_ctrl \<Rightarrow> recv_priv \<times> recv_reorder_ctrl" where
  "timeouts mpdu 0 s = s"
| "timeouts mpdu (Suc n) (rp, rc) =
     timeouts mpdu n (rtw_reordering_ctrl_timeout_handler mpdu False rp rc)"

lemma timeout_shrinks:
  assumes "win_ok rc" "ro_pending rc \<noteq> []"
  shows "length (ro_pending (snd (rtw_reordering_ctrl_timeout_handler mpdu False rp rc)))
    < length (ro_pending rc)"
proof -
  have a: "win_active rc" using assms by (auto simp: win_ok_def win_rest_def)
  obtain ds ind r rp0 where run: "pos_run (fpos (ro_indicate_seq rc))
      (fpos (ro_indicate_seq rc) (hd (ro_pending rc))) (ro_pending rc) = (ds, sn_dist (ro_indicate_seq rc) ind, r)"
    and res: "rtw_reordering_ctrl_timeout_handler mpdu False rp rc = (fold (consume mpdu) ds rp0,
        rc\<lparr>ro_indicate_seq := ind, ro_pending := r, ro_waiting := False, ro_timer := (r \<noteq> [])\<rparr>)"
    using timeout_queued [OF a assms(2)] by blast
  show ?thesis
    using pos_run_head(2) [OF run assms(2)] by (simp add: res)
qed

lemma timeouts_drain:
  "ro_inv rc log \<Longrightarrow> length (ro_pending rc) \<le> n \<Longrightarrow>
     ro_pending (snd (timeouts mpdu n (rp, rc))) = []"
proof (induction n arbitrary: rp rc log)
  case (Suc n)
  obtain rp' rc' where step: "rtw_reordering_ctrl_timeout_handler mpdu False rp rc = (rp', rc')"
    by (cases "rtw_reordering_ctrl_timeout_handler mpdu False rp rc") auto
  have "ro_inv rc' (log @ timeout_delivered rc)"
    using ro_inv_timeout [OF Suc(2), of mpdu rp] by (simp add: step)
  moreover have "length (ro_pending rc') \<le> n"
  proof (cases "ro_pending rc = []")
    case True
    then show ?thesis using step by (auto simp: timeout_empty)
  next
    case False
    then show ?thesis
      using timeout_shrinks [of rc mpdu rp] Suc(2,3) by (simp add: step ro_inv_def)
  qed
  ultimately show ?case
    using Suc(1) by (simp add: step)
qed simp

text \<open>
  C4. Frames held behind a gap are released: from any reachable state, as many timer
  expiries as there are queued frames empty the queue, whatever was lost in between.
\<close>

theorem reorder_timeouts_release:
  assumes "ro_run mpdu rp rc acc log"
  shows "ro_pending (snd (timeouts mpdu (length (ro_pending rc)) (rp, rc))) = []"
  using ro_run_inv [OF assms] by (rule timeouts_drain) simp

theorem reorder_timeouts_release_witness:
  "ro_pending (snd (timeouts ex_sink 1 (ex_recv_priv, ex_ctrl\<lparr>ro_indicate_seq := 4095,
     ro_pending := [ex_frame 0], ro_timer := True, ro_waiting := True\<rparr>))) = []"
  using reorder_timeouts_release [OF ex_run2] by simp

text \<open>
  The timer never stops on its own. Once the queue is empty every expiry reports
  "a packet is in the buffer" and arms the timer again: after any number of expiries it
  is still pending, until a frame arrives and cancels it.
\<close>

theorem idle_reorder_timer_rearmed:
  "ro_pending rc = [] \<Longrightarrow> ro_timer rc \<Longrightarrow>
     ro_timer (snd (timeouts mpdu n (rp, rc)))
     \<and> ro_pending (snd (timeouts mpdu n (rp, rc))) = []"
  by (induction n arbitrary: rp rc) (simp_all add: timeout_empty)

theorem idle_reorder_timer_rearmed_witness:
  "ro_timer (snd (timeouts ex_sink 1000 (ex_recv_priv, ex_ctrl\<lparr>ro_timer := True\<rparr>)))"
  using idle_reorder_timer_rearmed [of "ex_ctrl\<lparr>ro_timer := True\<rparr>" ex_sink 1000 ex_recv_priv]
  by (simp add: ex_ctrl_def)

text \<open>
  C3. The code refines the abstract window on unwrapped positions. For a frame the
  window takes, with positions counted from the window start, the queue after the step
  is what is left of the abstract run over the abstract insertion, the frames consumed
  are the ones that run hands up, in its order, and the new start is its end point.
\<close>

theorem reorder_refines_window:
  assumes "win_ok rc" "a_qos (rf_attrib f)" "ro_enable rc" "fseq f < 4096"
    "sn_dist (win_base rc f) (fseq f) < 2048" "fseq f \<notin> fseq ` set (ro_pending rc)"
  shows "\<exists>q ds r rp0 rc'.
      pos_insert (fpos (win_base rc f)) (ro_pending rc) f = Some q
    \<and> recv_indicatepkt_reorder_ctrl mpdu rp rc f = (RX_HANDLED, fold (consume mpdu) ds rp0, rc')
    \<and> pos_run (fpos (win_base rc f))
        (next_start (unat (ro_wsize_b rc)) (fpos (win_base rc f) f)) q
        = (ds, sn_dist (win_base rc f) (ro_indicate_seq rc'), ro_pending rc')"
proof -
  let ?c = "win_base rc f"
  have "half_window ?c (ro_pending rc)" by (rule win_base_check(3) [OF assms(1,4)])
  then have "fpos ?c f \<notin> fpos ?c ` set (ro_pending rc)"
    using assms(4,6) sn_dist_inj [of _ _ ?c] by (auto simp: image_iff half_window_def)
  from reorder_new [OF assms(1-5) this] obtain q ds ind' r rp0 rc' where
    "pos_insert (fpos ?c) (ro_pending rc) f = Some q"
    "pos_run (fpos ?c) (next_start (unat (ro_wsize_b rc)) (fpos ?c f)) q
        = (ds, sn_dist ?c ind', r)"
    "recv_indicatepkt_reorder_ctrl mpdu rp rc f = (RX_HANDLED, fold (consume mpdu) ds rp0, rc')"
    "ro_indicate_seq rc' = ind'" "ro_pending rc' = r"
    by auto
  then show ?thesis by blast
qed

theorem reorder_refines_window_witness:
  "\<exists>q ds r rp0 rc'.
      pos_insert (fpos (win_base ex_ctrl (ex_frame 9))) (ro_pending ex_ctrl) (ex_frame 9) = Some q
    \<and> recv_indicatepkt_reorder_ctrl ex_sink ex_recv_priv ex_ctrl (ex_frame 9)
        = (RX_HANDLED, fold (consume ex_sink) ds rp0, rc')
    \<and> pos_run (fpos (win_base ex_ctrl (ex_frame 9)))
        (next_start (unat (ro_wsize_b ex_ctrl)) (fpos (win_base ex_ctrl (ex_frame 9)) (ex_frame 9))) q
        = (ds, sn_dist (win_base ex_ctrl (ex_frame 9)) (ro_indicate_seq rc'), ro_pending rc')"
  by (rule reorder_refines_window)
    (simp_all add: win_ok_def win_rest_def ex_ctrl_def win_base_def ro_take_resets_def)

end
