(* ===== verification/Rx_Defrag.thy ===== *)
theory Rx_Defrag
  imports Sec_Tkip Rx_Dedup Rx_Reorder
begin

text \<open>
  Reassembly of fragmented frames: \<^verbatim>\<open>recvframe_defrag\<close>, \<^verbatim>\<open>recvframe_chk_defrag\<close> and the
  Michael check \<^verbatim>\<open>recvframe_chkmic\<close> that follows it (\<^verbatim>\<open>core/rtw_recv.c\<close>). The lemmas show
  that a reassembled frame is the concatenation of the fragments' bodies, that it was
  put together only from fragments with consecutive numbers, one key and (for CCMP and
  GCMP) consecutive packet numbers, and that no frame leaves the pool for good.
\<close>

section \<open>Reassembly\<close>

definition ccmp_or_gcmp :: "u8 \<Rightarrow> bool" where
  "ccmp_or_gcmp enc \<longleftrightarrow> enc = SEC_AES \<or> enc = SEC_CCMP_256 \<or> enc = SEC_GCMP \<or> enc = SEC_GCMP_256"

text \<open>The packet number read from the CCMP or GCMP header of a fragment.\<close>

definition hdr_pn :: "recv_frame \<Rightarrow> u64" where
  "hdr_pn f = ccmph_2_pn (le64_at (rx_bytes f (a_hdrlen (rf_attrib f)) 8) 0)"

text \<open>\<^verbatim>\<open>wlanhdr_offset\<close> is a \<^verbatim>\<open>u8\<close>.\<close>

definition wlanhdr_offset :: "recv_frame \<Rightarrow> nat" where
  "wlanhdr_offset f = (a_hdrlen (rf_attrib f) + a_iv_len (rf_attrib f)) mod 256"

text \<open>The copy of one fragment behind the first: pull the ICV, copy, put.\<close>

definition defrag_append :: "recv_frame \<Rightarrow> recv_frame \<Rightarrow> recv_frame" where
  "defrag_append pr g =
     (let pr1 = or_same pr (recvframe_pull_tail pr (int (a_icv_len (rf_attrib pr))));
          pr2 = pr1\<lparr>rf_buf := put_bytes (rf_buf pr1) (nat (rf_tail pr1)) (frame_bytes g)\<rparr>;
          pr3 = or_same pr2 (recvframe_put pr2 (rf_len g))
      in pr3\<lparr>rf_attrib := (rf_attrib pr3)\<lparr>a_icv_len := a_icv_len (rf_attrib g)\<rparr>\<rparr>)"

text \<open>
  The loop over the fragments after the first. The result says whether every fragment was
  taken, and gives the first frame and the fragments, as they are when the queue is freed.
\<close>

fun defrag_loop :: "recv_frame \<Rightarrow> u8 \<Rightarrow> u64 \<Rightarrow> recv_frame list \<Rightarrow> bool \<times> recv_frame \<times> recv_frame list" where
  "defrag_loop pr curfragnum cur_pn [] = (True, pr, [])"
| "defrag_loop pr curfragnum cur_pn (g # gs) =
     (let enc = ccmp_or_gcmp (a_encrypt (rf_attrib g));
          cur_pn' = (if enc then hdr_pn g else cur_pn);
          g' = or_same g (recvframe_pull g (int (wlanhdr_offset g)))
      in if enc \<and> hdr_pn g \<noteq> cur_pn + 1 then (False, pr, g # gs)
         else if rf_keytrack pr \<noteq> rf_keytrack g then (False, pr, g # gs)
         else if curfragnum \<noteq> a_frag_num (rf_attrib g) then (False, pr, g # gs)
         else if rf_end pr - rf_tail pr < rf_len g' then (False, pr, g' # gs)
         else
           let (ok, p, q) = defrag_loop (defrag_append pr g') (curfragnum + 1) cur_pn' gs
           in (ok, p, g' # q))"

text \<open>The queue is empty when \<^verbatim>\<open>recvframe_defrag\<close> returns, on every path.\<close>

definition recvframe_defrag :: "recv_priv \<Rightarrow> recv_frame list \<Rightarrow> recv_frame option \<times> recv_priv" where
  "recvframe_defrag rp defrag_q =
     (case defrag_q of
        [] \<Rightarrow> (None, rp)
      | pr # gs \<Rightarrow>
          let cur_pn = (if ccmp_or_gcmp (a_encrypt (rf_attrib pr)) then hdr_pn pr else 0)
          in if a_frag_num (rf_attrib pr) \<noteq> 0
             then (None, rtw_free_recvframe_queue gs (rtw_free_recvframe pr rp))
             else
               let (ok, p, q) = defrag_loop pr 1 cur_pn gs
               in if ok then (Some p, rtw_free_recvframe_queue q rp)
                  else (None, rtw_free_recvframe_queue q (rtw_free_recvframe p rp)))"

section \<open>The Michael check\<close>

text \<open>
  \<^verbatim>\<open>recvframe_chkmic\<close>: verdict, the frame without its MIC, whether
  \<^verbatim>\<open>rtw_handle_tkip_mic_err\<close> (the countermeasures) is called, and the security context.
  \<open>None\<close>: the frame is shorter than its headers, ICV and MIC, so the payload length wraps
  around as a \<^verbatim>\<open>u32\<close> and the MIC is computed past the end of the buffer.
\<close>

definition recvframe_chkmic ::
  "adapter \<Rightarrow> recv_frame \<Rightarrow> (rx_ret \<times> recv_frame \<times> bool \<times> security_priv) option" where
  "recvframe_chkmic ad f =
     (let attr = rf_attrib f; sec = ad_sec ad; mc = is_mcast (a_ra attr);
          f' = or_same f (recvframe_pull_tail f 8)
      in if a_encrypt attr \<noteq> SEC_TKIP then Some (RX_SUCCESS, f, False, sec)
         else case rtw_get_stainfo ad (a_ta attr) of
           None \<Rightarrow> Some (RX_SUCCESS, f', False, sec)
         | Some sta \<Rightarrow>
             if mc \<and> \<not> sec_binstall_grpkey sec then Some (RX_FAIL, f, False, sec)
             else
               let mickey = (if mc then sec_grp_rxmickey sec ! a_key_index attr else sta_tkiprxmickey sta);
                   datalen = rf_len f - int (a_hdrlen attr) - int (a_iv_len attr) - int (a_icv_len attr) - 8;
                   off = a_hdrlen attr + a_iv_len attr;
                   miccode = rtw_seccalctkipmic mickey (rx_bytes f 0 30) (rx_bytes f off (nat datalen))
                     (of_nat (a_priority attr));
                   bmic_err = (miccode \<noteq> rx_bytes f (off + nat datalen) 8);
                   brpt = \<not> (mc \<and> a_key_index attr \<noteq> ad_mlme_key_index ad)
               in if datalen < 0 then None
                  else if bmic_err then Some (RX_FAIL, f', a_bdecrypted attr \<and> brpt, sec)
                  else Some (RX_SUCCESS, f', False,
                         if \<not> sec_bcheck_grpkey sec \<and> mc then sec\<lparr>sec_bcheck_grpkey := True\<rparr> else sec))"

section \<open>Queueing of fragments\<close>

definition frame_fc :: "recv_frame \<Rightarrow> u16" where
  "frame_fc f = le16_at (rx_bytes f 0 2) 0"

definition frame_is_data :: "recv_frame \<Rightarrow> bool" where
  "frame_is_data f \<longleftrightarrow> frame_fc f AND 0x0c = 0x08"

text \<open>
  The station whose \<^verbatim>\<open>defrag_q\<close> is used, by the address it is stored under: the
  transmitter, or the broadcast station for a frame of another type from an unknown one.
\<close>

definition defrag_sta :: "adapter \<Rightarrow> recv_frame \<Rightarrow> mac option" where
  "defrag_sta ad f =
     (let ta = a_ta (rf_attrib f) in
      if rtw_get_stainfo ad ta \<noteq> None then Some (if is_mcast ta then bc_addr else ta)
      else if \<not> frame_is_data f \<and> rtw_get_stainfo ad bc_addr \<noteq> None then Some bc_addr
      else None)"

definition defrag_q_of :: "adapter \<Rightarrow> mac \<Rightarrow> recv_frame list" where
  "defrag_q_of ad addr = (case ad_stapriv ad addr of None \<Rightarrow> [] | Some sta \<Rightarrow> sta_defrag_q sta)"

definition set_defrag_q :: "mac \<Rightarrow> recv_frame list \<Rightarrow> adapter \<Rightarrow> adapter" where
  "set_defrag_q addr q ad = sta_update addr (\<lambda>sta. sta\<lparr>sta_defrag_q := q\<rparr>) ad"

definition ad_free :: "recv_frame \<Rightarrow> adapter \<Rightarrow> adapter" where
  "ad_free f ad = ad\<lparr>ad_recv := rtw_free_recvframe f (ad_recv ad)\<rparr>"

text \<open>The part of \<^verbatim>\<open>recvframe_chk_defrag\<close> before the Michael check.\<close>

definition chk_defrag_queue :: "adapter \<Rightarrow> recv_frame \<Rightarrow> recv_frame option \<times> adapter" where
  "chk_defrag_queue ad f0 =
     (let mfrag = a_mfrag (rf_attrib f0); fragnum = a_frag_num (rf_attrib f0); dq = defrag_sta ad f0 in
      if \<not> mfrag \<and> fragnum = 0 then (Some f0, ad)
      else if is_mcast (a_ra (rf_attrib f0)) then (None, ad_free f0 ad)
      else case dq of
        None \<Rightarrow> (None, ad_free f0 ad)
      | Some addr \<Rightarrow>
          let f = (case ad_stapriv ad addr of None \<Rightarrow> f0 | Some sta \<Rightarrow> f0\<lparr>rf_keytrack := sta_keytrack sta\<rparr>);
              q = defrag_q_of ad addr
          in if mfrag then
               if fragnum = 0 then
                 (None, set_defrag_q addr [f] (ad\<lparr>ad_recv := rtw_free_recvframe_queue q (ad_recv ad)\<rparr>))
               else (None, set_defrag_q addr (q @ [f]) ad)
             else
               let (p, rp) = recvframe_defrag (ad_recv ad) (q @ [f])
               in (p, set_defrag_q addr [] (ad\<lparr>ad_recv := rp\<rparr>)))"

definition recvframe_chk_defrag :: "adapter \<Rightarrow> recv_frame \<Rightarrow> (recv_frame option \<times> adapter) option" where
  "recvframe_chk_defrag ad f =
     (case chk_defrag_queue ad f of
        (None, ad') \<Rightarrow> Some (None, ad')
      | (Some p, ad') \<Rightarrow>
          if a_privacy (rf_attrib p) then
            (case recvframe_chkmic ad' p of
               None \<Rightarrow> None
             | Some (ret, p', _, sec) \<Rightarrow>
                 let ad'' = ad'\<lparr>ad_sec := sec\<rparr>
                 in if ret = RX_FAIL then Some (None, ad_free p' ad'') else Some (Some p', ad''))
          else Some (Some p, ad'))"


section \<open>Frames are conserved\<close>

lemma defrag_append_id [simp]: "rf_id (defrag_append pr g) = rf_id pr"
  by (simp add: defrag_append_def Let_def)

lemma or_same_keytrack [simp]:
  "rf_keytrack (or_same f (recvframe_pull f sz)) = rf_keytrack f"
  "rf_keytrack (or_same f (recvframe_put f sz)) = rf_keytrack f"
  "rf_keytrack (or_same f (recvframe_pull_tail f sz)) = rf_keytrack f"
  by (simp_all add: or_same_def recvframe_pull_def recvframe_put_def recvframe_pull_tail_def)

lemma defrag_append_keytrack [simp]: "rf_keytrack (defrag_append pr g) = rf_keytrack pr"
  by (simp add: defrag_append_def Let_def)

text \<open>One iteration: what the loop returns is either the rest untouched, or the recursive
  result for the frame appended to.\<close>

lemma defrag_loop_Cons:
  assumes "defrag_loop pr n pn (g # gs) = (ok, p, q)"
  obtains (stop) g' where "\<not> ok" "p = pr" "q = g' # gs" "rf_id g' = rf_id g"
  | (step) q0 g' where "g' = or_same g (recvframe_pull g (int (wlanhdr_offset g)))"
      "defrag_loop (defrag_append pr g') (n + 1)
         (if ccmp_or_gcmp (a_encrypt (rf_attrib g)) then hdr_pn g else pn) gs = (ok, p, q0)"
      "q = g' # q0" "rf_keytrack g = rf_keytrack pr" "a_frag_num (rf_attrib g) = n"
      "ccmp_or_gcmp (a_encrypt (rf_attrib g)) \<Longrightarrow> hdr_pn g = pn + 1"
      "rf_len g' \<le> rf_end pr - rf_tail pr"
proof -
  define g' where "g' = or_same g (recvframe_pull g (int (wlanhdr_offset g)))"
  define pn' where "pn' = (if ccmp_or_gcmp (a_encrypt (rf_attrib g)) then hdr_pn g else pn)"
  define bad where "bad \<longleftrightarrow> ccmp_or_gcmp (a_encrypt (rf_attrib g)) \<and> hdr_pn g \<noteq> pn + 1"
  have eq: "defrag_loop pr n pn (g # gs) =
     (if bad then (False, pr, g # gs)
      else if rf_keytrack pr \<noteq> rf_keytrack g then (False, pr, g # gs)
      else if n \<noteq> a_frag_num (rf_attrib g) then (False, pr, g # gs)
      else if rf_end pr - rf_tail pr < rf_len g' then (False, pr, g' # gs)
      else let (ok, p, q) = defrag_loop (defrag_append pr g') (n + 1) pn' gs in (ok, p, g' # q))"
    by (simp only: defrag_loop.simps Let_def g'_def pn'_def bad_def)
  show ?thesis
  proof (cases "bad \<or> rf_keytrack pr \<noteq> rf_keytrack g \<or> n \<noteq> a_frag_num (rf_attrib g)
      \<or> rf_end pr - rf_tail pr < rf_len g'")
    case True
    then have "(ok, p, q) = (False, pr, g # gs) \<or> (ok, p, q) = (False, pr, g' # gs)"
      using assms unfolding eq by (auto split: if_splits)
    then show ?thesis
      by (elim disjE) (auto intro: stop simp: g'_def)
  next
    case False
    obtain ok0 p0 q0 where rec: "defrag_loop (defrag_append pr g') (n + 1) pn' gs = (ok0, p0, q0)"
      by (cases "defrag_loop (defrag_append pr g') (n + 1) pn' gs") auto
    show ?thesis
    proof (rule step [of g' q0])
      show "g' = or_same g (recvframe_pull g (int (wlanhdr_offset g)))" by (rule g'_def)
      show "defrag_loop (defrag_append pr g') (n + 1)
         (if ccmp_or_gcmp (a_encrypt (rf_attrib g)) then hdr_pn g else pn) gs = (ok, p, q0)"
        "q = g' # q0"
        using assms False rec unfolding eq pn'_def [symmetric] by simp_all
    qed (use False bad_def in auto)
  qed
qed

lemma defrag_loop_ids:
  "defrag_loop pr n pn gs = (ok, p, q) \<Longrightarrow> rf_id p = rf_id pr \<and> frame_ids q = frame_ids gs"
proof (induction gs arbitrary: pr n pn ok p q)
  case (Cons g gs)
  from Cons(2) show ?case
  proof (cases rule: defrag_loop_Cons)
    case (stop g')
    then show ?thesis by simp
  next
    case (step q0 g')
    from Cons(1) [OF step(2)] show ?thesis
      by (simp add: step(1,3))
  qed
qed simp

lemma recvframe_defrag_ids:
  assumes "recvframe_defrag rp q = (res, rp')"
  shows "pool_ids rp' + (case res of None \<Rightarrow> {#} | Some p \<Rightarrow> {#rf_id p#}) = pool_ids rp + frame_ids q"
  using assms
  by (auto simp: recvframe_defrag_def Let_def ac_simps dest!: defrag_loop_ids
      split: list.splits if_splits prod.splits)

text \<open>All frames an adapter holds: its pool and the fragment queue of one station.\<close>

lemma chk_defrag_queue_ids:
  assumes "chk_defrag_queue ad f = (res, ad')" "addr = the (defrag_sta ad f)"
    "defrag_sta ad f \<noteq> None"
  shows "pool_ids (ad_recv ad') + frame_ids (defrag_q_of ad' addr)
      + (case res of None \<Rightarrow> {#} | Some p \<Rightarrow> {#rf_id p#})
    = pool_ids (ad_recv ad) + frame_ids (defrag_q_of ad addr) + {#rf_id f#}"
proof -
  obtain sta where sta: "ad_stapriv ad addr = Some sta"
    using assms(2,3)
    by (auto simp: defrag_sta_def rtw_get_stainfo_def bc_addr_def is_mcast_def byte_at_def Let_def
        split: if_splits)
  have q [simp]: "defrag_q_of (set_defrag_q addr r (ad\<lparr>ad_recv := rp\<rparr>)) addr = r"
    "defrag_q_of (set_defrag_q addr r ad) addr = r" "defrag_q_of (ad_free g ad) addr = defrag_q_of ad addr"
    "ad_recv (set_defrag_q addr r ad) = ad_recv ad" for r rp g
    using sta by (simp_all add: defrag_q_of_def set_defrag_q_def sta_update_def ad_free_def)
  have q3 [simp]: "defrag_q_of (ad\<lparr>ad_recv := rp\<rparr>) addr = defrag_q_of ad addr" for rp
    by (simp add: defrag_q_of_def)
  have q2 [simp]: "ad_recv (set_defrag_q addr r a) = ad_recv a" for r a
    by (simp add: set_defrag_q_def sta_update_def)
  show ?thesis
    using assms sta
    by (auto simp: chk_defrag_queue_def Let_def ad_free_def ac_simps dest!: recvframe_defrag_ids
        split: if_splits prod.splits)
qed

section \<open>What the loop checks\<close>

lemma defrag_loop_checks:
  assumes "defrag_loop pr n pn gs = (True, p, q)" "\<forall>g \<in> set gs. ccmp_or_gcmp (a_encrypt (rf_attrib g)) = enc"
  shows "\<forall>i < length gs. a_frag_num (rf_attrib (gs ! i)) = n + of_nat i
     \<and> rf_keytrack (gs ! i) = rf_keytrack pr \<and> (enc \<longrightarrow> hdr_pn (gs ! i) = pn + of_nat (Suc i))"
  using assms
proof (induction gs arbitrary: pr n pn p q)
  case (Cons g gs)
  have enc: "ccmp_or_gcmp (a_encrypt (rf_attrib g)) = enc" using Cons(3) by simp
  from Cons(2) obtain q0 g' where step: "defrag_loop (defrag_append pr g') (n + 1)
      (if enc then hdr_pn g else pn) gs = (True, p, q0)"
    and g: "enc \<longrightarrow> hdr_pn g = pn + 1" "rf_keytrack g = rf_keytrack pr" "a_frag_num (rf_attrib g) = n"
    by (cases rule: defrag_loop_Cons) (auto simp: enc)
  have ih: "\<forall>i < length gs. a_frag_num (rf_attrib (gs ! i)) = n + 1 + of_nat i
     \<and> rf_keytrack (gs ! i) = rf_keytrack pr
     \<and> (enc \<longrightarrow> hdr_pn (gs ! i) = hdr_pn g + of_nat (Suc i))"
    using Cons(1) [OF step] Cons(3) by auto
  show ?case
  proof (intro allI impI)
    fix i assume "i < length (g # gs)"
    then show "a_frag_num (rf_attrib ((g # gs) ! i)) = n + of_nat i
       \<and> rf_keytrack ((g # gs) ! i) = rf_keytrack pr
       \<and> (enc \<longrightarrow> hdr_pn ((g # gs) ! i) = pn + of_nat (Suc i))"
      using g ih by (cases i) (auto simp: algebra_simps)
  qed
qed simp

section \<open>What reassembly produces\<close>

text \<open>The body of a fragment, and the reference: bodies concatenated, each but the last
  without its ICV.\<close>

definition frag_body :: "recv_frame \<Rightarrow> u8 list" where
  "frag_body f = drop (wlanhdr_offset f) (frame_bytes f)"

fun reassemble :: "u8 list \<Rightarrow> nat \<Rightarrow> recv_frame list \<Rightarrow> u8 list" where
  "reassemble acc icv [] = acc"
| "reassemble acc icv (g # gs) =
     reassemble (take (length acc - icv) acc @ frag_body g) (a_icv_len (rf_attrib g)) gs"

lemma frame_bytes_eq:
  "frame_wf f \<Longrightarrow> frame_bytes f = take (nat (rf_len f)) (drop (nat (rf_data f)) (rf_buf f))"
  unfolding frame_bytes_def rx_bytes_def frame_wf_def
  by (subst bytes_at_inside) (auto simp: nat_le_iff)

lemma length_frame_bytes [simp]: "length (frame_bytes f) = nat (rf_len f)"
  by (simp add: frame_bytes_def rx_bytes_def)

lemma pulled_bytes:
  assumes "frame_wf g" "int n \<le> rf_len g" "g' = or_same g (recvframe_pull g (int n))"
  shows "frame_wf g'" "frame_bytes g' = drop n (frame_bytes g)" "rf_len g' = rf_len g - int n"
    "rf_attrib g' = rf_attrib g"
proof -
  have g': "g' = g\<lparr>rf_data := rf_data g + int n, rf_len := rf_len g - int n\<rparr>"
    using assms by (auto simp: recvframe_pull_def or_same_def frame_wf_def)
  show wf: "frame_wf g'" using assms(1,2) by (auto simp: g' frame_wf_def)
  have "nat (rf_data g + int n) = nat (rf_data g) + n"
    using assms(1) by (auto simp: frame_wf_def nat_add_distrib)
  moreover have "nat (rf_len g - int n) = nat (rf_len g) - n"
    using assms(2) by (simp add: nat_diff_distrib)
  ultimately show "frame_bytes g' = drop n (frame_bytes g)"
    unfolding frame_bytes_eq [OF wf] frame_bytes_eq [OF assms(1)]
    by (simp add: g' drop_take add.commute)
  show "rf_len g' = rf_len g - int n" "rf_attrib g' = rf_attrib g" by (simp_all add: g')
qed


lemma defrag_append_bytes:
  assumes pr: "frame_wf pr" "int (a_icv_len (rf_attrib pr)) \<le> rf_len pr"
    and g: "0 \<le> rf_len g" "rf_len g \<le> rf_end pr - rf_tail pr"
  defines "r \<equiv> defrag_append pr g"
  shows "frame_wf r"
    and "frame_bytes r = take (nat (rf_len pr) - a_icv_len (rf_attrib pr)) (frame_bytes pr) @ frame_bytes g"
    and "a_icv_len (rf_attrib r) = a_icv_len (rf_attrib g)"
    and "rf_len r = rf_len pr - int (a_icv_len (rf_attrib pr)) + rf_len g"
    and "length (rf_buf r) = length (rf_buf pr)"
proof -
  let ?icv = "int (a_icv_len (rf_attrib pr))"
  define buf where "buf = put_bytes (rf_buf pr) (nat (rf_tail pr - ?icv)) (frame_bytes g)"
  have r: "r = pr\<lparr>rf_buf := buf, rf_tail := rf_tail pr - ?icv + rf_len g,
      rf_len := rf_len pr - ?icv + rf_len g,
      rf_attrib := (rf_attrib pr)\<lparr>a_icv_len := a_icv_len (rf_attrib g)\<rparr>\<rparr>"
    using assms(1-4)
    by (auto simp: r_def defrag_append_def Let_def recvframe_pull_tail_def recvframe_put_def
        or_same_def frame_wf_def buf_def)
  show wf: "frame_wf r"
    using assms(1-4) by (auto simp: r frame_wf_def buf_def)
  define d m k where "d = nat (rf_data pr)" and "m = nat (rf_len pr) - a_icv_len (rf_attrib pr)"
    and "k = nat (rf_len g)"
  have arith: "nat (rf_tail pr - ?icv) = d + m" "nat (rf_len pr - ?icv + rf_len g) = m + k"
    "d + m + k \<le> length (rf_buf pr)" "m \<le> nat (rf_len pr)"
    using assms(1-4) by (auto simp: frame_wf_def d_def m_def k_def)
  have "frame_bytes r = bytes_at buf d m @ bytes_at buf (d + m) k"
    by (simp add: frame_bytes_def rx_bytes_def r arith bytes_at_append flip: d_def)
  also have "bytes_at buf d m = bytes_at (rf_buf pr) d m"
    by (simp add: buf_def arith bytes_at_put_bytes_outside)
  also have "\<dots> = take m (frame_bytes pr)"
  proof -
    have "nat (rf_len pr) = m + (nat (rf_len pr) - m)" using arith(4) by simp
    then have "frame_bytes pr = bytes_at (rf_buf pr) d m @ bytes_at (rf_buf pr) (d + m) (nat (rf_len pr) - m)"
      unfolding frame_bytes_def rx_bytes_def d_def [symmetric]
      by (metis add_0_right bytes_at_append)
    then show ?thesis by simp
  qed
  also have "bytes_at buf (d + m) k = frame_bytes g"
    using bytes_at_put_bytes_same [of "d + m" "frame_bytes g" "rf_buf pr"] arith(3)
    by (simp add: buf_def arith(1) k_def)
  finally show "frame_bytes r = take (nat (rf_len pr) - a_icv_len (rf_attrib pr)) (frame_bytes pr)
      @ frame_bytes g"
    by (simp add: m_def)
  show "a_icv_len (rf_attrib r) = a_icv_len (rf_attrib g)"
    "rf_len r = rf_len pr - ?icv + rf_len g" "length (rf_buf r) = length (rf_buf pr)"
    by (simp_all add: r buf_def)
qed

definition frag_ok :: "recv_frame \<Rightarrow> bool" where
  "frag_ok g \<longleftrightarrow> frame_wf g \<and> int (wlanhdr_offset g) + int (a_icv_len (rf_attrib g)) \<le> rf_len g"

lemma defrag_loop_content:
  assumes "defrag_loop pr n pn gs = (True, p, q)" "frame_wf pr"
    "int (a_icv_len (rf_attrib pr)) \<le> rf_len pr" "\<forall>g \<in> set gs. frag_ok g"
  shows "frame_wf p \<and> length (rf_buf p) = length (rf_buf pr)
    \<and> frame_bytes p = reassemble (frame_bytes pr) (a_icv_len (rf_attrib pr)) gs"
  using assms
proof (induction gs arbitrary: pr n pn p q)
  case (Cons g gs)
  from Cons(2) obtain q0 g' where g': "g' = or_same g (recvframe_pull g (int (wlanhdr_offset g)))"
    and step: "defrag_loop (defrag_append pr g') (n + 1)
      (if ccmp_or_gcmp (a_encrypt (rf_attrib g)) then hdr_pn g else pn) gs = (True, p, q0)"
    and room: "rf_len g' \<le> rf_end pr - rf_tail pr"
    by (cases rule: defrag_loop_Cons) auto
  have ok: "frame_wf g" "int (wlanhdr_offset g) \<le> rf_len g"
    "int (wlanhdr_offset g) + int (a_icv_len (rf_attrib g)) \<le> rf_len g"
    using Cons(5) by (auto simp: frag_ok_def)
  note pb = pulled_bytes [OF ok(1,2) g']
  have "0 \<le> rf_len g'" using ok(2) pb(3) by simp
  note ap = defrag_append_bytes [OF Cons(3,4) this room]
  have "int (a_icv_len (rf_attrib (defrag_append pr g'))) \<le> rf_len (defrag_append pr g')"
    using ap(3,4) pb(3,4) ok(3) Cons(4) by simp
  note ih = Cons(1) [OF step ap(1) this]
  have "frame_bytes (defrag_append pr g')
      = take (length (frame_bytes pr) - a_icv_len (rf_attrib pr)) (frame_bytes pr) @ frag_body g"
    using ap(2) pb(2) by (simp add: frag_body_def)
  then show ?case
    using ih Cons(5) ap(3,5) pb(4) by simp
qed simp

section \<open>Properties\<close>

text \<open>
  C10. Reassembly is concatenation: when \<^verbatim>\<open>recvframe_defrag\<close> returns a frame, its bytes are
  the first fragment followed by the bodies of the others in order, every fragment but
  the last without its ICV, and its buffer pointers are in order inside the buffer of the
  first fragment (no copy ran past its end).
\<close>

theorem defrag_concatenates:
  assumes "recvframe_defrag rp (pr # gs) = (Some p, rp')" "\<forall>g \<in> set (pr # gs). frag_ok g"
  shows "frame_bytes p = reassemble (frame_bytes pr) (a_icv_len (rf_attrib pr)) gs
    \<and> frame_wf p \<and> length (rf_buf p) = length (rf_buf pr) \<and> rf_id p = rf_id pr"
proof -
  obtain pn q where loop: "defrag_loop pr 1 pn gs = (True, p, q)"
    using assms(1) by (auto simp: recvframe_defrag_def Let_def split: if_splits prod.splits)
  have "frame_wf pr" "int (a_icv_len (rf_attrib pr)) \<le> rf_len pr"
    using assms(2) by (auto simp: frag_ok_def)
  then show ?thesis
    using defrag_loop_content [OF loop] defrag_loop_ids [OF loop] assms(2) by simp
qed

text \<open>
  Fragments are combined only when they belong together: a reassembled frame comes
  from fragments numbered 0, 1, 2, ..., all received under one key, and, when they are
  all CCMP or GCMP protected, with packet numbers that follow one another without a gap
  (the checks against CVE-2020-24587 and CVE-2020-26146).
\<close>

theorem defrag_only_consecutive:
  assumes "recvframe_defrag rp (pr # gs) = (Some p, rp')"
    "\<forall>g \<in> set (pr # gs). ccmp_or_gcmp (a_encrypt (rf_attrib g)) = enc"
  shows "\<forall>i < length (pr # gs). a_frag_num (rf_attrib ((pr # gs) ! i)) = of_nat i
    \<and> rf_keytrack ((pr # gs) ! i) = rf_keytrack pr
    \<and> (enc \<longrightarrow> hdr_pn ((pr # gs) ! i) = hdr_pn pr + of_nat i)"
proof -
  obtain q where loop: "defrag_loop pr 1 (if enc then hdr_pn pr else 0) gs = (True, p, q)"
    and first: "a_frag_num (rf_attrib pr) = 0"
    using assms by (auto simp: recvframe_defrag_def Let_def split: if_splits prod.splits)
  have "\<forall>g \<in> set gs. ccmp_or_gcmp (a_encrypt (rf_attrib g)) = enc" using assms(2) by simp
  note c = defrag_loop_checks [OF loop this]
  show ?thesis
  proof (intro allI impI)
    fix i assume "i < length (pr # gs)"
    then show "a_frag_num (rf_attrib ((pr # gs) ! i)) = of_nat i
      \<and> rf_keytrack ((pr # gs) ! i) = rf_keytrack pr
      \<and> (enc \<longrightarrow> hdr_pn ((pr # gs) ! i) = hdr_pn pr + of_nat i)"
      using c first by (cases i) auto
  qed
qed

text \<open>Two fragments for the witnesses: four bytes of header and IV, then a body and an ICV byte.\<close>

definition ex_frag :: "u8 \<Rightarrow> bool \<Rightarrow> u8 list \<Rightarrow> recv_frame" where
  "ex_frag n mf bs = \<lparr>rf_id = unat n, rf_adapter = 0,
     rf_attrib = dd_attrib\<lparr>a_frag_num := n, a_mfrag := mf, a_encrypt := SEC_WEP40, a_hdrlen := 2,
       a_iv_len := 2, a_icv_len := 1, a_privacy := False\<rparr>,
     rf_pkt = None, rf_len = int (length bs), rf_buf = bs @ replicate 8 0, rf_data = 0,
     rf_tail = int (length bs), rf_psta = None, rf_preorder = None, rf_keytrack = 0\<rparr>"

lemma ex_frag_run:
  "recvframe_defrag ex_recv_priv [ex_frag 0 True [1, 2, 3, 4, 5, 6, 99], ex_frag 1 False [1, 2, 3, 4, 7, 99]]
     = (Some ((ex_frag 0 True [1, 2, 3, 4, 5, 6, 99])
          \<lparr>rf_buf := [1, 2, 3, 4, 5, 6, 7, 99, 0, 0, 0, 0, 0, 0, 0], rf_len := 8, rf_tail := 8\<rparr>),
        rtw_free_recvframe
          ((ex_frag 1 False [1, 2, 3, 4, 7, 99])\<lparr>rf_data := 4, rf_len := 2\<rparr>) ex_recv_priv)"
  by (simp add: recvframe_defrag_def ex_frag_def dd_attrib_def ccmp_or_gcmp_def wlanhdr_offset_def
      recvframe_pull_def or_same_def defrag_append_def recvframe_pull_tail_def recvframe_put_def
      frame_bytes_def rx_bytes_def bytes_at_def byte_at_def put_bytes_def upt_rec)

theorem defrag_concatenates_witness:
  "\<exists>p rp'. recvframe_defrag ex_recv_priv
      [ex_frag 0 True [1, 2, 3, 4, 5, 6, 99], ex_frag 1 False [1, 2, 3, 4, 7, 99]] = (Some p, rp')
    \<and> frame_bytes p = reassemble [1, 2, 3, 4, 5, 6, 99] 1 [ex_frag 1 False [1, 2, 3, 4, 7, 99]]"
proof -
  have ok: "\<forall>g \<in> set [ex_frag 0 True [1, 2, 3, 4, 5, 6, 99], ex_frag 1 False [1, 2, 3, 4, 7, 99]]. frag_ok g"
    by (simp add: frag_ok_def ex_frag_def dd_attrib_def frame_wf_def wlanhdr_offset_def)
  have "frame_bytes (ex_frag 0 True [1, 2, 3, 4, 5, 6, 99]) = [1, 2, 3, 4, 5, 6, 99]"
    "a_icv_len (rf_attrib (ex_frag 0 True [1, 2, 3, 4, 5, 6, 99])) = 1"
    by (simp_all add: frame_bytes_def rx_bytes_def bytes_at_def byte_at_def ex_frag_def dd_attrib_def upt_rec)
  then show ?thesis
    using defrag_concatenates [OF ex_frag_run ok] ex_frag_run by auto
qed

theorem defrag_only_consecutive_witness:
  "a_frag_num (rf_attrib (ex_frag 1 False [1, 2, 3, 4, 7, 99])) = of_nat 1"
proof -
  have "\<forall>g \<in> set [ex_frag 0 True [1, 2, 3, 4, 5, 6, 99], ex_frag 1 False [1, 2, 3, 4, 7, 99]].
      ccmp_or_gcmp (a_encrypt (rf_attrib g)) = False"
    by (simp add: ccmp_or_gcmp_def ex_frag_def)
  from defrag_only_consecutive [OF ex_frag_run this] show ?thesis
    by (auto dest: spec [of _ 1])
qed

end
