(* ===== verification/Rx_Amsdu.thy ===== *)
theory Rx_Amsdu
  imports Rx_Reorder
begin

text \<open>
  From an 802.11 data frame to Ethernet packets (\<^verbatim>\<open>core/rtw_recv.c\<close>,
  \<^verbatim>\<open>os_dep/linux/recv_linux.c\<close>): LLC/SNAP recognition, \<^verbatim>\<open>wlanhdr_to_ethhdr\<close>, the
  A-MSDU parser \<^verbatim>\<open>amsdu_to_msdu\<close> with its content check, the hand-over to the operating
  system and \<^verbatim>\<open>recv_process_mpdu\<close>, which the reorder window calls for every frame in
  order. The lemmas show what is delivered, that the parser inverts the A-MSDU encoding
  and stays in bounds, and that every frame returns to the pool: the interpretation of
  \<open>mpdu_sink\<close>.

  The allocator of the kernel is a parameter: \<open>alloc_ok n\<close> says whether the packet for the
  subframe after \<open>n\<close> others can be allocated.
\<close>

section \<open>LLC and SNAP\<close>

datatype rx_llc_hdl = LLC_KEEP | LLC_REMOVE

definition rfc1042_header :: "u8 list" where
  "rfc1042_header = [0xaa, 0xaa, 0x03, 0x00, 0x00, 0x00]"

definition bridge_tunnel_header :: "u8 list" where
  "bridge_tunnel_header = [0xaa, 0xaa, 0x03, 0x00, 0x00, 0xf8]"

definition rtw_recv_llc_parse :: "u8 list \<Rightarrow> u16 \<Rightarrow> rx_llc_hdl" where
  "rtw_recv_llc_parse msdu msdu_len =
     (if msdu_len < 8 then LLC_KEEP
      else
        let eth_type = be16_at msdu 6
        in if bytes_at msdu 0 6 = rfc1042_header \<and> eth_type \<noteq> 0x80F3 \<and> eth_type \<noteq> 0x8137
              \<or> bytes_at msdu 0 6 = bridge_tunnel_header
           then LLC_REMOVE else LLC_KEEP)"

section \<open>A single MSDU\<close>

text \<open>
  \<^verbatim>\<open>wlanhdr_to_ethhdr\<close>; \<open>None\<close> is \<^verbatim>\<open>_FAIL\<close>, beside the frame as the pull of the ICV left it.
  The mesh control header is absent.
\<close>

definition wlanhdr_to_ethhdr :: "recv_frame \<Rightarrow> rx_llc_hdl \<Rightarrow> rx_ret \<times> recv_frame" where
  "wlanhdr_to_ethhdr f llc =
     (let attr = rf_attrib f;
          f1 = (if a_encrypt attr \<noteq> 0 then or_same f (recvframe_pull_tail f (int (a_icv_len attr))) else f);
          rmv_len = int (a_hdrlen attr) + int (a_iv_len attr) + (if llc = LLC_REMOVE then 6 else 0);
          len = (of_int (rf_len f1 - rmv_len) :: u16)
      in case recvframe_pull f1 (rmv_len - 14 + (if llc = LLC_REMOVE then 2 else 0)) of
           None \<Rightarrow> (RX_FAIL, f1)
         | Some f2 \<Rightarrow>
             let ptr = nat (rf_data f2);
                 b1 = put_bytes (rf_buf f2) ptr (a_dst attr);
                 b2 = put_bytes b1 (ptr + 6) (a_src attr);
                 b3 = (if llc = LLC_KEEP then put_bytes b2 (ptr + 12) (be16_bytes len) else b2)
             in (RX_SUCCESS, f2\<lparr>rf_buf := b3\<rparr>))"

text \<open>\<^verbatim>\<open>rtw_os_recv_indicate_pkt\<close>: the packet goes to the network stack (or its NAPI queue).\<close>

definition rtw_os_recv_indicate_pkt :: "recv_priv \<Rightarrow> u8 list \<Rightarrow> recv_priv" where
  "rtw_os_recv_indicate_pkt rp pkt = rp\<lparr>rp_os_rx := rp_os_rx rp @ [pkt]\<rparr>"

definition rtw_recv_indicatepkt :: "recv_priv \<Rightarrow> recv_frame \<Rightarrow> rx_ret \<times> recv_priv" where
  "rtw_recv_indicatepkt rp f =
     (case rf_pkt f of
        None \<Rightarrow> (RX_FAIL, rtw_free_recvframe f rp)
      | Some _ \<Rightarrow>
          (RX_SUCCESS,
           rtw_free_recvframe (f\<lparr>rf_pkt := None\<rparr>) (rtw_os_recv_indicate_pkt rp (frame_bytes f))))"

section \<open>A-MSDU\<close>

definition validate_amsdu_content :: "adapter \<Rightarrow> rx_pkt_attrib \<Rightarrow> mac \<Rightarrow> mac \<Rightarrow> bool" where
  "validate_amsdu_content ad attr da sa \<longleftrightarrow>
     \<not> (ad_amsdu_spp ad = 0 \<and> sec_privacy (ad_sec ad) \<noteq> SEC_NO_PRIVACY \<and>
        (a_to_fr_ds attr = 2 \<and> da \<noteq> a_ra attr
         \<or> a_to_fr_ds attr = 1 \<and> sa \<noteq> a_ta attr
         \<or> da = rfc1042_header))"

text \<open>\<^verbatim>\<open>rtw_os_alloc_msdu_pkt\<close>: the Ethernet packet built for a subframe.\<close>

definition rtw_os_alloc_msdu_pkt :: "mac \<Rightarrow> mac \<Rightarrow> u8 list \<Rightarrow> rx_llc_hdl \<Rightarrow> u8 list" where
  "rtw_os_alloc_msdu_pkt da sa msdu llc =
     (if llc = LLC_REMOVE then da @ sa @ drop 6 msdu
      else da @ sa @ be16_bytes (of_nat (length msdu)) @ msdu)"

definition MAX_SUBFRAME_COUNT :: nat where "MAX_SUBFRAME_COUNT = 64"

text \<open>
  The loop of \<^verbatim>\<open>amsdu_to_msdu\<close> on the \<^verbatim>\<open>a_len\<close> bytes at \<^verbatim>\<open>pdata\<close>: the packets collected
  from here on, \<open>n\<close> being already collected.
\<close>

function amsdu_loop :: "adapter \<Rightarrow> rx_pkt_attrib \<Rightarrow> (nat \<Rightarrow> bool) \<Rightarrow> nat \<Rightarrow> u8 list \<Rightarrow> u8 list list" where
  "amsdu_loop ad attr alloc_ok n bs =
     (if length bs > 14 then
        let sub = unat (be16_at bs 12);
            da = take 6 bs;
            sa = take 6 (drop 6 bs);
            msdu = take sub (drop 14 bs)
        in if length bs < 14 + sub then []
           else if \<not> validate_amsdu_content ad attr da sa then []
           else if \<not> alloc_ok n then []
           else
             let pkt = rtw_os_alloc_msdu_pkt da sa msdu (rtw_recv_llc_parse (drop 14 bs) (of_nat sub));
                 rest = drop (14 + sub) bs;
                 padding_len = (4 - (sub + 14) mod 4) mod 4
             in if Suc n \<ge> MAX_SUBFRAME_COUNT then [pkt]
                else if rest \<noteq> [] \<and> length rest < padding_len then [pkt]
                else pkt # amsdu_loop ad attr alloc_ok (Suc n) (drop padding_len rest)
      else [])"
  by auto
termination
  by (relation "measure (\<lambda>(ad, attr, alloc_ok, n, bs). length bs)") auto

declare amsdu_loop.simps [simp del]

text \<open>
  \<^verbatim>\<open>amsdu_to_msdu\<close>: the headers and the ICV are pulled, the packets handed up in order, and
  the frame freed. It returns \<^verbatim>\<open>_SUCCESS\<close> on every path.
\<close>

definition amsdu_payload :: "recv_frame \<Rightarrow> recv_frame" where
  "amsdu_payload f =
     (let attr = rf_attrib f;
          f1 = or_same f (recvframe_pull f (int (a_hdrlen attr)));
          f2 = (if a_iv_len attr > 0 then or_same f1 (recvframe_pull f1 (int (a_iv_len attr))) else f1)
      in if a_encrypt attr \<noteq> 0 then or_same f2 (recvframe_pull_tail f2 (int (a_icv_len attr))) else f2)"

definition amsdu_to_msdu :: "adapter \<Rightarrow> (nat \<Rightarrow> bool) \<Rightarrow> recv_priv \<Rightarrow> recv_frame \<Rightarrow> rx_ret \<times> recv_priv" where
  "amsdu_to_msdu ad alloc_ok rp f =
     (let f' = amsdu_payload f;
          pkts = amsdu_loop ad (rf_attrib f) alloc_ok 0 (frame_bytes f')
      in (RX_SUCCESS, rtw_free_recvframe (f'\<lparr>rf_len := 0\<rparr>) (foldl rtw_os_recv_indicate_pkt rp pkts)))"

section \<open>The consumer of the reorder window\<close>

definition cannot_run :: "adapter \<Rightarrow> bool" where
  "cannot_run ad \<longleftrightarrow> ad_drv_stopped ad \<or> ad_surprise_removed ad"

definition recv_process_mpdu :: "adapter \<Rightarrow> (nat \<Rightarrow> bool) \<Rightarrow> recv_priv \<Rightarrow> recv_frame \<Rightarrow> rx_ret \<times> recv_priv" where
  "recv_process_mpdu ad alloc_ok rp f =
     (let attr = rf_attrib f in
      if a_amsdu attr then
        let (ret, rp') = amsdu_to_msdu ad alloc_ok rp f
        in if ret \<noteq> RX_SUCCESS then (ret, rtw_free_recvframe f rp') else (ret, rp')
      else
        let off = a_hdrlen attr + a_iv_len attr;
            msdu_len = (of_int (rf_len f - int off
                - (if a_encrypt attr \<noteq> 0 then int (a_icv_len attr) else 0)) :: u16);
            msdu = drop (nat (rf_data f) + off) (rf_buf f);
            (ret, f') = wlanhdr_to_ethhdr f (rtw_recv_llc_parse msdu msdu_len)
        in if ret \<noteq> RX_SUCCESS then (ret, rtw_free_recvframe f' rp)
           else if \<not> cannot_run ad then rtw_recv_indicatepkt rp f'
           else (RX_SUCCESS, rtw_free_recvframe f' rp))"

section \<open>Every frame returns to the pool\<close>

lemma indicate_pkt_pool [simp]:
  "pool_ids (rtw_os_recv_indicate_pkt rp pkt) = pool_ids rp"
  by (simp add: rtw_os_recv_indicate_pkt_def pool_ids_def)

lemma indicate_pkts_pool [simp]:
  "pool_ids (foldl rtw_os_recv_indicate_pkt rp pkts) = pool_ids rp"
  by (induction pkts arbitrary: rp) simp_all

lemma indicate_pkts_os_rx:
  "rp_os_rx (foldl rtw_os_recv_indicate_pkt rp pkts) = rp_os_rx rp @ pkts"
  by (induction pkts arbitrary: rp) (simp_all add: rtw_os_recv_indicate_pkt_def)

lemma os_rx_free [simp]: "rp_os_rx (rtw_free_recvframe f rp) = rp_os_rx rp"
  by (simp add: rtw_free_recvframe_def)

lemma amsdu_payload_id [simp]: "rf_id (amsdu_payload f) = rf_id f"
  by (simp add: amsdu_payload_def Let_def)

lemma wlanhdr_to_ethhdr_id: "wlanhdr_to_ethhdr f llc = (ret, f') \<Longrightarrow> rf_id f' = rf_id f"
  by (auto simp: wlanhdr_to_ethhdr_def Let_def recvframe_pull_def split: if_splits option.splits)

lemma recv_process_mpdu_pool:
  assumes "recv_process_mpdu ad alloc_ok rp f = (ret, rp')"
  shows "pool_ids rp' = add_mset (rf_id f) (pool_ids rp)"
  using assms
  by (auto simp: recv_process_mpdu_def amsdu_to_msdu_def rtw_recv_indicatepkt_def Let_def
      dest!: wlanhdr_to_ethhdr_id split: if_splits option.splits prod.splits)

interpretation mpdu: mpdu_sink "recv_process_mpdu ad alloc_ok" for ad alloc_ok
  by unfold_locales (rule recv_process_mpdu_pool)


section \<open>The A-MSDU parser\<close>

lemma length_alloc_msdu_pkt:
  "length da = 6 \<Longrightarrow> length sa = 6 \<Longrightarrow> length (rtw_os_alloc_msdu_pkt da sa msdu llc) \<le> 14 + length msdu"
  by (cases llc) (simp_all add: rtw_os_alloc_msdu_pkt_def be16_bytes_def)

lemma alloc_msdu_parts:
  assumes "length da = 6" "length sa = 6"
  shows "take 6 (rtw_os_alloc_msdu_pkt da sa msdu llc) = da"
    "take 6 (drop 6 (rtw_os_alloc_msdu_pkt da sa msdu llc)) = sa"
  using assms by (cases llc; simp add: rtw_os_alloc_msdu_pkt_def)+

lemma amsdu_loop_Nil [simp]: "amsdu_loop ad attr ok n [] = []"
  by (subst amsdu_loop.simps) simp

text \<open>One turn of the loop: nothing, a last packet, or a packet and another turn on fewer bytes.\<close>

lemma amsdu_loop_step:
  obtains (none) "amsdu_loop ad attr ok n bs = []"
  | (last) pkt where "amsdu_loop ad attr ok n bs = [pkt]"
      "validate_amsdu_content ad attr (take 6 pkt) (take 6 (drop 6 pkt))" "length pkt \<le> length bs"
  | (more) pkt m where "amsdu_loop ad attr ok n bs = pkt # amsdu_loop ad attr ok (Suc n) (drop m bs)"
      "validate_amsdu_content ad attr (take 6 pkt) (take 6 (drop 6 pkt))" "length pkt \<le> m"
      "m \<le> length bs" "0 < m" "Suc n < 64"
proof -
  define sub where "sub = unat (be16_at bs 12)"
  define pkt where "pkt = rtw_os_alloc_msdu_pkt (take 6 bs) (take 6 (drop 6 bs)) (take sub (drop 14 bs))
    (rtw_recv_llc_parse (drop 14 bs) (of_nat sub))"
  define pad where "pad = (4 - (sub + 14) mod 4) mod 4"
  have eq: "amsdu_loop ad attr ok n bs =
     (if length bs > 14 then
        if length bs < 14 + sub then []
        else if \<not> validate_amsdu_content ad attr (take 6 bs) (take 6 (drop 6 bs)) then []
        else if \<not> ok n then []
        else if Suc n \<ge> 64 then [pkt]
        else if drop (14 + sub) bs \<noteq> [] \<and> length (drop (14 + sub) bs) < pad then [pkt]
        else pkt # amsdu_loop ad attr ok (Suc n) (drop pad (drop (14 + sub) bs))
      else [])"
    by (subst amsdu_loop.simps) (simp only: Let_def MAX_SUBFRAME_COUNT_def sub_def pkt_def pad_def)
  show ?thesis
  proof (cases "length bs > 14 \<and> 14 + sub \<le> length bs
      \<and> validate_amsdu_content ad attr (take 6 bs) (take 6 (drop 6 bs)) \<and> ok n")
    case False
    then show ?thesis using none unfolding eq by auto
  next
    case True
    then have "length (take 6 bs) = 6" "length (take 6 (drop 6 bs)) = 6" by auto
    then have v: "validate_amsdu_content ad attr (take 6 pkt) (take 6 (drop 6 pkt))"
      using True unfolding pkt_def by (simp only: alloc_msdu_parts)
    have l: "length pkt \<le> 14 + sub"
      unfolding pkt_def by (rule order_trans [OF length_alloc_msdu_pkt]) (use True in auto)
    show ?thesis
    proof (cases "Suc n \<ge> 64 \<or> drop (14 + sub) bs \<noteq> [] \<and> length (drop (14 + sub) bs) < pad")
      case stop: True
      then have "amsdu_loop ad attr ok n bs = [pkt]" using True unfolding eq by auto
      then show ?thesis using last v l True by simp
    next
      case go: False
      then have "amsdu_loop ad attr ok n bs = pkt # amsdu_loop ad attr ok (Suc n) (drop pad (drop (14 + sub) bs))"
        using True unfolding eq by auto
      moreover have "drop pad (drop (14 + sub) bs) = drop (min (length bs) (14 + sub + pad)) bs"
        using True by (simp add: min_def add.commute)
      moreover have "length pkt \<le> min (length bs) (14 + sub + pad)" "0 < min (length bs) (14 + sub + pad)"
        using True l by auto
      ultimately show ?thesis
        using more [of pkt "min (length bs) (14 + sub + pad)"] v go by simp
    qed
  qed
qed

lemma amsdu_loop_bound: "n < 64 \<Longrightarrow> length (amsdu_loop ad attr ok n bs) + n \<le> 64"
proof (induction "length bs" arbitrary: n bs rule: less_induct)
  case less
  show ?case
  proof (cases rule: amsdu_loop_step [of ad attr ok n bs])
    case (more pkt m)
    then show ?thesis using less(1) [of "drop m bs" "Suc n"] by simp
  qed (use less(2) in simp_all)
qed

lemma amsdu_loop_size: "sum_list (map length (amsdu_loop ad attr ok n bs)) \<le> length bs"
proof (induction "length bs" arbitrary: n bs rule: less_induct)
  case less
  show ?case
  proof (cases rule: amsdu_loop_step [of ad attr ok n bs])
    case (more pkt m)
    have "sum_list (map length (amsdu_loop ad attr ok (Suc n) (drop m bs))) \<le> length bs - m"
      using less [of "drop m bs"] more(4,5) by simp
    then show ?thesis using more(1,3,4) by simp
  qed simp_all
qed

lemma amsdu_loop_valid:
  "pkt \<in> set (amsdu_loop ad attr ok n bs) \<Longrightarrow>
     validate_amsdu_content ad attr (take 6 pkt) (take 6 (drop 6 pkt))"
proof (induction "length bs" arbitrary: n bs rule: less_induct)
  case less
  show ?case
  proof (cases rule: amsdu_loop_step [of ad attr ok n bs])
    case (more p m)
    then show ?thesis using less(1) [of "drop m bs" "Suc n"] less(2) by auto
  qed (use less(2) in auto)
qed

text \<open>The encoding of IEEE 802.11: header and MSDU, padded to four bytes except the last.\<close>

definition subframe :: "mac \<times> mac \<times> u8 list \<Rightarrow> u8 list" where
  "subframe s = (case s of (da, sa, m) \<Rightarrow> da @ sa @ be16_bytes (of_nat (length m)) @ m)"

fun amsdu_encode :: "(mac \<times> mac \<times> u8 list) list \<Rightarrow> u8 list" where
  "amsdu_encode [] = []"
| "amsdu_encode [s] = subframe s"
| "amsdu_encode (s # t # ss) =
     subframe s @ replicate ((4 - length (subframe s) mod 4) mod 4) 0 @ amsdu_encode (t # ss)"

definition subframe_ok :: "adapter \<Rightarrow> rx_pkt_attrib \<Rightarrow> mac \<times> mac \<times> u8 list \<Rightarrow> bool" where
  "subframe_ok ad attr s \<longleftrightarrow> (case s of (da, sa, m) \<Rightarrow> length da = 6 \<and> length sa = 6 \<and> m \<noteq> []
     \<and> length m < 65536 \<and> validate_amsdu_content ad attr da sa)"

definition ether_packet :: "mac \<times> mac \<times> u8 list \<Rightarrow> u8 list" where
  "ether_packet s = (case s of (da, sa, m) \<Rightarrow>
     rtw_os_alloc_msdu_pkt da sa m (rtw_recv_llc_parse m (of_nat (length m))))"

lemma llc_parse_append:
  assumes "length m < 65536"
  shows "rtw_recv_llc_parse (m @ r) (of_nat (length m)) = rtw_recv_llc_parse m (of_nat (length m))"
proof -
  have u: "unat (of_nat (length m) :: u16) = length m"
    using assms by (simp add: unat_of_nat)
  show ?thesis
  proof (cases "length m < 8")
    case True
    then have "(of_nat (length m) :: u16) < 8"
      using u by (simp add: word_less_nat_alt)
    then show ?thesis by (simp add: rtw_recv_llc_parse_def)
  next
    case False
    then have "bytes_at (m @ r) 0 6 = bytes_at m 0 6" "be16_at (m @ r) 6 = be16_at m 6"
      by (auto simp: bytes_at_def be16_at_def byte_at_append1)
    then show ?thesis by (simp add: rtw_recv_llc_parse_def)
  qed
qed

text \<open>One subframe at the front of the bytes.\<close>

lemma amsdu_loop_subframe:
  assumes "subframe_ok ad attr s" "ok n"
  shows "Suc n < 64 \<Longrightarrow> (4 - length (subframe s) mod 4) mod 4 \<le> length rest \<Longrightarrow>
    amsdu_loop ad attr ok n (subframe s @ rest)
    = ether_packet s # amsdu_loop ad attr ok (Suc n) (drop ((4 - length (subframe s) mod 4) mod 4) rest)"
    (is "_ \<Longrightarrow> _ \<Longrightarrow> ?thesis1")
    and "amsdu_loop ad attr ok n (subframe s) = [ether_packet s]"
proof -
  obtain da sa m where s: "s = (da, sa, m)" by (cases s) auto
  have ok: "length da = 6" "length sa = 6" "m \<noteq> []" "length m < 65536"
    "validate_amsdu_content ad attr da sa"
    using assms(1) by (simp_all add: subframe_ok_def s)
  have sub: "unat (be16_at (subframe s @ rest) 12) = length m" for rest
    using be16_roundtrip [of "da @ sa" "of_nat (length m)" "m @ rest"] ok(1,2,4)
    by (simp add: subframe_def s unat_of_nat)
  have len: "length (subframe s) = 14 + length m"
    by (simp add: subframe_def s be16_bytes_def ok)
  have parts: "take 6 (subframe s @ rest) = da" "take 6 (drop 6 (subframe s @ rest)) = sa"
    "drop 14 (subframe s @ rest) = m @ rest" "drop (14 + length m) (subframe s @ rest) = rest" for rest
    by (simp_all add: subframe_def s be16_bytes_def ok)
  have take_m: "take (length m) (m @ rest) = m" for rest by simp
  have pkt: "rtw_os_alloc_msdu_pkt da sa m (rtw_recv_llc_parse m (of_nat (length m))) = ether_packet s"
    by (simp add: ether_packet_def s)
  have eq: "amsdu_loop ad attr ok n bs =
     (if length bs > 14 then
        if length bs < 14 + length m then []
        else if \<not> validate_amsdu_content ad attr da sa then []
        else if \<not> ok n then []
        else if Suc n \<ge> 64 then [ether_packet s]
        else if rest \<noteq> [] \<and> length rest < (4 - (length m + 14) mod 4) mod 4 then [ether_packet s]
        else ether_packet s # amsdu_loop ad attr ok (Suc n) (drop ((4 - (length m + 14) mod 4) mod 4) rest)
      else [])" if "bs = subframe s @ rest" for bs rest
    unfolding that
    by (subst amsdu_loop.simps, simp only: Let_def MAX_SUBFRAME_COUNT_def sub parts)
      (simp only: llc_parse_append [OF ok(4)] take_m pkt)
  have pad: "(4 - length (subframe s) mod 4) mod 4 = (4 - (length m + 14) mod 4) mod 4"
    by (simp only: len add.commute)
  show ?thesis1 if "Suc n < 64" "(4 - length (subframe s) mod 4) mod 4 \<le> length rest"
    using assms(2) that ok unfolding pad by (subst eq [OF refl]) (simp add: len not_less)
  show "amsdu_loop ad attr ok n (subframe s) = [ether_packet s]"
    using assms(2) ok by (subst eq [of _ "[]"]) (simp_all add: len)
qed


lemma amsdu_encode_Cons_ne: "subframe_ok ad attr t \<Longrightarrow> amsdu_encode (t # ss) \<noteq> []"
  by (cases ss; cases t) (auto simp: subframe_def subframe_ok_def)

lemma amsdu_loop_encode:
  "list_all (subframe_ok ad attr) ss \<Longrightarrow> \<forall>k. ok k \<Longrightarrow> n + length ss \<le> 64 \<Longrightarrow>
     amsdu_loop ad attr ok n (amsdu_encode ss) = map ether_packet ss"
proof (induction ss arbitrary: n rule: amsdu_encode.induct)
  case (2 s)
  have "amsdu_loop ad attr ok n (subframe s) = [ether_packet s]"
    by (rule amsdu_loop_subframe(2)) (use 2 in simp_all)
  then show ?case by (simp only: amsdu_encode.simps list.map)
next
  case (3 s t ss)
  let ?pad = "(4 - length (subframe s) mod 4) mod 4"
  let ?rest = "replicate ?pad 0 @ amsdu_encode (t # ss)"
  have "amsdu_loop ad attr ok n (subframe s @ ?rest)
      = ether_packet s # amsdu_loop ad attr ok (Suc n) (drop ?pad ?rest)"
    using 3(2-4) by (intro amsdu_loop_subframe(1)) simp_all
  moreover have "drop ?pad ?rest = amsdu_encode (t # ss)"
    by simp
  moreover have "amsdu_loop ad attr ok (Suc n) (amsdu_encode (t # ss)) = map ether_packet (t # ss)"
    using 3(2-4) by (intro 3(1)) simp_all
  ultimately show ?case by (simp only: amsdu_encode.simps list.map)
qed simp

section \<open>The Ethernet header of a single MSDU\<close>

lemma bytes_at_0 [simp]: "bytes_at b off 0 = []"
  by (simp add: bytes_at_def)

lemma bytes_at_prefix: "m \<le> n \<Longrightarrow> take m (bytes_at b off n) = bytes_at b off m"
  using bytes_at_append [of b off m "n - m"] by simp

lemma bytes_at_suffix: "m \<le> n \<Longrightarrow> drop m (bytes_at b off n) = bytes_at b (off + m) (n - m)"
  using bytes_at_append [of b off m "n - m"] by simp

lemma put_header:
  assumes "length dst = 6" "length src = 6" "ptr + 12 + k \<le> length b"
  shows "bytes_at (put_bytes (put_bytes b ptr dst) (ptr + 6) src) ptr (12 + k)
    = dst @ src @ bytes_at b (ptr + 12) k"
proof -
  let ?b = "put_bytes (put_bytes b ptr dst) (ptr + 6) src"
  have "bytes_at ?b ptr (6 + (6 + k)) = bytes_at ?b ptr 6 @ bytes_at ?b (ptr + 6) 6 @ bytes_at ?b (ptr + 12) k"
    by (simp only: bytes_at_append) (simp add: add.assoc)
  moreover have "bytes_at ?b ptr 6 = dst"
    using bytes_at_put_bytes_same [of ptr dst b] assms by (simp add: bytes_at_put_bytes_outside)
  moreover have "bytes_at ?b (ptr + 6) 6 = src"
    using bytes_at_put_bytes_same [of "ptr + 6" src "put_bytes b ptr dst"] assms by simp
  moreover have "bytes_at ?b (ptr + 12) k = bytes_at b (ptr + 12) k"
    using assms by (simp add: bytes_at_put_bytes_outside)
  moreover have "12 + k = 6 + (6 + k)" by simp
  ultimately show ?thesis by (simp only:)
qed

text \<open>The MSDU a frame carries: its bytes without header, IV and (when encrypted) ICV.\<close>

definition frame_msdu :: "recv_frame \<Rightarrow> u8 list" where
  "frame_msdu f =
     (let attr = rf_attrib f; bs = frame_bytes f
      in drop (a_hdrlen attr + a_iv_len attr)
           (if a_encrypt attr \<noteq> 0 then take (length bs - a_icv_len attr) bs else bs))"

definition data_frame_ok :: "recv_frame \<Rightarrow> bool" where
  "data_frame_ok f \<longleftrightarrow> frame_wf f \<and> 14 \<le> a_hdrlen (rf_attrib f)
     \<and> int (a_hdrlen (rf_attrib f)) + int (a_iv_len (rf_attrib f)) + int (a_icv_len (rf_attrib f)) \<le> rf_len f
     \<and> rf_len f < 65536 \<and> length (a_dst (rf_attrib f)) = 6 \<and> length (a_src (rf_attrib f)) = 6"

lemma wlanhdr_to_ethhdr_bytes:
  fixes f :: recv_frame
  assumes ok: "data_frame_ok f" and llc: "llc = LLC_REMOVE \<Longrightarrow> 6 \<le> length (frame_msdu f)"
  shows "\<exists>f'. wlanhdr_to_ethhdr f llc = (RX_SUCCESS, f') \<and> rf_pkt f' = rf_pkt f
    \<and> frame_bytes f' = rtw_os_alloc_msdu_pkt (a_dst (rf_attrib f)) (a_src (rf_attrib f)) (frame_msdu f) llc"
proof -
  define hl where "hl = a_hdrlen (rf_attrib f) + a_iv_len (rf_attrib f)"
  define icv where "icv = (if a_encrypt (rf_attrib f) \<noteq> 0 then a_icv_len (rf_attrib f) else 0)"
  define d where "d = nat (rf_data f)"
  define b where "b = rf_buf f"
  define n where "n = nat (rf_len f) - icv - hl"
  have wf: "frame_wf f" and hl14: "14 \<le> hl" and len: "int hl + int icv \<le> rf_len f" "rf_len f < 65536"
    and addr: "length (a_dst (rf_attrib f)) = 6" "length (a_src (rf_attrib f)) = 6"
    using ok by (auto simp: data_frame_ok_def hl_def icv_def)
  have dd: "rf_data f = int d" "rf_len f = int (hl + n + icv)" "d + hl + n + icv \<le> length b"
    "rf_tail f = int (d + hl + n + icv)"
    using wf len by (auto simp: frame_wf_def d_def n_def b_def)
  have fb: "frame_bytes f = bytes_at b d (hl + n + icv)"
    by (simp only: frame_bytes_def rx_bytes_def dd b_def [symmetric] nat_int add_0_right)
  have "frame_msdu f = drop hl (take (hl + n) (frame_bytes f))"
    by (auto simp: frame_msdu_def Let_def fb icv_def simp flip: hl_def)
  then have msdu: "frame_msdu f = bytes_at b (d + hl) n"
    by (simp add: fb bytes_at_prefix bytes_at_suffix)
  define f1 where "f1 = (if a_encrypt (rf_attrib f) \<noteq> 0
    then or_same f (recvframe_pull_tail f (int (a_icv_len (rf_attrib f)))) else f)"
  have f1: "rf_buf f1 = b" "rf_data f1 = int d" "rf_len f1 = int (hl + n)" "rf_tail f1 = int (d + hl + n)"
    "rf_pkt f1 = rf_pkt f"
    using dd by (auto simp: f1_def recvframe_pull_tail_def or_same_def icv_def b_def)
  show ?thesis
  proof (cases llc)
    case LLC_KEEP
    define p where "p = d + hl - 14"
    define b2 where "b2 = put_bytes (put_bytes b p (a_dst (rf_attrib f))) (p + 6) (a_src (rf_attrib f))"
    define b3 where "b3 = put_bytes b2 (p + 12) (be16_bytes (of_nat n))"
    have p: "p + 14 = d + hl" "p + 12 + 2 + n \<le> length b" using hl14 dd(3) by (simp_all add: p_def)
    have pull: "recvframe_pull f1 (int (a_hdrlen (rf_attrib f)) + int (a_iv_len (rf_attrib f)) + 0 - 14 + 0)
        = Some (f1\<lparr>rf_data := int p, rf_len := int (14 + n)\<rparr>)"
      using f1 p hl14 by (auto simp: recvframe_pull_def hl_def)
    have w: "wlanhdr_to_ethhdr f llc = (RX_SUCCESS, f1\<lparr>rf_data := int p, rf_len := int (14 + n), rf_buf := b3\<rparr>)"
      using LLC_KEEP pull f1 hl14
      by (simp add: wlanhdr_to_ethhdr_def Let_def f1_def [symmetric] hl_def b3_def b2_def)
    have "bytes_at b3 p (12 + (2 + n)) = bytes_at b3 p 12 @ bytes_at b3 (p + 12) 2 @ bytes_at b3 (p + 12 + 2) n"
      by (simp only: bytes_at_append)
    also have "bytes_at b3 p 12 = a_dst (rf_attrib f) @ a_src (rf_attrib f)"
      using put_header [OF addr, of p 0 b] p
      by (simp add: b3_def bytes_at_put_bytes_outside b2_def)
    also have "bytes_at b3 (p + 12) 2 = be16_bytes (of_nat n)"
      using bytes_at_put_bytes_same [of "p + 12" "be16_bytes (of_nat n)" b2] p
      by (simp add: b3_def b2_def)
    also have "bytes_at b3 (p + 12 + 2) n = bytes_at b (d + hl) n"
    proof -
      have "14 + p = d + hl" using p(1) by simp
      then show ?thesis using addr by (simp add: b3_def b2_def bytes_at_put_bytes_outside)
    qed
    finally have "bytes_at b3 p (14 + n)
        = rtw_os_alloc_msdu_pkt (a_dst (rf_attrib f)) (a_src (rf_attrib f)) (frame_msdu f) llc"
      by (simp add: LLC_KEEP rtw_os_alloc_msdu_pkt_def msdu)
    then show ?thesis
      by (simp add: w frame_bytes_def rx_bytes_def f1(5) nat_add_distrib)
  next
    case LLC_REMOVE
    then have n6: "6 \<le> n" using llc by (simp add: msdu)
    define p where "p = d + hl - 6"
    define b2 where "b2 = put_bytes (put_bytes b p (a_dst (rf_attrib f))) (p + 6) (a_src (rf_attrib f))"
    have p: "p + 12 = d + hl + 6" "p + 12 + (n - 6) \<le> length b" using hl14 dd(3) n6 by (simp_all add: p_def)
    have pull: "recvframe_pull f1 (int (a_hdrlen (rf_attrib f)) + int (a_iv_len (rf_attrib f)) + 6 - 14 + 2)
        = Some (f1\<lparr>rf_data := int p, rf_len := int (6 + n)\<rparr>)"
      using f1 p hl14 by (auto simp: recvframe_pull_def hl_def)
    have w: "wlanhdr_to_ethhdr f llc = (RX_SUCCESS, f1\<lparr>rf_data := int p, rf_len := int (6 + n), rf_buf := b2\<rparr>)"
      using LLC_REMOVE pull f1 hl14
      by (simp add: wlanhdr_to_ethhdr_def Let_def f1_def [symmetric] hl_def b2_def)
    have "6 + n = 12 + (n - 6)" using n6 by simp
    then have "bytes_at b2 p (6 + n) = a_dst (rf_attrib f) @ a_src (rf_attrib f) @ bytes_at b (d + hl + 6) (n - 6)"
      using put_header [OF addr p(2)] p(1) by (simp only: b2_def)
    also have "\<dots> = rtw_os_alloc_msdu_pkt (a_dst (rf_attrib f)) (a_src (rf_attrib f)) (frame_msdu f) llc"
      using n6 by (simp add: LLC_REMOVE rtw_os_alloc_msdu_pkt_def msdu bytes_at_suffix)
    finally show ?thesis
      by (simp add: w frame_bytes_def rx_bytes_def f1(5) nat_add_distrib)
  qed
qed


text \<open>What one data frame hands up: its Ethernet packet.\<close>

lemma recv_process_mpdu_single:
  assumes "data_frame_ok f" "\<not> a_amsdu (rf_attrib f)" "\<not> cannot_run ad" "rf_pkt f \<noteq> None"
  shows "\<exists>rp'. recv_process_mpdu ad alloc_ok rp f = (RX_SUCCESS, rp')
    \<and> rp_os_rx rp' = rp_os_rx rp
        @ [ether_packet (a_dst (rf_attrib f), a_src (rf_attrib f), frame_msdu f)]"
proof -
  define hl where "hl = a_hdrlen (rf_attrib f) + a_iv_len (rf_attrib f)"
  define icv where "icv = (if a_encrypt (rf_attrib f) \<noteq> 0 then a_icv_len (rf_attrib f) else 0)"
  have wf: "frame_wf f" and len: "int hl + int icv \<le> rf_len f" "rf_len f < 65536"
    using assms(1) by (auto simp: data_frame_ok_def hl_def icv_def)
  define n where "n = nat (rf_len f) - icv - hl"
  define d where "d = nat (rf_data f)"
  have dd: "rf_data f = int d" "rf_len f = int (hl + n + icv)" "d + hl + n + icv \<le> length (rf_buf f)"
    using wf len by (auto simp: frame_wf_def d_def n_def)
  have fb: "frame_bytes f = bytes_at (rf_buf f) d (hl + n + icv)"
    by (simp only: frame_bytes_def rx_bytes_def dd nat_int add_0_right)
  have "frame_msdu f = drop hl (take (hl + n) (frame_bytes f))"
    by (auto simp: frame_msdu_def Let_def fb icv_def simp flip: hl_def)
  then have msdu: "frame_msdu f = bytes_at (rf_buf f) (d + hl) n"
    by (simp add: fb bytes_at_prefix bytes_at_suffix)
  have pre: "drop (d + hl) (rf_buf f) = frame_msdu f @ drop (d + hl + n) (rf_buf f)"
    using append_take_drop_id [of n "drop (d + hl) (rf_buf f)"] dd(3)
    by (simp add: msdu bytes_at_inside ac_simps)
  have lm: "length (frame_msdu f) = n" "n < 65536"
    using len(2) dd(2) by (simp_all add: msdu)
  have parse: "rtw_recv_llc_parse (drop (d + hl) (rf_buf f)) (of_nat n)
      = rtw_recv_llc_parse (frame_msdu f) (of_nat (length (frame_msdu f)))"
    using llc_parse_append [of "frame_msdu f" "drop (d + hl + n) (rf_buf f)"] lm by (simp add: pre)
  define llc where "llc = rtw_recv_llc_parse (frame_msdu f) (of_nat (length (frame_msdu f)))"
  have "unat (of_nat n :: u16) = n" using lm(2) by (simp add: unat_of_nat)
  then have "llc = LLC_REMOVE \<Longrightarrow> 6 \<le> length (frame_msdu f)"
    by (auto simp: llc_def rtw_recv_llc_parse_def lm(1) word_less_nat_alt split: if_splits)
  from wlanhdr_to_ethhdr_bytes [OF assms(1) this] obtain f' where
    w: "wlanhdr_to_ethhdr f llc = (RX_SUCCESS, f')" "rf_pkt f' = rf_pkt f"
    "frame_bytes f' = rtw_os_alloc_msdu_pkt (a_dst (rf_attrib f)) (a_src (rf_attrib f)) (frame_msdu f) llc"
    by auto
  have "rf_len f - int hl - (if a_encrypt (rf_attrib f) \<noteq> 0 then int (a_icv_len (rf_attrib f)) else 0)
      = int n"
    using dd(2) by (auto simp: icv_def)
  then have ln: "(of_int (rf_len f - int hl
        - (if a_encrypt (rf_attrib f) \<noteq> 0 then int (a_icv_len (rf_attrib f)) else 0)) :: u16) = of_nat n"
    by (simp only: of_int_of_nat_eq)
  have "recv_process_mpdu ad alloc_ok rp f = rtw_recv_indicatepkt rp f'"
    using assms(2,3) w(1)
    unfolding recv_process_mpdu_def Let_def hl_def [symmetric] d_def [symmetric] ln parse llc_def
    by simp
  then show ?thesis
    using assms(4) w(2,3)
    by (auto simp: rtw_recv_indicatepkt_def rtw_os_recv_indicate_pkt_def ether_packet_def llc_def)
qed

section \<open>Properties\<close>

text \<open>
  C11. The A-MSDU parser inverts the A-MSDU encoding: for up to 64 subframes that pass the
  content check, laid out as the standard does (length field, padding to four bytes
  between subframes), the loop of \<^verbatim>\<open>amsdu_to_msdu\<close> yields exactly one Ethernet packet per
  subframe, in order.
\<close>

theorem amsdu_parse_encode:
  assumes "list_all (subframe_ok ad attr) ss" "\<forall>k. ok k" "length ss \<le> 64"
  shows "amsdu_loop ad attr ok 0 (amsdu_encode ss) = map ether_packet ss"
  using amsdu_loop_encode [OF assms(1,2), of 0] assms(3) by simp

definition am_attrib :: rx_pkt_attrib where
  "am_attrib = \<lparr>a_hdrlen = 26, a_to_fr_ds = 2, a_amsdu = False, a_qos = True, a_priority = 0,
     a_seq_num = 5, a_frag_num = 0, a_mfrag = False, a_privacy = True, a_bdecrypted = True,
     a_encrypt = SEC_AES, a_iv_len = 8, a_icv_len = 8, a_crc_err = False, a_icv_err = False,
     a_dst = [2, 0, 0, 0, 0, 1], a_src = [2, 0, 0, 0, 0, 9], a_ta = [2, 0, 0, 0, 0, 2],
     a_ra = [2, 0, 0, 0, 0, 1], a_bssid = [2, 0, 0, 0, 0, 2], a_key_index = 0,
     a_recv_signal_power = 0, a_physts_rpt_valid = False,
     a_order = False, a_pw_save = False, a_mdata = False, a_ack_policy = 0\<rparr>"

definition am_subframes :: "(mac \<times> mac \<times> u8 list) list" where
  "am_subframes = [([2, 0, 0, 0, 0, 1], [2, 0, 0, 0, 0, 9], [0xaa, 0xaa, 3, 0, 0, 0, 8, 0, 69]),
     ([2, 0, 0, 0, 0, 1], [2, 0, 0, 0, 0, 9], [1, 2, 3])]"

lemma am_subframes_ok: "list_all (subframe_ok ex_adapter am_attrib) am_subframes"
  by (simp add: am_subframes_def subframe_ok_def validate_amsdu_content_def am_attrib_def
      rfc1042_header_def)

theorem amsdu_parse_encode_witness:
  "amsdu_loop ex_adapter am_attrib (\<lambda>_. True) 0 (amsdu_encode am_subframes)
     = [[2, 0, 0, 0, 0, 1, 2, 0, 0, 0, 0, 9, 8, 0, 69],
        [2, 0, 0, 0, 0, 1, 2, 0, 0, 0, 0, 9, 0, 3, 1, 2, 3]]"
proof -
  have "map ether_packet am_subframes
      = [[2, 0, 0, 0, 0, 1, 2, 0, 0, 0, 0, 9, 8, 0, 69],
         [2, 0, 0, 0, 0, 1, 2, 0, 0, 0, 0, 9, 0, 3, 1, 2, 3]]"
    by (simp add: am_subframes_def ether_packet_def rtw_recv_llc_parse_def rtw_os_alloc_msdu_pkt_def
        bytes_at_def byte_at_def upt_rec rfc1042_header_def be16_at_def be16_bytes_def)
  then show ?thesis
    using amsdu_parse_encode [OF am_subframes_ok, of "\<lambda>_. True"] by (simp add: am_subframes_def)
qed


text \<open>
  The parser is bounded on every input: it yields at most 64 packets, whose bytes
  together are no more than the bytes received, whatever the length fields claim.
\<close>

theorem amsdu_parse_bounded:
  "length (amsdu_loop ad attr ok 0 bs) \<le> 64
   \<and> sum_list (map length (amsdu_loop ad attr ok 0 bs)) \<le> length bs"
  using amsdu_loop_bound [of 0 ad attr ok bs] amsdu_loop_size by simp




text \<open>
  A frame leaves the path exactly once: whatever \<^verbatim>\<open>recv_process_mpdu\<close> returns (a
  delivered packet, an A-MSDU, a header error, a stopped driver), the frame is back in the
  pool, once, and no other frame has moved. With the reorder window in front, an accepted
  frame is in the queue or in the pool, a refused one in neither.
\<close>

theorem reorder_path_conserves:
  assumes "recv_indicatepkt_reorder_ctrl (recv_process_mpdu ad alloc_ok) rp rc f = (ret, rp', rc')"
  shows "pool_ids rp' + frame_ids (ro_pending rc')
    = pool_ids rp + frame_ids (ro_pending rc) + (if ret = RX_HANDLED then {#rf_id f#} else {#})"
  using assms by (rule mpdu.reorder_conserves)

lemma ex_any_sink:
  "recv_indicatepkt_reorder_ctrl m rp ex_ctrl (ex_frame 9)
     = (RX_HANDLED, consume m (ex_frame 9) rp, ex_ctrl\<lparr>ro_indicate_seq := 10\<rparr>)"
proof -
  obtain ret rp1 where m: "m rp (ex_frame 9) = (ret, rp1)" by (cases "m rp (ex_frame 9)")
  show ?thesis
    by (simp add: ex_eval ex_ctrl_def consume_def m)
qed

theorem reorder_path_conserves_witness:
  "pool_ids (fst (snd (recv_indicatepkt_reorder_ctrl (recv_process_mpdu ex_adapter (\<lambda>_. True))
     ex_recv_priv ex_ctrl (ex_frame 9)))) = {#9#}"
proof -
  have "pool_ids (consume (recv_process_mpdu ex_adapter (\<lambda>_. True)) (ex_frame 9) ex_recv_priv)
      + frame_ids (ro_pending (ex_ctrl\<lparr>ro_indicate_seq := 10\<rparr>))
    = pool_ids ex_recv_priv + frame_ids (ro_pending ex_ctrl)
      + (if RX_HANDLED = RX_HANDLED then {#rf_id (ex_frame 9)#} else {#})"
    by (rule reorder_path_conserves [OF ex_any_sink])
  moreover have "pool_ids ex_recv_priv = {#}" "rf_id (ex_frame 9) = 9"
    by (simp_all add: ex_recv_priv_def pool_ids_def ex_frame_def)
  moreover have "ro_pending ex_ctrl = []"
    by (simp add: ex_ctrl_def)
  ultimately show ?thesis
    unfolding ex_any_sink fst_conv snd_conv by simp
qed


text \<open>
  A data frame becomes one Ethernet packet: for a well-formed frame that is no A-MSDU,
  \<^verbatim>\<open>recv_process_mpdu\<close> hands the operating system exactly one packet, its destination
  and source followed by the MSDU, in the same form (SNAP header removed or length field
  put in front) as a subframe of an A-MSDU with that content.
\<close>

theorem recv_process_mpdu_delivers:
  assumes "data_frame_ok f" "\<not> a_amsdu (rf_attrib f)" "\<not> cannot_run ad" "rf_pkt f \<noteq> None"
    "recv_process_mpdu ad alloc_ok rp f = (ret, rp')"
  shows "ret = RX_SUCCESS
    \<and> rp_os_rx rp' = rp_os_rx rp
        @ [ether_packet (a_dst (rf_attrib f), a_src (rf_attrib f), frame_msdu f)]"
  using recv_process_mpdu_single [OF assms(1-4), of alloc_ok rp] assms(5) by auto

text \<open>A QoS data frame: 26 bytes of header, 8 of IV, an MSDU with SNAP header, 8 of MIC.\<close>

definition am_frame :: recv_frame where
  "am_frame = \<lparr>rf_id = 7, rf_adapter = 0, rf_attrib = am_attrib, rf_pkt = Some \<lparr>skb_id = 1, skb_len = 51\<rparr>,
     rf_len = 51, rf_buf = replicate 34 0 @ [0xaa, 0xaa, 3, 0, 0, 0, 8, 0, 69] @ replicate 8 0,
     rf_data = 0, rf_tail = 51, rf_psta = None, rf_preorder = None, rf_keytrack = 0\<rparr>"

theorem recv_process_mpdu_delivers_witness:
  "rp_os_rx (snd (recv_process_mpdu ex_adapter (\<lambda>_. True) ex_recv_priv am_frame))
     = [[2, 0, 0, 0, 0, 1, 2, 0, 0, 0, 0, 9, 8, 0, 69]]"
proof -
  obtain ret rp' where op: "recv_process_mpdu ex_adapter (\<lambda>_. True) ex_recv_priv am_frame = (ret, rp')"
    by (cases "recv_process_mpdu ex_adapter (\<lambda>_. True) ex_recv_priv am_frame")
  have ok: "data_frame_ok am_frame" "\<not> a_amsdu (rf_attrib am_frame)" "\<not> cannot_run ex_adapter"
    "rf_pkt am_frame \<noteq> None"
    by (simp_all add: data_frame_ok_def frame_wf_def am_frame_def am_attrib_def cannot_run_def ex_adapter_def)
  have "frame_bytes am_frame = replicate 34 0 @ [0xaa, 0xaa, 3, 0, 0, 0, 8, 0, 69] @ replicate 8 0"
    by (simp add: frame_bytes_def rx_bytes_def am_frame_def bytes_at_inside)
  then have "frame_msdu am_frame = [0xaa, 0xaa, 3, 0, 0, 0, 8, 0, 69]"
    by (simp add: frame_msdu_def Let_def) (simp add: am_frame_def am_attrib_def)
  moreover have "ether_packet ([2, 0, 0, 0, 0, 1], [2, 0, 0, 0, 0, 9], [0xaa, 0xaa, 3, 0, 0, 0, 8, 0, 69])
      = [2, 0, 0, 0, 0, 1, 2, 0, 0, 0, 0, 9, 8, 0, 69]"
    by (simp add: ether_packet_def rtw_recv_llc_parse_def rtw_os_alloc_msdu_pkt_def
        bytes_at_def byte_at_def upt_rec rfc1042_header_def be16_at_def)
  ultimately show ?thesis
    using recv_process_mpdu_delivers [OF ok op] op
    by (simp add: ex_recv_priv_def) (simp add: am_frame_def am_attrib_def)
qed

end
