(* ===== verification/Sec_Aes.thy ===== *)
theory Sec_Aes
  imports Rx_Types
begin

text \<open>
  The AES block cipher of \<^verbatim>\<open>core/crypto/aes-internal.c\<close> and
  \<^verbatim>\<open>core/crypto/aes-internal-enc.c\<close>, in the configuration of \<^verbatim>\<open>aes_i.h\<close>
  (\<^verbatim>\<open>AES_SMALL_TABLES\<close>, not unrolled): the table \<^verbatim>\<open>Te0\<close>, the macros that read it, the
  key schedule and the encryption of one block. The lemmas show that the cipher always produces a block of 16 bytes.
\<close>

section \<open>Tables and macros\<close>

definition Te0 :: "u32 list" where
  "Te0 =
    [
     0xc66363a5, 0xf87c7c84, 0xee777799, 0xf67b7b8d, 0xfff2f20d, 0xd66b6bbd,
     0xde6f6fb1, 0x91c5c554, 0x60303050, 0x02010103, 0xce6767a9, 0x562b2b7d,
     0xe7fefe19, 0xb5d7d762, 0x4dababe6, 0xec76769a, 0x8fcaca45, 0x1f82829d,
     0x89c9c940, 0xfa7d7d87, 0xeffafa15, 0xb25959eb, 0x8e4747c9, 0xfbf0f00b,
     0x41adadec, 0xb3d4d467, 0x5fa2a2fd, 0x45afafea, 0x239c9cbf, 0x53a4a4f7,
     0xe4727296, 0x9bc0c05b, 0x75b7b7c2, 0xe1fdfd1c, 0x3d9393ae, 0x4c26266a,
     0x6c36365a, 0x7e3f3f41, 0xf5f7f702, 0x83cccc4f, 0x6834345c, 0x51a5a5f4,
     0xd1e5e534, 0xf9f1f108, 0xe2717193, 0xabd8d873, 0x62313153, 0x2a15153f,
     0x0804040c, 0x95c7c752, 0x46232365, 0x9dc3c35e, 0x30181828, 0x379696a1,
     0x0a05050f, 0x2f9a9ab5, 0x0e070709, 0x24121236, 0x1b80809b, 0xdfe2e23d,
     0xcdebeb26, 0x4e272769, 0x7fb2b2cd, 0xea75759f, 0x1209091b, 0x1d83839e,
     0x582c2c74, 0x341a1a2e, 0x361b1b2d, 0xdc6e6eb2, 0xb45a5aee, 0x5ba0a0fb,
     0xa45252f6, 0x763b3b4d, 0xb7d6d661, 0x7db3b3ce, 0x5229297b, 0xdde3e33e,
     0x5e2f2f71, 0x13848497, 0xa65353f5, 0xb9d1d168, 0x00000000, 0xc1eded2c,
     0x40202060, 0xe3fcfc1f, 0x79b1b1c8, 0xb65b5bed, 0xd46a6abe, 0x8dcbcb46,
     0x67bebed9, 0x7239394b, 0x944a4ade, 0x984c4cd4, 0xb05858e8, 0x85cfcf4a,
     0xbbd0d06b, 0xc5efef2a, 0x4faaaae5, 0xedfbfb16, 0x864343c5, 0x9a4d4dd7,
     0x66333355, 0x11858594, 0x8a4545cf, 0xe9f9f910, 0x04020206, 0xfe7f7f81,
     0xa05050f0, 0x783c3c44, 0x259f9fba, 0x4ba8a8e3, 0xa25151f3, 0x5da3a3fe,
     0x804040c0, 0x058f8f8a, 0x3f9292ad, 0x219d9dbc, 0x70383848, 0xf1f5f504,
     0x63bcbcdf, 0x77b6b6c1, 0xafdada75, 0x42212163, 0x20101030, 0xe5ffff1a,
     0xfdf3f30e, 0xbfd2d26d, 0x81cdcd4c, 0x180c0c14, 0x26131335, 0xc3ecec2f,
     0xbe5f5fe1, 0x359797a2, 0x884444cc, 0x2e171739, 0x93c4c457, 0x55a7a7f2,
     0xfc7e7e82, 0x7a3d3d47, 0xc86464ac, 0xba5d5de7, 0x3219192b, 0xe6737395,
     0xc06060a0, 0x19818198, 0x9e4f4fd1, 0xa3dcdc7f, 0x44222266, 0x542a2a7e,
     0x3b9090ab, 0x0b888883, 0x8c4646ca, 0xc7eeee29, 0x6bb8b8d3, 0x2814143c,
     0xa7dede79, 0xbc5e5ee2, 0x160b0b1d, 0xaddbdb76, 0xdbe0e03b, 0x64323256,
     0x743a3a4e, 0x140a0a1e, 0x924949db, 0x0c06060a, 0x4824246c, 0xb85c5ce4,
     0x9fc2c25d, 0xbdd3d36e, 0x43acacef, 0xc46262a6, 0x399191a8, 0x319595a4,
     0xd3e4e437, 0xf279798b, 0xd5e7e732, 0x8bc8c843, 0x6e373759, 0xda6d6db7,
     0x018d8d8c, 0xb1d5d564, 0x9c4e4ed2, 0x49a9a9e0, 0xd86c6cb4, 0xac5656fa,
     0xf3f4f407, 0xcfeaea25, 0xca6565af, 0xf47a7a8e, 0x47aeaee9, 0x10080818,
     0x6fbabad5, 0xf0787888, 0x4a25256f, 0x5c2e2e72, 0x381c1c24, 0x57a6a6f1,
     0x73b4b4c7, 0x97c6c651, 0xcbe8e823, 0xa1dddd7c, 0xe874749c, 0x3e1f1f21,
     0x964b4bdd, 0x61bdbddc, 0x0d8b8b86, 0x0f8a8a85, 0xe0707090, 0x7c3e3e42,
     0x71b5b5c4, 0xcc6666aa, 0x904848d8, 0x06030305, 0xf7f6f601, 0x1c0e0e12,
     0xc26161a3, 0x6a35355f, 0xae5757f9, 0x69b9b9d0, 0x17868691, 0x99c1c158,
     0x3a1d1d27, 0x279e9eb9, 0xd9e1e138, 0xebf8f813, 0x2b9898b3, 0x22111133,
     0xd26969bb, 0xa9d9d970, 0x078e8e89, 0x339494a7, 0x2d9b9bb6, 0x3c1e1e22,
     0x15878792, 0xc9e9e920, 0x87cece49, 0xaa5555ff, 0x50282878, 0xa5dfdf7a,
     0x038c8c8f, 0x59a1a1f8, 0x09898980, 0x1a0d0d17, 0x65bfbfda, 0xd7e6e631,
     0x844242c6, 0xd06868b8, 0x824141c3, 0x299999b0, 0x5a2d2d77, 0x1e0f0f11,
     0x7bb0b0cb, 0xa85454fc, 0x6dbbbbd6, 0x2c16163a
    ]"

definition rcons :: "u8 list" where
  "rcons = [0x01, 0x02, 0x04, 0x08, 0x10, 0x20, 0x40, 0x80, 0x1B, 0x36]"

definition aes_rotr :: "u32 \<Rightarrow> nat \<Rightarrow> u32" where
  "aes_rotr val bits = drop_bit bits val OR push_bit (32 - bits) val"

text \<open>The table entry at the byte of \<open>w\<close> that ends \<open>k\<close> bits up.\<close>

definition te_at :: "u32 \<Rightarrow> nat \<Rightarrow> u32" where
  "te_at w k = Te0 ! unat (drop_bit k w AND 0xff)"

definition TE0 :: "u32 \<Rightarrow> u32" where "TE0 w = te_at w 24"
definition TE1 :: "u32 \<Rightarrow> u32" where "TE1 w = aes_rotr (te_at w 16) 8"
definition TE2 :: "u32 \<Rightarrow> u32" where "TE2 w = aes_rotr (te_at w 8) 16"
definition TE3 :: "u32 \<Rightarrow> u32" where "TE3 w = aes_rotr (te_at w 0) 24"

definition TE41 :: "u32 \<Rightarrow> u32" where "TE41 w = push_bit 8 (te_at w 24) AND 0xff000000"
definition TE42 :: "u32 \<Rightarrow> u32" where "TE42 w = te_at w 16 AND 0x00ff0000"
definition TE43 :: "u32 \<Rightarrow> u32" where "TE43 w = te_at w 8 AND 0x0000ff00"
definition TE44 :: "u32 \<Rightarrow> u32" where "TE44 w = drop_bit 8 (te_at w 0) AND 0x000000ff"

definition TE421 :: "u32 \<Rightarrow> u32" where "TE421 w = push_bit 8 (te_at w 16) AND 0xff000000"
definition TE432 :: "u32 \<Rightarrow> u32" where "TE432 w = te_at w 8 AND 0x00ff0000"
definition TE443 :: "u32 \<Rightarrow> u32" where "TE443 w = te_at w 0 AND 0x0000ff00"
definition TE414 :: "u32 \<Rightarrow> u32" where "TE414 w = drop_bit 8 (te_at w 24) AND 0x000000ff"

definition TE411 :: "u32 \<Rightarrow> u32" where "TE411 w = push_bit 8 (te_at w 24) AND 0xff000000"
definition TE422 :: "u32 \<Rightarrow> u32" where "TE422 w = te_at w 16 AND 0x00ff0000"
definition TE433 :: "u32 \<Rightarrow> u32" where "TE433 w = te_at w 8 AND 0x0000ff00"
definition TE444 :: "u32 \<Rightarrow> u32" where "TE444 w = drop_bit 8 (te_at w 0) AND 0x000000ff"

definition RCON :: "nat \<Rightarrow> u32" where
  "RCON i = push_bit 24 (ucast (rcons ! i))"

definition GETU32 :: "u8 list \<Rightarrow> nat \<Rightarrow> u32" where
  "GETU32 pt i = push_bit 24 (ucast (byte_at pt i)) XOR push_bit 16 (ucast (byte_at pt (i + 1)))
     XOR push_bit 8 (ucast (byte_at pt (i + 2))) XOR ucast (byte_at pt (i + 3))"

definition PUTU32 :: "u32 \<Rightarrow> u8 list" where
  "PUTU32 st = [ucast (drop_bit 24 st), ucast (drop_bit 16 st), ucast (drop_bit 8 st), ucast st]"

section \<open>The key schedule\<close>

text \<open>
  The round keys are the list of the words written so far; the pointer \<^verbatim>\<open>rk\<close> of iteration
  \<open>i\<close> is the offset \<open>4 * i\<close>, \<open>6 * i\<close> or \<open>8 * i\<close>.
\<close>

definition ks_rot :: "u32 \<Rightarrow> nat \<Rightarrow> u32" where
  "ks_rot temp i = TE421 temp XOR TE432 temp XOR TE443 temp XOR TE414 temp XOR RCON i"

definition ks_sub :: "u32 \<Rightarrow> u32" where
  "ks_sub temp = TE411 temp XOR TE422 temp XOR TE433 temp XOR TE444 temp"

definition ks128_step :: "nat \<Rightarrow> u32 list \<Rightarrow> u32 list" where
  "ks128_step i rk =
     (let r = 4 * i;
          k4 = rk ! r XOR ks_rot (rk ! (r + 3)) i;
          k5 = rk ! (r + 1) XOR k4;
          k6 = rk ! (r + 2) XOR k5;
          k7 = rk ! (r + 3) XOR k6
      in rk @ [k4, k5, k6, k7])"

definition ks192_step :: "nat \<Rightarrow> u32 list \<Rightarrow> u32 list" where
  "ks192_step i rk =
     (let r = 6 * i;
          k6 = rk ! r XOR ks_rot (rk ! (r + 5)) i;
          k7 = rk ! (r + 1) XOR k6;
          k8 = rk ! (r + 2) XOR k7;
          k9 = rk ! (r + 3) XOR k8;
          k10 = rk ! (r + 4) XOR k9;
          k11 = rk ! (r + 5) XOR k10
      in if i = 7 then rk @ [k6, k7, k8, k9] else rk @ [k6, k7, k8, k9, k10, k11])"

definition ks256_step :: "nat \<Rightarrow> u32 list \<Rightarrow> u32 list" where
  "ks256_step i rk =
     (let r = 8 * i;
          k8 = rk ! r XOR ks_rot (rk ! (r + 7)) i;
          k9 = rk ! (r + 1) XOR k8;
          k10 = rk ! (r + 2) XOR k9;
          k11 = rk ! (r + 3) XOR k10;
          k12 = rk ! (r + 4) XOR ks_sub k11;
          k13 = rk ! (r + 5) XOR k12;
          k14 = rk ! (r + 6) XOR k13;
          k15 = rk ! (r + 7) XOR k14
      in if i = 6 then rk @ [k8, k9, k10, k11]
         else rk @ [k8, k9, k10, k11, k12, k13, k14, k15])"

text \<open>\<open>None\<close> is the result -1; otherwise the round keys and the number of rounds.\<close>

definition rijndaelKeySetupEnc :: "u8 list \<Rightarrow> nat \<Rightarrow> (u32 list \<times> nat) option" where
  "rijndaelKeySetupEnc cipherKey keyBits =
     (let rk = map (\<lambda>i. GETU32 cipherKey (4 * i)) in
      if keyBits = 128 then Some (fold ks128_step [0..<10] (rk [0..<4]), 10)
      else if keyBits = 192 then Some (fold ks192_step [0..<8] (rk [0..<6]), 12)
      else if keyBits = 256 then Some (fold ks256_step [0..<7] (rk [0..<8]), 14)
      else None)"

section \<open>One block\<close>

type_synonym aes_state = "u32 \<times> u32 \<times> u32 \<times> u32"

text \<open>\<^verbatim>\<open>ROUND\<close>, with the round key at offset \<open>k\<close>.\<close>

fun aes_round :: "u32 list \<Rightarrow> nat \<Rightarrow> aes_state \<Rightarrow> aes_state" where
  "aes_round rk k (s0, s1, s2, s3) =
     (TE0 s0 XOR TE1 s1 XOR TE2 s2 XOR TE3 s3 XOR rk ! k,
      TE0 s1 XOR TE1 s2 XOR TE2 s3 XOR TE3 s0 XOR rk ! (k + 1),
      TE0 s2 XOR TE1 s3 XOR TE2 s0 XOR TE3 s1 XOR rk ! (k + 2),
      TE0 s3 XOR TE1 s0 XOR TE2 s1 XOR TE3 s2 XOR rk ! (k + 3))"

text \<open>The loop over two rounds each; \<open>k\<close> is the offset of \<^verbatim>\<open>rk\<close>.\<close>

fun aes_rounds :: "u32 list \<Rightarrow> nat \<Rightarrow> nat \<Rightarrow> aes_state \<Rightarrow> aes_state \<times> nat" where
  "aes_rounds rk 0 k s = (s, k)"
| "aes_rounds rk (Suc r) k s =
     (let t = aes_round rk (k + 4) s
      in if r = 0 then (t, k + 8) else aes_rounds rk r (k + 8) (aes_round rk (k + 8) t))"

fun aes_last :: "u32 list \<Rightarrow> nat \<Rightarrow> aes_state \<Rightarrow> u8 list" where
  "aes_last rk k (t0, t1, t2, t3) =
     PUTU32 (TE41 t0 XOR TE42 t1 XOR TE43 t2 XOR TE44 t3 XOR rk ! k)
     @ PUTU32 (TE41 t1 XOR TE42 t2 XOR TE43 t3 XOR TE44 t0 XOR rk ! (k + 1))
     @ PUTU32 (TE41 t2 XOR TE42 t3 XOR TE43 t0 XOR TE44 t1 XOR rk ! (k + 2))
     @ PUTU32 (TE41 t3 XOR TE42 t0 XOR TE43 t1 XOR TE44 t2 XOR rk ! (k + 3))"

definition rijndaelEncrypt :: "u32 list \<Rightarrow> nat \<Rightarrow> u8 list \<Rightarrow> u8 list" where
  "rijndaelEncrypt rk Nr pt =
     (let s = (GETU32 pt 0 XOR rk ! 0, GETU32 pt 4 XOR rk ! 1,
               GETU32 pt 8 XOR rk ! 2, GETU32 pt 12 XOR rk ! 3);
          (t, k) = aes_rounds rk (Nr div 2) 0 s
      in aes_last rk k t)"

text \<open>
  The context is the round keys and their number, and \<open>None\<close> is the NULL of a failed
  allocation or of a key length that is not supported. The kernel's allocator is a
  parameter: \<open>mem n\<close> says whether a request of \<open>n\<close> bytes succeeds.
\<close>

type_synonym aes_ctx = "u32 list \<times> nat"

definition AES_PRIV_SIZE :: nat where "AES_PRIV_SIZE = 4 * 4 * 15 + 4"

definition aes_encrypt_init :: "(nat \<Rightarrow> bool) \<Rightarrow> u8 list \<Rightarrow> nat \<Rightarrow> aes_ctx option" where
  "aes_encrypt_init mem key len =
     (if \<not> mem AES_PRIV_SIZE then None else rijndaelKeySetupEnc key (len * 8))"

definition aes_encrypt :: "aes_ctx \<Rightarrow> u8 list \<Rightarrow> u8 list" where
  "aes_encrypt ctx plain = rijndaelEncrypt (fst ctx) (snd ctx) plain"

lemma length_PUTU32 [simp]: "length (PUTU32 w) = 4"
  by (simp add: PUTU32_def)

lemma length_aes_last [simp]: "length (aes_last rk k t) = 16"
  by (cases t) simp

lemma length_aes_encrypt [simp]: "length (aes_encrypt ctx plain) = 16"
  by (simp add: aes_encrypt_def rijndaelEncrypt_def Let_def split: prod.splits)

end
