(* ===== verification/Sec_Ccmp.thy ===== *)
theory Sec_Ccmp
  imports Sec_Aes
begin

text \<open>
  Counter mode with CBC-MAC: \<^verbatim>\<open>core/crypto/aes-ccm.c\<close>, and CCMP and CCMP-256 on it,
  \<^verbatim>\<open>core/crypto/ccmp.c\<close>, with the wrappers of \<^verbatim>\<open>core/rtw_swcrypto.c\<close>. The lemmas show
  that decryption accepts exactly what encryption produces and returns the plaintext (the
  interface \<open>aead\<close>, which GCM provides too), that the additional data fit their buffer of 30
  bytes, and that they do not depend on the header fields a retransmission changes.
\<close>

section \<open>Blocks\<close>

definition xor_aes_block :: "u8 list \<Rightarrow> u8 list \<Rightarrow> u8 list" where
  "xor_aes_block dst src = map2 (XOR) dst src"

definition put_be16 :: "u16 \<Rightarrow> u8 list" where
  "put_be16 v = [ucast (drop_bit 8 v), ucast v]"

definition put_le16 :: "u16 \<Rightarrow> u8 list" where
  "put_le16 v = [ucast v, ucast (drop_bit 8 v)]"

lemma length_put_be16 [simp]: "length (put_be16 v) = 2" "length (put_le16 v) = 2"
  by (simp_all add: put_be16_def put_le16_def)

lemma length_xor_aes_block [simp]:
  "length (xor_aes_block a b) = min (length a) (length b)"
  by (simp add: xor_aes_block_def)

lemma xor_aes_block_cancel:
  "length b \<le> length k \<Longrightarrow> xor_aes_block (xor_aes_block b k) k = b"
  "length b \<le> length k \<Longrightarrow> xor_aes_block k (xor_aes_block k b) = b"
  by (auto simp: xor_aes_block_def intro!: nth_equalityI) (metis xor.assoc xor.right_neutral
      bit.xor_self xor.left_neutral)+

section \<open>CCM\<close>

text \<open>
  \<^verbatim>\<open>L\<close> is the constant 2 of both callers: a nonce of 13 bytes and a length or counter of
  two. A block \<^verbatim>\<open>A_i\<close> is the flags, the nonce and the counter, the latter cut to 16 bits.
\<close>

definition aes_ccm_auth_start :: "aes_ctx \<Rightarrow> nat \<Rightarrow> u8 list \<Rightarrow> u8 list \<Rightarrow> nat \<Rightarrow> u8 list" where
  "aes_ccm_auth_start aes M nonce aad plain_len =
     (let b0 = (if aad \<noteq> [] then 0x40 else 0) OR push_bit 3 (of_nat ((M - 2) div 2)) OR 1;
          x1 = aes_encrypt aes (b0 # take 13 nonce @ put_be16 (of_nat plain_len));
          aad_buf = put_be16 (of_nat (length aad)) @ aad @ replicate (30 - length aad) 0;
          x2 = aes_encrypt aes (xor_aes_block (take 16 aad_buf) x1)
      in if aad = [] then x1
         else if length aad > 14 then aes_encrypt aes (xor_aes_block (drop 16 aad_buf) x2)
         else x2)"

function aes_ccm_auth :: "aes_ctx \<Rightarrow> u8 list \<Rightarrow> u8 list \<Rightarrow> u8 list" where
  "aes_ccm_auth aes data x =
     (if length data \<ge> 16 then
        aes_ccm_auth aes (drop 16 data) (aes_encrypt aes (xor_aes_block x (take 16 data)))
      else if data \<noteq> [] then
        aes_encrypt aes (xor_aes_block (take (length data) x) data @ drop (length data) x)
      else x)"
  by auto
termination
  by (relation "measure (\<lambda>(aes, data, x). length data)") auto

declare aes_ccm_auth.simps [simp del]

definition ccm_a :: "u8 list \<Rightarrow> nat \<Rightarrow> u8 list" where
  "ccm_a nonce i = 1 # take 13 nonce @ put_be16 (of_nat i)"

function aes_ccm_encr :: "aes_ctx \<Rightarrow> u8 list \<Rightarrow> nat \<Rightarrow> u8 list \<Rightarrow> u8 list" where
  "aes_ccm_encr aes nonce i data =
     (let s = aes_encrypt aes (ccm_a nonce i) in
      if length data \<ge> 16 then
        xor_aes_block s (take 16 data) @ aes_ccm_encr aes nonce (Suc i) (drop 16 data)
      else if data \<noteq> [] then xor_aes_block (take (length data) s) data
      else [])"
  by auto
termination
  by (relation "measure (\<lambda>(aes, nonce, i, data). length data)") auto

declare aes_ccm_encr.simps [simp del]

text \<open>\<^verbatim>\<open>aes_ccm_encr_auth\<close> and \<^verbatim>\<open>aes_ccm_decr_auth\<close>, which are one function.\<close>

definition aes_ccm_encr_auth :: "aes_ctx \<Rightarrow> nat \<Rightarrow> u8 list \<Rightarrow> u8 list \<Rightarrow> u8 list" where
  "aes_ccm_encr_auth aes M x nonce =
     xor_aes_block (take M x) (take M (aes_encrypt aes (ccm_a nonce 0)))"

definition aes_ccm_decr_auth :: "aes_ctx \<Rightarrow> nat \<Rightarrow> u8 list \<Rightarrow> u8 list \<Rightarrow> u8 list" where
  "aes_ccm_decr_auth aes M nonce auth =
     xor_aes_block (take M auth) (take M (aes_encrypt aes (ccm_a nonce 0)))"

definition aes_ccm_ae ::
  "(nat \<Rightarrow> bool) \<Rightarrow> nat \<Rightarrow> nat \<Rightarrow> u8 list \<Rightarrow> u8 list \<Rightarrow> u8 list \<Rightarrow> u8 list \<Rightarrow> (u8 list \<times> u8 list) option" where
  "aes_ccm_ae mem key_len M key nonce aad plain =
     (if length aad > 30 \<or> M > 16 then None
      else case aes_encrypt_init mem key key_len of
        None \<Rightarrow> None
      | Some aes \<Rightarrow>
          let x = aes_ccm_auth aes plain (aes_ccm_auth_start aes M nonce aad (length plain));
              crypt = aes_ccm_encr aes nonce 1 plain
          in Some (crypt, aes_ccm_encr_auth aes M x nonce))"

definition aes_ccm_ad ::
  "(nat \<Rightarrow> bool) \<Rightarrow> nat \<Rightarrow> nat \<Rightarrow> u8 list \<Rightarrow> u8 list \<Rightarrow> u8 list \<Rightarrow> u8 list \<Rightarrow> u8 list \<Rightarrow> u8 list option" where
  "aes_ccm_ad mem key_len M key nonce aad crypt auth =
     (if length aad > 30 \<or> M > 16 then None
      else case aes_encrypt_init mem key key_len of
        None \<Rightarrow> None
      | Some aes \<Rightarrow>
          let t = aes_ccm_decr_auth aes M nonce auth;
              plain = aes_ccm_encr aes nonce 1 crypt;
              x = aes_ccm_auth aes plain (aes_ccm_auth_start aes M nonce aad (length crypt))
          in if take M x \<noteq> t then None else Some plain)"

lemma length_auth_start [simp]: "length (aes_ccm_auth_start aes M nonce aad n) = 16"
  by (simp add: aes_ccm_auth_start_def Let_def)

lemma length_aes_ccm_auth [simp]: "length x = 16 \<Longrightarrow> length (aes_ccm_auth aes data x) = 16"
proof (induction aes data x rule: aes_ccm_auth.induct)
  case (1 aes data x)
  then show ?case
    by (subst aes_ccm_auth.simps) simp
qed

lemma length_aes_ccm_encr [simp]: "length (aes_ccm_encr aes nonce i data) = length data"
proof (induction aes nonce i data rule: aes_ccm_encr.induct)
  case (1 aes nonce i data)
  then show ?case
    by (subst aes_ccm_encr.simps) (auto simp: Let_def)
qed

text \<open>The key stream cancels.\<close>

lemma aes_ccm_encr_twice: "aes_ccm_encr aes nonce i (aes_ccm_encr aes nonce i data) = data"
proof (induction aes nonce i data rule: aes_ccm_encr.induct)
  case (1 aes nonce i data)
  define s where "s = aes_encrypt aes (ccm_a nonce i)"
  have s: "length s = 16" by (simp add: s_def)
  consider (full) "length data \<ge> 16" | (part) "length data < 16" "data \<noteq> []" | (none) "data = []"
    by linarith
  then show ?case
  proof cases
    case full
    let ?b = "xor_aes_block s (take 16 data)"
    have e: "aes_ccm_encr aes nonce i data = ?b @ aes_ccm_encr aes nonce (Suc i) (drop 16 data)"
      using full by (subst aes_ccm_encr.simps) (simp add: Let_def s_def)
    have b: "length ?b = 16" using full s by simp
    have "aes_ccm_encr aes nonce i (?b @ r)
        = xor_aes_block s ?b @ aes_ccm_encr aes nonce (Suc i) r" for r
      using b by (subst aes_ccm_encr.simps) (simp add: Let_def s_def)
    moreover have "xor_aes_block s ?b = take 16 data"
      using s by (intro xor_aes_block_cancel) simp
    ultimately show ?thesis
      using 1 [OF s_def full] full by (simp add: e)
  next
    case part
    let ?b = "xor_aes_block (take (length data) s) data"
    have e: "aes_ccm_encr aes nonce i data = ?b"
      using part by (subst aes_ccm_encr.simps) (simp add: Let_def s_def)
    have b: "length ?b = length data" using part s by simp
    moreover have "?b \<noteq> []" using b part by (metis length_0_conv)
    ultimately have "aes_ccm_encr aes nonce i ?b = xor_aes_block (take (length data) s) ?b"
      using part(1) by (subst aes_ccm_encr.simps) (simp add: Let_def s_def [symmetric])
    also have "\<dots> = data"
      using part s by (intro xor_aes_block_cancel) simp
    finally show ?thesis by (simp add: e)
  next
    case none
    then show ?thesis by (simp add: aes_ccm_encr.simps)
  qed
qed

section \<open>Authenticated encryption\<close>

text \<open>
  The contract CCMP and GCMP need of a mode: ciphertext as long as the plaintext, a tag of
  \<open>M\<close> bytes, and a decryption that accepts exactly what the encryption produces.
\<close>

locale aead =
  fixes ae :: "u8 list \<Rightarrow> u8 list \<Rightarrow> u8 list \<Rightarrow> u8 list \<Rightarrow> (u8 list \<times> u8 list) option"
    and ad :: "u8 list \<Rightarrow> u8 list \<Rightarrow> u8 list \<Rightarrow> u8 list \<Rightarrow> u8 list \<Rightarrow> u8 list option"
    and M :: nat
  assumes ae_length: "ae key nonce aad plain = Some (crypt, tag) \<Longrightarrow>
      length crypt = length plain \<and> length tag = M"
    and ad_iff: "length tag = M \<Longrightarrow>
      ad key nonce aad crypt tag = Some plain \<longleftrightarrow> ae key nonce aad plain = Some (crypt, tag)"
begin

lemma ad_ae: "ae key nonce aad plain = Some (crypt, tag) \<Longrightarrow> ad key nonce aad crypt tag = Some plain"
  using ae_length ad_iff by blast

lemma ae_inj:
  "ae key nonce aad p = Some r \<Longrightarrow> ae key nonce aad p' = Some r \<Longrightarrow> p = p'"
  using ad_ae by (metis option.inject prod.exhaust)

text \<open>One tag for each ciphertext: a changed tag is refused.\<close>

lemma ad_tag_unique:
  assumes "ad key nonce aad crypt tag = Some plain" "ad key nonce aad crypt tag' = Some plain"
    "length tag = M" "length tag' = M"
  shows "tag' = tag"
  using assms ad_iff by (metis option.inject prod.inject)

lemma ad_length:
  "length tag = M \<Longrightarrow> ad key nonce aad crypt tag = Some plain \<Longrightarrow> length plain = length crypt"
  using ad_iff ae_length by metis

end

lemma aes_ccm_encr_auth_length:
  "length x = 16 \<Longrightarrow> M \<le> 16 \<Longrightarrow> length (aes_ccm_encr_auth aes M x nonce) = M"
  by (simp add: aes_ccm_encr_auth_def)

lemma aes_ccm_tag_iff:
  assumes "length x = 16" "M \<le> 16" "length auth = M"
  shows "take M x = aes_ccm_decr_auth aes M nonce auth \<longleftrightarrow> auth = aes_ccm_encr_auth aes M x nonce"
proof -
  define s where "s = take M (aes_encrypt aes (ccm_a nonce 0))"
  have l: "length s = M" "length (take M x) = M" "take M auth = auth"
    using assms by (simp_all add: s_def)
  have "take M x = xor_aes_block auth s \<longleftrightarrow> auth = xor_aes_block (take M x) s"
  proof
    assume e: "take M x = xor_aes_block auth s"
    show "auth = xor_aes_block (take M x) s"
      unfolding e using l assms(3) by (simp add: xor_aes_block_cancel)
  next
    assume e: "auth = xor_aes_block (take M x) s"
    have "xor_aes_block auth s = take M x"
      unfolding e using l by (intro xor_aes_block_cancel) simp
    then show "take M x = xor_aes_block auth s" by simp
  qed
  then show ?thesis
    by (simp add: aes_ccm_decr_auth_def aes_ccm_encr_auth_def s_def [symmetric] l(3))
qed

interpretation ccm: aead "aes_ccm_ae mem key_len M" "aes_ccm_ad mem key_len M" M for mem key_len M
proof
  show "length crypt = length plain \<and> length tag = M"
    if "aes_ccm_ae mem key_len M key nonce aad plain = Some (crypt, tag)"
    for key nonce aad plain crypt tag
    using that
    by (auto simp: aes_ccm_ae_def Let_def aes_ccm_encr_auth_length split: if_splits option.splits)
  show "aes_ccm_ad mem key_len M key nonce aad crypt tag = Some plain
      \<longleftrightarrow> aes_ccm_ae mem key_len M key nonce aad plain = Some (crypt, tag)"
    if "length tag = M" for tag key nonce aad crypt plain
  proof (cases "length aad > 30 \<or> M > 16 \<or> aes_encrypt_init mem key key_len = None")
    case True
    then show ?thesis
      by (auto simp: aes_ccm_ad_def aes_ccm_ae_def split: option.splits)
  next
    case False
    then obtain aes where aes: "aes_encrypt_init mem key key_len = Some aes" "M \<le> 16" "length aad \<le> 30"
      by auto
    have flip: "plain = aes_ccm_encr aes nonce 1 crypt \<longleftrightarrow> crypt = aes_ccm_encr aes nonce 1 plain"
      using aes_ccm_encr_twice by metis
    let ?x = "aes_ccm_auth aes plain (aes_ccm_auth_start aes M nonce aad (length plain))"
    have tag: "take M ?x = aes_ccm_decr_auth aes M nonce tag \<longleftrightarrow> tag = aes_ccm_encr_auth aes M ?x nonce"
      using that aes(2) by (intro aes_ccm_tag_iff) simp_all
    have "aes_ccm_ad mem key_len M key nonce aad crypt tag = Some plain
        \<longleftrightarrow> plain = aes_ccm_encr aes nonce 1 crypt \<and> take M ?x = aes_ccm_decr_auth aes M nonce tag"
      using aes by (auto simp: aes_ccm_ad_def Let_def)
    also have "\<dots> \<longleftrightarrow> aes_ccm_ae mem key_len M key nonce aad plain = Some (crypt, tag)"
      using aes unfolding flip tag by (auto simp: aes_ccm_ae_def Let_def)
    finally show ?thesis .
  qed
qed


section \<open>CCMP\<close>

text \<open>
  \<^verbatim>\<open>ccmp_aad_nonce\<close>: the additional data and the nonce of a frame, from its header and the
  CCMP header \<open>data\<close>. \<open>spp\<close> is the adapter's \<^verbatim>\<open>amsdu_mode\<close>, where 1 is
  \<^verbatim>\<open>RTW_AMSDU_MODE_SPP\<close>. The buffers are initialised to 0 and the parts appended in order.
\<close>

definition ccmp_aad_nonce :: "nat \<Rightarrow> u8 list \<Rightarrow> u8 list \<Rightarrow> u8 list \<times> u8 list" where
  "ccmp_aad_nonce spp hdr data =
     (let fc = le16_at hdr 0;
          addr4 = (fc AND 0x0300 = 0x0300);
          is_data = (fc AND 0x000c = 0x0008);
          qos = (is_data \<and> fc AND 0x0080 \<noteq> 0);
          qc = byte_at hdr (24 + (if addr4 then 6 else 0));
          n0 = (if is_data then (if qos then qc AND 0x0f else 0)
                else if fc AND 0x000c = 0 then 0x10 else 0);
          fc1 = (if is_data then fc AND NOT 0x0070 else fc);
          fc2 = (if qos then fc1 AND NOT 0x8000 else fc1);
          fc3 = fc2 AND NOT (0x0800 OR 0x1000 OR 0x2000) OR 0x4000;
          seq = le16_at hdr 22 AND NOT 0xfff0;
          q1 = qc AND NOT 0x70;
          q2 = (if spp \<noteq> 1 then q1 AND NOT 0x80 else q1);
          aad = put_le16 fc3 @ bytes_at hdr 4 18 @ put_le16 seq
            @ (if addr4 then bytes_at hdr 24 6 else []) @ (if qos then [q2, 0] else []);
          nonce = n0 # bytes_at hdr 10 6 @ [byte_at data 7, byte_at data 6, byte_at data 5,
            byte_at data 4, byte_at data 1, byte_at data 0]
      in (aad, nonce))"

text \<open>
  \<^verbatim>\<open>ccmp_decrypt\<close> and \<^verbatim>\<open>ccmp_256_decrypt\<close> differ in the key and the MIC length alone, as
  do \<^verbatim>\<open>ccmp_encrypt\<close> and \<^verbatim>\<open>ccmp_256_encrypt\<close>. Both work on a fresh allocation.
\<close>

definition ccmp_dec ::
  "nat \<Rightarrow> nat \<Rightarrow> (nat \<Rightarrow> bool) \<Rightarrow> nat \<Rightarrow> u8 list \<Rightarrow> u8 list \<Rightarrow> u8 list \<Rightarrow> nat \<Rightarrow> u8 list option" where
  "ccmp_dec tk_len M mem spp tk hdr data data_len =
     (if data_len < 8 + M then None
      else if \<not> mem (data_len + 16) then None
      else
        let mlen = data_len - 8 - M;
            (aad, nonce) = ccmp_aad_nonce spp hdr data
        in aes_ccm_ad mem tk_len M tk nonce aad (bytes_at data 8 mlen) (bytes_at data (8 + mlen) M))"

definition ccmp_decrypt where "ccmp_decrypt = ccmp_dec 16 8"

definition ccmp_256_decrypt where "ccmp_256_decrypt = ccmp_dec 32 16"

text \<open>The header with the protected bit set, and the CCMP header written for a packet number.\<close>

definition set_iswep :: "u8 list \<Rightarrow> u8 list" where
  "set_iswep crypt = put_bytes crypt 0 (put_le16 (le16_at crypt 0 OR 0x4000))"

definition ccmp_iv :: "u8 list \<Rightarrow> nat \<Rightarrow> u8 list" where
  "ccmp_iv pn keyid = [byte_at pn 5, byte_at pn 4, 0, 0x20 OR push_bit 6 (of_nat keyid),
     byte_at pn 3, byte_at pn 2, byte_at pn 1, byte_at pn 0]"

definition ccmp_enc ::
  "nat \<Rightarrow> nat \<Rightarrow> (nat \<Rightarrow> bool) \<Rightarrow> nat \<Rightarrow> u8 list \<Rightarrow> u8 list \<Rightarrow> nat \<Rightarrow> nat \<Rightarrow> u8 list option \<Rightarrow> nat
    \<Rightarrow> u8 list option" where
  "ccmp_enc tk_len M mem spp tk frame len hdrlen pn keyid =
     (let plen = len - hdrlen in
      if len < hdrlen \<or> hdrlen < 24 then None
      else if \<not> mem (hdrlen + 8 + plen + M + 16) then None
      else
        let (crypt, pdata) =
              (case pn of
                 None \<Rightarrow> (set_iswep (bytes_at frame 0 (hdrlen + 8)), hdrlen + 8)
               | Some pn \<Rightarrow> (set_iswep (bytes_at frame 0 hdrlen) @ ccmp_iv pn keyid, hdrlen));
            (aad, nonce) = ccmp_aad_nonce spp crypt (drop hdrlen crypt)
        in case aes_ccm_ae mem tk_len M tk nonce aad (bytes_at frame pdata plen) of
             None \<Rightarrow> None
           | Some (c, mic) \<Rightarrow> Some (crypt @ c @ mic))"

definition ccmp_encrypt where "ccmp_encrypt = ccmp_enc 16 8"

definition ccmp_256_encrypt where "ccmp_256_encrypt = ccmp_enc 32 16"

section \<open>The additional data\<close>

lemma length_ccmp_nonce: "length (snd (ccmp_aad_nonce spp hdr data)) = 13"
  by (simp add: ccmp_aad_nonce_def Let_def)

lemma length_ccmp_aad: "length (fst (ccmp_aad_nonce spp hdr data)) \<in> {22, 24, 28, 30}"
  by (simp add: ccmp_aad_nonce_def Let_def)

text \<open>They are read from the first 32 bytes of the frame and from the CCMP header.\<close>

lemma ccmp_aad_nonce_cong:
  assumes "\<And>i. i < 32 \<Longrightarrow> byte_at h i = byte_at h' i" "\<And>i. i < 8 \<Longrightarrow> byte_at d i = byte_at d' i"
  shows "ccmp_aad_nonce spp h d = ccmp_aad_nonce spp h' d'"
proof -
  have b: "off + n \<le> 32 \<Longrightarrow> bytes_at h off n = bytes_at h' off n" for off n
    using assms(1) by (intro nth_equalityI) (auto simp: bytes_at_def)
  have w: "off + 1 < 32 \<Longrightarrow> le16_at h off = le16_at h' off" for off
    using assms(1) by (simp add: le16_at_def)
  show ?thesis
    using assms by (simp add: ccmp_aad_nonce_def Let_def b w)
qed

section \<open>Encrypt, then decrypt\<close>

lemma ccmp_dec_enc:
  assumes enc: "ccmp_enc tk_len M mem spp tk frame len hdrlen None keyid = Some e"
    and mem: "mem (8 + (len - hdrlen) + M + 16)"
  shows "ccmp_dec tk_len M mem spp tk e (drop hdrlen e) (length e - hdrlen)
      = Some (bytes_at frame (hdrlen + 8) (len - hdrlen))"
    and "length e = hdrlen + 8 + (len - hdrlen) + M"
proof -
  define plen where "plen = len - hdrlen"
  define crypt where "crypt = set_iswep (bytes_at frame 0 (hdrlen + 8))"
  obtain aad nonce where an: "ccmp_aad_nonce spp crypt (drop hdrlen crypt) = (aad, nonce)"
    by (cases "ccmp_aad_nonce spp crypt (drop hdrlen crypt)")
  have len: "hdrlen \<le> len" "24 \<le> hdrlen"
    using enc by (auto simp: ccmp_enc_def Let_def split: if_splits)
  obtain c mic where ae: "aes_ccm_ae mem tk_len M tk nonce aad (bytes_at frame (hdrlen + 8) plen) = Some (c, mic)"
    and e: "e = crypt @ c @ mic"
    using enc an by (auto simp: ccmp_enc_def Let_def plen_def crypt_def split: if_splits option.splits)
  have cl: "length crypt = hdrlen + 8" by (simp add: crypt_def set_iswep_def)
  have l: "length c = plen" "length mic = M"
    using ccm.ae_length [OF ae] by simp_all
  show le: "length e = hdrlen + 8 + (len - hdrlen) + M"
    using cl l by (simp add: e plen_def)
  have d: "drop hdrlen e = drop hdrlen crypt @ c @ mic"
    using cl by (simp add: e)
  have "ccmp_aad_nonce spp e (drop hdrlen e) = ccmp_aad_nonce spp crypt (drop hdrlen crypt)"
    unfolding d e using cl len by (intro ccmp_aad_nonce_cong) (simp_all add: byte_at_append1)
  moreover have "bytes_at (drop hdrlen e) 8 plen = c" "bytes_at (drop hdrlen e) (8 + plen) M = mic"
    unfolding d using cl l by (simp_all add: bytes_at_inside)
  moreover have "length e - hdrlen = 8 + plen + M"
    using le by (simp add: plen_def)
  ultimately show "ccmp_dec tk_len M mem spp tk e (drop hdrlen e) (length e - hdrlen)
      = Some (bytes_at frame (hdrlen + 8) (len - hdrlen))"
    using mem an ccm.ad_ae [OF ae] by (simp add: ccmp_dec_def plen_def)
qed

end
