(* ===== verification/Sec_Gcmp.thy ===== *)
theory Sec_Gcmp
  imports Sec_Ccmp
begin

text \<open>
  Galois/counter mode: \<^verbatim>\<open>core/crypto/aes-gcm.c\<close>, and GCMP on it,
  \<^verbatim>\<open>core/crypto/gcmp.c\<close>. The lemmas show that the byte-wise shift of a block is the shift
  of a 128-bit value, and that GCM meets the contract \<open>aead\<close> of CCM's: decryption accepts
  exactly what encryption produces.
\<close>

section \<open>Blocks\<close>

definition be32_at :: "u8 list \<Rightarrow> nat \<Rightarrow> u32" where
  "be32_at bs off = push_bit 24 (ucast (byte_at bs off)) OR push_bit 16 (ucast (byte_at bs (off + 1)))
     OR push_bit 8 (ucast (byte_at bs (off + 2))) OR ucast (byte_at bs (off + 3))"

definition put_be32 :: "u32 \<Rightarrow> u8 list" where
  "put_be32 v = [ucast (drop_bit 24 v), ucast (drop_bit 16 v), ucast (drop_bit 8 v), ucast v]"

definition put_be64 :: "u64 \<Rightarrow> u8 list" where
  "put_be64 v = map (\<lambda>i. ucast (drop_bit (56 - 8 * i) v)) [0..<8]"

lemma length_put_be32 [simp]: "length (put_be32 v) = 4" "length (put_be64 w) = 8"
  by (simp_all add: put_be32_def put_be64_def)

definition inc32 :: "u8 list \<Rightarrow> u8 list" where
  "inc32 block = take 12 block @ put_be32 (be32_at block 12 + 1)"

lemma length_inc32 [simp]: "length block = 16 \<Longrightarrow> length (inc32 block) = 16"
  by (simp add: inc32_def)

text \<open>Each word shifted, with the bit that falls out of the word before it.\<close>

definition shift_right_block :: "u8 list \<Rightarrow> u8 list" where
  "shift_right_block v =
     put_be32 (drop_bit 1 (be32_at v 0))
     @ put_be32 (drop_bit 1 (be32_at v 4) OR (if byte_at v 3 AND 0x01 \<noteq> 0 then 0x80000000 else 0))
     @ put_be32 (drop_bit 1 (be32_at v 8) OR (if byte_at v 7 AND 0x01 \<noteq> 0 then 0x80000000 else 0))
     @ put_be32 (drop_bit 1 (be32_at v 12) OR (if byte_at v 11 AND 0x01 \<noteq> 0 then 0x80000000 else 0))"

lemma length_shift_right_block [simp]: "length (shift_right_block v) = 16"
  by (simp add: shift_right_block_def)

section \<open>Multiplication and GHASH\<close>

text \<open>One bit of the multiplication: bit \<open>k\<close> of \<open>x\<close>, the first bit the most significant of
  byte 0.\<close>

definition gf_mult_step :: "u8 list \<Rightarrow> nat \<Rightarrow> u8 list \<times> u8 list \<Rightarrow> u8 list \<times> u8 list" where
  "gf_mult_step x k zv =
     (case zv of (z, v) \<Rightarrow>
        let z' = (if byte_at x (k div 8) AND push_bit (7 - k mod 8) 1 \<noteq> 0 then xor_aes_block z v else z);
            w = shift_right_block v
        in (z', if byte_at v 15 AND 0x01 \<noteq> 0 then w[0 := w ! 0 XOR 0xe1] else w))"

definition gf_mult :: "u8 list \<Rightarrow> u8 list \<Rightarrow> u8 list" where
  "gf_mult x y = fst (fold (gf_mult_step x) [0..<128] (replicate 16 0, take 16 y))"

function ghash :: "u8 list \<Rightarrow> u8 list \<Rightarrow> u8 list \<Rightarrow> u8 list" where
  "ghash h x y =
     (if length x \<ge> 16 then ghash h (drop 16 x) (gf_mult (xor_aes_block y (take 16 x)) h)
      else if x \<noteq> [] then gf_mult (xor_aes_block y (x @ replicate (16 - length x) 0)) h
      else y)"
  by auto
termination
  by (relation "measure (\<lambda>(h, x, y). length x)") auto

declare ghash.simps [simp del]

lemma length_gf_mult [simp]: "length (gf_mult x y) = 16" if "length y \<ge> 16"
proof -
  have "length (fst (fold (gf_mult_step x) ks (z, v))) = 16 \<and> length (snd (fold (gf_mult_step x) ks (z, v))) = 16"
    if "length z = 16" "length v = 16" for ks z v
    using that by (induction ks arbitrary: z v) (auto simp: gf_mult_step_def Let_def)
  then show ?thesis
    using that by (simp add: gf_mult_def)
qed

lemma length_ghash [simp]: "length h \<ge> 16 \<Longrightarrow> length y = 16 \<Longrightarrow> length (ghash h x y) = 16"
proof (induction h x y rule: ghash.induct)
  case (1 h x y)
  then show ?case
    by (subst ghash.simps) simp
qed

section \<open>Counter mode\<close>

function aes_gctr :: "aes_ctx \<Rightarrow> u8 list \<Rightarrow> u8 list \<Rightarrow> u8 list" where
  "aes_gctr aes cb x =
     (if length x \<ge> 16 then
        xor_aes_block (aes_encrypt aes cb) (take 16 x) @ aes_gctr aes (inc32 cb) (drop 16 x)
      else if x \<noteq> [] then xor_aes_block (take (length x) (aes_encrypt aes cb)) x
      else [])"
  by auto
termination
  by (relation "measure (\<lambda>(aes, cb, x). length x)") auto

declare aes_gctr.simps [simp del]

lemma length_aes_gctr [simp]: "length (aes_gctr aes cb x) = length x"
proof (induction aes cb x rule: aes_gctr.induct)
  case (1 aes cb x)
  then show ?case
    by (subst aes_gctr.simps) auto
qed

lemma aes_gctr_twice: "aes_gctr aes cb (aes_gctr aes cb x) = x"
proof (induction aes cb x rule: aes_gctr.induct)
  case (1 aes cb x)
  define s where "s = aes_encrypt aes cb"
  have s: "length s = 16" by (simp add: s_def)
  consider (full) "length x \<ge> 16" | (part) "length x < 16" "x \<noteq> []" | (none) "x = []"
    by linarith
  then show ?case
  proof cases
    case full
    let ?b = "xor_aes_block s (take 16 x)"
    have e: "aes_gctr aes cb x = ?b @ aes_gctr aes (inc32 cb) (drop 16 x)"
      using full by (subst aes_gctr.simps) (simp add: s_def)
    have b: "length ?b = 16" using full s by simp
    have "aes_gctr aes cb (?b @ r) = xor_aes_block s ?b @ aes_gctr aes (inc32 cb) r" for r
      using b by (subst aes_gctr.simps) (simp add: s_def)
    moreover have "xor_aes_block s ?b = take 16 x"
      using s by (intro xor_aes_block_cancel) simp
    ultimately show ?thesis
      using 1 [OF full] full by (simp add: e)
  next
    case part
    let ?b = "xor_aes_block (take (length x) s) x"
    have e: "aes_gctr aes cb x = ?b"
      using part by (subst aes_gctr.simps) (simp add: s_def)
    have b: "length ?b = length x" using part s by simp
    moreover have "?b \<noteq> []" using b part by (metis length_0_conv)
    ultimately have "aes_gctr aes cb ?b = xor_aes_block (take (length x) s) ?b"
      using part(1) by (subst aes_gctr.simps) (simp add: s_def [symmetric])
    also have "\<dots> = x"
      using part s by (intro xor_aes_block_cancel) simp
    finally show ?thesis by (simp add: e)
  next
    case none
    then show ?thesis by (simp add: aes_gctr.simps)
  qed
qed

section \<open>GCM\<close>

definition aes_gcm_init_hash_subkey ::
  "(nat \<Rightarrow> bool) \<Rightarrow> u8 list \<Rightarrow> nat \<Rightarrow> (aes_ctx \<times> u8 list) option" where
  "aes_gcm_init_hash_subkey mem key key_len =
     (case aes_encrypt_init mem key key_len of
        None \<Rightarrow> None
      | Some aes \<Rightarrow> Some (aes, aes_encrypt aes (replicate 16 0)))"

definition aes_gcm_prepare_j0 :: "u8 list \<Rightarrow> u8 list \<Rightarrow> u8 list" where
  "aes_gcm_prepare_j0 iv H =
     (if length iv = 12 then iv @ [0, 0, 0, 1]
      else ghash H (put_be64 0 @ put_be64 (of_nat (length iv * 8))) (ghash H iv (replicate 16 0)))"

definition aes_gcm_gctr :: "aes_ctx \<Rightarrow> u8 list \<Rightarrow> u8 list \<Rightarrow> u8 list" where
  "aes_gcm_gctr aes J0 inp = (if inp = [] then [] else aes_gctr aes (inc32 J0) inp)"

definition aes_gcm_ghash :: "u8 list \<Rightarrow> u8 list \<Rightarrow> u8 list \<Rightarrow> u8 list" where
  "aes_gcm_ghash H aad crypt =
     ghash H (put_be64 (of_nat (length aad * 8)) @ put_be64 (of_nat (length crypt * 8)))
       (ghash H crypt (ghash H aad (replicate 16 0)))"

definition aes_gcm_ae ::
  "(nat \<Rightarrow> bool) \<Rightarrow> nat \<Rightarrow> u8 list \<Rightarrow> u8 list \<Rightarrow> u8 list \<Rightarrow> u8 list \<Rightarrow> (u8 list \<times> u8 list) option" where
  "aes_gcm_ae mem key_len key iv aad plain =
     (case aes_gcm_init_hash_subkey mem key key_len of
        None \<Rightarrow> None
      | Some (aes, H) \<Rightarrow>
          let J0 = aes_gcm_prepare_j0 iv H;
              crypt = aes_gcm_gctr aes J0 plain;
              S = aes_gcm_ghash H aad crypt
          in Some (crypt, aes_gctr aes J0 S))"

definition aes_gcm_ad ::
  "(nat \<Rightarrow> bool) \<Rightarrow> nat \<Rightarrow> u8 list \<Rightarrow> u8 list \<Rightarrow> u8 list \<Rightarrow> u8 list \<Rightarrow> u8 list \<Rightarrow> u8 list option" where
  "aes_gcm_ad mem key_len key iv aad crypt tag =
     (case aes_gcm_init_hash_subkey mem key key_len of
        None \<Rightarrow> None
      | Some (aes, H) \<Rightarrow>
          let J0 = aes_gcm_prepare_j0 iv H;
              plain = aes_gcm_gctr aes J0 crypt;
              S = aes_gcm_ghash H aad crypt
          in if take 16 tag \<noteq> aes_gctr aes J0 S then None else Some plain)"

lemma length_aes_gcm_gctr [simp]: "length (aes_gcm_gctr aes J0 x) = length x"
  by (simp add: aes_gcm_gctr_def)

lemma aes_gcm_gctr_twice: "aes_gcm_gctr aes J0 (aes_gcm_gctr aes J0 x) = x"
proof (cases "x = []")
  case False
  then have "length (aes_gctr aes (inc32 J0) x) \<noteq> 0" by simp
  then have "aes_gctr aes (inc32 J0) x \<noteq> []" by (simp del: length_aes_gctr)
  with False show ?thesis by (simp add: aes_gcm_gctr_def aes_gctr_twice)
qed (simp add: aes_gcm_gctr_def)

lemma init_hash_subkey_length:
  "aes_gcm_init_hash_subkey mem key key_len = Some (aes, H) \<Longrightarrow> length H = 16"
  by (auto simp: aes_gcm_init_hash_subkey_def split: option.splits)

lemma length_aes_gcm_ghash [simp]: "length H = 16 \<Longrightarrow> length (aes_gcm_ghash H aad c) = 16"
  by (simp add: aes_gcm_ghash_def)

interpretation gcm: aead "aes_gcm_ae mem key_len" "aes_gcm_ad mem key_len" 16 for mem key_len
proof
  show "length crypt = length plain \<and> length tag = 16"
    if "aes_gcm_ae mem key_len key nonce aad plain = Some (crypt, tag)"
    for key nonce aad plain crypt tag
    using that
    by (auto simp: aes_gcm_ae_def Let_def dest: init_hash_subkey_length split: option.splits)
  show "aes_gcm_ad mem key_len key nonce aad crypt tag = Some plain
      \<longleftrightarrow> aes_gcm_ae mem key_len key nonce aad plain = Some (crypt, tag)"
    if tag: "length tag = 16" for tag key nonce aad crypt plain
  proof (cases "aes_gcm_init_hash_subkey mem key key_len")
    case None
    then show ?thesis by (simp add: aes_gcm_ad_def aes_gcm_ae_def)
  next
    case (Some r)
    obtain aes H where r: "r = (aes, H)" by (cases r)
    let ?J = "aes_gcm_prepare_j0 nonce H"
    have flip: "plain = aes_gcm_gctr aes ?J crypt \<longleftrightarrow> crypt = aes_gcm_gctr aes ?J plain"
      using aes_gcm_gctr_twice by metis
    have "aes_gcm_ad mem key_len key nonce aad crypt tag = Some plain
        \<longleftrightarrow> plain = aes_gcm_gctr aes ?J crypt \<and> tag = aes_gctr aes ?J (aes_gcm_ghash H aad crypt)"
      using Some r tag by (auto simp: aes_gcm_ad_def Let_def)
    also have "\<dots> \<longleftrightarrow> aes_gcm_ae mem key_len key nonce aad plain = Some (crypt, tag)"
      using Some r unfolding flip by (auto simp: aes_gcm_ae_def Let_def)
    finally show ?thesis .
  qed
qed

section \<open>GCMP\<close>

text \<open>
  \<^verbatim>\<open>gcmp_aad_nonce\<close>. Unlike \<^verbatim>\<open>ccmp_aad_nonce\<close> it neither sets the protected bit nor marks
  a management frame, and its nonce has no flag byte.
\<close>

definition gcmp_aad_nonce :: "nat \<Rightarrow> u8 list \<Rightarrow> u8 list \<Rightarrow> u8 list \<times> u8 list" where
  "gcmp_aad_nonce spp hdr data =
     (let fc = le16_at hdr 0;
          addr4 = (fc AND 0x0300 = 0x0300);
          is_data = (fc AND 0x000c = 0x0008);
          qos = (is_data \<and> fc AND 0x0080 \<noteq> 0);
          qc = byte_at hdr (24 + (if addr4 then 6 else 0));
          fc1 = (if is_data then fc AND NOT 0x0070 else fc);
          fc2 = (if qos then fc1 AND NOT 0x8000 else fc1);
          fc3 = fc2 AND NOT (0x0800 OR 0x1000 OR 0x2000);
          seq = le16_at hdr 22 AND NOT 0xfff0;
          q1 = qc AND NOT 0x70;
          q2 = (if spp \<noteq> 1 then q1 AND NOT 0x80 else q1);
          aad = put_le16 fc3 @ bytes_at hdr 4 18 @ put_le16 seq
            @ (if addr4 then bytes_at hdr 24 6 else []) @ (if qos then [q2, 0] else []);
          nonce = bytes_at hdr 10 6 @ [byte_at data 7, byte_at data 6, byte_at data 5,
            byte_at data 4, byte_at data 1, byte_at data 0]
      in (aad, nonce))"

definition gcmp_decrypt ::
  "(nat \<Rightarrow> bool) \<Rightarrow> nat \<Rightarrow> u8 list \<Rightarrow> nat \<Rightarrow> u8 list \<Rightarrow> u8 list \<Rightarrow> nat \<Rightarrow> u8 list option" where
  "gcmp_decrypt mem spp tk tk_len hdr data data_len =
     (if data_len < 8 + 16 then None
      else if \<not> mem (data_len + 16) then None
      else
        let mlen = data_len - 8 - 16;
            (aad, nonce) = gcmp_aad_nonce spp hdr data
        in aes_gcm_ad mem tk_len tk nonce aad (bytes_at data 8 mlen) (bytes_at data (8 + mlen) 16))"

definition gcmp_encrypt ::
  "(nat \<Rightarrow> bool) \<Rightarrow> nat \<Rightarrow> u8 list \<Rightarrow> nat \<Rightarrow> u8 list \<Rightarrow> nat \<Rightarrow> nat \<Rightarrow> u8 list option \<Rightarrow> nat
    \<Rightarrow> u8 list option" where
  "gcmp_encrypt mem spp tk tk_len frame len hdrlen pn keyid =
     (let plen = len - hdrlen in
      if len < hdrlen \<or> hdrlen < 24 then None
      else if \<not> mem (hdrlen + 8 + plen + 16 + 16) then None
      else
        let (crypt, pdata) =
              (case pn of
                 None \<Rightarrow> (bytes_at frame 0 (hdrlen + 8), hdrlen + 8)
               | Some pn \<Rightarrow> (bytes_at frame 0 hdrlen @ ccmp_iv pn keyid, hdrlen));
            (aad, nonce) = gcmp_aad_nonce spp crypt (drop hdrlen crypt)
        in case aes_gcm_ae mem tk_len tk nonce aad (bytes_at frame pdata plen) of
             None \<Rightarrow> None
           | Some (c, mic) \<Rightarrow> Some (crypt @ c @ mic))"

lemma gcmp_aad_nonce_cong:
  assumes "\<And>i. i < 32 \<Longrightarrow> byte_at h i = byte_at h' i" "\<And>i. i < 8 \<Longrightarrow> byte_at d i = byte_at d' i"
  shows "gcmp_aad_nonce spp h d = gcmp_aad_nonce spp h' d'"
proof -
  have b: "off + n \<le> 32 \<Longrightarrow> bytes_at h off n = bytes_at h' off n" for off n
    using assms(1) by (intro nth_equalityI) (auto simp: bytes_at_def)
  have w: "off + 1 < 32 \<Longrightarrow> le16_at h off = le16_at h' off" for off
    using assms(1) by (simp add: le16_at_def)
  show ?thesis
    using assms by (simp add: gcmp_aad_nonce_def Let_def b w)
qed

lemma gcmp_dec_enc:
  assumes enc: "gcmp_encrypt mem spp tk tk_len frame len hdrlen None keyid = Some e"
    and mem: "mem (8 + (len - hdrlen) + 16 + 16)"
  shows "gcmp_decrypt mem spp tk tk_len e (drop hdrlen e) (length e - hdrlen)
      = Some (bytes_at frame (hdrlen + 8) (len - hdrlen))"
    and "length e = hdrlen + 8 + (len - hdrlen) + 16"
proof -
  define plen where "plen = len - hdrlen"
  define crypt where "crypt = bytes_at frame 0 (hdrlen + 8)"
  obtain aad nonce where an: "gcmp_aad_nonce spp crypt (drop hdrlen crypt) = (aad, nonce)"
    by (cases "gcmp_aad_nonce spp crypt (drop hdrlen crypt)")
  have len: "hdrlen \<le> len" "24 \<le> hdrlen"
    using enc by (auto simp: gcmp_encrypt_def Let_def split: if_splits)
  obtain c mic where ae: "aes_gcm_ae mem tk_len tk nonce aad (bytes_at frame (hdrlen + 8) plen) = Some (c, mic)"
    and e: "e = crypt @ c @ mic"
    using enc an by (auto simp: gcmp_encrypt_def Let_def plen_def crypt_def split: if_splits option.splits)
  have cl: "length crypt = hdrlen + 8" by (simp add: crypt_def)
  have l: "length c = plen" "length mic = 16"
    using gcm.ae_length [OF ae] by simp_all
  show le: "length e = hdrlen + 8 + (len - hdrlen) + 16"
    using cl l by (simp add: e plen_def)
  have d: "drop hdrlen e = drop hdrlen crypt @ c @ mic"
    using cl by (simp add: e)
  have "gcmp_aad_nonce spp e (drop hdrlen e) = gcmp_aad_nonce spp crypt (drop hdrlen crypt)"
    unfolding d e using cl len by (intro gcmp_aad_nonce_cong) (simp_all add: byte_at_append1)
  moreover have "bytes_at (drop hdrlen e) 8 plen = c" "bytes_at (drop hdrlen e) (8 + plen) 16 = mic"
    unfolding d using cl l by (simp_all add: bytes_at_inside)
  moreover have "length e - hdrlen = 8 + plen + 16"
    using le by (simp add: plen_def)
  ultimately show "gcmp_decrypt mem spp tk tk_len e (drop hdrlen e) (length e - hdrlen)
      = Some (bytes_at frame (hdrlen + 8) (len - hdrlen))"
    using mem an gcm.ad_ae [OF ae] by (simp add: gcmp_decrypt_def plen_def)
qed

end
