(* ===== verification/Sec_Sw.thy ===== *)
theory Sec_Sw
  imports Sec_Tkip Sec_Gcmp
begin

text \<open>
  The software ciphers as the driver calls them: the wrappers of
  \<^verbatim>\<open>core/rtw_swcrypto.c\<close> around CCMP and GCMP, and \<^verbatim>\<open>rtw_aes_encrypt\<close>,
  \<^verbatim>\<open>rtw_aes_decrypt\<close>, \<^verbatim>\<open>rtw_gcmp_encrypt\<close> and \<^verbatim>\<open>rtw_gcmp_decrypt\<close> of
  \<^verbatim>\<open>core/rtw_security.c\<close>. The lemmas show that a receiver with the key accepts what the
  transmitter sent and recovers the payload, and that the additional data of a frame do not
  change when it is sent again.
\<close>

section \<open>The wrappers\<close>

text \<open>
  \<open>frame\<close> is at offset \<open>off\<close> of the transmit buffer. The result is the status and the
  buffer, into which the encrypted frame is copied.
\<close>

definition rtw_ccmp_encrypt ::
  "(nat \<Rightarrow> bool) \<Rightarrow> nat \<Rightarrow> u8 list \<Rightarrow> nat \<Rightarrow> nat \<Rightarrow> nat \<Rightarrow> nat \<Rightarrow> u8 list \<Rightarrow> rx_ret \<times> u8 list" where
  "rtw_ccmp_encrypt mem spp key key_len hdrlen off plen buf =
     (let frame = drop off buf;
          enc = (if key_len = 16 then ccmp_encrypt mem spp key frame (hdrlen + plen) hdrlen None 0
                 else if key_len = 32 then ccmp_256_encrypt mem spp key frame (hdrlen + plen) hdrlen None 0
                 else None)
      in case enc of
           None \<Rightarrow> (RX_FAIL, buf)
         | Some e \<Rightarrow> (RX_SUCCESS, put_bytes buf off e))"

definition rtw_gcmp_encrypt_frame ::
  "(nat \<Rightarrow> bool) \<Rightarrow> nat \<Rightarrow> u8 list \<Rightarrow> nat \<Rightarrow> nat \<Rightarrow> nat \<Rightarrow> nat \<Rightarrow> u8 list \<Rightarrow> rx_ret \<times> u8 list" where
  "rtw_gcmp_encrypt_frame mem spp key key_len hdrlen off plen buf =
     (case gcmp_encrypt mem spp key key_len (drop off buf) (hdrlen + plen) hdrlen None 0 of
        None \<Rightarrow> (RX_FAIL, buf)
      | Some e \<Rightarrow> (RX_SUCCESS, put_bytes buf off e))"

text \<open>
  On reception the lengths are \<^verbatim>\<open>uint\<close>: \<^verbatim>\<open>plen - hdrlen\<close> wraps at 32 bits when the frame
  is shorter than its header.
\<close>

definition after_header :: "recv_frame \<Rightarrow> nat" where
  "after_header f = nat ((rf_len f - int (a_hdrlen (rf_attrib f))) mod 2 ^ 32)"

definition put_plain :: "recv_frame \<Rightarrow> u8 list option \<Rightarrow> rx_ret \<times> recv_frame" where
  "put_plain f plain =
     (case plain of
        None \<Rightarrow> (RX_FAIL, f)
      | Some p \<Rightarrow>
          (RX_SUCCESS, f\<lparr>rf_buf := put_bytes (rf_buf f) (nat (rf_data f) + a_hdrlen (rf_attrib f) + 8) p\<rparr>))"

definition rtw_ccmp_decrypt ::
  "(nat \<Rightarrow> bool) \<Rightarrow> nat \<Rightarrow> u8 list \<Rightarrow> nat \<Rightarrow> recv_frame \<Rightarrow> rx_ret \<times> recv_frame" where
  "rtw_ccmp_decrypt mem spp key key_len f =
     (let hdr = drop (nat (rf_data f)) (rf_buf f);
          data = drop (a_hdrlen (rf_attrib f)) hdr;
          n = after_header f
      in put_plain f
           (if key_len = 16 then ccmp_decrypt mem spp key hdr data n
            else if key_len = 32 then ccmp_256_decrypt mem spp key hdr data n
            else None))"

definition rtw_gcmp_decrypt_frame ::
  "(nat \<Rightarrow> bool) \<Rightarrow> nat \<Rightarrow> u8 list \<Rightarrow> nat \<Rightarrow> recv_frame \<Rightarrow> rx_ret \<times> recv_frame" where
  "rtw_gcmp_decrypt_frame mem spp key key_len f =
     (let hdr = drop (nat (rf_data f)) (rf_buf f);
          data = drop (a_hdrlen (rf_attrib f)) hdr
      in put_plain f (gcmp_decrypt mem spp key key_len hdr data (after_header f)))"

section \<open>Transmission\<close>

text \<open>
  The loop over the fragments; the status of a fragment is not looked at, and both functions
  return \<^verbatim>\<open>_SUCCESS\<close>. The transmit path computes the sizes, which are at least the sum of
  the header lengths.
\<close>

fun enc_frags ::
  "(nat \<Rightarrow> nat \<Rightarrow> u8 list \<Rightarrow> rx_ret \<times> u8 list) \<Rightarrow> tx_attrib \<Rightarrow> nat \<Rightarrow> nat \<Rightarrow> u8 list \<Rightarrow> u8 list" where
  "enc_frags enc ta 0 off buf = buf"
| "enc_frags enc ta (Suc n) off buf =
     (let hd = t_hdrlen ta + t_iv_len ta + t_icv_len ta in
      if n = 0 then snd (enc off (t_last_txcmdsz ta - hd) buf)
      else enc_frags enc ta n (rnd4 (t_addr ta + off + t_frag_len ta) - t_addr ta)
             (snd (enc off (t_frag_len ta - hd) buf)))"

definition tx_key :: "security_priv \<Rightarrow> u8 list \<Rightarrow> tx_attrib \<Rightarrow> u8 list" where
  "tx_key sec uncst_key ta =
     (if is_mcast (t_ra ta) then sec_grp_key sec ! sec_grp_keyid sec else uncst_key)"

definition rtw_aes_encrypt ::
  "(nat \<Rightarrow> bool) \<Rightarrow> adapter \<Rightarrow> u8 list \<Rightarrow> tx_attrib \<Rightarrow> u8 list \<Rightarrow> u8 list" where
  "rtw_aes_encrypt mem ad uncst_key ta buf =
     (if t_encrypt ta = SEC_AES \<or> t_encrypt ta = SEC_CCMP_256 then
        enc_frags (rtw_ccmp_encrypt mem (ad_amsdu_spp ad) (tx_key (ad_sec ad) uncst_key ta)
            (if t_encrypt ta = SEC_CCMP_256 then 32 else 16) (t_hdrlen ta))
          ta (t_nr_frags ta) 0 buf
      else buf)"

definition rtw_gcmp_encrypt ::
  "(nat \<Rightarrow> bool) \<Rightarrow> adapter \<Rightarrow> u8 list \<Rightarrow> tx_attrib \<Rightarrow> u8 list \<Rightarrow> u8 list" where
  "rtw_gcmp_encrypt mem ad uncst_key ta buf =
     (if t_encrypt ta = SEC_GCMP \<or> t_encrypt ta = SEC_GCMP_256 then
        enc_frags (rtw_gcmp_encrypt_frame mem (ad_amsdu_spp ad) (tx_key (ad_sec ad) uncst_key ta)
            (if t_encrypt ta = SEC_GCMP_256 then 32 else 16) (t_hdrlen ta))
          ta (t_nr_frags ta) 0 buf
      else buf)"

section \<open>Reception\<close>

text \<open>
  The choice of the key that \<^verbatim>\<open>rtw_aes_decrypt\<close> and \<^verbatim>\<open>rtw_gcmp_decrypt\<close> share: the
  pairwise key of the transmitter, or the group key named by the frame, which must be
  installed and be the current one. \<open>None\<close> ends in \<^verbatim>\<open>_FAIL\<close>.
\<close>

definition rx_key :: "adapter \<Rightarrow> rx_pkt_attrib \<Rightarrow> u8 list option" where
  "rx_key ad attr =
     (case rtw_get_stainfo ad (a_ta attr) of
        None \<Rightarrow> None
      | Some sta \<Rightarrow>
          if is_mcast (a_ra attr) then
            if \<not> sec_binstall_grpkey (ad_sec ad) then None
            else if sec_grp_keyid (ad_sec ad) \<noteq> a_key_index attr then None
            else Some (sec_grp_key (ad_sec ad) ! a_key_index attr)
          else Some (sta_uncst_key sta))"

definition rtw_aes_decrypt ::
  "(nat \<Rightarrow> bool) \<Rightarrow> adapter \<Rightarrow> recv_frame \<Rightarrow> rx_ret \<times> recv_frame" where
  "rtw_aes_decrypt mem ad f =
     (let attr = rf_attrib f in
      if a_encrypt attr = SEC_AES \<or> a_encrypt attr = SEC_CCMP_256 then
        (case rx_key ad attr of
           None \<Rightarrow> (RX_FAIL, f)
         | Some key \<Rightarrow>
             rtw_ccmp_decrypt mem (ad_amsdu_spp ad) key
               (if a_encrypt attr = SEC_CCMP_256 then 32 else 16) f)
      else (RX_SUCCESS, f))"

definition rtw_gcmp_decrypt ::
  "(nat \<Rightarrow> bool) \<Rightarrow> adapter \<Rightarrow> recv_frame \<Rightarrow> rx_ret \<times> recv_frame" where
  "rtw_gcmp_decrypt mem ad f =
     (let attr = rf_attrib f in
      if a_encrypt attr = SEC_GCMP \<or> a_encrypt attr = SEC_GCMP_256 then
        (case rx_key ad attr of
           None \<Rightarrow> (RX_FAIL, f)
         | Some key \<Rightarrow>
             rtw_gcmp_decrypt_frame mem (ad_amsdu_spp ad) key
               (if a_encrypt attr = SEC_GCMP_256 then 32 else 16) f)
      else (RX_SUCCESS, f))"

section \<open>What decryption keeps\<close>

text \<open>Everything but the bytes, and their number.\<close>

definition same_frame :: "recv_frame \<Rightarrow> recv_frame \<Rightarrow> bool" where
  "same_frame f g \<longleftrightarrow> length (rf_buf g) = length (rf_buf f) \<and> g = f\<lparr>rf_buf := rf_buf g\<rparr>"

lemma same_frame_refl [simp]: "same_frame f f"
  by (simp add: same_frame_def)

lemma same_frame_put [simp]: "same_frame f (f\<lparr>rf_buf := put_bytes (rf_buf f) off bs\<rparr>)"
  by (simp add: same_frame_def)

lemma put_plain_same: "put_plain f p = (ret, g) \<Longrightarrow> same_frame f g"
  by (auto simp: put_plain_def split: option.splits)

lemma rtw_aes_decrypt_same: "rtw_aes_decrypt mem ad f = (ret, g) \<Longrightarrow> same_frame f g"
  by (auto simp: rtw_aes_decrypt_def rtw_ccmp_decrypt_def Let_def dest: put_plain_same
      split: if_splits option.splits)

lemma rtw_gcmp_decrypt_same: "rtw_gcmp_decrypt mem ad f = (ret, g) \<Longrightarrow> same_frame f g"
  by (auto simp: rtw_gcmp_decrypt_def rtw_gcmp_decrypt_frame_def Let_def dest: put_plain_same
      split: if_splits option.splits)

lemma arc4_in_place_same [simp]: "same_frame f (arc4_in_place key kl off n f)"
  by (simp add: arc4_in_place_def)

lemma rtw_tkip_decrypt_same: "rtw_tkip_decrypt ad f = Some (ret, g) \<Longrightarrow> same_frame f g"
  by (auto simp: rtw_tkip_decrypt_def Let_def split: if_splits option.splits)

lemma rtw_wep_decrypt_same: "rtw_wep_decrypt dk kl f = Some g \<Longrightarrow> same_frame f g"
  by (auto simp: rtw_wep_decrypt_def Let_def split: if_splits)


section \<open>From transmitter to receiver\<close>

text \<open>
  What the wrappers need of a cipher for frames: it encrypts every frame with a full header,
  decryption returns the payload, and looks at no byte behind the frame.
\<close>

locale frame_cipher =
  fixes enc :: "u8 list \<Rightarrow> nat \<Rightarrow> nat \<Rightarrow> u8 list option"
    and dec :: "u8 list \<Rightarrow> u8 list \<Rightarrow> nat \<Rightarrow> u8 list option"
    and M :: nat
  assumes enc_total: "24 \<le> hdrlen \<Longrightarrow> hdrlen \<le> len \<Longrightarrow> enc frame len hdrlen \<noteq> None"
    and dec_enc: "enc frame len hdrlen = Some e \<Longrightarrow>
      dec e (drop hdrlen e) (length e - hdrlen) = Some (bytes_at frame (hdrlen + 8) (len - hdrlen))
      \<and> length e = hdrlen + 8 + (len - hdrlen) + M"
    and dec_append: "24 \<le> hdrlen \<Longrightarrow> length e = hdrlen + n \<Longrightarrow> 8 + M \<le> n \<Longrightarrow>
      dec (e @ r) (drop hdrlen (e @ r)) n = dec e (drop hdrlen e) n"
begin

lemma transport:
  assumes "24 \<le> hdrlen" "hdrlen + 8 + plen + M \<le> length buf"
  obtains e where "enc buf (hdrlen + plen) hdrlen = Some e" "length e = hdrlen + 8 + plen + M"
    "dec (put_bytes buf 0 e) (drop hdrlen (put_bytes buf 0 e)) (8 + plen + M)
      = Some (bytes_at buf (hdrlen + 8) plen)"
proof -
  obtain e where e: "enc buf (hdrlen + plen) hdrlen = Some e"
    using enc_total [of hdrlen "hdrlen + plen" buf] assms(1) by auto
  note d = dec_enc [OF e]
  then have l: "length e = hdrlen + (8 + plen + M)" by simp
  have p: "put_bytes buf 0 e = e @ drop (length e) buf"
    using l assms(2) by (intro put_bytes_0) simp
  have "dec (put_bytes buf 0 e) (drop hdrlen (put_bytes buf 0 e)) (8 + plen + M)
      = dec e (drop hdrlen e) (8 + plen + M)"
    unfolding p by (rule dec_append [OF assms(1) l]) simp
  then show ?thesis
    using that [OF e] d l by simp
qed

end

lemma bytes_at_drop_append:
  "length e = h + n \<Longrightarrow> off + m \<le> n \<Longrightarrow> bytes_at (drop h (e @ r)) off m = bytes_at (drop h e) off m"
  by (simp add: bytes_at_inside)

lemma aes_encrypt_init_total:
  "key_len = 16 \<or> key_len = 32 \<Longrightarrow> aes_encrypt_init (\<lambda>_. True) key key_len \<noteq> None"
  by (auto simp: aes_encrypt_init_def rijndaelKeySetupEnc_def Let_def)

lemma ccmp_link:
  assumes "tk_len = 16 \<or> tk_len = 32" "2 \<le> M" "M \<le> 16"
  shows "frame_cipher (\<lambda>frame len hdrlen. ccmp_enc tk_len M (\<lambda>_. True) spp key frame len hdrlen None 0)
    (ccmp_dec tk_len M (\<lambda>_. True) spp key) M"
proof
  show "ccmp_enc tk_len M (\<lambda>_. True) spp key frame len hdrlen None 0 \<noteq> None"
    if "24 \<le> hdrlen" "hdrlen \<le> len" for hdrlen len frame
    using that assms aes_encrypt_init_total [OF assms(1), of key]
      length_ccmp_aad [of spp "set_iswep (bytes_at frame 0 (hdrlen + 8))"
        "drop hdrlen (set_iswep (bytes_at frame 0 (hdrlen + 8)))"]
    by (auto simp: ccmp_enc_def aes_ccm_ae_def Let_def split: prod.splits option.splits)
  show "ccmp_dec tk_len M (\<lambda>_. True) spp key e (drop hdrlen e) (length e - hdrlen)
      = Some (bytes_at frame (hdrlen + 8) (len - hdrlen)) \<and> length e = hdrlen + 8 + (len - hdrlen) + M"
    if "ccmp_enc tk_len M (\<lambda>_. True) spp key frame len hdrlen None 0 = Some e" for frame len hdrlen e
    using ccmp_dec_enc [OF that] by simp
  show "ccmp_dec tk_len M (\<lambda>_. True) spp key (e @ r) (drop hdrlen (e @ r)) n
      = ccmp_dec tk_len M (\<lambda>_. True) spp key e (drop hdrlen e) n"
    if "24 \<le> hdrlen" "length e = hdrlen + n" "8 + M \<le> n" for hdrlen e n r
  proof -
    have "ccmp_aad_nonce spp (e @ r) (drop hdrlen (e @ r)) = ccmp_aad_nonce spp e (drop hdrlen e)"
      using that by (intro ccmp_aad_nonce_cong) (simp_all add: byte_at_append1)
    then show ?thesis
      using that by (simp add: ccmp_dec_def bytes_at_drop_append del: drop_append)
  qed
qed

interpretation ccmp128: frame_cipher "\<lambda>frame len hdrlen. ccmp_encrypt (\<lambda>_. True) spp key frame len hdrlen None 0"
  "ccmp_decrypt (\<lambda>_. True) spp key" 8 for spp key
  unfolding ccmp_encrypt_def ccmp_decrypt_def by (rule ccmp_link) simp_all

interpretation ccmp256: frame_cipher "\<lambda>frame len hdrlen. ccmp_256_encrypt (\<lambda>_. True) spp key frame len hdrlen None 0"
  "ccmp_256_decrypt (\<lambda>_. True) spp key" 16 for spp key
  unfolding ccmp_256_encrypt_def ccmp_256_decrypt_def by (rule ccmp_link) simp_all

lemma gcmp_link:
  assumes "tk_len = 16 \<or> tk_len = 32"
  shows "frame_cipher (\<lambda>frame len hdrlen. gcmp_encrypt (\<lambda>_. True) spp key tk_len frame len hdrlen None 0)
    (gcmp_decrypt (\<lambda>_. True) spp key tk_len) 16"
proof
  show "gcmp_encrypt (\<lambda>_. True) spp key tk_len frame len hdrlen None 0 \<noteq> None"
    if "24 \<le> hdrlen" "hdrlen \<le> len" for hdrlen len frame
    using that aes_encrypt_init_total [OF assms, of key]
    by (auto simp: gcmp_encrypt_def aes_gcm_ae_def aes_gcm_init_hash_subkey_def Let_def
        split: prod.splits option.splits)
  show "gcmp_decrypt (\<lambda>_. True) spp key tk_len e (drop hdrlen e) (length e - hdrlen)
      = Some (bytes_at frame (hdrlen + 8) (len - hdrlen)) \<and> length e = hdrlen + 8 + (len - hdrlen) + 16"
    if "gcmp_encrypt (\<lambda>_. True) spp key tk_len frame len hdrlen None 0 = Some e" for frame len hdrlen e
    using gcmp_dec_enc [OF that] by simp
  show "gcmp_decrypt (\<lambda>_. True) spp key tk_len (e @ r) (drop hdrlen (e @ r)) n
      = gcmp_decrypt (\<lambda>_. True) spp key tk_len e (drop hdrlen e) n"
    if "24 \<le> hdrlen" "length e = hdrlen + n" "8 + 16 \<le> n" for hdrlen e n r
  proof -
    have "gcmp_aad_nonce spp (e @ r) (drop hdrlen (e @ r)) = gcmp_aad_nonce spp e (drop hdrlen e)"
      using that by (intro gcmp_aad_nonce_cong) (simp_all add: byte_at_append1)
    then show ?thesis
      using that by (simp add: gcmp_decrypt_def bytes_at_drop_append del: drop_append)
  qed
qed

interpretation gcmp128: frame_cipher "\<lambda>frame len hdrlen. gcmp_encrypt (\<lambda>_. True) spp key 16 frame len hdrlen None 0"
  "gcmp_decrypt (\<lambda>_. True) spp key 16" 16 for spp key
  by (rule gcmp_link) simp

interpretation gcmp256: frame_cipher "\<lambda>frame len hdrlen. gcmp_encrypt (\<lambda>_. True) spp key 32 frame len hdrlen None 0"
  "gcmp_decrypt (\<lambda>_. True) spp key 32" 16 for spp key
  by (rule gcmp_link) simp

lemma put_plain_transport:
  assumes "dec (rf_buf f) = Some p" "length p = plen" "rf_data f = 0"
    "a_hdrlen (rf_attrib f) + 8 + plen \<le> length (rf_buf f)"
  shows "\<exists>f'. put_plain f (dec (rf_buf f)) = (RX_SUCCESS, f') \<and> rx_bytes f' (a_hdrlen (rf_attrib f) + 8) plen = p"
proof -
  let ?off = "a_hdrlen (rf_attrib f) + 8"
  have "bytes_at (put_bytes (rf_buf f) ?off p) ?off plen = p"
    using bytes_at_put_bytes_same [of ?off p "rf_buf f"] assms(2,4) by simp
  then show ?thesis
    using assms by (simp add: put_plain_def rx_bytes_def)
qed


lemma after_header_eq:
  "rf_len f = int (a_hdrlen (rf_attrib f) + n) \<Longrightarrow> n < 2 ^ 32 \<Longrightarrow> after_header f = n"
  by (simp add: after_header_def nat_mod_as_int)

section \<open>Properties\<close>

text \<open>
  C13. A CCMP or CCMP-256 frame arrives as it was sent: what \<^verbatim>\<open>rtw_aes_encrypt\<close> makes of a
  unicast frame of one fragment, \<^verbatim>\<open>rtw_aes_decrypt\<close> on a receiver with the same pairwise key
  and A-MSDU mode accepts, and the payload is the one before encryption, for every header of
  24 bytes or more, every key and every packet number.
\<close>

theorem aes_decrypt_encrypt:
  fixes ta :: tx_attrib and f :: recv_frame
  defines "M \<equiv> if t_encrypt ta = SEC_CCMP_256 then 16 else 8"
  defines "plen \<equiv> t_last_txcmdsz ta - (t_hdrlen ta + t_iv_len ta + t_icv_len ta)"
  assumes "t_encrypt ta = SEC_AES \<or> t_encrypt ta = SEC_CCMP_256" "t_nr_frags ta = 1"
    "\<not> is_mcast (t_ra ta)" "24 \<le> t_hdrlen ta" "t_hdrlen ta + 8 + plen + M \<le> length buf"
    "8 + plen + M < 2 ^ 32"
    "a_encrypt (rf_attrib f) = t_encrypt ta" "a_hdrlen (rf_attrib f) = t_hdrlen ta"
    "a_ta (rf_attrib f) = t_ta ta" "a_ra (rf_attrib f) = t_ra ta"
    "rf_buf f = rtw_aes_encrypt (\<lambda>_. True) ad' (sta_uncst_key sta) ta buf"
    "rf_data f = 0" "rf_len f = int (t_hdrlen ta + (8 + plen + M))"
    "rtw_get_stainfo ad (t_ta ta) = Some sta" "ad_amsdu_spp ad = ad_amsdu_spp ad'"
  shows "\<exists>f'. rtw_aes_decrypt (\<lambda>_. True) ad f = (RX_SUCCESS, f')
    \<and> rx_bytes f' (t_hdrlen ta + 8) plen = bytes_at buf (t_hdrlen ta + 8) plen"
proof -
  have key: "tx_key s (sta_uncst_key sta) ta = sta_uncst_key sta" for s
    using assms(5) by (simp add: tx_key_def)
  have rk: "rx_key ad (rf_attrib f) = Some (sta_uncst_key sta)"
    using assms(5,11,12,16) by (simp add: rx_key_def)
  have n: "after_header f = 8 + plen + M"
    by (rule after_header_eq) (use assms(8,10,15) in simp_all)
  show ?thesis
  proof (cases "t_encrypt ta = SEC_CCMP_256")
    case True
    then have M: "M = 16" by (simp add: M_def)
    obtain e where e: "ccmp_256_encrypt (\<lambda>_. True) (ad_amsdu_spp ad) (sta_uncst_key sta) buf
        (t_hdrlen ta + plen) (t_hdrlen ta) None 0 = Some e" "length e = t_hdrlen ta + 8 + plen + 16"
      and d: "ccmp_256_decrypt (\<lambda>_. True) (ad_amsdu_spp ad) (sta_uncst_key sta) (put_bytes buf 0 e)
        (drop (t_hdrlen ta) (put_bytes buf 0 e)) (8 + plen + 16) = Some (bytes_at buf (t_hdrlen ta + 8) plen)"
      using ccmp256.transport [of "t_hdrlen ta" plen buf "ad_amsdu_spp ad" "sta_uncst_key sta"]
        assms(6,7) M by auto
    have "rf_buf f = put_bytes buf 0 e"
      using assms(4,13,17) True e by (simp add: rtw_aes_encrypt_def rtw_ccmp_encrypt_def key plen_def)
    then show ?thesis
      using put_plain_transport [of "\<lambda>b. ccmp_256_decrypt (\<lambda>_. True) (ad_amsdu_spp ad) (sta_uncst_key sta) b
          (drop (t_hdrlen ta) b) (8 + plen + 16)" f] d assms(7,9,10,14) True M n rk
      by (simp add: rtw_aes_decrypt_def rtw_ccmp_decrypt_def)
  next
    case False
    then have M: "M = 8" by (simp add: M_def)
    obtain e where e: "ccmp_encrypt (\<lambda>_. True) (ad_amsdu_spp ad) (sta_uncst_key sta) buf
        (t_hdrlen ta + plen) (t_hdrlen ta) None 0 = Some e" "length e = t_hdrlen ta + 8 + plen + 8"
      and d: "ccmp_decrypt (\<lambda>_. True) (ad_amsdu_spp ad) (sta_uncst_key sta) (put_bytes buf 0 e)
        (drop (t_hdrlen ta) (put_bytes buf 0 e)) (8 + plen + 8) = Some (bytes_at buf (t_hdrlen ta + 8) plen)"
      using ccmp128.transport [of "t_hdrlen ta" plen buf "ad_amsdu_spp ad" "sta_uncst_key sta"]
        assms(6,7) M by auto
    have "rf_buf f = put_bytes buf 0 e"
      using assms(3,4,13,17) False e by (simp add: rtw_aes_encrypt_def rtw_ccmp_encrypt_def key plen_def)
    then show ?thesis
      using put_plain_transport [of "\<lambda>b. ccmp_decrypt (\<lambda>_. True) (ad_amsdu_spp ad) (sta_uncst_key sta) b
          (drop (t_hdrlen ta) b) (8 + plen + 8)" f] d assms(3,7,9,10,14) False M n rk
      by (simp add: rtw_aes_decrypt_def rtw_ccmp_decrypt_def)
  qed
qed


definition ex_ccmp_tx :: tx_attrib where
  "ex_ccmp_tx = \<lparr>t_encrypt = SEC_AES, t_hdrlen = 24, t_iv_len = 8, t_icv_len = 8, t_nr_frags = 1,
     t_last_txcmdsz = 43, t_frag_len = 0, t_ra = [2, 0, 0, 0, 0, 1], t_ta = [2, 0, 0, 0, 0, 2],
     t_addr = 0\<rparr>"

definition ex_ccmp_buf :: "u8 list" where
  "ex_ccmp_buf = [8, 0x41] @ replicate 22 0 @ [5, 0, 0, 0x20, 0, 0, 0, 0] @ [72, 105, 33] @ replicate 16 0"

definition ex_ccmp_frame :: "u8 \<Rightarrow> int \<Rightarrow> u8 list \<Rightarrow> recv_frame" where
  "ex_ccmp_frame enc len buf = \<lparr>rf_id = 0, rf_adapter = 0,
     rf_attrib = ex_wep_attrib\<lparr>a_encrypt := enc, a_hdrlen := 24, a_iv_len := 8,
       a_ra := [2, 0, 0, 0, 0, 1], a_ta := [2, 0, 0, 0, 0, 2]\<rparr>,
     rf_pkt = None, rf_len = len, rf_buf = buf, rf_data = 0, rf_tail = len, rf_psta = None,
     rf_preorder = None, rf_keytrack = 0\<rparr>"

lemma ex_ccmp_values:
  "length ex_ccmp_buf = 51" "bytes_at ex_ccmp_buf 32 3 = [72, 105, 33]"
  "\<not> is_mcast [2, 0, 0, 0, 0, 1]" "rtw_get_stainfo ex_adapter [2, 0, 0, 0, 0, 2] = Some ex_sta"
  by (simp_all add: ex_ccmp_buf_def bytes_at_def byte_at_def upt_rec is_mcast_def rtw_get_stainfo_def
      ex_adapter_def nth_append)

theorem aes_decrypt_encrypt_witness:
  "\<exists>f'. rtw_aes_decrypt (\<lambda>_. True) ex_adapter
        (ex_ccmp_frame SEC_AES 43 (rtw_aes_encrypt (\<lambda>_. True) ex_adapter (replicate 16 7) ex_ccmp_tx ex_ccmp_buf))
      = (RX_SUCCESS, f') \<and> rx_bytes f' 32 3 = [72, 105, 33]"
proof -
  let ?f = "ex_ccmp_frame SEC_AES 43
    (rtw_aes_encrypt (\<lambda>_. True) ex_adapter (sta_uncst_key ex_sta) ex_ccmp_tx ex_ccmp_buf)"
  have e: "t_hdrlen ex_ccmp_tx = 24" "t_encrypt ex_ccmp_tx = SEC_AES"
    "t_last_txcmdsz ex_ccmp_tx - (24 + t_iv_len ex_ccmp_tx + t_icv_len ex_ccmp_tx) = 3"
    by (simp_all add: ex_ccmp_tx_def)
  have "\<exists>f'. rtw_aes_decrypt (\<lambda>_. True) ex_adapter ?f = (RX_SUCCESS, f')
      \<and> rx_bytes f' (24 + 8) 3 = bytes_at ex_ccmp_buf (24 + 8) 3"
    by (rule aes_decrypt_encrypt [of ex_ccmp_tx ex_ccmp_buf ?f ex_adapter ex_sta ex_adapter, unfolded e])
      (simp_all add: ex_ccmp_values, simp_all add: ex_ccmp_tx_def ex_ccmp_frame_def ex_wep_attrib_def
        ex_ccmp_values)
  moreover have "sta_uncst_key ex_sta = replicate 16 7" by (simp add: ex_sta_def)
  ultimately show ?thesis by (simp add: ex_ccmp_values)
qed

text \<open>
  A GCMP or GCMP-256 frame arrives as it was sent: what \<^verbatim>\<open>rtw_gcmp_encrypt\<close> makes of a
  unicast frame of one fragment, \<^verbatim>\<open>rtw_gcmp_decrypt\<close> with the same pairwise key accepts,
  and the payload is the one before encryption.
\<close>

theorem gcmp_decrypt_encrypt:
  fixes ta :: tx_attrib and f :: recv_frame
  defines "plen \<equiv> t_last_txcmdsz ta - (t_hdrlen ta + t_iv_len ta + t_icv_len ta)"
  assumes "t_encrypt ta = SEC_GCMP \<or> t_encrypt ta = SEC_GCMP_256" "t_nr_frags ta = 1"
    "\<not> is_mcast (t_ra ta)" "24 \<le> t_hdrlen ta" "t_hdrlen ta + 8 + plen + 16 \<le> length buf"
    "8 + plen + 16 < 2 ^ 32"
    "a_encrypt (rf_attrib f) = t_encrypt ta" "a_hdrlen (rf_attrib f) = t_hdrlen ta"
    "a_ta (rf_attrib f) = t_ta ta" "a_ra (rf_attrib f) = t_ra ta"
    "rf_buf f = rtw_gcmp_encrypt (\<lambda>_. True) ad' (sta_uncst_key sta) ta buf"
    "rf_data f = 0" "rf_len f = int (t_hdrlen ta + (8 + plen + 16))"
    "rtw_get_stainfo ad (t_ta ta) = Some sta" "ad_amsdu_spp ad = ad_amsdu_spp ad'"
  shows "\<exists>f'. rtw_gcmp_decrypt (\<lambda>_. True) ad f = (RX_SUCCESS, f')
    \<and> rx_bytes f' (t_hdrlen ta + 8) plen = bytes_at buf (t_hdrlen ta + 8) plen"
proof -
  define k where "k = (if t_encrypt ta = SEC_GCMP_256 then 32 else 16 :: nat)"
  have key: "tx_key s (sta_uncst_key sta) ta = sta_uncst_key sta" for s
    using assms(4) by (simp add: tx_key_def)
  have rk: "rx_key ad (rf_attrib f) = Some (sta_uncst_key sta)"
    using assms(4,10,11,15) by (simp add: rx_key_def)
  have n: "after_header f = 8 + plen + 16"
    by (rule after_header_eq) (use assms(7,9,14) in simp_all)
  have t: thesis if "\<And>e. gcmp_encrypt (\<lambda>_. True) (ad_amsdu_spp ad) (sta_uncst_key sta) k buf
        (t_hdrlen ta + plen) (t_hdrlen ta) None 0 = Some e \<Longrightarrow> length e = t_hdrlen ta + 8 + plen + 16 \<Longrightarrow>
      gcmp_decrypt (\<lambda>_. True) (ad_amsdu_spp ad) (sta_uncst_key sta) k (put_bytes buf 0 e)
        (drop (t_hdrlen ta) (put_bytes buf 0 e)) (8 + plen + 16) = Some (bytes_at buf (t_hdrlen ta + 8) plen)
      \<Longrightarrow> thesis" for thesis
  proof (cases "t_encrypt ta = SEC_GCMP_256")
    case True
    then have "k = 32" by (simp add: k_def)
    with gcmp256.transport [OF assms(5,6), of "ad_amsdu_spp ad" "sta_uncst_key sta"] that
    show ?thesis by blast
  next
    case False
    then have "k = 16" by (simp add: k_def)
    with gcmp128.transport [OF assms(5,6), of "ad_amsdu_spp ad" "sta_uncst_key sta"] that
    show ?thesis by blast
  qed
  show ?thesis
  proof (rule t)
    fix e
    assume e: "gcmp_encrypt (\<lambda>_. True) (ad_amsdu_spp ad) (sta_uncst_key sta) k buf
        (t_hdrlen ta + plen) (t_hdrlen ta) None 0 = Some e" "length e = t_hdrlen ta + 8 + plen + 16"
      and d: "gcmp_decrypt (\<lambda>_. True) (ad_amsdu_spp ad) (sta_uncst_key sta) k (put_bytes buf 0 e)
        (drop (t_hdrlen ta) (put_bytes buf 0 e)) (8 + plen + 16) = Some (bytes_at buf (t_hdrlen ta + 8) plen)"
    have "rf_buf f = put_bytes buf 0 e"
      using assms(2,3,12,16) e
      by (auto simp: rtw_gcmp_encrypt_def rtw_gcmp_encrypt_frame_def key plen_def k_def)
    then show ?thesis
      using put_plain_transport [of "\<lambda>b. gcmp_decrypt (\<lambda>_. True) (ad_amsdu_spp ad) (sta_uncst_key sta) k b
          (drop (t_hdrlen ta) b) (8 + plen + 16)" f] d assms(2,6,8,9,13) n rk
      by (auto simp: rtw_gcmp_decrypt_def rtw_gcmp_decrypt_frame_def k_def)
  qed
qed

definition ex_gcmp_tx :: tx_attrib where
  "ex_gcmp_tx = ex_ccmp_tx\<lparr>t_encrypt := SEC_GCMP, t_icv_len := 16, t_last_txcmdsz := 51\<rparr>"

theorem gcmp_decrypt_encrypt_witness:
  "\<exists>f'. rtw_gcmp_decrypt (\<lambda>_. True) ex_adapter
        (ex_ccmp_frame SEC_GCMP 51 (rtw_gcmp_encrypt (\<lambda>_. True) ex_adapter (replicate 16 7) ex_gcmp_tx ex_ccmp_buf))
      = (RX_SUCCESS, f') \<and> rx_bytes f' 32 3 = [72, 105, 33]"
proof -
  let ?f = "ex_ccmp_frame SEC_GCMP 51
    (rtw_gcmp_encrypt (\<lambda>_. True) ex_adapter (sta_uncst_key ex_sta) ex_gcmp_tx ex_ccmp_buf)"
  have e: "t_hdrlen ex_gcmp_tx = 24" "t_encrypt ex_gcmp_tx = SEC_GCMP"
    "t_last_txcmdsz ex_gcmp_tx - (24 + t_iv_len ex_gcmp_tx + t_icv_len ex_gcmp_tx) = 3"
    by (simp_all add: ex_gcmp_tx_def ex_ccmp_tx_def)
  have "\<exists>f'. rtw_gcmp_decrypt (\<lambda>_. True) ex_adapter ?f = (RX_SUCCESS, f')
      \<and> rx_bytes f' (24 + 8) 3 = bytes_at ex_ccmp_buf (24 + 8) 3"
    by (rule gcmp_decrypt_encrypt [of ex_gcmp_tx ex_ccmp_buf ?f ex_adapter ex_sta ex_adapter, unfolded e])
      (simp_all add: ex_ccmp_values, simp_all add: ex_gcmp_tx_def ex_ccmp_tx_def ex_ccmp_frame_def
        ex_wep_attrib_def ex_ccmp_values)
  moreover have "sta_uncst_key ex_sta = replicate 16 7" by (simp add: ex_sta_def)
  ultimately show ?thesis by (simp add: ex_ccmp_values)
qed

lemma le16_put_le16: "le16_at (put_le16 v @ rest) 0 = v"
proof -
  have "le16_at (put_le16 v @ rest) 0 = (ucast (ucast v :: u8) OR push_bit 8 (ucast (ucast (drop_bit 8 v) :: u8)) :: u16)"
    by (simp add: le16_at_def put_le16_def byte_at_def)
  also have "\<dots> = v"
    by (rule bit_word_eqI) (auto simp: bit_simps)
  finally show ?thesis .
qed


text \<open>A header with another frame control field and another sequence control field.\<close>

definition set_fc_seq :: "u16 \<Rightarrow> u16 \<Rightarrow> u8 list \<Rightarrow> u8 list" where
  "set_fc_seq fc sq hdr = put_le16 fc @ bytes_at hdr 2 20 @ put_le16 sq @ drop 24 hdr"

lemma set_fc_seq_reads:
  assumes "24 \<le> length hdr"
  shows "le16_at (set_fc_seq fc sq hdr) 0 = fc" "le16_at (set_fc_seq fc sq hdr) 22 = sq"
    "2 \<le> i \<Longrightarrow> i < 22 \<or> 24 \<le> i \<Longrightarrow> byte_at (set_fc_seq fc sq hdr) i = byte_at hdr i"
proof -
  show "le16_at (set_fc_seq fc sq hdr) 0 = fc"
    unfolding set_fc_seq_def by (rule le16_put_le16)
  have "le16_at ((put_le16 fc @ bytes_at hdr 2 20) @ put_le16 sq @ drop 24 hdr) 22
      = le16_at (put_le16 sq @ drop 24 hdr) 0"
    by (simp add: le16_at_def byte_at_append2)
  then show "le16_at (set_fc_seq fc sq hdr) 22 = sq"
    by (simp add: set_fc_seq_def le16_put_le16)
  show "byte_at (set_fc_seq fc sq hdr) i = byte_at hdr i" if "2 \<le> i" "i < 22 \<or> 24 \<le> i"
  proof (cases "i < 22")
    case True
    then obtain j where "i = Suc (Suc j)" using \<open>2 \<le> i\<close> by (metis Suc_le_D numeral_2_eq_2 Suc_le_mono)
    with True assms show ?thesis
      by (auto simp: set_fc_seq_def byte_at_def bytes_at_def nth_append put_le16_def)
  next
    case False
    with that assms show ?thesis
      by (auto simp: set_fc_seq_def byte_at_def bytes_at_def nth_append put_le16_def)
  qed
qed

lemma and_mask_cong:
  fixes x y n c :: u16
  assumes "x AND n = y AND n" "c AND n = c"
  shows "x AND c = y AND c"
proof -
  have e: "z AND c = (z AND n) AND c" for z
  proof -
    have "z AND c = z AND (c AND n)" by (simp only: assms(2))
    then show ?thesis by (simp only: ac_simps)
  qed
  have "x AND c = (x AND n) AND c" by (rule e)
  also have "\<dots> = (y AND n) AND c" by (simp only: assms(1))
  also have "\<dots> = y AND c" by (rule e [symmetric])
  finally show ?thesis .
qed

lemma and_mask_cong2:
  fixes x y n a :: u16
  assumes "x AND n = y AND n"
  shows "(x AND a) AND n = (y AND a) AND n"
proof -
  have e: "(z AND a) AND n = (z AND n) AND a" for z :: u16
    by (simp only: ac_simps)
  show ?thesis unfolding e assms ..
qed

text \<open>
  A retransmission is authenticated by the same data: the additional data and the nonce
  of CCMP and of GCMP do not change when the frame control field changes in the retry, power
  management and more-data bits, nor when the sequence number does; the fragment number
  stays under protection.
\<close>

theorem aad_of_retransmission:
  assumes "24 \<le> length hdr" "fc AND NOT 0x3800 = le16_at hdr 0 AND NOT 0x3800"
    "sq AND 0x000f = le16_at hdr 22 AND 0x000f"
  shows "ccmp_aad_nonce spp (set_fc_seq fc sq hdr) data = ccmp_aad_nonce spp hdr data
    \<and> gcmp_aad_nonce spp (set_fc_seq fc sq hdr) data = gcmp_aad_nonce spp hdr data"
proof -
  define h' where "h' = set_fc_seq fc sq hdr"
  note rd = set_fc_seq_reads [OF assms(1), where fc = fc and sq = sq, folded h'_def]
  have b: "2 \<le> off \<Longrightarrow> off + n \<le> 22 \<or> 24 \<le> off \<Longrightarrow> bytes_at h' off n = bytes_at hdr off n" for off n
    using rd(3) by (intro nth_equalityI) (auto simp: bytes_at_def)
  have m: "NOT (0x0800 OR 0x1000 OR 0x2000) = (NOT 0x3800 :: u16)" by simp
  have c: "fc AND k = le16_at hdr 0 AND k" if "k AND NOT 0x3800 = k" for k
    by (rule and_mask_cong [OF assms(2) that])
  have t: "fc AND 0x0300 = le16_at hdr 0 AND 0x0300" "fc AND 0x000c = le16_at hdr 0 AND 0x000c"
    "fc AND 0x0080 = le16_at hdr 0 AND 0x0080"
    by (rule c, simp)+
  have n: "fc AND NOT 0x3800 = le16_at hdr 0 AND NOT 0x3800"
    "(fc AND a) AND NOT 0x3800 = (le16_at hdr 0 AND a) AND NOT 0x3800"
    "((fc AND a) AND a') AND NOT 0x3800 = ((le16_at hdr 0 AND a) AND a') AND NOT 0x3800" for a a'
    by (intro assms(2) and_mask_cong2)+
  have s: "sq AND NOT 0xfff0 = le16_at hdr 22 AND NOT 0xfff0"
    by (rule and_mask_cong [OF assms(3)]) simp
  have q: "byte_at h' (24 + (if P then 6 else 0)) = byte_at hdr (24 + (if P then 6 else 0))" for P
    by (rule rd(3)) auto
  have a: "bytes_at h' 4 18 = bytes_at hdr 4 18" "bytes_at h' 24 6 = bytes_at hdr 24 6"
    "bytes_at h' 10 6 = bytes_at hdr 10 6"
    by (rule b, simp, simp)+
  have f: "(if Q then (if D then fc AND k1 else fc) AND k2 else (if D then fc AND k1 else fc)) AND NOT 0x3800
    = (if Q then (if D then le16_at hdr 0 AND k1 else le16_at hdr 0) AND k2
       else (if D then le16_at hdr 0 AND k1 else le16_at hdr 0)) AND NOT 0x3800" for Q D k1 k2
    by (cases Q; cases D) (simp_all only: if_True if_False n)
  show ?thesis
    unfolding h'_def [symmetric] ccmp_aad_nonce_def gcmp_aad_nonce_def Let_def rd(1,2) m t s a q f
    by (rule conjI refl)+
qed


theorem aad_of_retransmission_witness:
  "ccmp_aad_nonce 0 (set_fc_seq 0x4908 0x0120 ex_ccmp_buf) [5, 0, 0, 0x20, 0, 0, 0, 0]
     = ccmp_aad_nonce 0 ex_ccmp_buf [5, 0, 0, 0x20, 0, 0, 0, 0]"
proof -
  have w: "le16_at ex_ccmp_buf 0 = 0x4108" "le16_at ex_ccmp_buf 22 = 0"
    by (simp_all add: ex_ccmp_buf_def le16_at_def byte_at_def nth_append)
  show ?thesis
    by (rule conjunct1 [OF aad_of_retransmission]) (simp_all add: w ex_ccmp_values)
qed

text \<open>
  C14. Authenticated decryption is exact: for CCM with a tag of any length \<open>M\<close> and for GCM,
  a ciphertext with its tag is accepted with a plaintext if and only if encrypting that
  plaintext under the same key, nonce and additional data produces them.
\<close>

theorem aead_exact:
  assumes "length tag = M" "length tag' = 16"
  shows "(aes_ccm_ad mem key_len M key nonce aad crypt tag = Some plain
        \<longleftrightarrow> aes_ccm_ae mem key_len M key nonce aad plain = Some (crypt, tag))
    \<and> (aes_gcm_ad mem key_len key nonce aad crypt tag' = Some plain
        \<longleftrightarrow> aes_gcm_ae mem key_len key nonce aad plain = Some (crypt, tag'))"
  using ccm.ad_iff [OF assms(1)] gcm.ad_iff [OF assms(2)] by blast

theorem aead_exact_witness:
  "aes_ccm_ad (\<lambda>_. True) 16 8 (replicate 16 7) (replicate 13 0) [1, 2] [3] (replicate 8 0) = Some [9]
    \<longleftrightarrow> aes_ccm_ae (\<lambda>_. True) 16 8 (replicate 16 7) (replicate 13 0) [1, 2] [9] = Some ([3], replicate 8 0)"
  by (rule conjunct1 [OF aead_exact [where tag' = "replicate 16 0"]]) simp_all

end
