(* ===== verification/Rx_Path.thy ===== *)
theory Rx_Path
  imports Rx_Defrag Rx_Amsdu Sec_Sw
begin

text \<open>
  The receive path as a whole (\<^verbatim>\<open>core/rtw_recv.c\<close>): \<^verbatim>\<open>validate_recv_frame\<close> with the
  header checks of the operation modes and the duplicate, replay and plaintext checks of
  \<^verbatim>\<open>validate_recv_data_frame\<close>; then \<^verbatim>\<open>decryptor\<close>, \<^verbatim>\<open>recvframe_chk_defrag\<close>,
  \<^verbatim>\<open>portctrl\<close>, the reorder window and \<^verbatim>\<open>recv_process_mpdu\<close>, as
  \<^verbatim>\<open>recv_func_posthandle\<close> and \<^verbatim>\<open>recv_func\<close> compose them. The lemmas show what a frame
  must satisfy to get through and that no frame is lost.

  Management and control frames are handled by code that is not modelled: the parameter
  \<open>other\<close> is what \<^verbatim>\<open>validate_recv_mgnt_frame\<close> or \<^verbatim>\<open>validate_recv_ctrl_frame\<close> makes of the
  adapter. Statistics, and the deauthentication frames sent to strangers, are left out. A result
  \<open>None\<close> is an access outside the frame's buffer, which C leaves undefined. \<open>mem\<close> and
  \<open>alloc_ok\<close> are the kernel's allocators.
\<close>

section \<open>Header fields\<close>

definition fc_bit :: "recv_frame \<Rightarrow> nat \<Rightarrow> bool" where
  "fc_bit f n \<longleftrightarrow> bit (frame_fc f) n"

definition to_fr_ds_of :: "recv_frame \<Rightarrow> nat" where
  "to_fr_ds_of f = (if fc_bit f 9 then 2 else 0) + (if fc_bit f 8 then 1 else 0)"

definition frame_sub_type :: "recv_frame \<Rightarrow> u16" where
  "frame_sub_type f = frame_fc f AND 0xfc"

definition frame_seq_ctl :: "recv_frame \<Rightarrow> u16" where
  "frame_seq_ctl f = le16_at (rx_bytes f 22 2) 0"

text \<open>The addresses of the header, by their offset.\<close>

definition frame_addr :: "recv_frame \<Rightarrow> nat \<Rightarrow> mac" where
  "frame_addr f off = rx_bytes f off 6"

definition qos_ctl :: "recv_frame \<Rightarrow> u16" where
  "qos_ctl f = le16_at (rx_bytes f (24 + (if a_to_fr_ds (rf_attrib f) = 3 then 6 else 0)) 2) 0"

abbreviation upd_attrib :: "(rx_pkt_attrib \<Rightarrow> rx_pkt_attrib) \<Rightarrow> recv_frame \<Rightarrow> recv_frame" where
  "upd_attrib g f \<equiv> f\<lparr>rf_attrib := g (rf_attrib f)\<rparr>"

section \<open>The addresses of a data frame, by mode\<close>

definition set_addrs :: "mac \<Rightarrow> mac \<Rightarrow> mac \<Rightarrow> mac \<Rightarrow> mac \<Rightarrow> recv_frame \<Rightarrow> recv_frame" where
  "set_addrs ra ta dst src bssid f =
     upd_attrib (\<lambda>a. a\<lparr>a_ra := ra, a_ta := ta, a_dst := dst, a_src := src, a_bssid := bssid\<rparr>) f"

text \<open>
  The results: the status, the frame with its addresses and the station, by the address it
  is looked up under.
\<close>

definition rtw_sta_rx_data_validate_hdr ::
  "adapter \<Rightarrow> recv_frame \<Rightarrow> rx_ret \<times> recv_frame \<times> mac option" where
  "rtw_sta_rx_data_validate_hdr ad f =
     (let a1 = frame_addr f 4; a2 = frame_addr f 10; a3 = frame_addr f 16;
          ds = a_to_fr_ds (rf_attrib f);
          sta = (\<lambda>addr. if rtw_get_stainfo ad addr = None then None else Some addr)
      in if ds = 0 then
           let f1 = set_addrs a1 a2 a1 a2 a3 f in
           if a3 \<noteq> a2 then (RX_FAIL, f1, None)
           else (if sta a2 = None then RX_FAIL else RX_SUCCESS, f1, sta a2)
         else if \<not> ad_fw_asoc ad \<and> \<not> ad_fw_linking ad then (RX_FAIL, f, None)
         else if ds \<noteq> 2 \<and> ds \<noteq> 3 then
           (RX_HANDLED, upd_attrib (\<lambda>a. a\<lparr>a_ra := a1, a_ta := a2\<rparr>) f, None)
         else
           let f1 = (if ds = 2 then set_addrs a1 a2 a1 a3 a2 f
                     else set_addrs a1 a2 a3 (frame_addr f 24) a2 f)
           in if \<not> a_amsdu (rf_attrib f1) \<and> a_src (rf_attrib f1) = ad_mac ad then (RX_FAIL, f1, None)
              else if sta a2 = None then (RX_FAIL, f1, None)
              else if frame_sub_type f AND 0x40 \<noteq> 0 then (RX_HANDLED, f1, sta a2)
              else (RX_SUCCESS, f1, sta a2))"

definition sta2sta_data_frame :: "adapter \<Rightarrow> recv_frame \<Rightarrow> rx_ret \<times> recv_frame \<times> mac option" where
  "sta2sta_data_frame ad f =
     (let attr = rf_attrib f; zero = replicate 6 0; mybssid = ad_cur_net_mac ad;
          look = (\<lambda>ret f addr. if rtw_get_stainfo ad addr = None then (RX_FAIL, f, None) else (ret, f, Some addr))
      in if ad_fw_adhoc ad then
           if ad_mac ad = a_src attr then (RX_FAIL, f, None)
           else if ad_mac ad \<noteq> a_dst attr \<and> \<not> is_mcast (a_dst attr) then (RX_FAIL, f, None)
           else if a_bssid attr = zero \<or> mybssid = zero \<or> a_bssid attr \<noteq> mybssid then (RX_FAIL, f, None)
           else look RX_SUCCESS f (a_ta attr)
         else if ad_fw_mp ad then
           look RX_SUCCESS (set_addrs (frame_addr f 4) (frame_addr f 10) (frame_addr f 4) (frame_addr f 10)
             (frame_addr f 16) f) mybssid
         else look RX_FAIL f (a_ta attr))"

definition mp_data_frame :: "adapter \<Rightarrow> recv_frame \<Rightarrow> rx_ret \<times> recv_frame \<times> mac option" where
  "mp_data_frame ad f =
     (let f1 = set_addrs (frame_addr f 4) (frame_addr f 10) (frame_addr f 4) (frame_addr f 10) (frame_addr f 16) f;
          bssid = frame_addr f 16
      in if rtw_get_stainfo ad bssid = None then (RX_FAIL, f1, None) else (RX_SUCCESS, f1, Some bssid))"

definition ap2sta_data_frame :: "adapter \<Rightarrow> recv_frame \<Rightarrow> rx_ret \<times> recv_frame \<times> mac option" where
  "ap2sta_data_frame ad f =
     (if ad_fw_mp ad \<and> ad_fw_asoc ad then mp_data_frame ad f else (RX_FAIL, f, None))"

definition sta2ap_data_frame :: "adapter \<Rightarrow> recv_frame \<Rightarrow> rx_ret \<times> recv_frame \<times> mac option" where
  "sta2ap_data_frame ad f =
     (if ad_fw_mp ad \<and> ad_fw_asoc ad then mp_data_frame ad f else (RX_HANDLED, f, None))"

definition data_validate_hdr :: "adapter \<Rightarrow> recv_frame \<Rightarrow> rx_ret \<times> recv_frame \<times> mac option" where
  "data_validate_hdr ad f =
     (let a1 = frame_addr f 4; a2 = frame_addr f 10; a3 = frame_addr f 16; ds = a_to_fr_ds (rf_attrib f) in
      if ad_fw_station ad then rtw_sta_rx_data_validate_hdr ad f
      else if ds = 0 then sta2sta_data_frame ad (set_addrs a1 a2 a1 a2 a3 f)
      else if ds = 1 then sta2ap_data_frame ad (set_addrs a1 a2 a3 a2 a1 f)
      else if ds = 2 then ap2sta_data_frame ad (set_addrs a1 a2 a1 a3 a2 f)
      else (RX_FAIL, f, None))"

section \<open>Validation of a data frame\<close>

text \<open>The Ethernet type behind the LLC header.\<close>

definition frame_ether_type :: "recv_frame \<Rightarrow> u16" where
  "frame_ether_type f =
     be16_at (rx_bytes f (a_hdrlen (rf_attrib f) + a_iv_len (rf_attrib f) + 6) 2) 0"

text \<open>
  The drop of unprotected frames in a protected network: whether the frame may go on.
  The case of an access point, which is not in the configuration, is left out.
\<close>

definition plaintext_ok :: "security_priv \<Rightarrow> recv_frame \<Rightarrow> bool" where
  "plaintext_ok sec f =
     (let attr = rf_attrib f in
      if sec_privacy sec \<noteq> SEC_NO_PRIVACY then
        if is_mcast (a_ra attr) then a_privacy attr
        else if sec_auth sec = Auth8021X then
          if \<not> a_privacy attr \<and> frame_ether_type f \<noteq> 0x888e then False
          else if \<not> a_privacy attr \<and> a_amsdu attr then False
          else True
        else a_privacy attr
      else True)"

text \<open>The attributes set from the QoS control field and the lengths.\<close>

definition parse_qc :: "recv_frame \<Rightarrow> recv_frame" where
  "parse_qc f =
     (let a4 = (if a_to_fr_ds (rf_attrib f) = 3 then 6 else 0); qc = qos_ctl f in
      upd_attrib (\<lambda>a.
        let a0 = a\<lparr>a_ack_policy := 0\<rparr>;
            a1 = (if a_qos a then a0\<lparr>a_priority := unat (qc AND 0xf), a_ack_policy := unat (drop_bit 5 qc AND 3),
                                a_hdrlen := 26 + a4\<rparr>
                  else a0\<lparr>a_priority := 0, a_hdrlen := 24 + a4\<rparr>)
        in if a_order a then a1\<lparr>a_hdrlen := a_hdrlen a1 + 4\<rparr> else a1) f)"

definition set_encrypt :: "security_priv \<Rightarrow> sta_info \<Rightarrow> recv_frame \<Rightarrow> recv_frame" where
  "set_encrypt sec sta f =
     upd_attrib (\<lambda>a.
       if a_privacy a then
         let enc = get_encry_algo (sec_auth sec) (sec_privacy sec) (sec_grp_privacy sec)
               (sta_dot118021XPrivacy sta) (a_encrypt a) (is_mcast (a_ra a))
         in a\<lparr>a_encrypt := enc, a_iv_len := unat (fst (set_ice_iv_len enc)),
              a_icv_len := unat (snd (set_ice_iv_len enc))\<rparr>
       else a\<lparr>a_encrypt := 0, a_iv_len := 0, a_icv_len := 0\<rparr>) f"

text \<open>
  \<^verbatim>\<open>validate_recv_data_frame\<close> from the station on; \<open>addr\<close> is the address the station is
  stored under.
\<close>

definition sta_key :: "mac \<Rightarrow> mac" where
  "sta_key addr = (if is_mcast addr then bc_addr else addr)"

definition validate_from_sta :: "adapter \<Rightarrow> mac \<Rightarrow> sta_info \<Rightarrow> recv_frame \<Rightarrow> rx_ret \<times> recv_frame \<times> adapter" where
  "validate_from_sta ad addr sta f0 =
     (if sta_amsdu_disable sta \<and> a_amsdu (rf_attrib f0) then (RX_FAIL, f0, ad)
      else
        let f1 = parse_qc (f0\<lparr>rf_psta := Some addr, rf_preorder := None\<rparr>);
            attr = rf_attrib f1; mc = is_mcast (a_ra attr);
            ad1 = (if a_qos attr then ad\<lparr>ad_recv := (ad_recv ad)
                     \<lparr>rp_non_be := (a_priority attr \<noteq> 0 \<and> a_priority attr \<noteq> 3)\<rparr>\<rparr> else ad);
            (ret1, sta1) = recv_decache f1 sta;
            ad2 = sta_update addr (\<lambda>_. sta1) ad1
        in if ret1 = RX_FAIL then (ret1, f1, ad2)
           else
             let f2 = (if \<not> mc \<and> a_qos attr then f1\<lparr>rf_preorder := Some (addr, a_priority attr)\<rparr> else f1);
                 (ret2, ad3) =
                   (if \<not> mc then
                      let (r, sta2) = recv_ucast_pn_decache f2 sta1 in (r, sta_update addr (\<lambda>_. sta2) ad2)
                    else
                      let (r, sec) = recv_bcast_pn_decache (ad_fw_station ad) f2 (ad_sec ad2)
                      in (r, ad2\<lparr>ad_sec := sec\<rparr>))
             in if ret2 = RX_FAIL then (RX_FAIL, f2, ad3)
                else
                  let f3 = set_encrypt (ad_sec ad3) sta f2
                  in (if plaintext_ok (ad_sec ad3) f3 then RX_SUCCESS else RX_FAIL, f3, ad3))"

definition validate_recv_data_frame :: "adapter \<Rightarrow> recv_frame \<Rightarrow> rx_ret \<times> recv_frame \<times> adapter" where
  "validate_recv_data_frame ad f =
     (let f0 = upd_attrib (\<lambda>a. a\<lparr>a_amsdu := (a_qos a \<and> bit (qos_ctl f) 7)\<rparr>) f;
          (ret, f1, psta) = data_validate_hdr ad f0
      in if ret \<noteq> RX_SUCCESS then (ret, f1, ad)
         else case psta of
           None \<Rightarrow> (RX_FAIL, f1, ad)
         | Some addr \<Rightarrow>
             (case rtw_get_stainfo ad addr of
                None \<Rightarrow> (RX_FAIL, f1, ad)
              | Some sta \<Rightarrow> validate_from_sta ad (sta_key addr) sta f1))"

definition validate_recv_frame ::
  "(adapter \<Rightarrow> recv_frame \<Rightarrow> adapter) \<Rightarrow> adapter \<Rightarrow> recv_frame \<Rightarrow> rx_ret \<times> recv_frame \<times> adapter" where
  "validate_recv_frame other ad f =
     (if rx_byte f 0 AND 3 \<noteq> 0 then (RX_FAIL, f, ad)
      else
        let type = frame_fc f AND 0x0c;
            f1 = upd_attrib (\<lambda>a. a\<lparr>a_to_fr_ds := to_fr_ds_of f,
                   a_frag_num := ucast (frame_seq_ctl f AND 0xf), a_seq_num := drop_bit 4 (frame_seq_ctl f),
                   a_pw_save := fc_bit f 12, a_mfrag := fc_bit f 10, a_mdata := fc_bit f 13,
                   a_privacy := fc_bit f 14, a_order := fc_bit f 15\<rparr>) f
        in if type = 0 \<or> type = 4 then (RX_FAIL, f1, other ad f1)
           else if type = 8 then
             let f2 = upd_attrib (\<lambda>a. a\<lparr>a_qos := (frame_sub_type f AND 0x80 \<noteq> 0)\<rparr>) f1;
                 (ret, f3, ad1) = validate_recv_data_frame ad f2
             in (ret, f3, if ret = RX_FAIL
                          then ad1\<lparr>ad_recv := (ad_recv ad1)\<lparr>rp_drop_count := rp_drop_count (ad_recv ad1) + 1\<rparr>\<rparr>
                          else ad1)
           else (RX_FAIL, f1, ad))"

definition recv_func_prehandle ::
  "(adapter \<Rightarrow> recv_frame \<Rightarrow> adapter) \<Rightarrow> adapter \<Rightarrow> recv_frame \<Rightarrow> rx_ret \<times> recv_frame \<times> adapter" where
  "recv_func_prehandle other ad f =
     (let (ret, f', ad') = validate_recv_frame other ad f
      in if ret \<noteq> RX_SUCCESS then (ret, f', ad_free f' ad') else (ret, f', ad'))"

section \<open>Decryption\<close>

definition WEP_KEYS :: nat where "WEP_KEYS = 4"

definition rx_key_index :: "security_priv \<Rightarrow> recv_frame \<Rightarrow> nat" where
  "rx_key_index sec f =
     (let ki = unat (drop_bit 6 (rx_byte f (a_hdrlen (rf_attrib f) + 3)) AND 3); enc = a_encrypt (rf_attrib f) in
      if ki > WEP_KEYS then
        (if enc = SEC_WEP40 \<or> enc = SEC_WEP104 then sec_key_index sec else sec_grp_keyid sec)
      else ki)"

text \<open>The switch over the ciphers.\<close>

definition sw_decrypt_frame :: "(nat \<Rightarrow> bool) \<Rightarrow> adapter \<Rightarrow> recv_frame \<Rightarrow> (rx_ret \<times> recv_frame) option" where
  "sw_decrypt_frame mem ad f =
     (let enc = a_encrypt (rf_attrib f); sec = ad_sec ad in
      if enc = SEC_WEP40 \<or> enc = SEC_WEP104 then
        map_option (Pair RX_SUCCESS)
          (rtw_wep_decrypt (\<lambda>i. sec_def_key sec ! i) (\<lambda>i. sec_def_keylen sec ! i) f)
      else if enc = SEC_TKIP then rtw_tkip_decrypt ad f
      else if enc = SEC_AES \<or> enc = SEC_CCMP_256 then Some (rtw_aes_decrypt mem ad f)
      else if enc = SEC_GCMP \<or> enc = SEC_GCMP_256 then Some (rtw_gcmp_decrypt mem ad f)
      else Some (RX_SUCCESS, f))"

definition set_hw_decrypted :: "bool \<Rightarrow> adapter \<Rightarrow> adapter" where
  "set_hw_decrypted b ad = ad\<lparr>ad_sec := (ad_sec ad)\<lparr>sec_hw_decrypted := b\<rparr>\<rparr>"

definition decryptor :: "(nat \<Rightarrow> bool) \<Rightarrow> adapter \<Rightarrow> recv_frame \<Rightarrow> (recv_frame option \<times> adapter) option" where
  "decryptor mem ad f0 =
     (let f = (if a_encrypt (rf_attrib f0) > 0
               then upd_attrib (\<lambda>a. a\<lparr>a_key_index := rx_key_index (ad_sec ad) f0\<rparr>) f0 else f0);
          enc = a_encrypt (rf_attrib f); dec = a_bdecrypted (rf_attrib f);
          sw = (enc \<noteq> 0 \<and> \<not> dec);
          ad1 = (if sw then (if frame_is_data f then set_hw_decrypted False ad else ad)
                 else if dec \<and> enc > 0 \<and> (sec_busetkipkey (ad_sec ad) \<or> enc \<noteq> SEC_TKIP)
                 then set_hw_decrypted True ad else ad)
      in case (if sw then sw_decrypt_frame mem ad1 f else Some (RX_SUCCESS, f)) of
           None \<Rightarrow> None
         | Some (res, f1) \<Rightarrow>
             if res = RX_FAIL then Some (None, ad_free f1 ad1)
             else Some (Some (upd_attrib (\<lambda>a. a\<lparr>a_bdecrypted := True\<rparr>) f1), ad1))"

section \<open>Port control\<close>

definition portctrl :: "adapter \<Rightarrow> recv_frame \<Rightarrow> recv_frame option \<times> adapter" where
  "portctrl ad f =
     (if sec_auth (ad_sec ad) = Auth8021X then
        case rtw_get_stainfo ad (a_ta (rf_attrib f)) of
          None \<Rightarrow> (Some f, ad)
        | Some sta \<Rightarrow>
            if sta_ieee8021x_blocked sta then
              (if frame_ether_type f = 0x888e then (Some f, ad) else (None, ad_free f ad))
            else (Some f, ad)
      else (Some f, ad))"

section \<open>The reorder window of the frame's station\<close>

text \<open>
  The control block a frame points to. \<open>None\<close> on the pointer is NULL; a pointer to a station
  that is gone makes the operation fail with \<open>None\<close>.
\<close>

definition ro_of :: "adapter \<Rightarrow> mac \<times> nat \<Rightarrow> recv_reorder_ctrl option" where
  "ro_of ad p =
     (case ad_stapriv ad (fst p) of
        None \<Rightarrow> None
      | Some sta \<Rightarrow> if snd p < length (sta_reorder sta) then Some (sta_reorder sta ! snd p) else None)"

definition set_ro :: "mac \<times> nat \<Rightarrow> recv_reorder_ctrl \<Rightarrow> adapter \<Rightarrow> adapter" where
  "set_ro p rc ad = sta_update (fst p) (\<lambda>sta. sta\<lparr>sta_reorder := (sta_reorder sta)[snd p := rc]\<rparr>) ad"

definition recv_indicatepkt_reorder ::
  "(nat \<Rightarrow> bool) \<Rightarrow> adapter \<Rightarrow> recv_frame \<Rightarrow> (rx_ret \<times> adapter) option" where
  "recv_indicatepkt_reorder alloc_ok ad f =
     (case rf_preorder f of
        None \<Rightarrow> Some (RX_SUCCESS, ad)
      | Some p \<Rightarrow>
          case ro_of ad p of
            None \<Rightarrow> None
          | Some rc \<Rightarrow>
              let (ret, rp, rc') = recv_indicatepkt_reorder_ctrl (recv_process_mpdu ad alloc_ok) (ad_recv ad) rc f
              in Some (ret, set_ro p rc' (ad\<lparr>ad_recv := rp\<rparr>)))"

definition set_iseq :: "recv_frame \<Rightarrow> (u16 \<Rightarrow> u16) \<Rightarrow> adapter \<Rightarrow> adapter" where
  "set_iseq f g ad =
     (case rf_preorder f of
        None \<Rightarrow> ad
      | Some p \<Rightarrow>
          (case ro_of ad p of
             None \<Rightarrow> ad
           | Some rc \<Rightarrow> set_ro p (rc\<lparr>ro_indicate_seq := g (ro_indicate_seq rc)\<rparr>) ad))"

definition recv_set_iseq_before_mpdu_process :: "recv_frame \<Rightarrow> u16 \<Rightarrow> adapter \<Rightarrow> adapter" where
  "recv_set_iseq_before_mpdu_process f seq ad = set_iseq f (\<lambda>_. seq) ad"

definition recv_set_iseq_after_mpdu_process :: "recv_frame \<Rightarrow> adapter \<Rightarrow> adapter" where
  "recv_set_iseq_after_mpdu_process f ad = set_iseq f (\<lambda>s. (s + 1) mod 4096) ad"

section \<open>After validation\<close>

definition count_drop :: "adapter \<Rightarrow> adapter" where
  "count_drop ad = ad\<lparr>ad_recv := (ad_recv ad)\<lparr>rp_drop_count := rp_drop_count (ad_recv ad) + 1\<rparr>\<rparr>"

text \<open>
  The release of \<^verbatim>\<open>orig_prframe\<close> after the reorder window refused \<^verbatim>\<open>prframe\<close>:
  \<^verbatim>\<open>rtw_free_recvframe\<close> unlinks the frame from whatever list it is in before it goes to the
  pool and the counter moves. The two frames differ when \<^verbatim>\<open>prframe\<close> was reassembled; then
  the original is already in the pool.
\<close>

definition free_orig :: "recv_frame \<Rightarrow> recv_frame \<Rightarrow> recv_priv \<Rightarrow> recv_priv" where
  "free_orig orig p rp =
     rtw_free_recvframe (if rf_id p = rf_id orig then p else orig)
       (rp\<lparr>rp_free_queue := filter (\<lambda>g. rf_id g \<noteq> rf_id orig) (rp_free_queue rp)\<rparr>)"

definition recv_func_posthandle ::
  "(nat \<Rightarrow> bool) \<Rightarrow> (nat \<Rightarrow> bool) \<Rightarrow> adapter \<Rightarrow> recv_frame \<Rightarrow> (rx_ret \<times> adapter) option" where
  "recv_func_posthandle mem alloc_ok ad f =
     (case decryptor mem ad f of
        None \<Rightarrow> None
      | Some (None, ad1) \<Rightarrow> Some (RX_FAIL, count_drop ad1)
      | Some (Some f1, ad1) \<Rightarrow>
     (case recvframe_chk_defrag ad1 f1 of
        None \<Rightarrow> None
      | Some (None, ad2) \<Rightarrow> Some (RX_SUCCESS, count_drop ad2)
      | Some (Some p, ad2) \<Rightarrow>
     (case portctrl ad2 p of
        (None, ad3) \<Rightarrow> Some (RX_FAIL, count_drop ad3)
      | (Some q, ad3) \<Rightarrow>
     (case recv_indicatepkt_reorder alloc_ok ad3 q of
        None \<Rightarrow> None
      | Some (ret, ad4) \<Rightarrow>
          if ret = RX_FAIL then
            Some (RX_FAIL, count_drop (ad4\<lparr>ad_recv := free_orig f1 q (ad_recv ad4)\<rparr>))
          else if ret = RX_HANDLED then Some (RX_HANDLED, ad4)
          else
            let ad5 = recv_set_iseq_before_mpdu_process q (a_seq_num (rf_attrib f1)) ad4;
                (ret2, rp) = recv_process_mpdu ad5 alloc_ok (ad_recv ad5) q;
                ad6 = recv_set_iseq_after_mpdu_process q (ad5\<lparr>ad_recv := rp\<rparr>)
            in Some (ret2, if ret2 = RX_FAIL then count_drop ad6 else ad6)))))"

section \<open>The frames an adapter holds\<close>

text \<open>
  Every frame that is not on its way is in the pool, in the queue of frames that wait for a
  key, in a fragment queue or in a reorder queue of a station.
\<close>

definition sta_ids :: "sta_info \<Rightarrow> nat multiset" where
  "sta_ids sta = frame_ids (sta_defrag_q sta) + sum_list (map (\<lambda>rc. frame_ids (ro_pending rc)) (sta_reorder sta))"

definition stapriv_ids :: "(mac \<Rightarrow> sta_info option) \<Rightarrow> nat multiset" where
  "stapriv_ids m = (\<Sum>a \<in> dom m. sta_ids (the (m a)))"

definition held :: "adapter \<Rightarrow> nat multiset" where
  "held ad = pool_ids (ad_recv ad) + frame_ids (rp_pending (ad_recv ad)) + stapriv_ids (ad_stapriv ad)"

definition opt_ids :: "recv_frame option \<Rightarrow> nat multiset" where
  "opt_ids res = (case res of None \<Rightarrow> {#} | Some g \<Rightarrow> {#rf_id g#})"

lemma opt_ids_simps [simp]: "opt_ids None = {#}" "opt_ids (Some g) = {#rf_id g#}"
  by (simp_all add: opt_ids_def)

lemma stapriv_ids_upd:
  assumes "finite (dom m)" "m a = Some sta"
  shows "stapriv_ids (m(a \<mapsto> sta')) + sta_ids sta = stapriv_ids m + sta_ids sta'"
proof -
  have a: "a \<in> dom m" using assms(2) by auto
  have "stapriv_ids m = sta_ids sta + (\<Sum>b \<in> dom m - {a}. sta_ids (the (m b)))"
    using assms by (simp add: stapriv_ids_def sum.remove [OF assms(1) a])
  moreover have "stapriv_ids (m(a \<mapsto> sta')) = sta_ids sta' + (\<Sum>b \<in> dom m - {a}. sta_ids (the (m b)))"
    using assms a by (simp add: stapriv_ids_def sum.remove [OF assms(1) a] insert_absorb)
  ultimately show ?thesis by (simp add: ac_simps)
qed

text \<open>
  An operation takes in the frames \<open>ins\<close> and gives out \<open>outs\<close>; the stations and the queue of
  waiting frames stay as they are.
\<close>

definition moves :: "adapter \<Rightarrow> nat multiset \<Rightarrow> adapter \<Rightarrow> nat multiset \<Rightarrow> bool" where
  "moves ad ins ad' outs \<longleftrightarrow> dom (ad_stapriv ad') = dom (ad_stapriv ad)
     \<and> rp_pending (ad_recv ad') = rp_pending (ad_recv ad)
     \<and> (finite (dom (ad_stapriv ad)) \<longrightarrow> held ad' + outs = held ad + ins)"

lemma moves_refl: "moves ad x ad x"
  by (simp add: moves_def)

lemma moves_trans: "moves ad x ad1 y \<Longrightarrow> moves ad1 y ad2 z \<Longrightarrow> moves ad x ad2 z"
  by (auto simp: moves_def)

lemma moves_frame: "moves ad x ad' y \<Longrightarrow> moves ad (x + z) ad' (y + z)"
  by (simp add: moves_def flip: add.assoc)

lemma moves_sta_update:
  assumes "ad_stapriv ad addr = Some sta" "sta_ids (g sta) + outs = sta_ids sta + ins"
  shows "moves ad ins (sta_update addr g ad) outs"
proof -
  have "held (sta_update addr g ad) + outs + sta_ids sta = held ad + ins + sta_ids sta"
    if fin: "finite (dom (ad_stapriv ad))"
  proof -
    have "held (sta_update addr g ad) + sta_ids sta = held ad + sta_ids (g sta)"
      using stapriv_ids_upd [OF fin assms(1), of "g sta"] assms(1)
      by (simp add: held_def sta_update_def ac_simps)
    then show ?thesis using assms(2) by (metis add.assoc add.commute)
  qed
  then show ?thesis
    using assms(1) by (auto simp: moves_def sta_update_def split: if_splits)
qed

lemma moves_free [simp]: "moves ad {#rf_id f#} (ad_free f ad) {#}"
  by (auto simp: moves_def ad_free_def held_def rtw_free_recvframe_def pool_ids_def)

lemma moves_recv:
  assumes "pool_ids rp + outs = pool_ids (ad_recv ad) + ins" "rp_pending rp = rp_pending (ad_recv ad)"
  shows "moves ad ins (ad\<lparr>ad_recv := rp\<rparr>) outs"
  using assms by (auto simp: moves_def held_def ac_simps)

lemma moves_count_drop [simp]: "moves ad x (count_drop ad) x"
  by (auto simp: moves_def count_drop_def held_def pool_ids_def)

lemma moves_sec [simp]: "moves ad x (ad\<lparr>ad_sec := sec\<rparr>) x"
  by (auto simp: moves_def held_def)

subsection \<open>Decryption, reassembly, port control\<close>

definition same_path :: "recv_frame \<Rightarrow> recv_frame \<Rightarrow> bool" where
  "same_path f g \<longleftrightarrow> rf_id g = rf_id f \<and> rf_preorder g = rf_preorder f
     \<and> a_frag_num (rf_attrib g) = a_frag_num (rf_attrib f) \<and> a_mfrag (rf_attrib g) = a_mfrag (rf_attrib f)"

lemma same_frame_path: "same_frame f g \<Longrightarrow> same_path f g"
  by (cases f, cases g) (simp add: same_frame_def same_path_def)

lemma sw_decrypt_frame_same: "sw_decrypt_frame mem ad f = Some (ret, g) \<Longrightarrow> same_frame f g"
  by (auto simp: sw_decrypt_frame_def Let_def dest: rtw_wep_decrypt_same rtw_tkip_decrypt_same
      intro: rtw_aes_decrypt_same rtw_gcmp_decrypt_same split: if_splits)

lemma decryptor_moves:
  assumes "decryptor mem ad f = Some (res, ad')"
  shows "moves ad {#rf_id f#} ad' (opt_ids res)" "\<And>g. res = Some g \<Longrightarrow> same_path f g"
proof -
  define f1 where "f1 = (if a_encrypt (rf_attrib f) > 0
    then upd_attrib (\<lambda>a. a\<lparr>a_key_index := rx_key_index (ad_sec ad) f\<rparr>) f else f)"
  have f1: "same_path f f1" by (simp add: f1_def same_path_def)
  define enc dec where "enc = a_encrypt (rf_attrib f1)" and "dec = a_bdecrypted (rf_attrib f1)"
  define ad1 where "ad1 = (if enc \<noteq> 0 \<and> \<not> dec then (if frame_is_data f1 then set_hw_decrypted False ad else ad)
    else if dec \<and> enc > 0 \<and> (sec_busetkipkey (ad_sec ad) \<or> enc \<noteq> SEC_TKIP)
    then set_hw_decrypted True ad else ad)"
  have ad1: "moves ad x ad1 x" for x
    by (auto simp: ad1_def set_hw_decrypted_def moves_refl)
  define r where "r = (if enc \<noteq> 0 \<and> \<not> dec then sw_decrypt_frame mem ad1 f1 else Some (RX_SUCCESS, f1))"
  have "(case r of None \<Rightarrow> None | Some (res, g) \<Rightarrow>
      if res = RX_FAIL then Some (None, ad_free g ad1)
      else Some (Some (upd_attrib (\<lambda>a. a\<lparr>a_bdecrypted := True\<rparr>) g), ad1)) = Some (res, ad')"
    using assms unfolding decryptor_def Let_def f1_def [symmetric] enc_def [symmetric] dec_def [symmetric]
      ad1_def [symmetric] r_def [symmetric] .
  then obtain ret g where r: "r = Some (ret, g)"
    and res: "(res, ad') = (if ret = RX_FAIL then (None, ad_free g ad1)
      else (Some (upd_attrib (\<lambda>a. a\<lparr>a_bdecrypted := True\<rparr>) g), ad1))"
    by (auto split: option.splits if_splits)
  have g: "same_path f1 g"
    using r by (auto simp: r_def same_path_def split: if_splits dest!: sw_decrypt_frame_same same_frame_path)
  have id: "rf_id g = rf_id f" using f1 g by (simp add: same_path_def)
  show "moves ad {#rf_id f#} ad' (opt_ids res)"
    using res ad1 moves_free [of ad1 g] id by (auto split: if_splits intro: moves_trans)
  show "\<And>h. res = Some h \<Longrightarrow> same_path f h"
    using res f1 g by (auto simp: same_path_def split: if_splits)
qed

lemma portctrl_moves:
  assumes "portctrl ad f = (res, ad')"
  shows "moves ad {#rf_id f#} ad' (opt_ids res)" "\<And>g. res = Some g \<Longrightarrow> g = f \<and> ad' = ad"
  using assms by (auto simp: portctrl_def moves_refl split: if_splits option.splits)

lemma moves_cancel: "moves ad (x + z) ad' (y + z) \<longleftrightarrow> moves ad x ad' y"
  by (simp add: moves_def flip: add.assoc)

lemma moves_defrag_q:
  assumes "ad_stapriv ad addr = Some sta"
  shows "moves ad (frame_ids q) (set_defrag_q addr q ad) (frame_ids (sta_defrag_q sta))"
  unfolding set_defrag_q_def by (rule moves_sta_update [OF assms]) (simp add: sta_ids_def ac_simps)

lemma defrag_sta_Some:
  assumes "defrag_sta ad f = Some addr"
  obtains sta where "ad_stapriv ad addr = Some sta"
  using assms
  by (auto simp: defrag_sta_def rtw_get_stainfo_def bc_addr_def is_mcast_def byte_at_def Let_def
      split: if_splits)

lemma moves_queue_swap:
  assumes "ad_stapriv ad addr = Some sta" "rp_pending rp = rp_pending (ad_recv ad)"
    and "pool_ids rp + outs + frame_ids q = pool_ids (ad_recv ad) + ins + frame_ids (sta_defrag_q sta)"
  shows "moves ad ins (set_defrag_q addr q (ad\<lparr>ad_recv := rp\<rparr>)) outs"
proof -
  have "moves ad (ins + frame_ids (sta_defrag_q sta)) (ad\<lparr>ad_recv := rp\<rparr>) (outs + frame_ids q)"
    using assms(2,3) by (intro moves_recv) (simp_all add: ac_simps)
  moreover have "moves (ad\<lparr>ad_recv := rp\<rparr>) (frame_ids q + outs)
      (set_defrag_q addr q (ad\<lparr>ad_recv := rp\<rparr>)) (frame_ids (sta_defrag_q sta) + outs)"
    by (rule moves_frame [OF moves_defrag_q]) (use assms(1) in simp)
  ultimately show ?thesis
    by (metis moves_trans moves_cancel add.commute)
qed

lemma pending_free_queue [simp]: "rp_pending (rtw_free_recvframe_queue fs rp) = rp_pending rp"
  by (induction fs arbitrary: rp) (simp_all add: rtw_free_recvframe_def)

lemma pending_free [simp]: "rp_pending (rtw_free_recvframe f rp) = rp_pending rp"
  by (simp add: rtw_free_recvframe_def)

lemma pending_defrag: "recvframe_defrag rp q = (p, rp') \<Longrightarrow> rp_pending rp' = rp_pending rp"
  by (auto simp: recvframe_defrag_def Let_def split: list.splits if_splits prod.splits)

lemma chk_defrag_queue_moves:
  assumes "chk_defrag_queue ad f = (res, ad')"
  shows "moves ad {#rf_id f#} ad' (opt_ids res)"
proof (cases "defrag_sta ad f")
  case None
  then show ?thesis
    using assms by (auto simp: chk_defrag_queue_def moves_refl Let_def split: if_splits)
next
  case (Some addr)
  then obtain sta where sta: "ad_stapriv ad addr = Some sta" by (rule defrag_sta_Some)
  define g where "g = f\<lparr>rf_keytrack := sta_keytrack sta\<rparr>"
  have g: "rf_id g = rf_id f" by (simp add: g_def)
  have q: "defrag_q_of ad addr = sta_defrag_q sta" by (simp add: defrag_q_of_def sta)
  have eq: "chk_defrag_queue ad f =
     (if \<not> a_mfrag (rf_attrib f) \<and> a_frag_num (rf_attrib f) = 0 then (Some f, ad)
      else if is_mcast (a_ra (rf_attrib f)) then (None, ad_free f ad)
      else if a_mfrag (rf_attrib f) then
        if a_frag_num (rf_attrib f) = 0 then
          (None, set_defrag_q addr [g] (ad\<lparr>ad_recv := rtw_free_recvframe_queue (sta_defrag_q sta) (ad_recv ad)\<rparr>))
        else (None, set_defrag_q addr (sta_defrag_q sta @ [g]) ad)
      else let (p, rp) = recvframe_defrag (ad_recv ad) (sta_defrag_q sta @ [g])
           in (p, set_defrag_q addr [] (ad\<lparr>ad_recv := rp\<rparr>)))"
    by (simp add: chk_defrag_queue_def Some sta q g_def Let_def)
  have first: "moves ad {#rf_id f#} (set_defrag_q addr [g]
      (ad\<lparr>ad_recv := rtw_free_recvframe_queue (sta_defrag_q sta) (ad_recv ad)\<rparr>)) {#}"
    by (rule moves_queue_swap [OF sta]) (simp_all add: g)
  have mid: "moves ad {#rf_id f#} (set_defrag_q addr (sta_defrag_q sta @ [g]) ad) {#}"
    using moves_queue_swap [OF sta, where rp = "ad_recv ad" and q = "sta_defrag_q sta @ [g]"
        and ins = "{#rf_id f#}" and outs = "{#}"]
    by (simp add: g)
  have last: "moves ad {#rf_id f#} (set_defrag_q addr [] (ad\<lparr>ad_recv := rp\<rparr>)) (opt_ids p)"
    if "recvframe_defrag (ad_recv ad) (sta_defrag_q sta @ [g]) = (p, rp)" for p rp
    using recvframe_defrag_ids [OF that] pending_defrag [OF that]
    by (intro moves_queue_swap [OF sta]) (simp_all add: g opt_ids_def split: option.splits)
  show ?thesis
    using assms first mid last unfolding eq
    by (auto simp: moves_refl split: if_splits prod.splits)
qed

lemma recvframe_chkmic_id:
  "recvframe_chkmic ad f = Some (ret, g, e, sec) \<Longrightarrow> rf_id g = rf_id f \<and> rf_preorder g = rf_preorder f"
  by (auto simp: recvframe_chkmic_def Let_def or_same_def recvframe_pull_tail_def
      split: if_splits option.splits)

lemma recvframe_chk_defrag_moves:
  assumes "recvframe_chk_defrag ad f = Some (res, ad')"
  shows "moves ad {#rf_id f#} ad' (opt_ids res)"
proof -
  obtain r ad1 where q: "chk_defrag_queue ad f = (r, ad1)" by (cases "chk_defrag_queue ad f")
  note m = chk_defrag_queue_moves [OF q]
  show ?thesis
  proof (cases r)
    case None
    then show ?thesis using assms q m by (simp add: recvframe_chk_defrag_def)
  next
    case (Some p)
    show ?thesis
    proof (cases "a_privacy (rf_attrib p)")
      case False
      then show ?thesis using assms q m Some by (auto simp: recvframe_chk_defrag_def)
    next
      case True
      then obtain ret p' e sec where mic: "recvframe_chkmic ad1 p = Some (ret, p', e, sec)"
        using assms q Some by (auto simp: recvframe_chk_defrag_def split: option.splits)
      have id: "rf_id p' = rf_id p" using recvframe_chkmic_id [OF mic] by simp
      have "moves ad1 {#rf_id p#} (ad_free p' (ad1\<lparr>ad_sec := sec\<rparr>)) {#}"
        by (rule moves_trans [OF moves_sec [of ad1 _ sec]]) (simp flip: id)
      then have "moves ad1 {#rf_id p#} ad' (opt_ids res)"
        using assms q Some True mic id
        by (auto simp: recvframe_chk_defrag_def Let_def split: if_splits)
      then show ?thesis using m Some by (auto intro: moves_trans)
    qed
  qed
qed

lemma recvframe_chk_defrag_whole:
  assumes "recvframe_chk_defrag ad f = Some (Some p, ad')" "a_frag_num (rf_attrib f) = 0"
  shows "rf_id p = rf_id f"
  using assms
  by (auto simp: recvframe_chk_defrag_def chk_defrag_queue_def Let_def dest: recvframe_chkmic_id
      split: if_splits option.splits prod.splits)

subsection \<open>The reorder window and delivery\<close>

lemma pending_indicate_pkts [simp]:
  "rp_pending (foldl rtw_os_recv_indicate_pkt rp pkts) = rp_pending rp"
  by (induction pkts arbitrary: rp) (simp_all add: rtw_os_recv_indicate_pkt_def)

lemma pending_process_mpdu: "recv_process_mpdu ad ok rp f = (ret, rp') \<Longrightarrow> rp_pending rp' = rp_pending rp"
  by (auto simp: recv_process_mpdu_def amsdu_to_msdu_def rtw_recv_indicatepkt_def
      rtw_os_recv_indicate_pkt_def Let_def split: if_splits option.splits prod.splits)

lemma pending_in_order_loop:
  assumes "\<And>rp f. rp_pending (snd (mpdu rp f)) = rp_pending rp"
  shows "in_order_loop mpdu rp ind q = (b, rp', ind', q') \<Longrightarrow> rp_pending rp' = rp_pending rp"
proof (induction q arbitrary: rp ind)
  case (Cons f q)
  then show ?case
    using assms [of rp f] by (auto simp: Let_def split: if_splits prod.splits)
qed simp

lemma pending_reorder_ctrl:
  assumes "\<And>rp f. rp_pending (snd (mpdu rp f)) = rp_pending rp"
    and "recv_indicatepkt_reorder_ctrl mpdu rp rc f = (ret, rp', rc')"
  shows "rp_pending rp' = rp_pending rp"
  using assms(2)
  by (auto simp: recv_indicatepkt_reorder_ctrl_def recv_indicatepkts_in_order_def Let_def
      dest!: pending_in_order_loop [OF assms(1)] split: if_splits prod.splits)

lemma sum_list_nth_update:
  "i < length xs \<Longrightarrow> sum_list (map g (xs[i := y])) + g (xs ! i) = sum_list (map g xs) + g y"
  for g :: "'a \<Rightarrow> 'b::comm_monoid_add"
  by (induction xs arbitrary: i) (auto simp: ac_simps nth_Cons split: nat.splits)

lemma moves_set_ro:
  assumes "ro_of ad p = Some rc"
  shows "moves ad (frame_ids (ro_pending rc')) (set_ro p rc' ad) (frame_ids (ro_pending rc))"
proof -
  obtain sta where sta: "ad_stapriv ad (fst p) = Some sta" "snd p < length (sta_reorder sta)"
    "sta_reorder sta ! snd p = rc"
    using assms by (auto simp: ro_of_def split: option.splits if_splits)
  show ?thesis
    unfolding set_ro_def
  proof (rule moves_sta_update [OF sta(1)])
    show "sta_ids (sta\<lparr>sta_reorder := (sta_reorder sta)[snd p := rc']\<rparr>) + frame_ids (ro_pending rc)
        = sta_ids sta + frame_ids (ro_pending rc')"
      using sum_list_nth_update [OF sta(2), of "\<lambda>rc. frame_ids (ro_pending rc)" rc'] sta(3)
      by (simp add: sta_ids_def ac_simps)
  qed
qed

lemma moves_set_iseq: "moves ad x (set_iseq f g ad) x"
proof -
  have "moves ad (x + {#}) (set_iseq f g ad) (x + {#})"
  proof (cases "rf_preorder f")
    case (Some p)
    show ?thesis
    proof (cases "ro_of ad p")
      case (Some rc)
      then have "moves ad (frame_ids (ro_pending rc))
          (set_ro p (rc\<lparr>ro_indicate_seq := g (ro_indicate_seq rc)\<rparr>) ad) (frame_ids (ro_pending rc))"
        using moves_set_ro [OF Some, of "rc\<lparr>ro_indicate_seq := g (ro_indicate_seq rc)\<rparr>"] by simp
      then have "moves ad {#} (set_ro p (rc\<lparr>ro_indicate_seq := g (ro_indicate_seq rc)\<rparr>) ad) {#}"
        using moves_cancel [of ad "{#}" "frame_ids (ro_pending rc)" _ "{#}"] by simp
      then show ?thesis
        using Some \<open>rf_preorder f = Some p\<close>
        by (simp add: set_iseq_def) (metis moves_frame add_0)
    qed (simp add: set_iseq_def moves_refl Some)
  qed (simp add: set_iseq_def moves_refl)
  then show ?thesis by simp
qed

lemma recv_indicatepkt_reorder_moves:
  assumes "recv_indicatepkt_reorder ok ad f = Some (ret, ad')"
  shows "moves ad {#rf_id f#} ad' (if ret = RX_HANDLED then {#} else {#rf_id f#})"
proof (cases "rf_preorder f")
  case None
  then show ?thesis using assms by (auto simp: recv_indicatepkt_reorder_def moves_refl)
next
  case (Some p)
  then obtain rc rp rc' where rc: "ro_of ad p = Some rc"
    and run: "recv_indicatepkt_reorder_ctrl (recv_process_mpdu ad ok) (ad_recv ad) rc f = (ret, rp, rc')"
    and ad': "ad' = set_ro p rc' (ad\<lparr>ad_recv := rp\<rparr>)"
    using assms by (auto simp: recv_indicatepkt_reorder_def split: option.splits prod.splits)
  have pend: "rp_pending rp = rp_pending (ad_recv ad)"
  proof (rule pending_reorder_ctrl [OF _ run])
    show "rp_pending (snd (recv_process_mpdu ad ok r g)) = rp_pending r" for r g
      by (cases "recv_process_mpdu ad ok r g") (simp add: pending_process_mpdu)
  qed
  define stay where "stay = (if ret = RX_HANDLED then {#} else {#rf_id f#})"
  have "moves ad ({#rf_id f#} + frame_ids (ro_pending rc)) (ad\<lparr>ad_recv := rp\<rparr>)
      (stay + frame_ids (ro_pending rc'))"
    using mpdu.reorder_conserves [OF run] pend
    by (intro moves_recv) (auto simp: ac_simps stay_def split: if_splits)
  moreover have "moves (ad\<lparr>ad_recv := rp\<rparr>) (frame_ids (ro_pending rc') + stay) ad'
      (frame_ids (ro_pending rc) + stay)"
    unfolding ad' by (rule moves_frame [OF moves_set_ro]) (use rc in \<open>simp add: ro_of_def\<close>)
  ultimately show ?thesis
    unfolding stay_def [symmetric] by (metis moves_trans moves_cancel add.commute)
qed

text \<open>A frame is where it should be when no frame is in two places.\<close>

definition no_frame_twice :: "nat multiset \<Rightarrow> bool" where
  "no_frame_twice m \<longleftrightarrow> (\<forall>i. count m i \<le> 1)"

lemma free_orig_same:
  assumes "rf_id p = rf_id orig" "rf_id orig \<notin># pool_ids rp"
  shows "pool_ids (free_orig orig p rp) = add_mset (rf_id p) (pool_ids rp)"
    "rp_pending (free_orig orig p rp) = rp_pending rp"
proof -
  have "filter (\<lambda>g. rf_id g \<noteq> rf_id orig) (rp_free_queue rp) = rp_free_queue rp"
    using assms(2) by (simp add: filter_id_conv pool_ids_def frame_ids_def image_iff) metis
  then show "pool_ids (free_orig orig p rp) = add_mset (rf_id p) (pool_ids rp)"
    "rp_pending (free_orig orig p rp) = rp_pending rp"
    using assms(1) by (simp_all add: free_orig_def)
qed

lemma free_orig_again:
  assumes "rf_id p \<noteq> rf_id orig" "count (pool_ids rp) (rf_id orig) = 1"
  shows "pool_ids (free_orig orig p rp) = pool_ids rp"
proof -
  have 1: "frame_ids (filter (\<lambda>g. rf_id g \<noteq> i) q) = filter_mset (\<lambda>j. j \<noteq> i) (frame_ids q)" for i q
    by (induction q) auto
  have 2: "filter_mset (\<lambda>j. j \<noteq> i) m + replicate_mset (count m i) i = m" for i and m :: "nat multiset"
    by (auto simp: multiset_eq_iff)
  show ?thesis
    using assms 2 [of "rf_id orig" "pool_ids rp"]
    by (simp add: free_orig_def pool_ids_def rtw_free_recvframe_def 1)
qed

lemma pending_free_orig [simp]: "rp_pending (free_orig orig p rp) = rp_pending rp"
  by (simp add: free_orig_def)

lemma recvframe_defrag_last:
  assumes "recvframe_defrag rp (q @ [g]) = (Some p, rp')" "rf_id p \<noteq> rf_id g"
  shows "rf_id g \<in># pool_ids rp'"
proof -
  have "rf_id g \<in># pool_ids rp' + {#rf_id p#}"
    using recvframe_defrag_ids [OF assms(1)] by simp
  then show ?thesis using assms(2) by simp
qed

lemma chk_defrag_last:
  assumes "recvframe_chk_defrag ad f = Some (Some p, ad')" "rf_id p \<noteq> rf_id f"
  shows "rf_id f \<in># pool_ids (ad_recv ad')"
proof -
  obtain p0 ad1 where q: "chk_defrag_queue ad f = (Some p0, ad1)" "rf_id p0 = rf_id p" "ad_recv ad' = ad_recv ad1"
    using assms(1)
    by (auto simp: recvframe_chk_defrag_def Let_def dest!: recvframe_chkmic_id split: if_splits option.splits prod.splits)
  have pool: "ad_recv (set_defrag_q a r b) = ad_recv b" for a r b
    by (simp add: set_defrag_q_def sta_update_def)
  have last: "rf_id f \<in># pool_ids rp" if "recvframe_defrag (ad_recv ad) (l @ [g]) = (Some p0, rp)" "rf_id g = rf_id f"
    for l g rp
    using recvframe_defrag_last [OF that(1)] that(2) q(2) assms(2) by simp
  show ?thesis
    using q assms(2) last
    by (auto simp: chk_defrag_queue_def Let_def pool split: if_splits option.splits prod.splits)
qed

lemma recv_indicatepkt_reorder_refused:
  assumes "recv_indicatepkt_reorder ok ad f = Some (RX_FAIL, ad')"
  shows "rp_free_queue (ad_recv ad') = rp_free_queue (ad_recv ad)
    \<and> rp_free_cnt (ad_recv ad') = rp_free_cnt (ad_recv ad)"
  using assms
  by (auto simp: recv_indicatepkt_reorder_def set_ro_def sta_update_def recv_indicatepkt_reorder_ctrl_def
      Let_def split: option.splits if_splits prod.splits)

end
