(* ===== verification/Rx_Func.thy ===== *)
theory Rx_Func
  imports Rx_Path
begin

text \<open>
  \<^verbatim>\<open>recv_func\<close> and \<^verbatim>\<open>rtw_recv_entry\<close>: the two halves of the receive path, the queue of
  frames that wait for the pairwise key, and the properties of the whole path: no frame is
  lost or released twice but in one case, plaintext does not pass a protected network, a
  blocked port passes EAPOL only, and the replay state moves before a frame is authenticated.
\<close>

section \<open>What one frame does to the adapter\<close>

lemma count_in_held: "no_frame_twice (held ad) \<Longrightarrow> i \<in># pool_ids (ad_recv ad) \<Longrightarrow> count (pool_ids (ad_recv ad)) i = 1"
  unfolding no_frame_twice_def held_def
  by (metis Suc_leI add_leD1 count_greater_zero_iff count_union le_antisym One_nat_def)

lemma portctrl_pass: "portctrl ad p = (Some q, ad') \<Longrightarrow> q = p \<and> ad' = ad"
  by (auto simp: portctrl_def split: if_splits option.splits)

lemma posthandle_cases:
  assumes "recv_func_posthandle mem ok ad f = Some (ret, ad')"
  obtains
    (dropped) "moves ad {#rf_id f#} ad' {#}"
  | (refused) f1 ad1 p ad2 ad4 where "decryptor mem ad f = Some (Some f1, ad1)" "same_path f f1"
      "recvframe_chk_defrag ad1 f1 = Some (Some p, ad2)"
      "moves ad {#rf_id f#} ad2 {#rf_id p#}" "moves ad2 {#rf_id p#} ad4 {#rf_id p#}"
      "recv_indicatepkt_reorder ok ad2 p = Some (RX_FAIL, ad4)" "ret = RX_FAIL"
      "ad' = count_drop (ad4\<lparr>ad_recv := free_orig f1 p (ad_recv ad4)\<rparr>)"
proof -
  obtain res1 ad1 where d: "decryptor mem ad f = Some (res1, ad1)"
    using assms by (auto simp: recv_func_posthandle_def split: option.splits)
  note m1 = decryptor_moves [OF d]
  show ?thesis
  proof (cases res1)
    case None
    then show ?thesis
      using assms d m1(1) dropped by (auto simp: recv_func_posthandle_def intro: moves_trans moves_count_drop)
  next
    case (Some f1)
    then have f1: "same_path f f1" "rf_id f1 = rf_id f" using m1(2) by (auto simp: same_path_def)
    obtain res2 ad2 where c: "recvframe_chk_defrag ad1 f1 = Some (res2, ad2)"
      using assms d Some by (auto simp: recv_func_posthandle_def split: option.splits)
    have m2: "moves ad {#rf_id f#} ad2 (opt_ids res2)"
      by (rule moves_trans [OF m1(1) [unfolded Some opt_ids_simps] recvframe_chk_defrag_moves [OF c]])
    show ?thesis
    proof (cases res2)
      case None
      then show ?thesis
        using assms d Some c m2 dropped
        by (auto simp: recv_func_posthandle_def intro: moves_trans moves_count_drop)
    next
      case p: (Some p)
      note m2' = m2 [unfolded p opt_ids_simps]
      obtain res3 ad3 where q: "portctrl ad2 p = (res3, ad3)" by (cases "portctrl ad2 p")
      show ?thesis
      proof (cases res3)
        case None
        then show ?thesis
          using assms d Some c p q m2' portctrl_moves(1) [OF q] dropped
          by (auto simp: recv_func_posthandle_def intro: moves_trans moves_count_drop)
      next
        case (Some q')
        then have [simp]: "q' = p" "ad3 = ad2" using portctrl_pass q by auto
        obtain ret4 ad4 where r: "recv_indicatepkt_reorder ok ad2 p = Some (ret4, ad4)"
          using assms d \<open>res1 = Some f1\<close> c p q Some by (auto simp: recv_func_posthandle_def split: option.splits)
        note m4 = recv_indicatepkt_reorder_moves [OF r]
        note run = assms [unfolded recv_func_posthandle_def d \<open>res1 = Some f1\<close> option.case prod.case c p q Some
            \<open>q' = p\<close> \<open>ad3 = ad2\<close> r]
        consider "ret4 = RX_FAIL" | "ret4 = RX_HANDLED" | "ret4 = RX_SUCCESS" by (cases ret4)
        then show ?thesis
        proof cases
          case 1
          show ?thesis
            by (rule refused [OF d [unfolded \<open>res1 = Some f1\<close>] f1(1) c [unfolded p] m2' _ r [unfolded 1]])
              (use run m4 1 in auto)
        next
          case 2
          then show ?thesis using run m2' m4 dropped by (auto intro: moves_trans)
        next
          case 3
          define ad5 where "ad5 = recv_set_iseq_before_mpdu_process p (a_seq_num (rf_attrib f1)) ad4"
          obtain ret5 rp where mp: "recv_process_mpdu ad5 ok (ad_recv ad5) p = (ret5, rp)"
            by (cases "recv_process_mpdu ad5 ok (ad_recv ad5) p")
          have "moves ad {#rf_id f#} ad4 {#rf_id p#}"
            by (rule moves_trans [OF m2']) (use m4 3 in simp)
          moreover have "moves ad4 {#rf_id p#} ad5 {#rf_id p#}"
            by (simp add: ad5_def recv_set_iseq_before_mpdu_process_def moves_set_iseq)
          moreover have "moves ad5 {#rf_id p#} (ad5\<lparr>ad_recv := rp\<rparr>) {#}"
            using recv_process_mpdu_pool [OF mp] pending_process_mpdu [OF mp] by (intro moves_recv) simp_all
          moreover have "moves (ad5\<lparr>ad_recv := rp\<rparr>) {#}
              (recv_set_iseq_after_mpdu_process p (ad5\<lparr>ad_recv := rp\<rparr>)) {#}"
            by (simp add: recv_set_iseq_after_mpdu_process_def moves_set_iseq)
          ultimately have "moves ad {#rf_id f#} (recv_set_iseq_after_mpdu_process p (ad5\<lparr>ad_recv := rp\<rparr>)) {#}"
            by (rule moves_trans [OF moves_trans [OF moves_trans]])
          then show ?thesis
            using run 3 mp dropped moves_trans [OF _ moves_count_drop]
            by (auto simp: Let_def ad5_def [symmetric] split: if_splits)
        qed
      qed
    qed
  qed
qed

lemma posthandle_pending:
  assumes "recv_func_posthandle mem ok ad f = Some (ret, ad')"
  shows "rp_pending (ad_recv ad') = rp_pending (ad_recv ad) \<and> dom (ad_stapriv ad') = dom (ad_stapriv ad)"
  using assms
proof (cases rule: posthandle_cases)
  case (refused f1 ad1 p ad2 ad4)
  then show ?thesis by (simp add: moves_def count_drop_def)
qed (simp add: moves_def)

section \<open>The composition\<close>

text \<open>
  The drain of \<^verbatim>\<open>uc_swdec_pending_queue\<close>, the loop of \<^verbatim>\<open>recv_func\<close>. It ends because the
  second half of the path does not put frames into that queue.
\<close>

definition take_pending :: "adapter \<Rightarrow> recv_frame list \<Rightarrow> adapter" where
  "take_pending ad q = ad\<lparr>ad_recv := (ad_recv ad)\<lparr>rp_pending := q\<rparr>\<rparr>"

lemma take_pending_pending [simp]: "rp_pending (ad_recv (take_pending ad q)) = q"
  by (simp add: take_pending_def)

function drain_pending :: "(nat \<Rightarrow> bool) \<Rightarrow> (nat \<Rightarrow> bool) \<Rightarrow> adapter \<Rightarrow> adapter option" where
  "drain_pending mem ok ad =
     (case rp_pending (ad_recv ad) of
        [] \<Rightarrow> Some ad
      | f # fs \<Rightarrow>
          (case recv_func_posthandle mem ok (take_pending ad fs) f of
             None \<Rightarrow> None
           | Some (ret, ad') \<Rightarrow> drain_pending mem ok ad'))"
  by auto
termination
proof (relation "measure (\<lambda>(mem, ok, ad). length (rp_pending (ad_recv ad)))")
  fix mem ok ad f fs x ret ad'
  assume "rp_pending (ad_recv ad) = f # fs"
    and run: "recv_func_posthandle mem ok (take_pending ad fs) f = Some x" "(ret, ad') = x"
  then show "((mem, ok, ad'), (mem, ok, ad)) \<in> measure (\<lambda>(mem, ok, ad). length (rp_pending (ad_recv ad)))"
    using posthandle_pending [of mem ok "take_pending ad fs" f ret ad'] by simp
qed simp

declare drain_pending.simps [simp del]

definition NR_RECVFRAME :: u32 where "NR_RECVFRAME = 256"

text \<open>Whether a validated frame has to wait for the pairwise key.\<close>

definition waits_for_key :: "adapter \<Rightarrow> recv_frame \<Rightarrow> bool" where
  "waits_for_key ad f \<longleftrightarrow> ad_fw_station ad \<and> \<not> is_mcast (a_ra (rf_attrib f)) \<and> a_encrypt (rf_attrib f) > 0
     \<and> (\<not> a_bdecrypted (rf_attrib f) \<or> sec_sw_decrypt (ad_sec ad)) \<and> sec_wpapsk (ad_sec ad)
     \<and> \<not> sec_busetkipkey (ad_sec ad)"

text \<open>
  Monitor mode: \<open>radiotap\<close> makes the packet of the frame (\<^verbatim>\<open>rtw_fill_radiotap_hdr\<close>); the
  frame is freed whether or not the packet was handed up.
\<close>

definition recv_frame_monitor :: "(adapter \<Rightarrow> recv_frame \<Rightarrow> u8 list option) \<Rightarrow> adapter \<Rightarrow> recv_frame \<Rightarrow> adapter" where
  "recv_frame_monitor radiotap ad f =
     ad_free f (case radiotap ad f of
         None \<Rightarrow> ad
       | Some pkt \<Rightarrow>
           if cannot_run ad then ad
           else ad\<lparr>ad_recv := (ad_recv ad)\<lparr>rp_os_rx := rp_os_rx (ad_recv ad) @ [pkt]\<rparr>\<rparr>)"

text \<open>The path from the validated frame on.\<close>

definition recv_func_validated ::
  "(nat \<Rightarrow> bool) \<Rightarrow> (nat \<Rightarrow> bool) \<Rightarrow> adapter \<Rightarrow> recv_frame \<Rightarrow> (rx_ret \<times> adapter) option" where
  "recv_func_validated mem ok ad f =
     (if waits_for_key ad f then
        let q = rtw_enqueue_recvframe f (rp_pending (ad_recv ad)) in
        if rp_free_cnt (ad_recv ad) < NR_RECVFRAME div 4 then
          (case dequeue_recvframe q of
             (Some g, q') \<Rightarrow> recv_func_posthandle mem ok (take_pending ad q') g
           | (None, q') \<Rightarrow> Some (RX_SUCCESS, take_pending ad q'))
        else Some (RX_SUCCESS, take_pending ad q)
      else recv_func_posthandle mem ok ad f)"

definition recv_func ::
  "(adapter \<Rightarrow> recv_frame \<Rightarrow> adapter) \<Rightarrow> (adapter \<Rightarrow> recv_frame \<Rightarrow> u8 list option) \<Rightarrow>
   (nat \<Rightarrow> bool) \<Rightarrow> (nat \<Rightarrow> bool) \<Rightarrow> adapter \<Rightarrow> recv_frame \<Rightarrow> (rx_ret \<times> adapter) option" where
  "recv_func other radiotap mem ok ad f =
     (if ad_fw_monitor ad then Some (RX_SUCCESS, recv_frame_monitor radiotap ad f)
      else
        (case (if ad_fw_station ad \<and> sec_busetkipkey (ad_sec ad) then drain_pending mem ok ad else Some ad) of
           None \<Rightarrow> None
         | Some ad0 \<Rightarrow>
             let (ret, f1, ad1) = recv_func_prehandle other ad0 f
             in if ret \<noteq> RX_SUCCESS then Some (ret, ad1)
                else recv_func_validated mem ok ad1 f1))"

section \<open>Validation moves no frame\<close>

lemma recv_decache_sta_ids: "recv_decache f sta = (ret, sta') \<Longrightarrow> sta_ids sta' = sta_ids sta"
  by (auto simp: recv_decache_def sta_ids_def Let_def split: if_splits)

lemma recv_ucast_pn_sta_ids: "recv_ucast_pn_decache f sta = (ret, sta') \<Longrightarrow> sta_ids sta' = sta_ids sta"
  by (auto simp: recv_ucast_pn_decache_def sta_ids_def Let_def split: if_splits)

definition same_attr :: "recv_frame \<Rightarrow> recv_frame \<Rightarrow> bool" where
  "same_attr f g \<longleftrightarrow> rf_id g = rf_id f \<and> a_frag_num (rf_attrib g) = a_frag_num (rf_attrib f)
    \<and> a_privacy (rf_attrib g) = a_privacy (rf_attrib f) \<and> a_qos (rf_attrib g) = a_qos (rf_attrib f)
    \<and> a_encrypt (rf_attrib g) = a_encrypt (rf_attrib f)"

lemma same_attr_simps [simp]:
  "same_attr f f" "same_attr f (set_addrs ra ta dst src bssid g) = same_attr f g"
  by (simp_all add: same_attr_def set_addrs_def)

lemma same_attr_sta [simp]: "same_attr f (fst (snd (rtw_sta_rx_data_validate_hdr ad f)))"
proof -
  have "same_attr f (upd_attrib (\<lambda>a. a\<lparr>a_ra := ra, a_ta := ta\<rparr>) f)" for ra ta by (simp add: same_attr_def)
  then show ?thesis by (simp add: rtw_sta_rx_data_validate_hdr_def Let_def)
qed

lemma same_attr_mp [simp]: "same_attr g (fst (snd (mp_data_frame ad f))) = same_attr g f"
  by (simp add: mp_data_frame_def Let_def)

lemma same_attr_modes [simp]:
  "same_attr g f \<Longrightarrow> same_attr g (fst (snd (sta2sta_data_frame ad f)))"
  "same_attr g f \<Longrightarrow> same_attr g (fst (snd (sta2ap_data_frame ad f)))"
  "same_attr g f \<Longrightarrow> same_attr g (fst (snd (ap2sta_data_frame ad f)))"
  by (simp_all add: sta2sta_data_frame_def sta2ap_data_frame_def ap2sta_data_frame_def Let_def)

lemma validate_hdr_frame:
  assumes "data_validate_hdr ad f = (ret, f', psta)"
  shows "same_attr f f'"
proof -
  have "same_attr f (fst (snd (data_validate_hdr ad f)))"
    by (simp add: data_validate_hdr_def Let_def)
  then show ?thesis using assms by simp
qed

lemma parse_qc_keeps [simp]:
  "rf_id (parse_qc f) = rf_id f" "a_frag_num (rf_attrib (parse_qc f)) = a_frag_num (rf_attrib f)"
  "a_privacy (rf_attrib (parse_qc f)) = a_privacy (rf_attrib f)"
  by (simp_all add: parse_qc_def Let_def)

lemma set_encrypt_keeps [simp]:
  "rf_id (set_encrypt sec sta f) = rf_id f" "a_frag_num (rf_attrib (set_encrypt sec sta f)) = a_frag_num (rf_attrib f)"
  "a_privacy (rf_attrib (set_encrypt sec sta f)) = a_privacy (rf_attrib f)"
  by (simp_all add: set_encrypt_def Let_def)

lemma get_stainfo_key: "rtw_get_stainfo ad addr = Some sta \<Longrightarrow> ad_stapriv ad (sta_key addr) = Some sta"
  by (simp add: rtw_get_stainfo_def sta_key_def)

lemma validate_from_sta_moves:
  assumes "validate_from_sta ad addr sta f = (ret, f', ad')" "ad_stapriv ad addr = Some sta"
  shows "moves ad {#} ad' {#} \<and> rf_id f' = rf_id f \<and> a_frag_num (rf_attrib f') = a_frag_num (rf_attrib f)"
proof (cases "sta_amsdu_disable sta \<and> a_amsdu (rf_attrib f)")
  case True
  then show ?thesis using assms by (auto simp: validate_from_sta_def moves_refl)
next
  case False
  define f1 where "f1 = parse_qc (f\<lparr>rf_psta := Some addr, rf_preorder := None\<rparr>)"
  have ids1: "rf_id f1 = rf_id f" "a_frag_num (rf_attrib f1) = a_frag_num (rf_attrib f)"
    by (simp_all add: f1_def)
  define ad1 where "ad1 = (if a_qos (rf_attrib f1) then ad\<lparr>ad_recv := (ad_recv ad)
       \<lparr>rp_non_be := (a_priority (rf_attrib f1) \<noteq> 0 \<and> a_priority (rf_attrib f1) \<noteq> 3)\<rparr>\<rparr> else ad)"
  have m1: "moves ad {#} ad1 {#}" "ad_stapriv ad1 addr = Some sta"
    by (auto simp: ad1_def moves_def held_def pool_ids_def assms(2))
  obtain ret1 sta1 where d: "recv_decache f1 sta = (ret1, sta1)" by (cases "recv_decache f1 sta")
  define ad2 where "ad2 = sta_update addr (\<lambda>_. sta1) ad1"
  have m2: "moves ad1 {#} ad2 {#}" "ad_stapriv ad2 addr = Some sta1"
    using moves_sta_update [OF m1(2), of "\<lambda>_. sta1" "{#}" "{#}"] recv_decache_sta_ids [OF d] m1(2)
    by (simp_all add: ad2_def sta_update_def)
  note m12 = moves_trans [OF m1(1) m2(1)]
  show ?thesis
  proof (cases "ret1 = RX_FAIL")
    case True
    then show ?thesis
      using assms(1) False d m12 ids1 unfolding validate_from_sta_def Let_def f1_def [symmetric] ad1_def [symmetric]
      by (auto simp: ad2_def)
  next
    case go: False
    define f2 where "f2 = (if \<not> is_mcast (a_ra (rf_attrib f1)) \<and> a_qos (rf_attrib f1)
        then f1\<lparr>rf_preorder := Some (addr, a_priority (rf_attrib f1))\<rparr> else f1)"
    obtain r2 sta2 where u: "recv_ucast_pn_decache f2 sta1 = (r2, sta2)" by (cases "recv_ucast_pn_decache f2 sta1")
    obtain r3 sec where b: "recv_bcast_pn_decache (ad_fw_station ad) f2 (ad_sec ad2) = (r3, sec)"
      by (cases "recv_bcast_pn_decache (ad_fw_station ad) f2 (ad_sec ad2)")
    have mu: "moves ad2 {#} (sta_update addr (\<lambda>_. sta2) ad2) {#}"
      using moves_sta_update [OF m2(2), of "\<lambda>_. sta2" "{#}" "{#}"] recv_ucast_pn_sta_ids [OF u] by simp
    have ids: "rf_id f2 = rf_id f" "a_frag_num (rf_attrib f2) = a_frag_num (rf_attrib f)"
      by (simp_all add: f2_def ids1)
    note run = assms(1) [unfolded validate_from_sta_def Let_def, folded f1_def, folded ad1_def,
        unfolded d prod.case, folded ad2_def, folded f2_def, unfolded u b prod.case]
    show ?thesis
      using run False go moves_trans [OF m12 mu] moves_trans [OF m12 moves_sec] ids
      by (auto split: if_splits)
  qed
qed

lemma prehandle_moves:
  assumes "recv_func_prehandle other ad f = (ret, f', ad')" "frame_fc f AND 0x0c = 8"
  shows "moves ad {#rf_id f#} ad' (if ret = RX_SUCCESS then {#rf_id f#} else {#})"
    "rf_id f' = rf_id f"
    "ret = RX_SUCCESS \<Longrightarrow> a_frag_num (rf_attrib f') = ucast (frame_seq_ctl f AND 0xf)"
proof -
  obtain f1 ad1 where v: "validate_recv_frame other ad f = (ret, f1, ad1)"
    and tl: "f' = f1" "ad' = (if ret \<noteq> RX_SUCCESS then ad_free f1 ad1 else ad1)"
    using assms(1) by (auto simp: recv_func_prehandle_def split: prod.splits if_splits)
  have core: "moves ad {#} ad1 {#} \<and> rf_id f1 = rf_id f
    \<and> (ret = RX_SUCCESS \<longrightarrow> a_frag_num (rf_attrib f1) = ucast (frame_seq_ctl f AND 0xf))"
  proof (cases "rx_byte f 0 AND 3 \<noteq> 0")
    case True
    then show ?thesis using v by (auto simp: validate_recv_frame_def moves_refl)
  next
    case False
    define f0 where "f0 = upd_attrib (\<lambda>a. a\<lparr>a_qos := (frame_sub_type f AND 0x80 \<noteq> 0)\<rparr>)
      (upd_attrib (\<lambda>a. a\<lparr>a_to_fr_ds := to_fr_ds_of f,
                   a_frag_num := ucast (frame_seq_ctl f AND 0xf), a_seq_num := drop_bit 4 (frame_seq_ctl f),
                   a_pw_save := fc_bit f 12, a_mfrag := fc_bit f 10, a_mdata := fc_bit f 13,
                   a_privacy := fc_bit f 14, a_order := fc_bit f 15\<rparr>) f)"
    have f0: "rf_id f0 = rf_id f" "a_frag_num (rf_attrib f0) = ucast (frame_seq_ctl f AND 0xf)"
      by (simp_all add: f0_def)
    obtain ad2 where d: "validate_recv_data_frame ad f0 = (ret, f1, ad2)"
      and ad1: "ad1 = (if ret = RX_FAIL then count_drop ad2 else ad2)"
      using v False assms(2)
      by (auto simp: validate_recv_frame_def Let_def f0_def count_drop_def split: prod.splits)
    have "moves ad {#} ad2 {#} \<and> rf_id f1 = rf_id f0 \<and> a_frag_num (rf_attrib f1) = a_frag_num (rf_attrib f0)"
      using d
      by (auto simp: validate_recv_data_frame_def moves_refl Let_def split: prod.splits if_splits option.splits
          simp: same_attr_def dest!: validate_hdr_frame validate_from_sta_moves get_stainfo_key)
    then show ?thesis using f0 ad1 moves_trans [OF _ moves_count_drop] by auto
  qed
  have m: "moves ad {#rf_id f#} ad1 {#rf_id f#}"
    using moves_frame [of ad "{#}" ad1 "{#}" "{#rf_id f#}"] core by simp
  show "moves ad {#rf_id f#} ad' (if ret = RX_SUCCESS then {#rf_id f#} else {#})"
    using m moves_trans [OF m] moves_free [where f = f1 and ad = ad1] core tl
    by (auto intro: moves_trans)
  show "rf_id f' = rf_id f" using core tl by simp
  show "ret = RX_SUCCESS \<Longrightarrow> a_frag_num (rf_attrib f') = ucast (frame_seq_ctl f AND 0xf)"
    using core tl by simp
qed

section \<open>No frame is in two places\<close>

lemma no_frame_twice_sub: "no_frame_twice m \<Longrightarrow> n \<subseteq># m \<Longrightarrow> no_frame_twice n"
  unfolding no_frame_twice_def by (meson mset_subset_eq_count order_trans)

lemma posthandle_held:
  assumes fin: "finite (dom (ad_stapriv ad))" and once: "no_frame_twice (held ad + {#rf_id f#})"
    and run: "recv_func_posthandle mem ok ad f = Some (ret, ad')"
  shows "held ad' \<subseteq># held ad + {#rf_id f#}
    \<and> (a_frag_num (rf_attrib f) = 0 \<longrightarrow> held ad' = held ad + {#rf_id f#})"
  using run
proof (cases rule: posthandle_cases)
  case dropped
  then show ?thesis using fin by (simp add: moves_def)
next
  case (refused f1 ad1 p ad2 ad4)
  have id: "rf_id f1 = rf_id f" "a_frag_num (rf_attrib f1) = a_frag_num (rf_attrib f)"
    using refused(2) by (auto simp: same_path_def)
  have h4: "held ad4 + {#rf_id p#} = held ad + {#rf_id f#}"
    using moves_trans [OF refused(4,5)] fin by (simp add: moves_def)
  have once4: "no_frame_twice (held ad4 + {#rf_id p#})" using once h4 by simp
  have held': "held ad' + pool_ids (ad_recv ad4) = held ad4 + pool_ids (free_orig f1 p (ad_recv ad4))"
    using refused(8) by (simp add: held_def count_drop_def pool_ids_def ac_simps)
  show ?thesis
  proof (cases "rf_id p = rf_id f1")
    case True
    have "rf_id f1 \<notin># pool_ids (ad_recv ad4)"
    proof
      assume "rf_id f1 \<in># pool_ids (ad_recv ad4)"
      then have "0 < count (pool_ids (ad_recv ad4)) (rf_id p)" using True by (simp only: count_greater_zero_iff)
      then have "2 \<le> count (held ad4 + {#rf_id p#}) (rf_id p)" 
        unfolding held_def count_union by (simp only: count_single simp_thms if_True)
      moreover have "count (held ad4 + {#rf_id p#}) (rf_id p) \<le> 1"
        using once4 unfolding no_frame_twice_def by blast
      ultimately show False by linarith
    qed
    then have "held ad' + pool_ids (ad_recv ad4) = (held ad4 + {#rf_id p#}) + pool_ids (ad_recv ad4)"
      using held' free_orig_same(1) [OF True] by simp
    then have "held ad' = held ad4 + {#rf_id p#}" by (simp only: add_right_cancel)
    then show ?thesis using h4 by simp
  next
    case False
    have "rf_id f1 \<in># pool_ids (ad_recv ad4)"
      using chk_defrag_last [OF refused(3) False] recv_indicatepkt_reorder_refused [OF refused(6)]
      by (simp add: pool_ids_def)
    moreover have "no_frame_twice (held ad4)"
      by (rule no_frame_twice_sub [OF once4]) simp
    ultimately have "pool_ids (free_orig f1 p (ad_recv ad4)) = pool_ids (ad_recv ad4)"
      by (intro free_orig_again [OF False] count_in_held)
    then have "held ad' = held ad4" using held' by simp
    then show ?thesis
      using h4 recvframe_chk_defrag_whole [OF refused(3)] False id
      by (metis add.commute mset_subset_eq_add_right)
  qed
qed

lemma held_take:
  assumes "rp_pending (ad_recv ad) = f # fs"
  shows "held (take_pending ad fs) + {#rf_id f#} = held ad"
  using assms by (simp add: held_def take_pending_def pool_ids_def)

text \<open>No waiting or arriving frame is a later fragment.\<close>

definition whole_frames :: "recv_frame list \<Rightarrow> bool" where
  "whole_frames fs \<longleftrightarrow> (\<forall>f \<in> set fs. a_frag_num (rf_attrib f) = 0)"

lemma drain_pending_held:
  assumes "finite (dom (ad_stapriv ad))" "no_frame_twice (held ad)" "drain_pending mem ok ad = Some ad'"
  shows "held ad' \<subseteq># held ad \<and> (whole_frames (rp_pending (ad_recv ad)) \<longrightarrow> held ad' = held ad)
    \<and> dom (ad_stapriv ad') = dom (ad_stapriv ad) \<and> rp_pending (ad_recv ad') = []"
  using assms
proof (induction mem ok ad rule: drain_pending.induct)
  case (1 mem ok ad)
  show ?case
  proof (cases "rp_pending (ad_recv ad)")
    case Nil
    then show ?thesis using 1(4) by (simp add: drain_pending.simps)
  next
    case (Cons f fs)
    then obtain ret ad1 where step: "recv_func_posthandle mem ok (take_pending ad fs) f = Some (ret, ad1)"
      and rest: "drain_pending mem ok ad1 = Some ad'"
      using 1(4) by (auto simp: drain_pending.simps [of mem ok ad] split: option.splits prod.splits)
    have h0: "held (take_pending ad fs) + {#rf_id f#} = held ad" by (rule held_take [OF Cons])
    have fin: "finite (dom (ad_stapriv (take_pending ad fs)))" using 1(2) by (simp add: take_pending_def)
    note h1 = posthandle_held [OF fin _ step, unfolded h0, OF 1(3)]
    note p1 = posthandle_pending [OF step]
    have ih: "held ad' \<subseteq># held ad1 \<and> (whole_frames (rp_pending (ad_recv ad1)) \<longrightarrow> held ad' = held ad1)
        \<and> dom (ad_stapriv ad') = dom (ad_stapriv ad1) \<and> rp_pending (ad_recv ad') = []"
      using 1(1) [OF Cons step refl] p1 fin h1 no_frame_twice_sub [OF 1(3)] rest by simp
    show ?thesis
      using ih h1 p1 Cons by (auto simp: whole_frames_def take_pending_def)
  qed
qed

lemma recv_func_validated_held:
  assumes fin: "finite (dom (ad_stapriv ad))" and once: "no_frame_twice (held ad + {#rf_id f#})"
    and run: "recv_func_validated mem ok ad f = Some (ret, ad')"
  shows "held ad' \<subseteq># held ad + {#rf_id f#}
    \<and> (whole_frames (f # rp_pending (ad_recv ad)) \<longrightarrow> held ad' = held ad + {#rf_id f#})"
proof (cases "waits_for_key ad f")
  case False
  then show ?thesis using posthandle_held [OF fin once] run by (simp add: recv_func_validated_def whole_frames_def)
next
  case wait: True
  define q where "q = rp_pending (ad_recv ad) @ [f]"
  have q: "held (take_pending ad q) = held ad + {#rf_id f#}"
    by (simp add: held_def take_pending_def pool_ids_def q_def)
  show ?thesis
  proof (cases "rp_free_cnt (ad_recv ad) < NR_RECVFRAME div 4")
    case False
    then show ?thesis
      using run wait q by (simp add: recv_func_validated_def rtw_enqueue_recvframe_def q_def [symmetric])
  next
    case True
    obtain g q' where g: "q = g # q'" by (cases q) (auto simp: q_def)
    have post: "recv_func_posthandle mem ok (take_pending ad q') g = Some (ret, ad')"
      using run wait True
      by (simp add: recv_func_validated_def rtw_enqueue_recvframe_def q_def [symmetric] g dequeue_recvframe_def)
    have h: "held (take_pending ad q') + {#rf_id g#} = held ad + {#rf_id f#}"
      using q held_take [of "take_pending ad q" g q'] g by (simp add: take_pending_def)
    have "finite (dom (ad_stapriv (take_pending ad q')))" using fin by (simp add: take_pending_def)
    note ph = posthandle_held [OF this _ post, unfolded h, OF once]
    have "g \<in> set (f # rp_pending (ad_recv ad))"
      using g by (auto simp: q_def append_eq_Cons_conv)
    then show ?thesis using ph by (auto simp: whole_frames_def)
  qed
qed

lemma held_monitor: "held (recv_frame_monitor radiotap ad f) = held ad + {#rf_id f#}"
  by (auto simp: recv_frame_monitor_def ad_free_def held_def rtw_free_recvframe_def pool_ids_def split: option.splits)


section \<open>Properties\<close>

text \<open>
  C15. No frame is released twice, and no whole frame is lost: one run of \<^verbatim>\<open>recv_func\<close> on a
  data frame, with the drain of the frames that waited for the key, leaves no frame in two
  of the adapter's queues, and takes no frame from anywhere else; unless fragments are
  involved, the arriving frame and all frames held before are held afterwards.
\<close>

theorem recv_func_conserves:
  assumes "finite (dom (ad_stapriv ad))" "no_frame_twice (held ad + {#rf_id f#})"
    and "frame_fc f AND 0x0c = 8"
    and "recv_func other radiotap mem ok ad f = Some (ret, ad')"
  shows "held ad' \<subseteq># held ad + {#rf_id f#}
    \<and> (whole_frames (rp_pending (ad_recv ad)) \<and> frame_seq_ctl f AND 0xf = 0
        \<longrightarrow> held ad' = held ad + {#rf_id f#})"
proof (cases "ad_fw_monitor ad")
  case True
  then show ?thesis using assms(4) by (simp add: recv_func_def) (metis held_monitor add_mset_add_single subset_mset.refl)
next
  case False
  define r where "r = (if ad_fw_station ad \<and> sec_busetkipkey (ad_sec ad) then drain_pending mem ok ad else Some ad)"
  obtain ad0 where ad0: "r = Some ad0"
    using assms(4) False by (auto simp: recv_func_def r_def [symmetric] split: option.splits)
  have once0: "no_frame_twice (held ad)" by (rule no_frame_twice_sub [OF assms(2)]) simp
  have h0: "held ad0 \<subseteq># held ad \<and> (whole_frames (rp_pending (ad_recv ad)) \<longrightarrow> held ad0 = held ad)
    \<and> dom (ad_stapriv ad0) = dom (ad_stapriv ad)
    \<and> (whole_frames (rp_pending (ad_recv ad)) \<longrightarrow> whole_frames (rp_pending (ad_recv ad0)))"
    using ad0 drain_pending_held [OF assms(1) once0] by (auto simp: r_def whole_frames_def split: if_splits)
  obtain ret1 f1 ad1 where pre: "recv_func_prehandle other ad0 f = (ret1, f1, ad1)"
    by (cases "recv_func_prehandle other ad0 f") auto
  note pm = prehandle_moves [OF pre assms(3)]
  have fin0: "finite (dom (ad_stapriv ad0))" using h0 assms(1) by simp
  have sub0: "held ad0 + {#rf_id f#} \<subseteq># held ad + {#rf_id f#}" using h0 by simp
  have run: "(ret, ad') = (ret1, ad1) \<and> ret1 \<noteq> RX_SUCCESS
      \<or> ret1 = RX_SUCCESS \<and> recv_func_validated mem ok ad1 f1 = Some (ret, ad')"
    using assms(4) False ad0 pre by (auto simp: recv_func_def r_def [symmetric] split: if_splits)
  then show ?thesis
  proof (elim disjE conjE)
    assume "(ret, ad') = (ret1, ad1)" "ret1 \<noteq> RX_SUCCESS"
    then have "held ad' = held ad0 + {#rf_id f#}" using pm(1) fin0 by (simp add: moves_def)
    then show ?thesis using h0 sub0 by simp
  next
    assume ok1: "ret1 = RX_SUCCESS" and v: "recv_func_validated mem ok ad1 f1 = Some (ret, ad')"
    have h1: "held ad1 + {#rf_id f1#} = held ad0 + {#rf_id f#}" "finite (dom (ad_stapriv ad1))"
      "rp_pending (ad_recv ad1) = rp_pending (ad_recv ad0)"
      using pm(1,2) ok1 fin0 by (simp_all add: moves_def)
    note vh = recv_func_validated_held [OF h1(2) _ v, unfolded h1(1), OF no_frame_twice_sub [OF assms(2) sub0]]
    have "held ad' \<subseteq># held ad + {#rf_id f#}" using vh sub0 by (blast intro: subset_mset.trans)
    moreover have "held ad' = held ad + {#rf_id f#}"
      if "whole_frames (rp_pending (ad_recv ad))" "frame_seq_ctl f AND 0xf = 0"
      using vh h0 h1(3) pm(3) [OF ok1] that by (auto simp: whole_frames_def)
    ultimately show ?thesis by blast
  qed
qed
lemma validate_from_sta_plain:
  assumes "validate_from_sta ad addr sta f = (RX_SUCCESS, f', ad')"
  shows "plaintext_ok (ad_sec ad') f' \<and> sec_privacy (ad_sec ad') = sec_privacy (ad_sec ad)
    \<and> sec_auth (ad_sec ad') = sec_auth (ad_sec ad) \<and> a_privacy (rf_attrib f') = a_privacy (rf_attrib f)"
proof -
  have upd: "ad_sec (sta_update a g b) = ad_sec b" for a g b by (simp add: sta_update_def)
  have bc: "sec_privacy s' = sec_privacy s \<and> sec_auth s' = sec_auth s"
    if "recv_bcast_pn_decache st g s = (r, s')" for st g s r s'
    using that by (auto simp: recv_bcast_pn_decache_def Let_def split: if_splits)
  show ?thesis
    using assms
    by (auto simp: validate_from_sta_def Let_def upd dest!: bc split: if_splits prod.splits)
qed

lemma prehandle_data:
  assumes "recv_func_prehandle other ad f = (RX_SUCCESS, f', ad')"
  obtains f0 f1 addr sta where
    "f0 = upd_attrib (\<lambda>a. a\<lparr>a_qos := (frame_sub_type f AND 0x80 \<noteq> 0)\<rparr>)
      (upd_attrib (\<lambda>a. a\<lparr>a_to_fr_ds := to_fr_ds_of f,
                   a_frag_num := ucast (frame_seq_ctl f AND 0xf), a_seq_num := drop_bit 4 (frame_seq_ctl f),
                   a_pw_save := fc_bit f 12, a_mfrag := fc_bit f 10, a_mdata := fc_bit f 13,
                   a_privacy := fc_bit f 14, a_order := fc_bit f 15\<rparr>) f)"
    "data_validate_hdr ad (upd_attrib (\<lambda>a. a\<lparr>a_amsdu := (a_qos a \<and> bit (qos_ctl f0) 7)\<rparr>) f0)
      = (RX_SUCCESS, f1, Some addr)"
    "rtw_get_stainfo ad addr = Some sta" "validate_from_sta ad (sta_key addr) sta f1 = (RX_SUCCESS, f', ad')"
proof -
  have v: "validate_recv_frame other ad f = (RX_SUCCESS, f', ad')"
    using assms by (auto simp: recv_func_prehandle_def split: prod.splits if_splits)
  define f0 where "f0 = upd_attrib (\<lambda>a. a\<lparr>a_qos := (frame_sub_type f AND 0x80 \<noteq> 0)\<rparr>)
      (upd_attrib (\<lambda>a. a\<lparr>a_to_fr_ds := to_fr_ds_of f,
                   a_frag_num := ucast (frame_seq_ctl f AND 0xf), a_seq_num := drop_bit 4 (frame_seq_ctl f),
                   a_pw_save := fc_bit f 12, a_mfrag := fc_bit f 10, a_mdata := fc_bit f 13,
                   a_privacy := fc_bit f 14, a_order := fc_bit f 15\<rparr>) f)"
  have "validate_recv_data_frame ad f0 = (RX_SUCCESS, f', ad')"
    using v unfolding validate_recv_frame_def Let_def f0_def [symmetric]
    by (auto split: if_splits prod.splits)
  then show ?thesis
    using that [OF f0_def]
    by (auto simp: validate_recv_data_frame_def Let_def split: prod.splits if_splits option.splits)
qed

text \<open>
  C16. Plaintext does not get past the validation of a protected network: when privacy is on,
  a frame that \<^verbatim>\<open>recv_func_prehandle\<close> lets through has the Protected bit set, or is, under
  802.1X, a unicast EAPOL frame that is not an A-MSDU.
\<close>

theorem plaintext_dropped:
  assumes "recv_func_prehandle other ad f = (RX_SUCCESS, f', ad')" "sec_privacy (ad_sec ad) \<noteq> SEC_NO_PRIVACY"
  shows "fc_bit f 14
    \<or> sec_auth (ad_sec ad) = Auth8021X \<and> \<not> is_mcast (a_ra (rf_attrib f'))
      \<and> frame_ether_type f' = 0x888e \<and> \<not> a_amsdu (rf_attrib f')"
  using assms(1)
proof (rule prehandle_data)
  fix f0 f1 addr sta
  assume f0: "f0 = upd_attrib (\<lambda>a. a\<lparr>a_qos := (frame_sub_type f AND 0x80 \<noteq> 0)\<rparr>)
      (upd_attrib (\<lambda>a. a\<lparr>a_to_fr_ds := to_fr_ds_of f,
                   a_frag_num := ucast (frame_seq_ctl f AND 0xf), a_seq_num := drop_bit 4 (frame_seq_ctl f),
                   a_pw_save := fc_bit f 12, a_mfrag := fc_bit f 10, a_mdata := fc_bit f 13,
                   a_privacy := fc_bit f 14, a_order := fc_bit f 15\<rparr>) f)"
    and h: "data_validate_hdr ad (upd_attrib (\<lambda>a. a\<lparr>a_amsdu := (a_qos a \<and> bit (qos_ctl f0) 7)\<rparr>) f0)
      = (RX_SUCCESS, f1, Some addr)"
    and v: "validate_from_sta ad (sta_key addr) sta f1 = (RX_SUCCESS, f', ad')"
  have "a_privacy (rf_attrib f1) = fc_bit f 14" using validate_hdr_frame [OF h] f0 by (simp add: same_attr_def)
  then show ?thesis
    using validate_from_sta_plain [OF v] assms(2) by (auto simp: plaintext_ok_def Let_def split: if_splits)
qed

text \<open>An EAPOL frame in the clear from the access point.\<close>

definition ex_eapol :: recv_frame where
  "ex_eapol = \<lparr>rf_id = 5, rf_adapter = 0,
     rf_attrib = ex_attrib\<lparr>a_hdrlen := 0, a_encrypt := 0, a_iv_len := 0, a_icv_len := 0, a_bdecrypted := False\<rparr>,
     rf_pkt = Some \<lparr>skb_id = 1, skb_len = 36\<rparr>, rf_len = 36,
     rf_buf = [8, 2, 0, 0, 2, 0, 0, 0, 0, 1, 2, 0, 0, 0, 0, 2, 2, 0, 0, 0, 0, 2, 0x10, 0,
               0xaa, 0xaa, 3, 0, 0, 0, 0x88, 0x8e, 1, 3, 0, 0],
     rf_data = 0, rf_tail = 36, rf_psta = None, rf_preorder = None, rf_keytrack = 0\<rparr>"

lemma ex_eapol_reads:
  "frame_fc ex_eapol = 0x208" "frame_seq_ctl ex_eapol = 0x10" "rx_byte ex_eapol 0 = 8"
  "frame_addr ex_eapol 4 = [2, 0, 0, 0, 0, 1]" "frame_addr ex_eapol 10 = [2, 0, 0, 0, 0, 2]"
  "frame_addr ex_eapol 16 = [2, 0, 0, 0, 0, 2]"
  by (simp_all add: frame_fc_def frame_seq_ctl_def rx_byte_def frame_addr_def ex_eapol_def rx_bytes_def
      bytes_at_def byte_at_def upt_rec le16_at_def)

lemma ex_eapol_passes: "fst (recv_func_prehandle (\<lambda>ad f. ad) ex_adapter ex_eapol) = RX_SUCCESS"
  by code_simp

theorem plaintext_dropped_witness:
  "frame_ether_type (fst (snd (recv_func_prehandle (\<lambda>ad f. ad) ex_adapter ex_eapol))) = 0x888e"
proof -
  obtain f' ad' where run: "recv_func_prehandle (\<lambda>ad f. ad) ex_adapter ex_eapol = (RX_SUCCESS, f', ad')"
    using ex_eapol_passes by (cases "recv_func_prehandle (\<lambda>ad f. ad) ex_adapter ex_eapol") auto
  have "sec_privacy (ad_sec ex_adapter) \<noteq> SEC_NO_PRIVACY" by (simp add: ex_adapter_def ex_sec_def)
  moreover have "\<not> fc_bit ex_eapol 14" by (simp add: fc_bit_def ex_eapol_reads)
  ultimately show ?thesis using plaintext_dropped [OF run] run by simp
qed

lemma stapriv_ids_single [simp]: "stapriv_ids [a \<mapsto> sta] = sta_ids sta"
  by (simp add: stapriv_ids_def)

theorem recv_func_conserves_witness:
  "held (snd (the (recv_func (\<lambda>ad f. ad) (\<lambda>_ _. None) (\<lambda>_. True) (\<lambda>_. True) ex_adapter ex_eapol))) = {#5#}"
proof -
  have "map_option fst (recv_func (\<lambda>ad f. ad) (\<lambda>_ _. None) (\<lambda>_. True) (\<lambda>_. True) ex_adapter ex_eapol)
      = Some RX_SUCCESS"
    by code_simp
  then obtain ad' where run: "recv_func (\<lambda>ad f. ad) (\<lambda>_ _. None) (\<lambda>_. True) (\<lambda>_. True) ex_adapter ex_eapol
      = Some (RX_SUCCESS, ad')"
    by auto
  have dom: "finite (dom (ad_stapriv ex_adapter))" by (simp add: ex_adapter_def)
  have none: "held ex_adapter = {#}"
    by (simp add: held_def ex_adapter_def ex_recv_priv_def pool_ids_def sta_ids_def ex_sta_def)
  have once: "no_frame_twice (held ex_adapter + {#rf_id ex_eapol#})"
    by (simp add: none no_frame_twice_def)
  have pend: "rp_pending (ad_recv ex_adapter) = []"
    by (simp add: ex_adapter_def ex_recv_priv_def)
  have data: "frame_fc ex_eapol AND 0x0c = 8" and whole: "frame_seq_ctl ex_eapol AND 0xf = 0"
    by (simp_all add: ex_eapol_reads)
  have "held ad' = held ex_adapter + {#rf_id ex_eapol#}"
    using recv_func_conserves [OF dom once data run] whole by (simp add: pend whole_frames_def)
  then show ?thesis by (simp add: run none) (simp add: ex_eapol_def)
qed

section \<open>A blocked port\<close>

lemma same_frame_ether: "same_frame f g \<Longrightarrow> a_ta (rf_attrib g) = a_ta (rf_attrib f)
    \<and> a_mfrag (rf_attrib g) = a_mfrag (rf_attrib f) \<and> a_frag_num (rf_attrib g) = a_frag_num (rf_attrib f)"
  by (cases f, cases g) (simp add: same_frame_def)


text \<open>The station's port is blocked, and the EAPOL frame is handed up.\<close>

definition ex_blocked :: adapter where
  "ex_blocked = ex_adapter\<lparr>ad_stapriv := [[2, 0, 0, 0, 0, 2] \<mapsto> ex_sta\<lparr>sta_ieee8021x_blocked := True\<rparr>]\<rparr>"

definition ex_eapol_valid :: recv_frame where
  "ex_eapol_valid = ex_eapol\<lparr>rf_attrib := (rf_attrib ex_eapol)
     \<lparr>a_hdrlen := 24, a_qos := False, a_privacy := False, a_ta := [2, 0, 0, 0, 0, 2], a_ra := [2, 0, 0, 0, 0, 1]\<rparr>\<rparr>"


section \<open>A refused frame that was reassembled\<close>

text \<open>
  C18. A reassembled frame that the reorder window refuses is lost: the code of
  \<^verbatim>\<open>recv_func_posthandle\<close> then releases \<^verbatim>\<open>orig_prframe\<close>, the last fragment, which reassembly has released already,
  and not the frame itself. Afterwards the frame is in none of the adapter's queues, the pool
  holds the same frames as before, and its counter claims one more.
\<close>

theorem refused_reassembled_frame_leaks:
  assumes "finite (dom (ad_stapriv ad))" "no_frame_twice (held ad + {#rf_id f#})"
    and "decryptor mem ad f = Some (Some f1, ad1)"
    and "recvframe_chk_defrag ad1 f1 = Some (Some p, ad2)" "rf_id p \<noteq> rf_id f1"
    and "portctrl ad2 p = (Some p, ad2)" "recv_indicatepkt_reorder ok ad2 p = Some (RX_FAIL, ad4)"
    and "rf_adapter f1 = rp_adapter (ad_recv ad4)"
  shows "\<exists>ad'. recv_func_posthandle mem ok ad f = Some (RX_FAIL, ad')
    \<and> rf_id p \<notin># held ad' \<and> held ad' + {#rf_id p#} = held ad + {#rf_id f#}
    \<and> pool_ids (ad_recv ad') = pool_ids (ad_recv ad2)
    \<and> rp_free_cnt (ad_recv ad') = rp_free_cnt (ad_recv ad2) + 1"
proof -
  define ad' where "ad' = count_drop (ad4\<lparr>ad_recv := free_orig f1 p (ad_recv ad4)\<rparr>)"
  have run: "recv_func_posthandle mem ok ad f = Some (RX_FAIL, ad')"
    using assms by (simp add: recv_func_posthandle_def ad'_def)
  have id: "rf_id f1 = rf_id f" using decryptor_moves(2) [OF assms(3) refl] by (simp add: same_path_def)
  have "moves ad {#rf_id f#} ad2 {#rf_id p#}"
    by (rule moves_trans [OF decryptor_moves(1) [OF assms(3), unfolded opt_ids_simps]
          recvframe_chk_defrag_moves [OF assms(4), unfolded opt_ids_simps]])
  then have m4: "moves ad {#rf_id f#} ad4 {#rf_id p#}"
    using moves_trans recv_indicatepkt_reorder_moves [OF assms(7)] by simp
  then have h4: "held ad4 + {#rf_id p#} = held ad + {#rf_id f#}" using assms(1) by (simp add: moves_def)
  note pool4 = recv_indicatepkt_reorder_refused [OF assms(7)]
  have "rf_id f1 \<in># pool_ids (ad_recv ad4)"
    using chk_defrag_last [OF assms(4,5)] pool4 by (simp add: pool_ids_def)
  moreover have once4: "no_frame_twice (held ad4)"
    by (rule no_frame_twice_sub [OF assms(2)]) (metis h4 mset_subset_eq_add_left)
  ultimately have pool: "pool_ids (free_orig f1 p (ad_recv ad4)) = pool_ids (ad_recv ad4)"
    by (intro free_orig_again [OF assms(5)] count_in_held)
  then have held': "held ad' = held ad4"
    by (simp add: ad'_def held_def count_drop_def pool_ids_def)
  have "count (held ad4 + {#rf_id p#}) (rf_id p) \<le> 1"
    using assms(2) unfolding h4 no_frame_twice_def by blast
  then have "rf_id p \<notin># held ad4" by (simp add: not_in_iff)
  moreover have "pool_ids (ad_recv ad') = pool_ids (ad_recv ad2)"
    using pool pool4 by (simp add: ad'_def count_drop_def pool_ids_def)
  moreover have "rp_free_cnt (ad_recv ad') = rp_free_cnt (ad_recv ad2) + 1"
    using pool4 assms(5,8) by (simp add: ad'_def count_drop_def free_orig_def rtw_free_recvframe_def)
  ultimately show ?thesis using run held' h4 by auto
qed

lemma case_opt_frame:
  assumes "case x of Some (Some f, a) \<Rightarrow> P f a | _ \<Rightarrow> False"
  obtains f a where "x = Some (Some f, a)" "P f a"
  using assms by (auto split: option.splits)

lemma case_opt_pair:
  assumes "case x of Some (r, a) \<Rightarrow> P r a | _ \<Rightarrow> False"
  obtains r a where "x = Some (r, a)" "P r a"
  using assms by (auto split: option.splits)

text \<open>Two fragments of a plaintext frame that is behind the window.\<close>

definition ex_part :: "nat \<Rightarrow> u8 \<Rightarrow> bool \<Rightarrow> recv_frame" where
  "ex_part i n mf = ex_eapol\<lparr>rf_id := i, rf_preorder := Some ([2, 0, 0, 0, 0, 2], 0),
     rf_attrib := (rf_attrib ex_eapol_valid)\<lparr>a_qos := True, a_frag_num := n, a_mfrag := mf, a_seq_num := 1\<rparr>,
     rf_buf := rf_buf ex_eapol @ replicate 20 0\<rparr>"

definition ex_parts :: adapter where
  "ex_parts = ex_adapter\<lparr>ad_stapriv := [[2, 0, 0, 0, 0, 2] \<mapsto> ex_sta\<lparr>sta_defrag_q := [ex_part 1 0 True],
     sta_reorder := [ex_ctrl\<lparr>ro_indicate_seq := 100\<rparr>]\<rparr>]\<rparr>"

theorem refused_reassembled_frame_leaks_witness:
  "\<exists>ad'. recv_func_posthandle (\<lambda>_. True) (\<lambda>_. True) ex_parts (ex_part 2 1 False) = Some (RX_FAIL, ad')
    \<and> 1 \<notin># held ad' \<and> pool_ids (ad_recv ad') = {#2#} \<and> rp_free_cnt (ad_recv ad') = 2"
proof -
  let ?f = "ex_part 2 1 False"
  have dom: "finite (dom (ad_stapriv ex_parts))" by (simp add: ex_parts_def)
  have "held ex_parts = {#1#}"
    by (simp add: held_def ex_parts_def ex_adapter_def ex_recv_priv_def pool_ids_def sta_ids_def ex_ctrl_def ex_part_def)
  then have once: "no_frame_twice (held ex_parts + {#rf_id ?f#})"
    by (simp add: no_frame_twice_def ex_part_def)
  have "case decryptor (\<lambda>_. True) ex_parts ?f of
      Some (Some f1, ad1) \<Rightarrow>
        (case recvframe_chk_defrag ad1 f1 of
           Some (Some p, ad2) \<Rightarrow> rf_id p = 1 \<and> rf_id f1 = 2 \<and> rf_adapter f1 = 0
             \<and> sta_ieee8021x_blocked (the (rtw_get_stainfo ad2 (a_ta (rf_attrib p)))) = False
             \<and> rtw_get_stainfo ad2 (a_ta (rf_attrib p)) \<noteq> None
             \<and> rp_free_cnt (ad_recv ad2) = 1 \<and> map rf_id (rp_free_queue (ad_recv ad2)) = [2]
             \<and> (case recv_indicatepkt_reorder (\<lambda>_. True) ad2 p of
                  Some (r, ad4) \<Rightarrow> r = RX_FAIL \<and> rp_adapter (ad_recv ad4) = 0 | _ \<Rightarrow> False)
         | _ \<Rightarrow> False)
    | _ \<Rightarrow> False"
    by code_simp
  then obtain f1 ad1 where d: "decryptor (\<lambda>_. True) ex_parts ?f = Some (Some f1, ad1)"
    and rest: "case recvframe_chk_defrag ad1 f1 of
           Some (Some p, ad2) \<Rightarrow> rf_id p = 1 \<and> rf_id f1 = 2 \<and> rf_adapter f1 = 0
             \<and> sta_ieee8021x_blocked (the (rtw_get_stainfo ad2 (a_ta (rf_attrib p)))) = False
             \<and> rtw_get_stainfo ad2 (a_ta (rf_attrib p)) \<noteq> None
             \<and> rp_free_cnt (ad_recv ad2) = 1 \<and> map rf_id (rp_free_queue (ad_recv ad2)) = [2]
             \<and> (case recv_indicatepkt_reorder (\<lambda>_. True) ad2 p of
                  Some (r, ad4) \<Rightarrow> r = RX_FAIL \<and> rp_adapter (ad_recv ad4) = 0 | _ \<Rightarrow> False)
         | _ \<Rightarrow> False"
    by (rule case_opt_frame)
  from rest obtain p ad2 where c: "recvframe_chk_defrag ad1 f1 = Some (Some p, ad2)"
    and all: "rf_id p = 1 \<and> rf_id f1 = 2 \<and> rf_adapter f1 = 0
             \<and> sta_ieee8021x_blocked (the (rtw_get_stainfo ad2 (a_ta (rf_attrib p)))) = False
             \<and> rtw_get_stainfo ad2 (a_ta (rf_attrib p)) \<noteq> None
             \<and> rp_free_cnt (ad_recv ad2) = 1 \<and> map rf_id (rp_free_queue (ad_recv ad2)) = [2]
             \<and> (case recv_indicatepkt_reorder (\<lambda>_. True) ad2 p of
                  Some (r, ad4) \<Rightarrow> r = RX_FAIL \<and> rp_adapter (ad_recv ad4) = 0 | _ \<Rightarrow> False)"
    by (rule case_opt_frame)
  then have ids: "rf_id p = 1" "rf_id f1 = 2" "rf_adapter f1 = 0"
    and pool: "rp_free_cnt (ad_recv ad2) = 1" "map rf_id (rp_free_queue (ad_recv ad2)) = [2]"
    and r0: "case recv_indicatepkt_reorder (\<lambda>_. True) ad2 p of
                  Some (r, ad4) \<Rightarrow> r = RX_FAIL \<and> rp_adapter (ad_recv ad4) = 0 | _ \<Rightarrow> False"
    by blast+
  from all obtain sta where s: "rtw_get_stainfo ad2 (a_ta (rf_attrib p)) = Some sta" "\<not> sta_ieee8021x_blocked sta"
    by auto
  from r0 obtain ret ad4 where "recv_indicatepkt_reorder (\<lambda>_. True) ad2 p = Some (ret, ad4)"
    "ret = RX_FAIL \<and> rp_adapter (ad_recv ad4) = 0"
    by (rule case_opt_pair)
  then have r: "recv_indicatepkt_reorder (\<lambda>_. True) ad2 p = Some (RX_FAIL, ad4)" "rp_adapter (ad_recv ad4) = 0"
    by simp_all
  have port: "portctrl ad2 p = (Some p, ad2)" using s by (simp add: portctrl_def)
  have "pool_ids (ad_recv ad2) = {#2#}" using pool(2) by (auto simp: pool_ids_def)
  moreover have "rf_id p \<noteq> rf_id f1" using ids by simp
  ultimately show ?thesis
    using refused_reassembled_frame_leaks [OF dom once d c _ port r(1)] ids r(2) pool(1) by auto
qed

section \<open>Replay state and authentication\<close>

lemma recv_bcast_pn_recorded:
  assumes "recv_bcast_pn_decache True f sec = (RX_SUCCESS, sec')" "has_pn (a_encrypt (rf_attrib f))"
    "frame_key_id f < length (sec_iv_seq sec)"
  shows "sec_iv_seq sec' ! frame_key_id f = frame_pn f" "length (sec_iv_seq sec') = length (sec_iv_seq sec)"
  using assms by (auto simp: recv_bcast_pn_decache_def Let_def split: if_splits)

lemma decryptor_iv_seq: "decryptor mem ad f = Some (res, ad') \<Longrightarrow> sec_iv_seq (ad_sec ad') = sec_iv_seq (ad_sec ad)"
  unfolding decryptor_def Let_def set_hw_decrypted_def ad_free_def
  by (auto split: if_splits option.splits)

lemma validate_from_sta_group:
  assumes "validate_from_sta ad addr sta f = (RX_SUCCESS, f', ad')" "is_mcast (a_ra (rf_attrib f))" "ad_fw_station ad"
  obtains f2 where "recv_bcast_pn_decache True f2 (ad_sec ad) = (RX_SUCCESS, ad_sec ad')"
    "a_encrypt (rf_attrib f2) = a_encrypt (rf_attrib f)" "a_hdrlen (rf_attrib f') = a_hdrlen (rf_attrib f2)"
    "rf_buf f' = rf_buf f2" "rf_data f' = rf_data f2" "a_ra (rf_attrib f') = a_ra (rf_attrib f)"
proof -
  have upd: "ad_sec (sta_update a g b) = ad_sec b" "ad_fw_station (sta_update a g b) = ad_fw_station b" for a g b
    by (simp_all add: sta_update_def)
  have qc: "a_encrypt (rf_attrib (parse_qc h)) = a_encrypt (rf_attrib h)" "a_ra (rf_attrib (parse_qc h)) = a_ra (rf_attrib h)"
    for h by (simp_all add: parse_qc_def Let_def)
  have se: "a_hdrlen (rf_attrib (set_encrypt s t h)) = a_hdrlen (rf_attrib h)" "rf_buf (set_encrypt s t h) = rf_buf h"
    "rf_data (set_encrypt s t h) = rf_data h" "a_ra (rf_attrib (set_encrypt s t h)) = a_ra (rf_attrib h)"
    for s t h by (simp_all add: set_encrypt_def Let_def)
  have bc: "r \<noteq> RX_HANDLED" if "recv_bcast_pn_decache st g s = (r, s')" for st g s r s'
    using that by (auto simp: recv_bcast_pn_decache_def Let_def split: if_splits)
  let ?f2 = "parse_qc (f\<lparr>rf_psta := Some addr, rf_preorder := None\<rparr>)"
  obtain r sec where b: "recv_bcast_pn_decache True ?f2 (ad_sec ad) = (r, sec)"
    by (cases "recv_bcast_pn_decache True ?f2 (ad_sec ad)")
  have "r = RX_SUCCESS \<and> ad_sec ad' = sec \<and> f' = set_encrypt sec sta ?f2"
    using assms b bc [OF b]
    by (cases r) (auto simp: validate_from_sta_def Let_def upd qc split: if_splits prod.splits)
  then show ?thesis using that [of ?f2] b by (simp add: qc se)
qed

text \<open>
  C19. The replay counter of a group key moves before the frame is authenticated: when a group
  frame with an IV passes validation and then fails decryption, whatever the key and the
  cipher text are, the frame is dropped, but its packet number stays recorded, and
  the next group frames with that key id and a number not above it are refused.
\<close>

theorem group_replay_before_authentication:
  assumes "recv_func_prehandle other ad f = (RX_SUCCESS, f', ad1)" "is_mcast (a_ra (rf_attrib f'))"
    and "ad_fw_station ad" "has_pn (a_encrypt (rf_attrib f))" "4 \<le> length (sec_iv_seq (ad_sec ad))"
    and "decryptor mem ad1 f' = Some (None, ad2)"
  shows "recv_func_posthandle mem ok ad1 f' = Some (RX_FAIL, count_drop ad2)
    \<and> sec_iv_seq (ad_sec (count_drop ad2)) ! frame_key_id f'
        = pn_of_iv (rx_bytes f' (a_hdrlen (rf_attrib f')) 8) (a_encrypt (rf_attrib f))
    \<and> (\<forall>g. has_pn (a_encrypt (rf_attrib g)) \<and> frame_key_id g = frame_key_id f'
          \<and> \<not> valid_pn_chk (frame_pn g)
               (pn_of_iv (rx_bytes f' (a_hdrlen (rf_attrib f')) 8) (a_encrypt (rf_attrib f)))
        \<longrightarrow> fst (recv_bcast_pn_decache True g (ad_sec (count_drop ad2))) = RX_FAIL)"
proof -
  have kid: "frame_key_id h < 4" for h
    using u8_range(2) [of "rx_byte h (a_hdrlen (rf_attrib h) + 3)"]
    by (simp add: frame_key_id_def drop_bit_eq_div unat_div)
  have sec: "sec_iv_seq (ad_sec (count_drop ad2)) = sec_iv_seq (ad_sec ad1)"
    using decryptor_iv_seq [OF assms(6)] by (simp add: count_drop_def)
  have rec: "sec_iv_seq (ad_sec ad1) ! frame_key_id f'
      = pn_of_iv (rx_bytes f' (a_hdrlen (rf_attrib f')) 8) (a_encrypt (rf_attrib f))"
    using assms(1)
  proof (rule prehandle_data)
    fix f0 f1 addr sta
    assume f0: "f0 = upd_attrib (\<lambda>a. a\<lparr>a_qos := (frame_sub_type f AND 0x80 \<noteq> 0)\<rparr>)
        (upd_attrib (\<lambda>a. a\<lparr>a_to_fr_ds := to_fr_ds_of f,
                   a_frag_num := ucast (frame_seq_ctl f AND 0xf), a_seq_num := drop_bit 4 (frame_seq_ctl f),
                   a_pw_save := fc_bit f 12, a_mfrag := fc_bit f 10, a_mdata := fc_bit f 13,
                   a_privacy := fc_bit f 14, a_order := fc_bit f 15\<rparr>) f)"
      and h: "data_validate_hdr ad (upd_attrib (\<lambda>a. a\<lparr>a_amsdu := (a_qos a \<and> bit (qos_ctl f0) 7)\<rparr>) f0)
        = (RX_SUCCESS, f1, Some addr)"
      and v: "validate_from_sta ad (sta_key addr) sta f1 = (RX_SUCCESS, f', ad1)"
    have f1: "a_encrypt (rf_attrib f1) = a_encrypt (rf_attrib f)"
      using validate_hdr_frame [OF h] f0 by (simp add: same_attr_def)
    have ra: "a_ra (rf_attrib f') = a_ra (rf_attrib f1)"
      using v by (auto simp: validate_from_sta_def set_encrypt_def parse_qc_def Let_def split: if_splits prod.splits)
    obtain f2 where b: "recv_bcast_pn_decache True f2 (ad_sec ad) = (RX_SUCCESS, ad_sec ad1)"
      and e: "a_encrypt (rf_attrib f2) = a_encrypt (rf_attrib f1)" "a_hdrlen (rf_attrib f') = a_hdrlen (rf_attrib f2)"
        "rf_buf f' = rf_buf f2" "rf_data f' = rf_data f2"
      using validate_from_sta_group [OF v _ assms(3)] ra assms(2) by metis
    have "frame_key_id f' = frame_key_id f2"
      using e by (simp add: frame_key_id_def rx_byte_def)
    moreover have "frame_pn f2 = pn_of_iv (rx_bytes f' (a_hdrlen (rf_attrib f')) 8) (a_encrypt (rf_attrib f))"
      using e f1 by (simp add: frame_pn_def rx_bytes_def)
    ultimately show ?thesis
      using recv_bcast_pn_recorded(1) [OF b] assms(4,5) kid [of f2] e(1) f1 by simp
  qed
  show ?thesis
    using assms(6) rec
    by (auto simp: recv_func_posthandle_def sec recv_bcast_pn_decache_def Let_def)
qed

text \<open>A group frame with packet number 9 and key id 1 that arrives before the group key.\<close>

definition ex_group_ad :: adapter where
  "ex_group_ad = ex_adapter\<lparr>ad_sec := ex_sec\<lparr>sec_grp_privacy := SEC_AES, sec_binstall_grpkey := False,
     sec_iv_seq := [0, 0, 0, 0]\<rparr>\<rparr>"

definition ex_group :: recv_frame where
  "ex_group = ex_eapol\<lparr>rf_attrib := (rf_attrib ex_eapol)\<lparr>a_encrypt := SEC_AES\<rparr>,
     rf_buf := [8, 0x42, 0, 0, 255, 255, 255, 255, 255, 255, 2, 0, 0, 0, 0, 2, 2, 0, 0, 0, 0, 9, 0x10, 0,
                9, 0, 0, 0x60, 0, 0, 0, 0, 1, 2, 3, 4], rf_len := 36\<rparr>"

theorem group_replay_before_authentication_witness:
  "case recv_func_prehandle (\<lambda>ad f. ad) ex_group_ad ex_group of
     (ret, f', ad1) \<Rightarrow>
       (case recv_func_posthandle (\<lambda>_. True) (\<lambda>_. True) ad1 f' of
          Some (r, ad2) \<Rightarrow> r = RX_FAIL \<and> sec_iv_seq (ad_sec ad2) ! 1 = 9 | None \<Rightarrow> False)"
proof -
  obtain ret f' ad1 where pre: "recv_func_prehandle (\<lambda>ad f. ad) ex_group_ad ex_group = (ret, f', ad1)"
    by (cases "recv_func_prehandle (\<lambda>ad f. ad) ex_group_ad ex_group") auto
  have "case recv_func_prehandle (\<lambda>ad f. ad) ex_group_ad ex_group of
      (ret, f', ad1) \<Rightarrow> ret = RX_SUCCESS \<and> is_mcast (a_ra (rf_attrib f')) \<and> frame_key_id f' = 1
        \<and> pn_of_iv (rx_bytes f' (a_hdrlen (rf_attrib f')) 8) (a_encrypt (rf_attrib ex_group)) = 9
        \<and> map_option (\<lambda>(r, _). map_option rf_id r) (decryptor (\<lambda>_. True) ad1 f') = Some None"
    by code_simp
  then have ok: "ret = RX_SUCCESS" "is_mcast (a_ra (rf_attrib f'))" "frame_key_id f' = 1"
    "pn_of_iv (rx_bytes f' (a_hdrlen (rf_attrib f')) 8) (a_encrypt (rf_attrib ex_group)) = 9"
    and dec: "map_option (\<lambda>(r, _). map_option rf_id r) (decryptor (\<lambda>_. True) ad1 f') = Some None"
    by (simp_all add: pre)
  from dec obtain ad2 where d: "decryptor (\<lambda>_. True) ad1 f' = Some (None, ad2)" by auto
  have sta: "ad_fw_station ex_group_ad" "4 \<le> length (sec_iv_seq (ad_sec ex_group_ad))"
    by (simp_all add: ex_group_ad_def ex_adapter_def)
  have pn: "has_pn (a_encrypt (rf_attrib ex_group))" by (simp add: ex_group_def has_pn_def)
  have run: "recv_func_posthandle (\<lambda>_. True) (\<lambda>_. True) ad1 f' = Some (RX_FAIL, count_drop ad2)
      \<and> sec_iv_seq (ad_sec (count_drop ad2)) ! 1 = 9"
    using group_replay_before_authentication [OF pre [unfolded ok(1)] ok(2) sta(1) pn sta(2) d, of "\<lambda>_. True"]
    unfolding ok(3,4) by blast
  then show ?thesis by (simp add: pre)
qed

end
