(* ===== verification/Coop_Group.thy ===== *)
theory Coop_Group
  imports Rx_Func
begin

text \<open>
  Cooperative reception, \<^verbatim>\<open>core/rtw_cooperative_rx.c\<close> and its header: the group of one primary
  and up to four helper adapters, its life cycle (\<^verbatim>\<open>rtw_coop_rx_init\<close> to
  \<^verbatim>\<open>rtw_coop_rx_unbind_session\<close>), the kernel's cipher transforms it holds, the channel the
  helpers follow, and the cache of non-QoS sequence numbers.

  The state is the group, the module parameters, the adapters by number, and the kernel's
  transforms. Each operation is one step: the lock of the group covers its update, and
  \<^verbatim>\<open>tasklet_kill\<close> and \<^verbatim>\<open>tasklet_disable\<close> wait for the drain tasklet, whose runs are steps of
  their own (\<^verbatim>\<open>Coop_Rx\<close>). What the kernel and other parts of the driver do is in
  \<open>coop_env\<close>. The array of helpers is the list of its first \<^verbatim>\<open>num_helpers\<close> entries; the
  \<^verbatim>\<open>dvobj\<close> pointers beside it, which nothing reads, are left out.
\<close>

section \<open>Data\<close>

datatype coop_rx_state = COOP_DISABLED | COOP_IDLE | COOP_BINDING | COOP_ACTIVE

text \<open>The order of the states, as their numbers have it.\<close>

fun state_num :: "coop_rx_state \<Rightarrow> nat" where
  "state_num COOP_DISABLED = 0"
| "state_num COOP_IDLE = 1"
| "state_num COOP_BINDING = 2"
| "state_num COOP_ACTIVE = 3"

datatype coop_ret = COOP_OK | ENODEV | EBUSY | EINVAL | ENOSPC | ENOENT | ENOTCONN | ENOMEM

definition COOP_MAX_HELPERS :: nat where "COOP_MAX_HELPERS = 4"

definition COOP_NONQOS_SEQ_CACHE_SZ :: nat where "COOP_NONQOS_SEQ_CACHE_SZ = 32"

definition COOP_PENDING_MAX :: int where "COOP_PENDING_MAX = 48"

definition COOP_BATCH_SIZE :: nat where "COOP_BATCH_SIZE = 64"

record coop_rx_stats =
  st_candidates :: u32
  st_accepted :: u32
  st_dup_dropped :: u32
  st_pool_full :: u32
  st_foreign :: u32
  st_crypto_err :: u32
  st_late :: u32
  st_no_sta :: u32
  st_deferred :: u32
  st_backpressure :: u32
  st_rssi_better :: u32
  st_rssi_worse :: u32
  st_fallback_events :: u32
  st_pair_events :: u32
  st_unpair_events :: u32
  st_kern_crypto :: u32
  st_bytes :: u64

record nonqos_seq_entry =
  ne_seq :: u16
  ne_ta :: mac

record nonqos_seq_cache =
  nc_entries :: "nonqos_seq_entry list"
  nc_valid :: u32
  nc_idx :: nat

text \<open>A transform of the kernel's crypto API: its algorithm, tag length and key.\<close>

datatype aead_alg = CCM_AES | GCM_AES

record crypto_aead =
  tf_alg :: aead_alg
  tf_authsize :: nat
  tf_key :: "u8 list option"

record cooperative_rx_group =
  cg_state :: coop_rx_state
  cg_primary :: "nat option"
  cg_helpers :: "nat list"
  cg_bound_bssid :: mac
  cg_bound_channel :: nat
  cg_bound_bw :: nat
  cg_nonqos :: nonqos_seq_cache
  cg_tfm_ccm :: "nat option"
  cg_tfm_ccm_256 :: "nat option"
  cg_tfm_gcm :: "nat option"
  cg_cached_key :: "u8 list"
  cg_cached_key_len :: nat
  cg_pending :: "recv_frame list"
  cg_pending_count :: int
  cg_scheduled :: bool
  cg_stats :: coop_rx_stats

record coop_world =
  cw_enabled :: bool
  cw_drop_primary :: bool
  cw_group :: "cooperative_rx_group option"
  cw_ad :: "nat \<Rightarrow> adapter"
  cw_tfms :: "nat \<Rightarrow> crypto_aead option"
  cw_next_tfm :: nat

text \<open>
  The environment: the allocators, the kernel's ciphers (from algorithm, tag length, key, IV,
  additional data and cipher text with its tag to the verdict and what is left in the
  buffer), the number of associated stations, and the parts of the driver that open a
  device, switch it to monitor mode and tune it.
\<close>

record coop_env =
  ce_group_ok :: bool
  ce_tfm_ok :: "nat \<Rightarrow> bool"
  ce_req_ok :: bool
  ce_setkey_ok :: "u8 list \<Rightarrow> bool"
  ce_aead :: "aead_alg \<Rightarrow> nat \<Rightarrow> u8 list \<Rightarrow> u8 list \<Rightarrow> u8 list \<Rightarrow> u8 list \<Rightarrow> bool \<times> u8 list"
  ce_dev_open :: "adapter \<Rightarrow> adapter"
  ce_set_monitor :: "adapter \<Rightarrow> adapter"
  ce_acs_stop :: "adapter \<Rightarrow> adapter"
  ce_set_channel_bwmode :: "nat \<Rightarrow> nat \<Rightarrow> nat \<Rightarrow> adapter \<Rightarrow> adapter"
  ce_asoc_sta_count :: "adapter \<Rightarrow> nat"
  ce_mem :: "nat \<Rightarrow> bool"
  ce_skb_ok :: "nat \<Rightarrow> bool"

definition upd_ad :: "nat \<Rightarrow> (adapter \<Rightarrow> adapter) \<Rightarrow> coop_world \<Rightarrow> coop_world" where
  "upd_ad i g w = w\<lparr>cw_ad := (cw_ad w)(i := g (cw_ad w i))\<rparr>"

abbreviation set_group :: "cooperative_rx_group \<Rightarrow> coop_world \<Rightarrow> coop_world" where
  "set_group g w \<equiv> w\<lparr>cw_group := Some g\<rparr>"

abbreviation upd_stats :: "(coop_rx_stats \<Rightarrow> coop_rx_stats) \<Rightarrow> cooperative_rx_group \<Rightarrow> cooperative_rx_group" where
  "upd_stats h g \<equiv> g\<lparr>cg_stats := h (cg_stats g)\<rparr>"

definition coop_rx_stats_reset :: coop_rx_stats where
  "coop_rx_stats_reset = \<lparr>st_candidates = 0, st_accepted = 0, st_dup_dropped = 0, st_pool_full = 0,
     st_foreign = 0, st_crypto_err = 0, st_late = 0, st_no_sta = 0, st_deferred = 0,
     st_backpressure = 0, st_rssi_better = 0, st_rssi_worse = 0, st_fallback_events = 0,
     st_pair_events = 0, st_unpair_events = 0, st_kern_crypto = 0, st_bytes = 0\<rparr>"

definition empty_nonqos :: nonqos_seq_cache where
  "empty_nonqos = \<lparr>nc_entries = replicate COOP_NONQOS_SEQ_CACHE_SZ \<lparr>ne_seq = 0, ne_ta = replicate 6 0\<rparr>,
     nc_valid = 0, nc_idx = 0\<rparr>"

section \<open>Queries\<close>

definition rtw_coop_rx_active :: "coop_world \<Rightarrow> bool" where
  "rtw_coop_rx_active w \<longleftrightarrow> cw_enabled w
     \<and> (case cw_group w of None \<Rightarrow> False | Some g \<Rightarrow> cg_state g = COOP_ACTIVE)"

definition rtw_coop_rx_is_helper :: "nat \<Rightarrow> coop_world \<Rightarrow> bool" where
  "rtw_coop_rx_is_helper i w \<longleftrightarrow> cw_enabled w
     \<and> (case cw_group w of
          None \<Rightarrow> False
        | Some g \<Rightarrow> state_num (cg_state g) \<ge> state_num COOP_BINDING
            \<and> i \<in> set (take COOP_MAX_HELPERS (cg_helpers g)))"

section \<open>Life cycle\<close>

definition new_group :: cooperative_rx_group where
  "new_group = \<lparr>cg_state = COOP_IDLE, cg_primary = None, cg_helpers = [], cg_bound_bssid = replicate 6 0,
     cg_bound_channel = 0, cg_bound_bw = 0, cg_nonqos = empty_nonqos, cg_tfm_ccm = None,
     cg_tfm_ccm_256 = None, cg_tfm_gcm = None, cg_cached_key = replicate 32 0, cg_cached_key_len = 0,
     cg_pending = [], cg_pending_count = 0, cg_scheduled = False, cg_stats = coop_rx_stats_reset\<rparr>"

definition rtw_coop_rx_init :: "coop_env \<Rightarrow> coop_world \<Rightarrow> coop_ret \<times> coop_world" where
  "rtw_coop_rx_init env w =
     (if \<not> cw_enabled w then (COOP_OK, w)
      else if \<not> ce_group_ok env then (ENOMEM, w)
      else (COOP_OK, set_group new_group w))"

text \<open>
  \<^verbatim>\<open>coop_rx_crypto_init\<close> and \<^verbatim>\<open>coop_rx_crypto_deinit\<close>: three transforms, each of which may
  be missing. \<^verbatim>\<open>crypto_alloc_aead\<close> gives a transform without a key.
\<close>

definition crypto_alloc_aead :: "coop_env \<Rightarrow> aead_alg \<Rightarrow> nat \<Rightarrow> coop_world \<Rightarrow> nat option \<times> coop_world" where
  "crypto_alloc_aead env alg auth w =
     (let n = cw_next_tfm w in
      if ce_tfm_ok env n then
        (Some n, w\<lparr>cw_tfms := (cw_tfms w)(n \<mapsto> \<lparr>tf_alg = alg, tf_authsize = auth, tf_key = None\<rparr>),
                   cw_next_tfm := Suc n\<rparr>)
      else (None, w\<lparr>cw_next_tfm := Suc n\<rparr>))"

definition coop_rx_crypto_init :: "coop_env \<Rightarrow> coop_world \<Rightarrow> coop_world" where
  "coop_rx_crypto_init env w0 =
     (let (a, w1) = crypto_alloc_aead env CCM_AES 8 w0;
          (b, w2) = crypto_alloc_aead env CCM_AES 16 w1;
          (c, w3) = crypto_alloc_aead env GCM_AES 16 w2
      in w3\<lparr>cw_group := map_option (\<lambda>g. g\<lparr>cg_tfm_ccm := a, cg_tfm_ccm_256 := b, cg_tfm_gcm := c\<rparr>) (cw_group w3)\<rparr>)"

definition crypto_free_aead :: "nat option \<Rightarrow> coop_world \<Rightarrow> coop_world" where
  "crypto_free_aead t w = (case t of None \<Rightarrow> w | Some n \<Rightarrow> w\<lparr>cw_tfms := (cw_tfms w)(n := None)\<rparr>)"

definition coop_rx_crypto_deinit :: "coop_world \<Rightarrow> coop_world" where
  "coop_rx_crypto_deinit w =
     (case cw_group w of
        None \<Rightarrow> w
      | Some g \<Rightarrow>
          set_group (g\<lparr>cg_tfm_ccm := None, cg_tfm_ccm_256 := None, cg_tfm_gcm := None\<rparr>)
            (crypto_free_aead (cg_tfm_gcm g)
              (crypto_free_aead (cg_tfm_ccm_256 g) (crypto_free_aead (cg_tfm_ccm g) w))))"

text \<open>
  The frames still pending go back to the pool of the primary; without a primary only
  their socket buffers are released.
\<close>

definition drain_to_pool :: "nat option \<Rightarrow> coop_world \<Rightarrow> coop_world" where
  "drain_to_pool owner w =
     (case cw_group w of
        None \<Rightarrow> w
      | Some g \<Rightarrow>
          let w1 = set_group (g\<lparr>cg_pending := [],
                 cg_pending_count := cg_pending_count g - int (length (cg_pending g))\<rparr>) w
          in case owner of
               None \<Rightarrow> w1
             | Some i \<Rightarrow> upd_ad i (\<lambda>ad. ad\<lparr>ad_recv := rtw_free_recvframe_queue (cg_pending g) (ad_recv ad)\<rparr>) w1)"

definition rtw_coop_rx_deinit :: "coop_world \<Rightarrow> coop_world" where
  "rtw_coop_rx_deinit w =
     (case cw_group w of
        None \<Rightarrow> w
      | Some g \<Rightarrow> (drain_to_pool (cg_primary g) (coop_rx_crypto_deinit w))\<lparr>cw_group := None\<rparr>)"

section \<open>Pairing\<close>

definition rtw_coop_rx_set_primary :: "nat \<Rightarrow> coop_world \<Rightarrow> coop_ret \<times> coop_world" where
  "rtw_coop_rx_set_primary i w =
     (if \<not> cw_enabled w then (ENODEV, w)
      else case cw_group w of
        None \<Rightarrow> (ENODEV, w)
      | Some g \<Rightarrow>
          if cg_primary g \<noteq> None \<and> cg_primary g \<noteq> Some i then (EBUSY, w)
          else (COOP_OK, set_group (g\<lparr>cg_primary := Some i,
                 cg_state := (if cg_state g = COOP_DISABLED then COOP_IDLE else cg_state g)\<rparr>) w))"

definition rtw_coop_rx_add_helper :: "nat \<Rightarrow> coop_world \<Rightarrow> coop_ret \<times> coop_world" where
  "rtw_coop_rx_add_helper i w =
     (if \<not> cw_enabled w then (ENODEV, w)
      else case cw_group w of
        None \<Rightarrow> (ENODEV, w)
      | Some g \<Rightarrow>
          if cg_primary g = None then (EINVAL, w)
          else if length (cg_helpers g) \<ge> COOP_MAX_HELPERS then (ENOSPC, w)
          else if i \<in> set (cg_helpers g) then (COOP_OK, w)
          else (COOP_OK, set_group
                 (upd_stats (\<lambda>s. s\<lparr>st_pair_events := st_pair_events s + 1\<rparr>)
                   (g\<lparr>cg_helpers := cg_helpers g @ [i],
                      cg_state := (if cg_state g = COOP_IDLE then COOP_BINDING else cg_state g)\<rparr>)) w))"

text \<open>The first entry that is the adapter is taken out, the rest shifted down.\<close>

definition rtw_coop_rx_remove_helper :: "nat \<Rightarrow> coop_world \<Rightarrow> coop_ret \<times> coop_world" where
  "rtw_coop_rx_remove_helper i w =
     (case cw_group w of
        None \<Rightarrow> (ENODEV, w)
      | Some g \<Rightarrow>
          if i \<notin> set (cg_helpers g) then (ENOENT, w)
          else
            let g1 = upd_stats (\<lambda>s. s\<lparr>st_unpair_events := st_unpair_events s + 1\<rparr>)
                       (g\<lparr>cg_helpers := remove1 i (cg_helpers g)\<rparr>)
            in (COOP_OK, set_group
                  (if cg_helpers g1 = [] \<and> cg_state g1 = COOP_ACTIVE then
                     upd_stats (\<lambda>s. s\<lparr>st_fallback_events := st_fallback_events s + 1\<rparr>)
                       (g1\<lparr>cg_state := COOP_IDLE\<rparr>)
                   else g1) w))"

definition rtw_coop_rx_remove_adapter :: "nat \<Rightarrow> coop_world \<Rightarrow> coop_world" where
  "rtw_coop_rx_remove_adapter i w =
     (if \<not> cw_enabled w \<or> cw_group w = None then w
      else
        let w1 = snd (rtw_coop_rx_remove_helper i w) in
        if map_option cg_primary (cw_group w1) = Some (Some i) then
          let w2 = drain_to_pool (Some i) w1 in
          w2\<lparr>cw_group := map_option (\<lambda>g.
               upd_stats (\<lambda>s. s\<lparr>st_fallback_events := st_fallback_events s + 1\<rparr>)
                 (g\<lparr>cg_primary := None, cg_helpers := [], cg_state := COOP_IDLE, cg_scheduled := False\<rparr>))
               (cw_group w2)\<rparr>
        else w1)"

text \<open>
  \<open>netdevs\<close> are the network devices of the primary's namespace, by the adapter they carry;
  \<^verbatim>\<open>ad_dev_rtw\<close> is whether the device belongs to this driver. The result is the number of
  calls of \<^verbatim>\<open>rtw_coop_rx_add_helper\<close> that returned 0.
\<close>

fun rtw_coop_rx_auto_discover_helpers :: "nat list \<Rightarrow> nat \<Rightarrow> coop_world \<Rightarrow> nat \<times> coop_world" where
  "rtw_coop_rx_auto_discover_helpers [] i w = (0, w)"
| "rtw_coop_rx_auto_discover_helpers (n # ns) i w =
     (if n = i \<or> \<not> ad_dev_rtw (cw_ad w n) then rtw_coop_rx_auto_discover_helpers ns i w
      else
        let (ret, w1) = rtw_coop_rx_add_helper n w;
            (added, w2) = rtw_coop_rx_auto_discover_helpers ns i w1
        in (if ret = COOP_OK then Suc added else added, w2))"

section \<open>Sessions\<close>

definition CHANNEL_WIDTH_20 :: nat where "CHANNEL_WIDTH_20 = 0"

definition HAL_PRIME_CHNL_OFFSET_DONT_CARE :: nat where "HAL_PRIME_CHNL_OFFSET_DONT_CARE = 0"

definition rtw_coop_rx_enable_helper_monitor :: "coop_env \<Rightarrow> nat \<Rightarrow> nat \<Rightarrow> coop_world \<Rightarrow> coop_world" where
  "rtw_coop_rx_enable_helper_monitor env h channel w =
     (let (bw, off) =
            (case cw_group w of
               None \<Rightarrow> (CHANNEL_WIDTH_20, HAL_PRIME_CHNL_OFFSET_DONT_CARE)
             | Some g \<Rightarrow>
                 (case cg_primary g of
                    None \<Rightarrow> (CHANNEL_WIDTH_20, HAL_PRIME_CHNL_OFFSET_DONT_CARE)
                  | Some p \<Rightarrow> (ad_cur_bwmode (cw_ad w p), ad_cur_ch_offset (cw_ad w p))))
      in upd_ad h (\<lambda>ad0.
           let ad1 = ad0\<lparr>ad_acs_mode := False\<rparr>;
               ad2 = (if \<not> ad_dev_up ad1 then ce_dev_open env ad1 else ad1)
           in ce_set_channel_bwmode env channel off bw (ce_acs_stop env (ce_set_monitor env ad2))) w)"

definition rtw_coop_rx_bind_session :: "coop_env \<Rightarrow> nat \<Rightarrow> coop_world \<Rightarrow> coop_ret \<times> coop_world" where
  "rtw_coop_rx_bind_session env i w =
     (if \<not> cw_enabled w then (ENODEV, w)
      else case cw_group w of
        None \<Rightarrow> (ENODEV, w)
      | Some g \<Rightarrow>
          if cg_primary g \<noteq> Some i then (ENODEV, w)
          else
            let ad = cw_ad w i in
            if \<not> ((ad_fw_ap ad \<or> ad_fw_station ad) \<and> ad_fw_asoc ad) then (ENOTCONN, w)
            else
              let g1 = g\<lparr>cg_bound_bssid := (if ad_fw_ap ad then ad_mac ad else ad_cur_net_mac ad),
                         cg_bound_channel := ad_cur_channel ad, cg_bound_bw := ad_cur_bwmode ad,
                         cg_nonqos := empty_nonqos,
                         cg_state := (if cg_helpers g \<noteq> [] then COOP_ACTIVE else cg_state g)\<rparr>;
                  w1 = coop_rx_crypto_init env (set_group g1 w)
              in (COOP_OK, fold (\<lambda>h. rtw_coop_rx_enable_helper_monitor env h (cg_bound_channel g1))
                    (cg_helpers g1) w1))"

definition rtw_coop_rx_notify_channel_switch :: "coop_env \<Rightarrow> nat \<Rightarrow> coop_world \<Rightarrow> coop_world" where
  "rtw_coop_rx_notify_channel_switch env i w =
     (if \<not> cw_enabled w then w
      else case cw_group w of
        None \<Rightarrow> w
      | Some g \<Rightarrow>
          if cg_state g \<noteq> COOP_ACTIVE \<or> cg_primary g \<noteq> Some i then w
          else
            let ad = cw_ad w i; ch = ad_cur_channel ad; bw = ad_cur_bwmode ad in
            if ch = 0 \<or> ch = cg_bound_channel g \<and> bw = cg_bound_bw g then w
            else
              fold (\<lambda>h w. if ad_dev_up (cw_ad w h)
                          then upd_ad h (ce_set_channel_bwmode env ch (ad_cur_ch_offset ad) bw) w else w)
                (cg_helpers g) (set_group (g\<lparr>cg_bound_channel := ch, cg_bound_bw := bw\<rparr>) w))"

definition rtw_coop_rx_unbind_session :: "coop_world \<Rightarrow> coop_world" where
  "rtw_coop_rx_unbind_session w =
     (case cw_group w of
        None \<Rightarrow> w
      | Some g \<Rightarrow>
          let w1 = coop_rx_crypto_deinit w;
              w2 = w1\<lparr>cw_group := map_option (\<lambda>g.
                     if cg_state g = COOP_ACTIVE \<or> cg_state g = COOP_BINDING then
                       g\<lparr>cg_state := (if cg_primary g \<noteq> None then COOP_IDLE else COOP_DISABLED),
                         cg_bound_bssid := replicate 6 0, cg_bound_channel := 0\<rparr>
                     else g) (cw_group w1)\<rparr>
          in drain_to_pool (cg_primary g) w2)"

section \<open>The cache of non-QoS sequence numbers\<close>

definition coop_nonqos_check_and_record ::
  "nonqos_seq_cache \<Rightarrow> u16 \<Rightarrow> mac \<Rightarrow> bool \<times> nonqos_seq_cache" where
  "coop_nonqos_check_and_record c seq_num ta =
     (if \<exists>i \<in> set [0..<COOP_NONQOS_SEQ_CACHE_SZ]. bit (nc_valid c) i
           \<and> ne_seq (nc_entries c ! i) = seq_num \<and> ne_ta (nc_entries c ! i) = ta
      then (True, c)
      else (False, c\<lparr>nc_entries := (nc_entries c)[nc_idx c := \<lparr>ne_seq = seq_num, ne_ta = ta\<rparr>],
                     nc_valid := set_bit (nc_idx c) (nc_valid c),
                     nc_idx := (nc_idx c + 1) mod COOP_NONQOS_SEQ_CACHE_SZ\<rparr>))"

section \<open>The cache keeps the last 32 entries\<close>

text \<open>
  The specification: the list of the entries recorded last, the most recent first, never
  longer than the cache.
\<close>

definition recent_step :: "nonqos_seq_entry list \<Rightarrow> nonqos_seq_entry \<Rightarrow> bool \<times> nonqos_seq_entry list" where
  "recent_step r e = (if e \<in> set r then (True, r) else (False, take COOP_NONQOS_SEQ_CACHE_SZ (e # r)))"

text \<open>The slot of the entry recorded \<open>k\<close> entries ago.\<close>

definition nq_pos :: "nat \<Rightarrow> nat \<Rightarrow> nat" where
  "nq_pos idx k = (if k < idx then idx - 1 - k else idx + 31 - k)"

definition nonqos_rel :: "nonqos_seq_cache \<Rightarrow> nonqos_seq_entry list \<Rightarrow> bool" where
  "nonqos_rel c r \<longleftrightarrow> length (nc_entries c) = 32 \<and> nc_idx c < 32 \<and> length r \<le> 32
     \<and> (length r < 32 \<longrightarrow> nc_idx c = length r)
     \<and> (\<forall>k < length r. nc_entries c ! nq_pos (nc_idx c) k = r ! k)
     \<and> (\<forall>i < 32. bit (nc_valid c) i \<longleftrightarrow> (\<exists>k < length r. i = nq_pos (nc_idx c) k))"

lemma nonqos_rel_empty: "nonqos_rel empty_nonqos []"
  by (simp add: nonqos_rel_def empty_nonqos_def COOP_NONQOS_SEQ_CACHE_SZ_def)

lemma nq_pos_less: "idx < 32 \<Longrightarrow> k < 32 \<Longrightarrow> nq_pos idx k < 32"
  by (auto simp: nq_pos_def)

lemma nonqos_hit:
  assumes "nonqos_rel c r"
  shows "(\<exists>i \<in> set [0..<COOP_NONQOS_SEQ_CACHE_SZ]. bit (nc_valid c) i
           \<and> ne_seq (nc_entries c ! i) = s \<and> ne_ta (nc_entries c ! i) = ta)
    \<longleftrightarrow> \<lparr>ne_seq = s, ne_ta = ta\<rparr> \<in> set r" (is "?L = ?R")
proof
  assume ?L
  then obtain i where i: "i < 32" "bit (nc_valid c) i"
    and e: "ne_seq (nc_entries c ! i) = s" "ne_ta (nc_entries c ! i) = ta"
    by (auto simp: COOP_NONQOS_SEQ_CACHE_SZ_def)
  then obtain k where k: "k < length r" "i = nq_pos (nc_idx c) k"
    using assms by (auto simp: nonqos_rel_def)
  then have "r ! k = nc_entries c ! i" using assms by (simp add: nonqos_rel_def)
  moreover have "nc_entries c ! i = \<lparr>ne_seq = s, ne_ta = ta\<rparr>" using e by (cases "nc_entries c ! i") simp
  ultimately show ?R using k(1) by (metis nth_mem)
next
  assume ?R
  then obtain k where k: "k < length r" "r ! k = \<lparr>ne_seq = s, ne_ta = ta\<rparr>" by (auto simp: in_set_conv_nth)
  define i where "i = nq_pos (nc_idx c) k"
  have "i < 32" using assms k(1) by (auto simp: i_def nonqos_rel_def intro!: nq_pos_less)
  moreover have "bit (nc_valid c) i" using assms k(1) \<open>i < 32\<close> by (auto simp: nonqos_rel_def i_def)
  moreover have "nc_entries c ! i = \<lparr>ne_seq = s, ne_ta = ta\<rparr>" using assms k by (simp add: nonqos_rel_def i_def)
  ultimately show ?L by (intro bexI [of _ i]) (auto simp: COOP_NONQOS_SEQ_CACHE_SZ_def)
qed

lemma nq_pos_Suc:
  assumes "idx < 32"
  shows "nq_pos ((idx + 1) mod 32) 0 = idx" "k < 31 \<Longrightarrow> nq_pos ((idx + 1) mod 32) (Suc k) = nq_pos idx k"
    "k < 31 \<Longrightarrow> nq_pos idx k \<noteq> idx" "nq_pos idx 31 = idx"
proof -
  consider "(idx + 1) mod 32 = 0" "idx = 31" | "(idx + 1) mod 32 = idx + 1" "idx < 31"
    by (cases "idx = 31") (use assms in simp_all)
  note next_idx = this
  show "nq_pos ((idx + 1) mod 32) 0 = idx"
    by (rule next_idx) (simp_all add: nq_pos_def)
  show "nq_pos ((idx + 1) mod 32) (Suc k) = nq_pos idx k" if "k < 31"
    by (rule next_idx) (use that in \<open>auto simp: nq_pos_def\<close>)
  show "nq_pos idx k \<noteq> idx" if "k < 31"
    using that by (auto simp: nq_pos_def)
  show "nq_pos idx 31 = idx"
    using assms by (simp add: nq_pos_def)
qed

lemma nonqos_record:
  assumes rel: "nonqos_rel c r"
  shows "nonqos_rel (c\<lparr>nc_entries := (nc_entries c)[nc_idx c := e], nc_valid := set_bit (nc_idx c) (nc_valid c),
      nc_idx := (nc_idx c + 1) mod 32\<rparr>) (take 32 (e # r))"
proof -
  let ?i = "nc_idx c"
  have i: "?i < 32" "length (nc_entries c) = 32" "length r \<le> 32" "length r < 32 \<longrightarrow> ?i = length r"
    using rel by (auto simp: nonqos_rel_def)
  let ?r = "take 32 (e # r)"
  have len: "length ?r = min 32 (Suc (length r))" by simp
  have nth: "(nc_entries c)[?i := e] ! nq_pos ((?i + 1) mod 32) k = ?r ! k" if k: "k < length ?r" for k
  proof (cases k)
    case 0
    then show ?thesis using i nq_pos_Suc(1) [OF i(1)] by simp
  next
    case (Suc j)
    then have "j < 31" "j < length r" using k len by auto
    then show ?thesis
      using i Suc nq_pos_Suc(2,3) [OF i(1), of j] rel nq_pos_less [OF i(1), of j]
      by (simp add: nonqos_rel_def)
  qed
  have bits: "bit (set_bit ?i (nc_valid c)) n \<longleftrightarrow> (\<exists>k < length ?r. n = nq_pos ((?i + 1) mod 32) k)" if n: "n < 32" for n
  proof
    assume "bit (set_bit ?i (nc_valid c)) n"
    then consider "n = ?i" | "bit (nc_valid c) n" "n \<noteq> ?i" by (auto simp: bit_set_bit_iff)
    then show "\<exists>k < length ?r. n = nq_pos ((?i + 1) mod 32) k"
    proof cases
      case 1
      then show ?thesis using nq_pos_Suc(1) [OF i(1)] by (intro exI [of _ 0]) simp
    next
      case 2
      then obtain k where k: "k < length r" "n = nq_pos ?i k" using rel n by (auto simp: nonqos_rel_def)
      have "k \<noteq> 31" using 2 k nq_pos_Suc(4) [OF i(1)] by auto
      then have "k < 31" using k(1) i(3) by simp
      then show ?thesis
        using k nq_pos_Suc(2) [OF i(1) \<open>k < 31\<close>] by (intro exI [of _ "Suc k"]) simp
    qed
  next
    assume "\<exists>k < length ?r. n = nq_pos ((?i + 1) mod 32) k"
    then obtain k where k: "k < length ?r" "n = nq_pos ((?i + 1) mod 32) k" by blast
    show "bit (set_bit ?i (nc_valid c)) n"
    proof (cases k)
      case 0
      then show ?thesis using k nq_pos_Suc(1) [OF i(1)] i(1) by (simp add: bit_set_bit_iff)
    next
      case (Suc j)
      then have j: "j < 31" "j < length r" using k(1) by auto
      then have "n = nq_pos ?i j" using k(2) Suc nq_pos_Suc(2) [OF i(1)] by simp
      then show ?thesis using rel n j by (auto simp: bit_set_bit_iff nonqos_rel_def)
    qed
  qed
  have "length ?r < 32 \<longrightarrow> (?i + 1) mod 32 = length ?r" using i by auto
  then show ?thesis
    using i nth bits len by (simp add: nonqos_rel_def)
qed

text \<open>
  C23. The cache of non-QoS sequence numbers implements the bounded history: in every state
  related to a history (the empty cache is related to the empty one) it refuses a frame
  exactly when its sequence number and transmitter are among the last 32 recorded, records
  it otherwise, and stays related. The relation hides the slots, the bit mask and the
  wrapping index.
\<close>

theorem nonqos_cache_refines_history:
  assumes "nonqos_rel c r"
  shows "nonqos_rel (snd (coop_nonqos_check_and_record c s ta)) (snd (recent_step r \<lparr>ne_seq = s, ne_ta = ta\<rparr>))
    \<and> fst (coop_nonqos_check_and_record c s ta) = fst (recent_step r \<lparr>ne_seq = s, ne_ta = ta\<rparr>)"
  using nonqos_hit [OF assms, of s ta] nonqos_record [OF assms, of "\<lparr>ne_seq = s, ne_ta = ta\<rparr>"] assms
  by (simp add: coop_nonqos_check_and_record_def recent_step_def COOP_NONQOS_SEQ_CACHE_SZ_def)

theorem nonqos_cache_refines_history_witness:
  "nonqos_rel (snd (coop_nonqos_check_and_record empty_nonqos 0 [1, 2, 3, 4, 5, 6]))
      [\<lparr>ne_seq = 0, ne_ta = [1, 2, 3, 4, 5, 6]\<rparr>]
    \<and> \<not> fst (coop_nonqos_check_and_record empty_nonqos 0 [1, 2, 3, 4, 5, 6])"
  using nonqos_cache_refines_history [OF nonqos_rel_empty, of 0 "[1, 2, 3, 4, 5, 6]"]
  by (simp add: recent_step_def COOP_NONQOS_SEQ_CACHE_SZ_def)

end
