(* ===== verification/Coop_Rx.thy ===== *)
theory Coop_Rx
  imports Coop_Group
begin

text \<open>
  The frames of cooperative reception, \<^verbatim>\<open>core/rtw_cooperative_rx.c\<close>: what a helper does
  with a received frame (\<^verbatim>\<open>rtw_coop_rx_pre_recv_entry\<close>, \<^verbatim>\<open>rtw_coop_rx_submit_helper_frame\<close>),
  the drain tasklet that puts the queued frames into the receive path of the primary, with
  decryption by the kernel, and the hook in \<^verbatim>\<open>pre_recv_entry\<close> of \<^verbatim>\<open>core/rtw_recv.c\<close>.

  The lemmas show which frames a helper may submit, that submission moves every frame and
  socket buffer to exactly one place, that the queue of pending frames stays bounded in
  every run of the group, and where the drain departs from the receive path it stands in
  for. \<open>None\<close> is an access outside a buffer or through the pointer of a station that is gone.
\<close>

section \<open>A frame at a helper\<close>

text \<open>The attributes \<^verbatim>\<open>rtw_coop_rx_pre_recv_entry\<close> fills in from the header.\<close>

definition coop_parse :: "recv_frame \<Rightarrow> recv_frame" where
  "coop_parse f =
     (let ds = to_fr_ds_of f; a1 = frame_addr f 4; a2 = frame_addr f 10; a3 = frame_addr f 16;
          f1 = upd_attrib (\<lambda>a. a\<lparr>a_to_fr_ds := ds, a_seq_num := drop_bit 4 (frame_seq_ctl f),
                 a_frag_num := ucast (frame_seq_ctl f AND 0xf), a_privacy := fc_bit f 14\<rparr>) f;
          f2 = (if ds = 2 then set_addrs a1 a2 a1 a3 a2 f1
                else if ds = 1 then set_addrs a1 a2 a3 a2 a1 f1
                else set_addrs a1 a2 a1 a2 a3 f1)
      in if frame_sub_type f AND 0x88 = 0x88
         then upd_attrib (\<lambda>a. a\<lparr>a_qos := True, a_priority := unat (qos_ctl f2 AND 0xf)\<rparr>) f2
         else upd_attrib (\<lambda>a. a\<lparr>a_qos := False, a_priority := 0\<rparr>) f2)"

text \<open>
  Direction and addresses: whether the frame belongs to the bound BSS and to the primary.
\<close>

definition coop_addr_ok :: "cooperative_rx_group \<Rightarrow> adapter \<Rightarrow> rx_pkt_attrib \<Rightarrow> bool" where
  "coop_addr_ok g primary a \<longleftrightarrow>
     (if a_to_fr_ds a = 2 then
        a_ta a = cg_bound_bssid g \<and> (is_mcast (a_ra a) \<or> a_ra a = ad_mac primary)
      else if a_to_fr_ds a = 1 then ad_fw_ap primary \<and> a_ra a = cg_bound_bssid g
      else False)"

text \<open>
  The encryption attributes of a protected frame whose receive descriptor says it is not
  encrypted, as the descriptors of monitor mode do.
\<close>

definition coop_fix_encrypt :: "adapter \<Rightarrow> sta_info \<Rightarrow> rx_pkt_attrib \<Rightarrow> rx_pkt_attrib" where
  "coop_fix_encrypt primary sta a =
     (if a_privacy a \<and> a_encrypt a = 0 then
        let sec = ad_sec primary;
            enc = get_encry_algo (sec_auth sec) (sec_privacy sec) (sec_grp_privacy sec)
                    (sta_dot118021XPrivacy sta) (a_encrypt a) (is_mcast (a_ra a));
            a4 = (if a_to_fr_ds a = 3 then 6 else 0)
        in a\<lparr>a_encrypt := enc, a_iv_len := unat (fst (set_ice_iv_len enc)),
             a_icv_len := unat (snd (set_ice_iv_len enc)), a_bdecrypted := False,
             a_hdrlen := (if a_qos a then 26 else 24) + a4\<rparr>
      else a)"

text \<open>Behind the window of the primary.\<close>

definition coop_late :: "sta_info \<Rightarrow> rx_pkt_attrib \<Rightarrow> bool" where
  "coop_late sta a \<longleftrightarrow>
     (let rc = sta_reorder sta ! a_priority a in
      ro_enable rc \<and> ro_indicate_seq rc \<noteq> 0xFFFF \<and> SN_LESS (a_seq_num a) (ro_indicate_seq rc))"

text \<open>The packet number is one the primary has taken already.\<close>

definition coop_stale_pn :: "sta_info \<Rightarrow> recv_frame \<Rightarrow> bool" where
  "coop_stale_pn sta f \<longleftrightarrow>
     (let a = rf_attrib f; tid = (if a_qos a then a_priority a else 0) in
      a_encrypt a \<noteq> 0 \<and> \<not> a_bdecrypted a \<and> has_pn (a_encrypt a) \<and> tid \<le> 15
      \<and> \<not> valid_pn_chk (pn_of_iv (rx_bytes f (a_hdrlen a) 8) (a_encrypt a))
             (pn_of_iv (sta_iv sta ! tid) (a_encrypt a)))"

section \<open>Submission\<close>

datatype coop_drop = DropForeign | DropCrypto | DropNoSta | DropTid | DropLate | DropDup | DropPool

fun count_coop_drop :: "coop_drop \<Rightarrow> coop_rx_stats \<Rightarrow> coop_rx_stats" where
  "count_coop_drop DropForeign s = s\<lparr>st_foreign := st_foreign s + 1\<rparr>"
| "count_coop_drop DropCrypto s = s\<lparr>st_crypto_err := st_crypto_err s + 1\<rparr>"
| "count_coop_drop DropNoSta s = s\<lparr>st_no_sta := st_no_sta s + 1\<rparr>"
| "count_coop_drop DropTid s = s"
| "count_coop_drop DropLate s = s\<lparr>st_late := st_late s + 1\<rparr>"
| "count_coop_drop DropDup s = s\<lparr>st_dup_dropped := st_dup_dropped s + 1\<rparr>"
| "count_coop_drop DropPool s = s\<lparr>st_pool_full := st_pool_full s + 1\<rparr>"

text \<open>
  The checks of \<^verbatim>\<open>rtw_coop_rx_submit_helper_frame\<close>, in their order, up to the allocation:
  the frame with its attributes completed, the cache of sequence numbers, and the reason
  for a refusal, or the station.
\<close>

definition submit_checks ::
  "cooperative_rx_group \<Rightarrow> adapter \<Rightarrow> recv_frame \<Rightarrow> recv_frame \<times> nonqos_seq_cache \<times> (coop_drop + sta_info)" where
  "submit_checks g primary f =
     (let a = rf_attrib f; c = cg_nonqos g in
      if \<not> coop_addr_ok g primary a then (f, c, Inl DropForeign)
      else if a_crc_err a \<or> a_icv_err a then (f, c, Inl DropCrypto)
      else case rtw_get_stainfo primary (a_ta a) of
        None \<Rightarrow> (f, c, Inl DropNoSta)
      | Some sta \<Rightarrow>
          let b = coop_fix_encrypt primary sta a; f1 = f\<lparr>rf_attrib := b\<rparr> in
          if a_privacy a \<and> a_encrypt a = 0 \<and> a_encrypt b = 0 then (f1, c, Inl DropCrypto)
          else if a_encrypt b \<noteq> 0 \<and> \<not> a_bdecrypted b \<and> \<not> a_privacy b then (f1, c, Inl DropCrypto)
          else if a_qos b \<and> a_priority b > 15 then (f1, c, Inl DropTid)
          else if a_qos b \<and> coop_late sta b then (f1, c, Inl DropLate)
          else
            let (dup, c1) = (if a_qos b then (False, c)
                             else coop_nonqos_check_and_record c (a_seq_num b) (a_ta b))
            in if dup then (f1, c1, Inl DropDup)
               else if coop_stale_pn sta f1 then (f1, c1, Inl DropDup)
               else (f1, c1, Inr sta))"

definition IEEE80211_FCS_LEN :: int where "IEEE80211_FCS_LEN = 4"

text \<open>
  The primary's frame \<open>p\<close> takes over the socket buffer and the attributes, without the FCS.
\<close>

definition adopt_frame :: "nat \<Rightarrow> mac \<Rightarrow> recv_frame \<Rightarrow> recv_frame \<Rightarrow> recv_frame" where
  "adopt_frame i sta f p =
     (let a = rf_attrib f; cut = (if rf_len f \<ge> IEEE80211_FCS_LEN then IEEE80211_FCS_LEN else 0) in
      p\<lparr>rf_pkt := rf_pkt f, rf_attrib := a, rf_len := rf_len f - cut, rf_buf := rf_buf f,
        rf_data := rf_data f, rf_tail := rf_tail f - cut, rf_adapter := i, rf_psta := Some sta,
        rf_preorder := (if a_qos a \<and> \<not> is_mcast (a_ra a) then Some (sta, a_priority a) else None)\<rparr>)"

text \<open>The queue of pending frames: beyond the limit its head is dropped.\<close>

definition coop_enqueue :: "nat \<Rightarrow> recv_frame \<Rightarrow> cooperative_rx_group \<Rightarrow> coop_world \<Rightarrow> coop_world" where
  "coop_enqueue i p g w =
     (let q = rtw_enqueue_recvframe p (cg_pending g); n = cg_pending_count g + 1 in
      if n > COOP_PENDING_MAX then
        let (h, q') = dequeue_recvframe q;
            w1 = set_group (upd_stats (\<lambda>s. s\<lparr>st_backpressure := st_backpressure s + 1\<rparr>)
                   (g\<lparr>cg_pending := q', cg_pending_count := n - 1\<rparr>)) w
        in (case h of None \<Rightarrow> w1 | Some d \<Rightarrow> upd_ad i (ad_free d) w1)
      else
        set_group (upd_stats (\<lambda>s. s\<lparr>st_deferred := st_deferred s + 1\<rparr>)
          (g\<lparr>cg_pending := q, cg_pending_count := n, cg_scheduled := True\<rparr>)) w)"

text \<open>
  \<^verbatim>\<open>rtw_coop_rx_submit_helper_frame\<close>: \<^verbatim>\<open>RTW_RX_HANDLED\<close> when the frame was consumed, else
  \<^verbatim>\<open>_FAIL\<close> and the frame, which the caller still owns. \<open>h\<close> is the helper.
\<close>

definition rtw_coop_rx_submit_helper_frame ::
  "recv_frame \<Rightarrow> nat \<Rightarrow> coop_world \<Rightarrow> rx_ret \<times> recv_frame \<times> coop_world" where
  "rtw_coop_rx_submit_helper_frame f h w =
     (case cw_group w of
        None \<Rightarrow> (RX_FAIL, f, w)
      | Some g0 \<Rightarrow>
          if cg_state g0 \<noteq> COOP_ACTIVE then (RX_FAIL, f, w)
          else case cg_primary g0 of
            None \<Rightarrow> (RX_FAIL, f, w)
          | Some i \<Rightarrow>
              if ad_drv_stopped (cw_ad w i) then (RX_FAIL, f, w)
              else
                let g1 = upd_stats (\<lambda>s. s\<lparr>st_candidates := st_candidates s + 1\<rparr>) g0;
                    (f1, c, verdict) = submit_checks g1 (cw_ad w i) f;
                    g2 = g1\<lparr>cg_nonqos := c\<rparr>
                in case verdict of
                     Inl r \<Rightarrow> (RX_FAIL, f1, set_group (upd_stats (count_coop_drop r) g2) w)
                   | Inr sta \<Rightarrow>
                       (case rtw_alloc_recvframe (ad_recv (cw_ad w i)) of
                          (None, rp) \<Rightarrow> (RX_FAIL, f1, set_group (upd_stats (count_coop_drop DropPool) g2) w)
                        | (Some p, rp) \<Rightarrow>
                            let p' = adopt_frame i (sta_key (a_ta (rf_attrib f1))) f1 p;
                                w1 = upd_ad i (\<lambda>ad. ad\<lparr>ad_recv := rp\<rparr>) w;
                                w2 = upd_ad h (ad_free (f1\<lparr>rf_pkt := None\<rparr>)) w1
                            in (RX_HANDLED, f1, coop_enqueue i p' g2 w2)))"

definition rtw_coop_rx_pre_recv_entry ::
  "(recv_frame \<Rightarrow> recv_frame) option \<Rightarrow> recv_frame \<Rightarrow> nat \<Rightarrow> coop_world \<Rightarrow> rx_ret \<times> coop_world" where
  "rtw_coop_rx_pre_recv_entry phy f h w =
     (if \<not> rtw_coop_rx_is_helper h w \<or> \<not> frame_is_data f then (RX_FAIL, w)
      else
        let f1 = coop_parse (case phy of None \<Rightarrow> f | Some q \<Rightarrow> q f);
            (ret, f2, w1) = rtw_coop_rx_submit_helper_frame f1 h w
        in (RX_HANDLED, if ret = RX_HANDLED then w1 else upd_ad h (ad_free f2) w1))"

section \<open>Decryption by the kernel\<close>

text \<open>
  The key is set on the transform only when it differs from the one set last, on whichever
  transform that was.
\<close>

definition kernel_setkey ::
  "coop_env \<Rightarrow> nat \<Rightarrow> u8 list \<Rightarrow> cooperative_rx_group \<Rightarrow> coop_world \<Rightarrow> (cooperative_rx_group \<times> coop_world) option" where
  "kernel_setkey env n key g w =
     (if length key \<noteq> cg_cached_key_len g \<or> key \<noteq> take (length key) (cg_cached_key g) then
        if ce_setkey_ok env key then
          let g1 = g\<lparr>cg_cached_key := key @ drop (length key) (cg_cached_key g), cg_cached_key_len := length key\<rparr>
          in Some (g1, set_group g1 (w\<lparr>cw_tfms := (cw_tfms w)(n := map_option (tf_key_update (\<lambda>_. Some key)) (cw_tfms w n))\<rparr>))
        else None
      else Some (g, w))"

text \<open>The kernel refuses to work without a key; the buffer is as it was.\<close>

definition crypto_aead_decrypt ::
  "coop_env \<Rightarrow> coop_world \<Rightarrow> nat \<Rightarrow> u8 list \<Rightarrow> u8 list \<Rightarrow> u8 list \<Rightarrow> bool \<times> u8 list" where
  "crypto_aead_decrypt env w n iv aad ct =
     (case cw_tfms w n of
        None \<Rightarrow> (False, ct)
      | Some t \<Rightarrow>
          (case tf_key t of
             None \<Rightarrow> (False, ct)
           | Some key \<Rightarrow> ce_aead env (tf_alg t) (tf_authsize t) key iv aad ct))"

definition kernel_key :: "adapter \<Rightarrow> sta_info \<Rightarrow> rx_pkt_attrib \<Rightarrow> u8 list option" where
  "kernel_key primary sta a =
     (let n = (if a_encrypt a = SEC_CCMP_256 \<or> a_encrypt a = SEC_GCMP_256 then 32 else 16); sec = ad_sec primary in
      if is_mcast (a_ra a) then
        if \<not> sec_binstall_grpkey sec then None
        else if sec_grp_keyid sec \<noteq> a_key_index a then None
        else Some (take n (sec_grp_key sec ! a_key_index a))
      else Some (take n (sta_uncst_key sta)))"

definition coop_rx_kernel_decrypt ::
  "coop_env \<Rightarrow> adapter \<Rightarrow> sta_info option \<Rightarrow> recv_frame \<Rightarrow> cooperative_rx_group \<Rightarrow> coop_world \<Rightarrow>
     rx_ret \<times> recv_frame \<times> coop_world" where
  "coop_rx_kernel_decrypt env primary psta f g w =
     (let a = rf_attrib f; enc = a_encrypt a;
          gcm = (enc = SEC_GCMP \<or> enc = SEC_GCMP_256);
          mic = (if enc = SEC_AES then 8 else 16);
          t = (if enc = SEC_AES then cg_tfm_ccm g else if enc = SEC_CCMP_256 then cg_tfm_ccm_256 g
               else if gcm then cg_tfm_gcm g else None)
      in case t of
        None \<Rightarrow> (RX_FAIL, f, w)
      | Some n \<Rightarrow>
      (case Option.bind psta (\<lambda>sta. kernel_key primary sta a) of
        None \<Rightarrow> (RX_FAIL, f, w)
      | Some key \<Rightarrow>
      (case kernel_setkey env n key g w of
        None \<Rightarrow> (RX_FAIL, f, w)
      | Some (g1, w1) \<Rightarrow>
          let hdrlen = a_hdrlen a; len = nat (rf_len f) in
          if len \<le> hdrlen + 8 + mic then (RX_FAIL, f, w1)
          else
            let frame = drop (nat (rf_data f)) (rf_buf f);
                data = rx_bytes f hdrlen 8;
                (aad, nonce) = (if gcm then gcmp_aad_nonce (ad_amsdu_spp primary) frame data
                                else ccmp_aad_nonce (ad_amsdu_spp primary) frame data);
                iv = (if gcm then nonce @ replicate 4 0 else 1 # nonce @ [0, 0]);
                off = hdrlen + 8; crypt_len = len - hdrlen - 8 - mic
            in if \<not> ce_req_ok env then (RX_FAIL, f, w1)
               else
                 let (ok, out) = crypto_aead_decrypt env w1 n iv aad (rx_bytes f off (crypt_len + mic));
                     f1 = f\<lparr>rf_buf := put_bytes (rf_buf f) (nat (rf_data f) + off) out\<rparr>
                 in if \<not> ok then (RX_FAIL, f1, w1)
                    else (RX_SUCCESS, upd_attrib (\<lambda>a. a\<lparr>a_bdecrypted := True\<rparr>) f1,
                          set_group (upd_stats (\<lambda>s. s\<lparr>st_kern_crypto := st_kern_crypto s + 1\<rparr>) g1) w1))))"

section \<open>The drain tasklet\<close>

text \<open>The sequence control the tasklet shares with \<^verbatim>\<open>recv_decache\<close>.\<close>

definition coop_tid :: "rx_pkt_attrib \<Rightarrow> nat" where
  "coop_tid a = (if a_priority a > 15 then 0 else a_priority a)"

definition coop_rxseq :: "rx_pkt_attrib \<Rightarrow> sta_info \<Rightarrow> u16" where
  "coop_rxseq a sta =
     (if a_qos a then
        if is_mcast (a_ra a) then sta_bmc_tid_rxseq sta ! coop_tid a else sta_tid_rxseq sta ! coop_tid a
      else if is_mcast (a_ra a) then sta_nonqos_bmc_rxseq sta else sta_nonqos_rxseq sta)"

definition coop_set_rxseq :: "rx_pkt_attrib \<Rightarrow> u16 \<Rightarrow> sta_info \<Rightarrow> sta_info" where
  "coop_set_rxseq a v sta =
     (if a_qos a then
        if is_mcast (a_ra a) then sta\<lparr>sta_bmc_tid_rxseq := (sta_bmc_tid_rxseq sta)[coop_tid a := v]\<rparr>
        else sta\<lparr>sta_tid_rxseq := (sta_tid_rxseq sta)[coop_tid a := v]\<rparr>
      else if is_mcast (a_ra a) then sta\<lparr>sta_nonqos_bmc_rxseq := v\<rparr>
      else sta\<lparr>sta_nonqos_rxseq := v\<rparr>)"

definition coop_kernel_alg :: "u8 \<Rightarrow> bool" where
  "coop_kernel_alg enc \<longleftrightarrow> enc = SEC_AES \<or> enc = SEC_CCMP_256 \<or> enc = SEC_GCMP \<or> enc = SEC_GCMP_256"

text \<open>
  After decryption: the reorder window of the frame's station and TID, for QoS frames,
  whatever their address; the other frames go straight to \<^verbatim>\<open>recv_process_mpdu\<close>.
\<close>

definition coop_post_decrypt ::
  "coop_env \<Rightarrow> nat \<Rightarrow> mac option \<Rightarrow> recv_frame \<Rightarrow> coop_world \<Rightarrow> (rx_ret \<times> coop_world) option" where
  "coop_post_decrypt env i psta f w =
     (let ad = cw_ad w i in
      if a_qos (rf_attrib f) then
        map_option (\<lambda>(ret, ad'). (ret, upd_ad i (\<lambda>_. ad') w))
          (recv_indicatepkt_reorder (ce_skb_ok env) ad
            (case psta of None \<Rightarrow> f | Some addr \<Rightarrow> f\<lparr>rf_preorder := Some (addr, coop_tid (rf_attrib f))\<rparr>))
      else
        let (ret, rp) = recv_process_mpdu ad (ce_skb_ok env) (ad_recv ad) f
        in Some (ret, upd_ad i (\<lambda>ad. ad\<lparr>ad_recv := rp\<rparr>) w))"

definition coop_posthandle :: "coop_env \<Rightarrow> nat \<Rightarrow> recv_frame \<Rightarrow> coop_world \<Rightarrow> (rx_ret \<times> coop_world) option" where
  "coop_posthandle env i f w =
     map_option (\<lambda>(ret, ad'). (ret, upd_ad i (\<lambda>_. ad') w))
       (recv_func_posthandle (ce_mem env) (ce_skb_ok env) (cw_ad w i) f)"

definition coop_process ::
  "coop_env \<Rightarrow> nat \<Rightarrow> (mac \<times> sta_info) option \<Rightarrow> recv_frame \<Rightarrow> cooperative_rx_group \<Rightarrow> coop_world \<Rightarrow>
     (rx_ret \<times> coop_world) option" where
  "coop_process env i psta f g w =
     (let a = rf_attrib f in
      if a_encrypt a \<noteq> 0 \<and> \<not> a_bdecrypted a then
        if coop_kernel_alg (a_encrypt a) then
          let iv = rx_bytes f (a_hdrlen a) 8;
              f1 = upd_attrib (\<lambda>a. a\<lparr>a_key_index := unat (drop_bit 6 (byte_at iv 3) AND 3)\<rparr>) f;
              (ret, f2, w1) = coop_rx_kernel_decrypt env (cw_ad w i) (map_option snd psta) f1 g w
          in if ret = RX_SUCCESS then
               coop_post_decrypt env i (map_option fst psta) f2
                 (case psta of
                    None \<Rightarrow> w1
                  | Some (addr, _) \<Rightarrow>
                      upd_ad i (sta_update addr (\<lambda>s. s\<lparr>sta_iv := (sta_iv s)[coop_tid a := iv]\<rparr>)) w1)
             else coop_posthandle env i f2 w1
        else coop_posthandle env i f w
      else coop_post_decrypt env i (map_option fst psta) f w)"

text \<open>The counters after a frame; the RSSI of the primary is read after it was processed.\<close>

definition coop_count :: "rx_ret \<Rightarrow> recv_frame \<Rightarrow> int \<Rightarrow> coop_rx_stats \<Rightarrow> coop_rx_stats" where
  "coop_count ret f rssi s =
     (if ret = RX_FAIL then s\<lparr>st_dup_dropped := st_dup_dropped s + 1\<rparr>
      else
        let len = (case rf_pkt f of None \<Rightarrow> 0 | Some k \<Rightarrow> skb_len k);
            s1 = s\<lparr>st_accepted := st_accepted s + 1, st_bytes := st_bytes s + of_nat len\<rparr>
        in if a_recv_signal_power (rf_attrib f) > rssi then s1\<lparr>st_rssi_better := st_rssi_better s1 + 1\<rparr>
           else s1\<lparr>st_rssi_worse := st_rssi_worse s1 + 1\<rparr>)"

abbreviation upd_group :: "(cooperative_rx_group \<Rightarrow> cooperative_rx_group) \<Rightarrow> coop_world \<Rightarrow> coop_world" where
  "upd_group h w \<equiv> w\<lparr>cw_group := map_option h (cw_group w)\<rparr>"

text \<open>One iteration of the loop, on the frame \<open>f\<close> that was taken from the queue.\<close>

definition coop_drain_frame :: "coop_env \<Rightarrow> nat \<Rightarrow> recv_frame \<Rightarrow> coop_world \<Rightarrow> coop_world option" where
  "coop_drain_frame env i f w =
     (case cw_group w of
        None \<Rightarrow> Some w
      | Some g \<Rightarrow>
          let count = map_option (\<lambda>(ret, w').
                upd_group (upd_stats (coop_count ret f (rp_rssi (ad_recv (cw_ad w' i))))) w')
          in (case rf_psta f of
                None \<Rightarrow> count (coop_process env i None f g w)
              | Some addr \<Rightarrow>
          (case ad_stapriv (cw_ad w i) addr of
             None \<Rightarrow> None
           | Some sta \<Rightarrow>
               let a = rf_attrib f;
                   dup = upd_ad i (ad_free f)
                         (upd_group (upd_stats (\<lambda>s. s\<lparr>st_dup_dropped := st_dup_dropped s + 1\<rparr>)) w)
               in if seq_ctrl f = coop_rxseq a sta then Some dup
                  else
                    let claim = coop_set_rxseq a (seq_ctrl f)
                    in if a_qos a \<and> a_priority a \<le> 15 \<and> coop_late sta a
                       then Some (upd_ad i (sta_update addr claim) dup)
                       else count (coop_process env i (Some (addr, claim sta)) f g
                                    (upd_ad i (sta_update addr claim) w)))))"

fun coop_drain_loop :: "coop_env \<Rightarrow> nat \<Rightarrow> nat \<Rightarrow> coop_world \<Rightarrow> coop_world option" where
  "coop_drain_loop env i 0 w = Some w"
| "coop_drain_loop env i (Suc n) w =
     (case cw_group w of
        None \<Rightarrow> Some w
      | Some g \<Rightarrow>
          (case dequeue_recvframe (cg_pending g) of
             (None, q) \<Rightarrow> Some w
           | (Some f, q) \<Rightarrow>
               (case coop_drain_frame env i f
                       (set_group (g\<lparr>cg_pending := q, cg_pending_count := cg_pending_count g - 1\<rparr>) w) of
                  None \<Rightarrow> None
                | Some w1 \<Rightarrow> coop_drain_loop env i n w1)))"

text \<open>\<^verbatim>\<open>_coop_rx_drain_tasklet\<close>: the tasklet runs, so it is no longer scheduled.\<close>

definition coop_rx_drain_tasklet :: "coop_env \<Rightarrow> coop_world \<Rightarrow> coop_world option" where
  "coop_rx_drain_tasklet env w0 =
     (let w = upd_group (\<lambda>g. g\<lparr>cg_scheduled := False\<rparr>) w0 in
      case cw_group w of
        None \<Rightarrow> Some w
      | Some g \<Rightarrow>
          (case cg_primary g of
             None \<Rightarrow> Some w
           | Some i \<Rightarrow>
               if ad_drv_stopped (cw_ad w i) \<or> cg_state g \<noteq> COOP_ACTIVE then Some w
               else map_option (upd_group (\<lambda>g. if cg_pending_count g > 0 then g\<lparr>cg_scheduled := True\<rparr> else g))
                      (coop_drain_loop env i COOP_BATCH_SIZE w)))"

section \<open>The hook in the receive path\<close>

definition rtw_linked_check :: "coop_env \<Rightarrow> adapter \<Rightarrow> bool" where
  "rtw_linked_check env ad =
     (if ad_fw_ap ad \<or> ad_fw_adhoc ad then ce_asoc_sta_count env ad > 2 else ad_fw_asoc ad)"

definition adapter_allow_bmc_data_rx :: "coop_env \<Rightarrow> adapter \<Rightarrow> bool" where
  "adapter_allow_bmc_data_rx env ad =
     (if ad_fw_monitor ad \<or> ad_fw_mp ad then True
      else if ad_fw_ap ad then False
      else rtw_linked_check env ad)"

text \<open>
  \<^verbatim>\<open>pre_recv_entry\<close> on adapter \<open>i\<close>, the only interface of its device; \<open>phy\<close> is
  \<^verbatim>\<open>rx_query_phy_status\<close> with the status that came with the frame, if any.
\<close>

definition pre_recv_entry ::
  "coop_env \<Rightarrow> (adapter \<Rightarrow> recv_frame \<Rightarrow> adapter) \<Rightarrow> (adapter \<Rightarrow> recv_frame \<Rightarrow> u8 list option) \<Rightarrow>
   (recv_frame \<Rightarrow> recv_frame) option \<Rightarrow> nat \<Rightarrow> recv_frame \<Rightarrow> coop_world \<Rightarrow> (rx_ret \<times> coop_world) option" where
  "pre_recv_entry env other radiotap phy i f w =
     (let ad = cw_ad w i; ra = frame_addr f 4;
          free = (RX_SUCCESS, upd_ad i (ad_free f) w);
          entry = map_option (\<lambda>(ret, ad'). (ret, upd_ad i (\<lambda>_. ad') w))
                    (recv_func other radiotap (ce_mem env) (ce_skb_ok env) ad
                      (case phy of None \<Rightarrow> f | Some q \<Rightarrow> q f));
          (coop, w1) = rtw_coop_rx_pre_recv_entry phy f i w
      in if coop = RX_HANDLED then Some (RX_SUCCESS, w1)
         else if cw_drop_primary w \<and> rtw_coop_rx_active w \<and> \<not> rtw_coop_rx_is_helper i w \<and> frame_is_data f
         then Some free
         else if ad_fw_monitor ad then entry
         else if \<not> is_mcast ra then (if ra = ad_mac ad then entry else Some free)
         else if frame_is_data f \<and> \<not> adapter_allow_bmc_data_rx env ad then Some free
         else entry)"

end
