(* ===== verification/Coop_Run.thy ===== *)
theory Coop_Run
  imports Coop_Rx
begin

text \<open>
  Runs of the cooperative group: the step relation of all its operations, interleaved with
  anything the rest of the driver does to the adapters, the invariant of the group in every
  reachable state.
\<close>

section \<open>What the frames cannot change\<close>

definition coop_core :: "cooperative_rx_group \<Rightarrow>
    coop_rx_state \<times> nat option \<times> nat list \<times> nonqos_seq_cache \<times> recv_frame list \<times> int" where
  "coop_core g = (cg_state g, cg_primary g, cg_helpers g, cg_nonqos g, cg_pending g, cg_pending_count g)"

definition core :: "coop_world \<Rightarrow>
    (coop_rx_state \<times> nat option \<times> nat list \<times> nonqos_seq_cache \<times> recv_frame list \<times> int) option" where
  "core w = map_option coop_core (cw_group w)"

lemma upd_ad_group [simp]: "cw_group (upd_ad i h w) = cw_group w"
  by (simp add: upd_ad_def)

lemma upd_ad_other [simp]: "cw_enabled (upd_ad i h w) = cw_enabled w" "cw_tfms (upd_ad i h w) = cw_tfms w"
  "cw_next_tfm (upd_ad i h w) = cw_next_tfm w"
  by (simp_all add: upd_ad_def)

lemma upd_ad_same [simp]: "cw_ad (upd_ad i h w) i = h (cw_ad w i)"
  by (simp add: upd_ad_def)

lemma upd_ad_neq [simp]: "j \<noteq> i \<Longrightarrow> cw_ad (upd_ad i h w) j = cw_ad w j"
  by (simp add: upd_ad_def)

lemma core_upd_ad [simp]: "core (upd_ad i h w) = core w"
  by (simp add: core_def)

lemma core_upd_group: "(\<And>g. coop_core (h g) = coop_core g) \<Longrightarrow> core (upd_group h w) = core w"
  by (cases "cw_group w") (simp_all add: core_def)

lemma core_set_group: "cw_group w = Some g \<Longrightarrow> coop_core g' = coop_core g \<Longrightarrow> core (set_group g' w) = core w"
  by (simp add: core_def)

lemma core_kernel_decrypt:
  assumes "cw_group w = Some g" "coop_rx_kernel_decrypt env ad sta f g w = (ret, f', w')"
  shows "core w' = core w"
  using assms
  by (auto simp: coop_rx_kernel_decrypt_def kernel_setkey_def core_def coop_core_def Let_def
      split: if_splits option.splits prod.splits)

lemma core_post_decrypt: "coop_post_decrypt env i psta f w = Some (ret, w') \<Longrightarrow> core w' = core w"
  by (auto simp: coop_post_decrypt_def Let_def split: if_splits prod.splits)

lemma core_posthandle: "coop_posthandle env i f w = Some (ret, w') \<Longrightarrow> core w' = core w"
  by (auto simp: coop_posthandle_def)

lemma core_process:
  assumes "cw_group w = Some g" "coop_process env i psta f g w = Some (ret, w')"
  shows "core w' = core w"
  using assms(2) unfolding coop_process_def Let_def
  by (auto dest!: core_post_decrypt core_posthandle dest: core_kernel_decrypt [OF assms(1)]
      split: if_splits option.splits prod.splits)

lemma core_drain_frame:
  assumes "coop_drain_frame env i f w = Some w'"
  shows "core w' = core w"
proof (cases "cw_group w")
  case None
  then show ?thesis using assms by (simp add: coop_drain_frame_def)
next
  case (Some g)
  have st: "core (upd_group (upd_stats h) v) = core v" for h v
    by (rule core_upd_group) (simp add: coop_core_def)
  have dup: "core (set_group (upd_stats h g) w) = core w" for h
    by (rule core_set_group [OF Some]) (simp add: coop_core_def)
  show ?thesis
    using assms Some
    by (auto simp: coop_drain_frame_def Let_def st dup split: option.splits if_splits dest!: core_process [rotated])
qed

section \<open>The invariant of the group\<close>

definition nonqos_ok :: "nonqos_seq_cache \<Rightarrow> bool" where
  "nonqos_ok c \<longleftrightarrow> (\<exists>r. nonqos_rel c r)"

lemma nonqos_ok_empty [simp]: "nonqos_ok empty_nonqos"
  using nonqos_rel_empty by (auto simp: nonqos_ok_def)

definition group_ok :: "cooperative_rx_group \<Rightarrow> bool" where
  "group_ok g \<longleftrightarrow> distinct (cg_helpers g) \<and> length (cg_helpers g) \<le> COOP_MAX_HELPERS
     \<and> cg_state g \<noteq> COOP_DISABLED
     \<and> (cg_state g = COOP_BINDING \<or> cg_state g = COOP_ACTIVE \<longrightarrow> cg_primary g \<noteq> None)
     \<and> (cg_state g = COOP_ACTIVE \<longrightarrow> cg_helpers g \<noteq> [])
     \<and> (cg_primary g = None \<longrightarrow> cg_helpers g = [] \<and> cg_pending g = [])
     \<and> cg_pending_count g = int (length (cg_pending g)) \<and> cg_pending_count g \<le> COOP_PENDING_MAX
     \<and> nonqos_ok (cg_nonqos g)"

definition world_ok :: "coop_world \<Rightarrow> bool" where
  "world_ok w \<longleftrightarrow> (\<forall>g. cw_group w = Some g \<longrightarrow> group_ok g)"

lemma group_ok_core: "coop_core g = coop_core g' \<Longrightarrow> group_ok g = group_ok g'"
  by (simp add: coop_core_def group_ok_def)

lemma world_ok_core: "core w = core w' \<Longrightarrow> world_ok w = world_ok w'"
  by (cases "cw_group w"; cases "cw_group w'") (auto simp: core_def world_ok_def dest: group_ok_core)

lemma world_ok_set: "group_ok g \<Longrightarrow> world_ok (set_group g w)"
  by (simp add: world_ok_def)

lemma nonqos_ok_step [simp]: "nonqos_ok c \<Longrightarrow> nonqos_ok (snd (coop_nonqos_check_and_record c s ta))"
  using nonqos_hit nonqos_record
  by (fastforce simp: nonqos_ok_def coop_nonqos_check_and_record_def COOP_NONQOS_SEQ_CACHE_SZ_def)

lemma ok_init: "world_ok w \<Longrightarrow> rtw_coop_rx_init env w = (ret, w') \<Longrightarrow> world_ok w'"
  by (auto simp: rtw_coop_rx_init_def world_ok_def group_ok_def new_group_def COOP_PENDING_MAX_def split: if_splits)

lemma core_crypto_init: "core (coop_rx_crypto_init env w) = core w"
  by (cases "cw_group w")
    (auto simp: coop_rx_crypto_init_def crypto_alloc_aead_def core_def coop_core_def Let_def split: prod.splits if_splits)

lemma core_crypto_deinit: "core (coop_rx_crypto_deinit w) = core w"
  by (cases "cw_group w") (auto simp: coop_rx_crypto_deinit_def core_def coop_core_def)

lemma group_crypto_free [simp]: "cw_group (crypto_free_aead t w) = cw_group w"
  by (simp add: crypto_free_aead_def split: option.splits)

lemma drain_to_pool_group:
  "cw_group (drain_to_pool ow w) = map_option (\<lambda>g. g\<lparr>cg_pending := [],
     cg_pending_count := cg_pending_count g - int (length (cg_pending g))\<rparr>) (cw_group w)"
  by (auto simp: drain_to_pool_def Let_def split: option.splits)

lemma ok_drain_to_pool: "world_ok w \<Longrightarrow> world_ok (drain_to_pool ow w)"
  by (auto simp: world_ok_def drain_to_pool_group group_ok_def COOP_PENDING_MAX_def)

lemma ok_deinit: "world_ok (rtw_coop_rx_deinit w)" if "world_ok w"
  using that by (auto simp: rtw_coop_rx_deinit_def world_ok_def split: option.splits)

lemma ok_set_primary: "world_ok w \<Longrightarrow> rtw_coop_rx_set_primary i w = (ret, w') \<Longrightarrow> world_ok w'"
  by (auto simp: rtw_coop_rx_set_primary_def world_ok_def group_ok_def split: if_splits option.splits)

lemma ok_add_helper: "world_ok w \<Longrightarrow> rtw_coop_rx_add_helper i w = (ret, w') \<Longrightarrow> world_ok w'"
  by (auto simp: rtw_coop_rx_add_helper_def world_ok_def group_ok_def split: if_splits option.splits)

lemma ok_remove_helper: "world_ok w \<Longrightarrow> rtw_coop_rx_remove_helper i w = (ret, w') \<Longrightarrow> world_ok w'"
  by (auto simp: rtw_coop_rx_remove_helper_def world_ok_def group_ok_def Let_def length_remove1
      split: if_splits option.splits)

lemma ok_clear:
  assumes "world_ok w" "\<forall>g. cw_group w = Some g \<longrightarrow> cg_pending g = []"
  shows "world_ok (upd_group (\<lambda>g. upd_stats h
    (g\<lparr>cg_primary := None, cg_helpers := [], cg_state := COOP_IDLE, cg_scheduled := False\<rparr>)) w)"
  using assms by (auto simp: world_ok_def group_ok_def)

lemma ok_remove_adapter: "world_ok w \<Longrightarrow> world_ok (rtw_coop_rx_remove_adapter i w)"
proof -
  assume ok: "world_ok w"
  obtain ret w1 where r: "rtw_coop_rx_remove_helper i w = (ret, w1)" by (cases "rtw_coop_rx_remove_helper i w")
  note ok1 = ok_remove_helper [OF ok r]
  have clear: "\<forall>g. cw_group (drain_to_pool (Some i) w1) = Some g \<longrightarrow> cg_pending g = []"
    by (auto simp: drain_to_pool_group)
  show ?thesis
    using ok ok1 ok_clear [OF ok_drain_to_pool [OF ok1] clear,
        of "\<lambda>s. s\<lparr>st_fallback_events := st_fallback_events s + 1\<rparr>"]
    by (simp add: rtw_coop_rx_remove_adapter_def Let_def r)
qed

lemma ok_discover: "world_ok w \<Longrightarrow> rtw_coop_rx_auto_discover_helpers ns i w = (n, w') \<Longrightarrow> world_ok w'"
proof (induction ns arbitrary: w n)
  case (Cons m ns)
  then show ?case
    using ok_add_helper by (auto simp: Let_def split: if_splits prod.splits) metis+
qed simp

lemma core_enable_monitor: "core (rtw_coop_rx_enable_helper_monitor env h ch w) = core w"
  by (simp add: rtw_coop_rx_enable_helper_monitor_def split: prod.splits)

lemma core_fold: "(\<And>h v. core (k h v) = core v) \<Longrightarrow> core (fold k hs w) = core w"
  by (induction hs arbitrary: w) simp_all

lemma ok_bind: "world_ok w \<Longrightarrow> rtw_coop_rx_bind_session env i w = (ret, w') \<Longrightarrow> world_ok w'"
proof -
  assume ok: "world_ok w" and b: "rtw_coop_rx_bind_session env i w = (ret, w')"
  show ?thesis
  proof (cases "ret = COOP_OK")
    case False
    then show ?thesis using ok b by (auto simp: rtw_coop_rx_bind_session_def Let_def split: if_splits option.splits)
  next
    case True
    then obtain g where g: "cw_group w = Some g" "cg_primary g = Some i"
      using b by (auto simp: rtw_coop_rx_bind_session_def split: if_splits option.splits)
    define ad where "ad = cw_ad w i"
    define g1 where "g1 = g\<lparr>cg_bound_bssid := (if ad_fw_ap ad then ad_mac ad else ad_cur_net_mac ad),
         cg_bound_channel := ad_cur_channel ad, cg_bound_bw := ad_cur_bwmode ad, cg_nonqos := empty_nonqos,
         cg_state := (if cg_helpers g \<noteq> [] then COOP_ACTIVE else cg_state g)\<rparr>"
    have "w' = fold (\<lambda>h. rtw_coop_rx_enable_helper_monitor env h (cg_bound_channel g1)) (cg_helpers g1)
        (coop_rx_crypto_init env (set_group g1 w))"
      using b True g unfolding rtw_coop_rx_bind_session_def Let_def g1_def ad_def
      by (auto split: if_splits)
    then have "core w' = core (set_group g1 w)"
      by (simp add: core_fold [OF core_enable_monitor] core_crypto_init)
    moreover have "group_ok g1"
      using ok g by (auto simp: world_ok_def group_ok_def g1_def)
    ultimately show ?thesis using world_ok_core world_ok_set by blast
  qed
qed

lemma ok_notify: "world_ok w \<Longrightarrow> world_ok (rtw_coop_rx_notify_channel_switch env i w)"
proof (cases "cw_group w")
  case (Some g)
  assume ok: "world_ok w"
  have set: "core (set_group (g\<lparr>cg_bound_channel := ch, cg_bound_bw := bw\<rparr>) w) = core w" for ch bw
    by (rule core_set_group [OF Some]) (simp add: coop_core_def)
  have "core (fold (\<lambda>h v. if ad_dev_up (cw_ad v h) then upd_ad h k v else v) hs v) = core v" for k hs v
    by (rule core_fold) simp
  then have "core (rtw_coop_rx_notify_channel_switch env i w) = core w"
    using Some by (simp add: rtw_coop_rx_notify_channel_switch_def Let_def set)
  then show ?thesis using ok world_ok_core by blast
qed (simp add: rtw_coop_rx_notify_channel_switch_def)

lemma world_ok_map: "world_ok w \<Longrightarrow> (\<And>g. group_ok g \<Longrightarrow> group_ok (h g)) \<Longrightarrow> world_ok (upd_group h w)"
  by (auto simp: world_ok_def)

lemma group_ok_idle:
  assumes "group_ok g" "cg_state g = COOP_ACTIVE \<or> cg_state g = COOP_BINDING"
  shows "group_ok (g\<lparr>cg_state := (if cg_primary g \<noteq> None then COOP_IDLE else COOP_DISABLED),
    cg_bound_bssid := z, cg_bound_channel := n\<rparr>)"
proof -
  have "cg_primary g \<noteq> None" using assms by (auto simp: group_ok_def)
  then show ?thesis using assms(1) by (simp add: group_ok_def)
qed

lemma ok_unbind: "world_ok w \<Longrightarrow> world_ok (rtw_coop_rx_unbind_session w)"
proof (cases "cw_group w")
  case (Some g)
  assume ok: "world_ok w"
  define w1 where "w1 = coop_rx_crypto_deinit w"
  have ok1: "world_ok w1" using ok world_ok_core core_crypto_deinit unfolding w1_def by blast
  have "world_ok (drain_to_pool (cg_primary g) (upd_group (\<lambda>g.
       if cg_state g = COOP_ACTIVE \<or> cg_state g = COOP_BINDING then
         g\<lparr>cg_state := (if cg_primary g \<noteq> None then COOP_IDLE else COOP_DISABLED),
           cg_bound_bssid := replicate 6 0, cg_bound_channel := 0\<rparr>
       else g) w1))"
    by (rule ok_drain_to_pool [OF world_ok_map [OF ok1]]) (use group_ok_idle in \<open>simp split: if_split\<close>)
  then show ?thesis
    using Some unfolding rtw_coop_rx_unbind_session_def Let_def w1_def by simp
qed (simp add: rtw_coop_rx_unbind_session_def)

section \<open>Frames and the drain keep the invariant\<close>

lemma submit_checks_nonqos:
  assumes "submit_checks g ad f = (f', c, v)" "nonqos_ok (cg_nonqos g)"
  shows "nonqos_ok c"
proof -
  have "nonqos_ok (fst (snd (submit_checks g ad f)))"
    using assms(2) by (simp add: submit_checks_def Let_def split_beta split: option.split)
  then show ?thesis using assms(1) by simp
qed

lemma snoc_eq_Cons: "xs @ [x] = y # ys \<Longrightarrow> length ys = length xs"
  by (cases xs) auto

lemma ok_enqueue: "group_ok g \<Longrightarrow> cg_primary g = Some i \<Longrightarrow> world_ok (coop_enqueue j p g w)"
  by (auto simp: coop_enqueue_def world_ok_def group_ok_def Let_def rtw_enqueue_recvframe_def dequeue_recvframe_def
      split: if_splits option.splits prod.splits list.splits dest!: snoc_eq_Cons)

lemma ok_submit:
  assumes ok: "world_ok w" and run: "rtw_coop_rx_submit_helper_frame f h w = (ret, f', w')"
  shows "world_ok w'"
proof (cases "cw_group w")
  case None
  then show ?thesis using ok run by (simp add: rtw_coop_rx_submit_helper_frame_def)
next
  case (Some g)
  show ?thesis
  proof (cases "cg_state g = COOP_ACTIVE \<and> (\<exists>i. cg_primary g = Some i \<and> \<not> ad_drv_stopped (cw_ad w i))")
    case False
    then show ?thesis
      using ok run Some by (auto simp: rtw_coop_rx_submit_helper_frame_def split: if_splits option.splits)
  next
    case True
    then obtain i where act: "cg_state g = COOP_ACTIVE" "cg_primary g = Some i" "\<not> ad_drv_stopped (cw_ad w i)" by blast
    define g1 where "g1 = upd_stats (\<lambda>s. s\<lparr>st_candidates := st_candidates s + 1\<rparr>) g"
    obtain f1 c v where chk: "submit_checks g1 (cw_ad w i) f = (f1, c, v)"
      by (cases "submit_checks g1 (cw_ad w i) f") auto
    have g: "group_ok g" using ok Some by (simp add: world_ok_def)
    then have "nonqos_ok c" using submit_checks_nonqos [OF chk] by (simp add: g1_def group_ok_def)
    then have g2: "group_ok (g1\<lparr>cg_nonqos := c\<rparr>)" using g by (simp add: group_ok_def g1_def)
    have drop: "world_ok (set_group (upd_stats k (g1\<lparr>cg_nonqos := c\<rparr>)) w)" for k
      by (rule world_ok_set) (use g2 in \<open>simp add: group_ok_def\<close>)
    have enq: "world_ok (coop_enqueue i p (g1\<lparr>cg_nonqos := c\<rparr>) v)" for p v
      by (rule ok_enqueue [OF g2]) (simp add: g1_def act)
    show ?thesis
      using run Some act chk drop enq unfolding rtw_coop_rx_submit_helper_frame_def Let_def g1_def
      by (auto split: sum.splits option.splits prod.splits)
  qed
qed

lemma ok_pre_entry: "world_ok w \<Longrightarrow> rtw_coop_rx_pre_recv_entry phy f h w = (ret, w') \<Longrightarrow> world_ok w'"
proof -
  assume ok: "world_ok w" and run: "rtw_coop_rx_pre_recv_entry phy f h w = (ret, w')"
  define f1 where "f1 = coop_parse (case phy of None \<Rightarrow> f | Some q \<Rightarrow> q f)"
  obtain r f2 w1 where sub: "rtw_coop_rx_submit_helper_frame f1 h w = (r, f2, w1)"
    by (cases "rtw_coop_rx_submit_helper_frame f1 h w") auto
  have "world_ok w1" by (rule ok_submit [OF ok sub])
  then have "world_ok (upd_ad h k w1)" for k by (simp add: world_ok_def)
  then show ?thesis
    using ok run \<open>world_ok w1\<close> sub
    by (auto simp: rtw_coop_rx_pre_recv_entry_def Let_def f1_def split: if_splits)
qed

lemma ok_drain_loop: "world_ok w \<Longrightarrow> coop_drain_loop env i n w = Some w' \<Longrightarrow> world_ok w'"
proof (induction n arbitrary: w)
  case (Suc n)
  show ?case
  proof (cases "cw_group w")
    case None
    then show ?thesis using Suc by simp
  next
    case (Some g)
    show ?thesis
    proof (cases "cg_pending g")
      case Nil
      then show ?thesis using Suc Some by (simp add: dequeue_recvframe_def)
    next
      case (Cons f q)
      define v where "v = set_group (g\<lparr>cg_pending := q, cg_pending_count := cg_pending_count g - 1\<rparr>) w"
      obtain w1 where w1: "coop_drain_frame env i f v = Some w1" "coop_drain_loop env i n w1 = Some w'"
        using Suc(3) Some Cons by (auto simp: dequeue_recvframe_def v_def split: option.splits)
      have "group_ok g" using Suc(2) Some by (simp add: world_ok_def)
      then have "world_ok v"
        unfolding v_def by (intro world_ok_set) (auto simp: group_ok_def Cons)
      then have "world_ok w1" using core_drain_frame [OF w1(1)] world_ok_core by blast
      then show ?thesis using Suc(1) w1(2) by blast
    qed
  qed
qed simp

lemma ok_flag: "world_ok w \<Longrightarrow> world_ok (upd_group (\<lambda>g. if P g then g\<lparr>cg_scheduled := b\<rparr> else g) w)"
  by (rule world_ok_map) (simp_all add: group_ok_def)

lemma ok_drain: "world_ok w \<Longrightarrow> coop_rx_drain_tasklet env w = Some w' \<Longrightarrow> world_ok w'"
proof -
  assume ok: "world_ok w" and run: "coop_rx_drain_tasklet env w = Some w'"
  define v where "v = upd_group (\<lambda>g. g\<lparr>cg_scheduled := False\<rparr>) w"
  have v: "world_ok v" using ok_flag [OF ok, of "\<lambda>_. True" False] by (simp add: v_def)
  show ?thesis
    using run v unfolding coop_rx_drain_tasklet_def Let_def v_def [symmetric]
    by (auto split: option.splits if_splits dest: ok_drain_loop intro: ok_flag)
qed

section \<open>Runs\<close>

text \<open>
  Every operation of the group, in any order, with anything else the driver does to the
  adapters and the module parameters in between.
\<close>

inductive coop_step :: "coop_env \<Rightarrow> coop_world \<Rightarrow> coop_world \<Rightarrow> bool" for env where
  init: "coop_step env w (snd (rtw_coop_rx_init env w))"
| deinit: "coop_step env w (rtw_coop_rx_deinit w)"
| set_primary: "coop_step env w (snd (rtw_coop_rx_set_primary i w))"
| add_helper: "coop_step env w (snd (rtw_coop_rx_add_helper i w))"
| remove_helper: "coop_step env w (snd (rtw_coop_rx_remove_helper i w))"
| remove_adapter: "coop_step env w (rtw_coop_rx_remove_adapter i w)"
| discover: "coop_step env w (snd (rtw_coop_rx_auto_discover_helpers ns i w))"
| bind_session: "coop_step env w (snd (rtw_coop_rx_bind_session env i w))"
| channel_switch: "coop_step env w (rtw_coop_rx_notify_channel_switch env i w)"
| unbind_session: "coop_step env w (rtw_coop_rx_unbind_session w)"
| reset_stats: "coop_step env w (w\<lparr>cw_group := map_option (upd_stats (\<lambda>_. coop_rx_stats_reset)) (cw_group w)\<rparr>)"
| helper_frame: "coop_step env w (snd (rtw_coop_rx_pre_recv_entry phy f h w))"
| drain: "coop_rx_drain_tasklet env w = Some w' \<Longrightarrow> coop_step env w w'"
| driver: "coop_step env w (w\<lparr>cw_ad := ads, cw_enabled := en, cw_drop_primary := dp\<rparr>)"

inductive coop_reach :: "coop_env \<Rightarrow> coop_world \<Rightarrow> bool" for env where
  start: "cw_group w = None \<Longrightarrow> coop_reach env w"
| step: "coop_reach env w \<Longrightarrow> coop_step env w w' \<Longrightarrow> coop_reach env w'"

lemma coop_step_ok:
  assumes "coop_step env w w'" "world_ok w"
  shows "world_ok w'"
  using assms
proof (induction rule: coop_step.induct)
  case (driver w ads en dp)
  then show ?case by (simp add: world_ok_def)
next
  case (reset_stats w)
  then show ?case by (auto simp: world_ok_def group_ok_def)
next
  case (drain w w')
  then show ?case by (blast intro: ok_drain)
qed (blast intro: ok_init ok_deinit ok_set_primary ok_add_helper ok_remove_helper ok_remove_adapter ok_discover
       ok_bind ok_notify ok_unbind ok_pre_entry prod.collapse [symmetric])+

lemma coop_reach_ok: "coop_reach env w \<Longrightarrow> world_ok w"
proof (induction rule: coop_reach.induct)
  case (start w)
  then show ?case by (simp add: world_ok_def)
qed (blast intro: coop_step_ok)

section \<open>Properties\<close>


text \<open>An environment in which everything succeeds, and two adapters.\<close>

definition ex_env :: coop_env where
  "ex_env = \<lparr>ce_group_ok = True, ce_tfm_ok = (\<lambda>_. True), ce_req_ok = True, ce_setkey_ok = (\<lambda>_. True),
     ce_aead = (\<lambda>_ _ _ _ _ ct. (True, take (length ct - 8) ct)), ce_dev_open = (\<lambda>ad. ad),
     ce_set_monitor = (\<lambda>ad. ad\<lparr>ad_fw_monitor := True\<rparr>), ce_acs_stop = (\<lambda>ad. ad),
     ce_set_channel_bwmode = (\<lambda>ch off bw ad. ad\<lparr>ad_oper_channel := ch\<rparr>),
     ce_asoc_sta_count = (\<lambda>_. 1), ce_mem = (\<lambda>_. True), ce_skb_ok = (\<lambda>_. True)\<rparr>"

definition ex_world :: coop_world where
  "ex_world = \<lparr>cw_enabled = True, cw_drop_primary = False, cw_group = None,
     cw_ad = (\<lambda>_. ex_adapter)(2 := ex_adapter\<lparr>ad_id := 2, ad_mac := [2, 0, 0, 0, 0, 7]\<rparr>),
     cw_tfms = (\<lambda>_. None), cw_next_tfm = 0\<rparr>"

definition ex_paired :: coop_world where
  "ex_paired = snd (rtw_coop_rx_add_helper 2 (snd (rtw_coop_rx_set_primary 1 (snd (rtw_coop_rx_init ex_env ex_world)))))"

definition ex_bound :: coop_world where
  "ex_bound = snd (rtw_coop_rx_bind_session ex_env 1 ex_paired)"

lemma ex_bound_reach: "coop_reach ex_env ex_bound"
  unfolding ex_bound_def ex_paired_def
  by (intro step [OF _ bind_session] step [OF _ add_helper] step [OF _ set_primary] step [OF _ coop_step.init] start)
    (simp add: ex_world_def)

lemma ex_bound_group:
  "map_option cg_state (cw_group ex_bound) = Some COOP_ACTIVE"
  "map_option cg_helpers (cw_group ex_bound) = Some [2]"
  by code_simp+


end
