(* ===== verification/Coop_Submit.thy ===== *)
theory Coop_Submit
  imports Coop_Run
begin

text \<open>
  Which frames a helper may put into the queue of pending frames, and where the frame, its
  socket buffer and the frame lent by the primary are afterwards
  (\<^verbatim>\<open>rtw_coop_rx_submit_helper_frame\<close>, \<^verbatim>\<open>rtw_coop_rx_pre_recv_entry\<close>).
\<close>

section \<open>Submission\<close>

lemma submit_cases:
  assumes "rtw_coop_rx_submit_helper_frame f h w = (ret, f', w')" "cw_group w = Some g"
  obtains
    (refused) g' where "ret = RX_FAIL" "cw_group w' = Some g'" "cg_pending g' = cg_pending g" "cw_ad w' = cw_ad w"
      "rf_id f' = rf_id f" "cg_primary g' = cg_primary g"
  | (taken) i sta p rp c k g2 where "ret = RX_HANDLED" "cg_state g = COOP_ACTIVE" "cg_primary g = Some i"
      "\<not> ad_drv_stopped (cw_ad w i)" "submit_checks (upd_stats k g) (cw_ad w i) f = (f', c, Inr sta)"
      "rtw_alloc_recvframe (ad_recv (cw_ad w i)) = (Some p, rp)" "g2 = (upd_stats k g)\<lparr>cg_nonqos := c\<rparr>"
      "w' = coop_enqueue i (adopt_frame i (sta_key (a_ta (rf_attrib f'))) f' p) g2
         (upd_ad h (ad_free (f'\<lparr>rf_pkt := None\<rparr>)) (upd_ad i (\<lambda>ad. ad\<lparr>ad_recv := rp\<rparr>) w))"
proof -
  note sub = assms(1) [unfolded rtw_coop_rx_submit_helper_frame_def assms(2) option.case]
  show ?thesis
  proof (cases "cg_state g = COOP_ACTIVE \<and> (\<exists>i. cg_primary g = Some i \<and> \<not> ad_drv_stopped (cw_ad w i))")
    case False
    then show ?thesis
      using sub refused assms(2) by (auto split: if_splits option.splits)
  next
    case True
    then obtain i where act: "cg_state g = COOP_ACTIVE" "cg_primary g = Some i" "\<not> ad_drv_stopped (cw_ad w i)" by blast
    let ?k = "\<lambda>s. s\<lparr>st_candidates := st_candidates s + 1\<rparr>"
    obtain f1 c v where chk: "submit_checks (upd_stats ?k g) (cw_ad w i) f = (f1, c, v)"
      by (cases "submit_checks (upd_stats ?k g) (cw_ad w i) f") auto
    have id: "rf_id f1 = rf_id f"
      using chk by (auto simp: submit_checks_def Let_def split: if_splits option.splits prod.splits)
    show ?thesis
    proof (cases v)
      case (Inl r)
      then show ?thesis using sub act chk id refused by (auto simp: Let_def)
    next
      case (Inr sta)
      obtain po rp where al: "rtw_alloc_recvframe (ad_recv (cw_ad w i)) = (po, rp)"
        by (cases "rtw_alloc_recvframe (ad_recv (cw_ad w i))")
      show ?thesis
      proof (cases po)
        case None
        then show ?thesis using sub act chk id Inr al refused by (auto simp: Let_def)
      next
        case (Some p)
        show ?thesis
          by (rule taken [of i ?k c sta p rp "(upd_stats ?k g)\<lparr>cg_nonqos := c\<rparr>"])
            (use sub act chk Inr al Some in \<open>auto simp: Let_def\<close>)
      qed
    qed
  qed
qed

lemma submit_checks_ok:
  assumes "submit_checks g ad f = (f', c, Inr sta)"
  shows "coop_addr_ok g ad (rf_attrib f) \<and> \<not> a_crc_err (rf_attrib f) \<and> \<not> a_icv_err (rf_attrib f)
    \<and> rtw_get_stainfo ad (a_ta (rf_attrib f)) = Some sta \<and> f' = f\<lparr>rf_attrib := coop_fix_encrypt ad sta (rf_attrib f)\<rparr>
    \<and> \<not> coop_stale_pn sta f'"
  using assms by (auto simp: submit_checks_def Let_def split: if_splits option.splits prod.splits)

lemma coop_addr_ok_stats [simp]: "coop_addr_ok (upd_stats k g) ad a = coop_addr_ok g ad a"
  by (simp add: coop_addr_ok_def)

lemma coop_parse_attrib:
  "a_to_fr_ds (rf_attrib (coop_parse f)) = to_fr_ds_of f"
  "a_ta (rf_attrib (coop_parse f)) = frame_addr f 10" "a_ra (rf_attrib (coop_parse f)) = frame_addr f 4"
  "a_crc_err (rf_attrib (coop_parse f)) = a_crc_err (rf_attrib f)"
  "a_icv_err (rf_attrib (coop_parse f)) = a_icv_err (rf_attrib f)"
  "rf_id (coop_parse f) = rf_id f" "rf_pkt (coop_parse f) = rf_pkt f"
  by (simp_all add: coop_parse_def set_addrs_def Let_def)

text \<open>
  C21. Only frames of the bound network reach the queue: when a frame received by an adapter
  changes the queue of pending frames, the adapter is a helper of an active group whose
  primary runs, the frame is an intact data frame, and it is a downlink frame sent by the
  bound access point to the primary or to a group, or an uplink frame to the primary
  working as the access point of the bound network.
\<close>

theorem coop_accepts_only_bound_bss:
  assumes "rtw_coop_rx_pre_recv_entry phy f h w = (ret, w')" "cw_group w = Some g" "cw_group w' = Some g'"
    and "cg_pending g' \<noteq> cg_pending g" "f0 = (case phy of None \<Rightarrow> f | Some q \<Rightarrow> q f)"
  shows "ret = RX_HANDLED \<and> rtw_coop_rx_is_helper h w \<and> cg_state g = COOP_ACTIVE \<and> frame_is_data f
    \<and> \<not> a_crc_err (rf_attrib f0) \<and> \<not> a_icv_err (rf_attrib f0)
    \<and> (\<exists>i. cg_primary g = Some i \<and> \<not> ad_drv_stopped (cw_ad w i)
        \<and> (to_fr_ds_of f0 = 2 \<and> frame_addr f0 10 = cg_bound_bssid g
             \<and> (is_mcast (frame_addr f0 4) \<or> frame_addr f0 4 = ad_mac (cw_ad w i))
           \<or> to_fr_ds_of f0 = 1 \<and> ad_fw_ap (cw_ad w i) \<and> frame_addr f0 4 = cg_bound_bssid g))"
proof -
  obtain r f2 w1 where sub: "rtw_coop_rx_submit_helper_frame (coop_parse f0) h w = (r, f2, w1)"
    by (cases "rtw_coop_rx_submit_helper_frame (coop_parse f0) h w") auto
  have go: "rtw_coop_rx_is_helper h w \<and> frame_is_data f" and ret: "ret = RX_HANDLED"
    and w': "cw_group w' = cw_group w1"
    using assms sub by (auto simp: rtw_coop_rx_pre_recv_entry_def Let_def split: if_splits)
  show ?thesis
    using sub assms(2)
  proof (cases rule: submit_cases)
    case (refused g1)
    then show ?thesis using assms(3,4) w' by simp
  next
    case (taken i sta p rp c k g2)
    note ok = submit_checks_ok [OF taken(5)]
    have "coop_addr_ok g (cw_ad w i) (rf_attrib (coop_parse f0))" using ok by simp
    then show ?thesis
      using go ret taken(2,3,4) ok by (auto simp: coop_addr_ok_def coop_parse_attrib split: if_splits)
  qed
qed

lemma enqueue_ids:
  assumes "cw_group (coop_enqueue i p g w) = Some g'"
  shows "pool_ids (ad_recv (cw_ad (coop_enqueue i p g w) i)) + frame_ids (cg_pending g')
      = pool_ids (ad_recv (cw_ad w i)) + frame_ids (cg_pending g) + {#rf_id p#}"
    and "j \<noteq> i \<Longrightarrow> cw_ad (coop_enqueue i p g w) j = cw_ad w j"
    and "set (cg_pending g') \<subseteq> insert p (set (cg_pending g))"
  using assms
  by (cases "cg_pending g"; auto simp: coop_enqueue_def Let_def rtw_enqueue_recvframe_def dequeue_recvframe_def ad_free_def
      split: if_splits)+

text \<open>
  A frame of a helper, its buffer and the frame the primary lends for it end up in
  one place each: the helper's frame is back in the helper's pool whether or not the frame
  is taken; the frames of the primary's pool and of the queue stay the same together; and
  a frame new in the queue carries the socket buffer of the helper's frame.
\<close>

theorem coop_submission_conserves:
  assumes "rtw_coop_rx_pre_recv_entry phy f h w = (RX_HANDLED, w')" "cw_group w = Some g" "cw_group w' = Some g'"
    and "cg_primary g = Some i" "h \<noteq> i" "f0 = (case phy of None \<Rightarrow> f | Some q \<Rightarrow> q f)" "rf_id f0 = rf_id f"
  shows "pool_ids (ad_recv (cw_ad w' h)) = pool_ids (ad_recv (cw_ad w h)) + {#rf_id f#}
    \<and> pool_ids (ad_recv (cw_ad w' i)) + frame_ids (cg_pending g')
        = pool_ids (ad_recv (cw_ad w i)) + frame_ids (cg_pending g)
    \<and> (\<forall>p \<in> set (cg_pending g') - set (cg_pending g). rf_pkt p = rf_pkt f0 \<and> rf_adapter p = i)"
proof -
  obtain r f2 w1 where sub: "rtw_coop_rx_submit_helper_frame (coop_parse f0) h w = (r, f2, w1)"
    by (cases "rtw_coop_rx_submit_helper_frame (coop_parse f0) h w") auto
  have w': "w' = (if r = RX_HANDLED then w1 else upd_ad h (ad_free f2) w1)"
    using assms(1,6) sub by (auto simp: rtw_coop_rx_pre_recv_entry_def Let_def split: if_splits)
  show ?thesis
    using sub assms(2)
  proof (cases rule: submit_cases)
    case (refused g1)
    then show ?thesis
      using assms w' by (simp add: ad_free_def coop_parse_attrib)
  next
    case (taken j sta p rp c k g2)
    have j: "j = i" using taken(3) assms(4) by simp
    define q where "q = adopt_frame i (sta_key (a_ta (rf_attrib f2))) f2 p"
    define v where "v = upd_ad h (ad_free (f2\<lparr>rf_pkt := None\<rparr>)) (upd_ad i (\<lambda>ad. ad\<lparr>ad_recv := rp\<rparr>) w)"
    have w1: "w1 = coop_enqueue i q g2 v" using taken(8) by (simp add: j q_def v_def)
    have eq: "w' = w1" using w' taken(1) by simp
    have g': "cw_group (coop_enqueue i q g2 v) = Some g'" using assms(3) eq w1 by simp
    have f2: "rf_id f2 = rf_id f" "rf_pkt f2 = rf_pkt f0"
      using submit_checks_ok [OF taken(5)] assms(7) by (simp_all add: coop_parse_attrib)
    have vi: "cw_ad v i = (cw_ad w i)\<lparr>ad_recv := rp\<rparr>" and vh: "cw_ad v h = ad_free (f2\<lparr>rf_pkt := None\<rparr>) (cw_ad w h)"
      using assms(5) by (simp_all add: v_def)
    have al: "pool_ids (ad_recv (cw_ad w i)) = add_mset (rf_id p) (pool_ids rp)"
      using pool.alloc_Some [OF taken(6) [unfolded j]] .
    have g2: "cg_pending g2 = cg_pending g" using taken(7) by simp
    have q: "rf_id q = rf_id p" "rf_pkt q = rf_pkt f2" "rf_adapter q = i" by (simp_all add: q_def adopt_frame_def Let_def)
    show ?thesis
      using enqueue_ids [OF g'] assms(5) vi vh al g2 q f2
      by (auto simp: eq w1 ad_free_def)
  qed
qed

text \<open>The primary has one free frame; its helper hears the frame of the access point.\<close>

definition ex_ready :: coop_world where
  "ex_ready = upd_ad 1 (\<lambda>ad. ad\<lparr>ad_recv := (ad_recv ad)\<lparr>rp_free_queue := [ex_frame 9], rp_free_cnt := 1\<rparr>\<rparr>) ex_bound"

definition ex_heard :: coop_world where
  "ex_heard = snd (rtw_coop_rx_pre_recv_entry None ex_eapol 2 ex_ready)"

definition ex_ready_group :: cooperative_rx_group where
  "ex_ready_group = the (cw_group ex_ready)"

definition ex_heard_group :: cooperative_rx_group where
  "ex_heard_group = the (cw_group ex_heard)"

lemma ex_ready_facts:
  "cw_group ex_ready = Some ex_ready_group" "cg_pending ex_ready_group = []" "cg_primary ex_ready_group = Some 1"
  "cg_bound_bssid ex_ready_group = [2, 0, 0, 0, 0, 2]"
  by code_simp+

lemma ex_heard_facts:
  "fst (rtw_coop_rx_pre_recv_entry None ex_eapol 2 ex_ready) = RX_HANDLED"
  "cw_group ex_heard = Some ex_heard_group" "map rf_id (cg_pending ex_heard_group) = [9]"
  by code_simp+

lemma ex_heard_run: "rtw_coop_rx_pre_recv_entry None ex_eapol 2 ex_ready = (RX_HANDLED, ex_heard)"
  using ex_heard_facts(1) unfolding ex_heard_def
  by (cases "rtw_coop_rx_pre_recv_entry None ex_eapol 2 ex_ready") simp

theorem coop_accepts_only_bound_bss_witness:
  "cg_state ex_ready_group = COOP_ACTIVE \<and> rtw_coop_rx_is_helper 2 ex_ready \<and> cg_pending ex_heard_group \<noteq> []"
proof -
  have new: "cg_pending ex_heard_group \<noteq> cg_pending ex_ready_group"
    using ex_heard_facts(3) ex_ready_facts(2) by auto
  show ?thesis
    using coop_accepts_only_bound_bss [OF ex_heard_run ex_ready_facts(1) ex_heard_facts(2) new refl] new ex_ready_facts(2)
    by simp
qed

theorem coop_submission_conserves_witness:
  "pool_ids (ad_recv (cw_ad ex_heard 2)) = {#5#} \<and> pool_ids (ad_recv (cw_ad ex_heard 1)) = {#}
    \<and> map rf_pkt (cg_pending ex_heard_group) = [rf_pkt ex_eapol]"
proof -
  have id: "rf_id (case None of None \<Rightarrow> ex_eapol | Some q \<Rightarrow> q ex_eapol) = rf_id ex_eapol" by simp
  have "pool_ids (ad_recv (cw_ad ex_heard 2)) = pool_ids (ad_recv (cw_ad ex_ready 2)) + {#rf_id ex_eapol#}
    \<and> pool_ids (ad_recv (cw_ad ex_heard 1)) + frame_ids (cg_pending ex_heard_group)
        = pool_ids (ad_recv (cw_ad ex_ready 1)) + frame_ids (cg_pending ex_ready_group)
    \<and> (\<forall>p \<in> set (cg_pending ex_heard_group) - set (cg_pending ex_ready_group).
         rf_pkt p = rf_pkt (case None of None \<Rightarrow> ex_eapol | Some q \<Rightarrow> q ex_eapol) \<and> rf_adapter p = 1)"
    by (rule coop_submission_conserves [OF ex_heard_run ex_ready_facts(1) ex_heard_facts(2) ex_ready_facts(3) _ refl id])
      simp
  moreover obtain p where "cg_pending ex_heard_group = [p]" "rf_id p = 9"
    using ex_heard_facts(3) by (cases "cg_pending ex_heard_group") auto
  moreover have "map rf_id (rp_free_queue (ad_recv (cw_ad ex_ready 2))) = []"
    "map rf_id (rp_free_queue (ad_recv (cw_ad ex_ready 1))) = [9]" "rf_id ex_eapol = 5"
    by code_simp+
  ultimately show ?thesis
    by (auto simp: ex_ready_facts(2) pool_ids_def)
qed

end
