(* ===== verification/Coop_Drain.thy ===== *)
theory Coop_Drain
  imports Coop_Run
begin

text \<open>
  What the drain tasklet does with the queued frames (\<^verbatim>\<open>_coop_rx_drain_tasklet\<close>,
  \<^verbatim>\<open>coop_rx_kernel_decrypt\<close>): that it empties the queue, and where it departs from the receive
  path it stands in for: frames the reorder window does not take are lost, frames in the
  clear reach the network whatever the policy says, and a key survives the transform it was
  set on.
\<close>

section \<open>Frames that need no decryption\<close>

lemma held_sta_update_same:
  assumes "\<And>s. sta_ids (k s) = sta_ids s"
  shows "held (sta_update a k ad) = held ad"
proof -
  have "dom (ad_stapriv (sta_update a k ad)) = dom (ad_stapriv ad)"
    by (auto simp: sta_update_def split: if_splits)
  moreover have "sta_ids (the (ad_stapriv (sta_update a k ad) b)) = sta_ids (the (ad_stapriv ad b))"
    if "b \<in> dom (ad_stapriv ad)" for b
    using that assms by (auto simp: sta_update_def)
  moreover have "ad_recv (sta_update a k ad) = ad_recv ad" by (simp add: sta_update_def)
  ultimately show ?thesis by (simp add: held_def stapriv_ids_def)
qed

lemma coop_set_rxseq_keeps [simp]:
  "sta_ids (coop_set_rxseq a v s) = sta_ids s" "sta_reorder (coop_set_rxseq a v s) = sta_reorder s"
  by (simp_all add: coop_set_rxseq_def sta_ids_def)

definition in_clear :: "recv_frame \<Rightarrow> bool" where
  "in_clear f \<longleftrightarrow> a_encrypt (rf_attrib f) = 0 \<or> a_bdecrypted (rf_attrib f)"

lemma drain_frame_in_clear:
  assumes "cw_group w = Some g" "rf_psta f = Some addr" "ad_stapriv (cw_ad w i) addr = Some sta" "in_clear f"
    and "seq_ctrl f \<noteq> coop_rxseq (rf_attrib f) sta" "a_qos (rf_attrib f) \<and> a_priority (rf_attrib f) \<le> 15 \<longrightarrow> \<not> coop_late sta (rf_attrib f)"
  shows "coop_drain_frame env i f w = map_option (\<lambda>(ret, w').
      upd_group (upd_stats (coop_count ret f (rp_rssi (ad_recv (cw_ad w' i))))) w')
    (coop_post_decrypt env i (Some addr) f
       (upd_ad i (sta_update addr (coop_set_rxseq (rf_attrib f) (seq_ctrl f))) w))"
  using assms by (auto simp: coop_drain_frame_def coop_process_def in_clear_def Let_def)

text \<open>
  C24. A QoS frame of a station whose reorder window for its TID is not in use, as before an
  A-MPDU session is set up, is lost in the drain: the tasklet takes it from the queue and
  counts it as accepted, but it neither reaches the network nor comes back to the pool,
  because the answer of \<^verbatim>\<open>recv_indicatepkt_reorder\<close> that the caller shall process it is ignored.
\<close>

theorem coop_drain_loses_frames:
  assumes "cw_group w = Some g" "rf_psta f = Some addr" "ad_stapriv (cw_ad w i) addr = Some sta" "in_clear f"
    and "seq_ctrl f \<noteq> coop_rxseq (rf_attrib f) sta" "a_qos (rf_attrib f)"
    and "coop_tid (rf_attrib f) < length (sta_reorder sta)" "\<not> ro_enable (sta_reorder sta ! coop_tid (rf_attrib f))"
    and "\<not> coop_late sta (rf_attrib f)"
  shows "\<exists>w' g'. coop_drain_frame env i f w = Some w' \<and> cw_group w' = Some g'
    \<and> st_accepted (cg_stats g') = st_accepted (cg_stats g) + 1 \<and> cg_pending g' = cg_pending g
    \<and> held (cw_ad w' i) = held (cw_ad w i) \<and> rp_os_rx (ad_recv (cw_ad w' i)) = rp_os_rx (ad_recv (cw_ad w i))
    \<and> (\<forall>j. j \<noteq> i \<longrightarrow> cw_ad w' j = cw_ad w j)"
proof -
  let ?a = "rf_attrib f"
  define ad where "ad = sta_update addr (coop_set_rxseq ?a (seq_ctrl f)) (cw_ad w i)"
  define p where "p = (addr, coop_tid ?a)"
  define rc where "rc = sta_reorder sta ! coop_tid ?a"
  have ro: "ro_of ad p = Some rc"
    using assms(3,7) by (simp add: ro_of_def ad_def p_def rc_def sta_update_def)
  have run: "recv_indicatepkt_reorder (ce_skb_ok env) ad (f\<lparr>rf_preorder := Some p\<rparr>) = Some (RX_SUCCESS, set_ro p rc ad)"
    using ro assms(8) by (simp add: recv_indicatepkt_reorder_def recv_indicatepkt_reorder_ctrl_def rc_def)
  have "ad_stapriv (set_ro p rc ad) = ad_stapriv ad"
    using ro by (auto simp: set_ro_def sta_update_def ro_of_def p_def split: option.splits if_splits)
  then have "set_ro p rc ad = ad" by (simp add: set_ro_def sta_update_def)
  then have "coop_post_decrypt env i (Some addr) f (upd_ad i (\<lambda>_. ad) w) = Some (RX_SUCCESS, upd_ad i (\<lambda>_. ad) w)"
    using run assms(6) by (simp add: coop_post_decrypt_def p_def upd_ad_def)
  moreover have "upd_ad i (sta_update addr (coop_set_rxseq ?a (seq_ctrl f))) w = upd_ad i (\<lambda>_. ad) w"
    by (simp add: ad_def upd_ad_def)
  moreover have "held ad = held (cw_ad w i)" unfolding ad_def by (rule held_sta_update_same) simp
  ultimately show ?thesis
    using drain_frame_in_clear [OF assms(1-5)] assms(9)
    by (simp add: assms(1) ad_def coop_count_def Let_def sta_update_def)
qed

text \<open>
  The pair is bound and the window of TID 0 is not in use; a QoS frame waits.
\<close>

definition ex_no_window :: coop_world where
  "ex_no_window = upd_ad 1 (\<lambda>ad. ad\<lparr>ad_stapriv := [[2, 0, 0, 0, 0, 2] \<mapsto> ex_sta\<lparr>
     sta_reorder := [ex_ctrl\<lparr>ro_enable := False\<rparr>], sta_tid_rxseq := [0]\<rparr>]\<rparr>) ex_bound"

definition ex_qos_waiting :: recv_frame where
  "ex_qos_waiting = (ex_frame 5)\<lparr>rf_psta := Some [2, 0, 0, 0, 0, 2],
     rf_attrib := (rf_attrib (ex_frame 5))\<lparr>a_ra := [2, 0, 0, 0, 0, 1]\<rparr>\<rparr>"

theorem coop_drain_loses_frames_witness:
  "\<exists>w' g'. coop_drain_frame ex_env 1 ex_qos_waiting ex_no_window = Some w' \<and> cw_group w' = Some g'
    \<and> st_accepted (cg_stats g') = 1 \<and> cg_pending g' = [] \<and> 5 \<notin># held (cw_ad w' 1) \<and> rp_os_rx (ad_recv (cw_ad w' 1)) = []"
proof -
  let ?sta = "ex_sta\<lparr>sta_reorder := [ex_ctrl\<lparr>ro_enable := False\<rparr>], sta_tid_rxseq := [0]\<rparr>"
  define g where "g = the (cw_group ex_no_window)"
  have g: "cw_group ex_no_window = Some g" "st_accepted (cg_stats g) = 0" "cg_pending g = []"
    unfolding g_def by code_simp+
  have ad: "cw_ad ex_no_window 1 = (cw_ad ex_bound 1)\<lparr>ad_stapriv := [[2, 0, 0, 0, 0, 2] \<mapsto> ?sta]\<rparr>"
    by (simp add: ex_no_window_def)
  have "rp_free_queue (ad_recv (cw_ad ex_bound 1)) = []" "rp_pending (ad_recv (cw_ad ex_bound 1)) = []"
    and os: "rp_os_rx (ad_recv (cw_ad ex_no_window 1)) = []"
    by code_simp+
  then have held: "held (cw_ad ex_no_window 1) = {#}"
    by (simp add: ad held_def pool_ids_def sta_ids_def ex_sta_def ex_ctrl_def del: One_nat_def)
  have f: "rf_psta ex_qos_waiting = Some [2, 0, 0, 0, 0, 2]" "in_clear ex_qos_waiting" "a_qos (rf_attrib ex_qos_waiting)"
    "seq_ctrl ex_qos_waiting \<noteq> coop_rxseq (rf_attrib ex_qos_waiting) ?sta"
    "coop_tid (rf_attrib ex_qos_waiting) < length (sta_reorder ?sta)"
    "\<not> ro_enable (sta_reorder ?sta ! coop_tid (rf_attrib ex_qos_waiting))"
    "\<not> coop_late ?sta (rf_attrib ex_qos_waiting)"
    by code_simp+
  have sta: "ad_stapriv (cw_ad ex_no_window 1) [2, 0, 0, 0, 0, 2] = Some ?sta"
    by (simp add: ad del: One_nat_def)
  show ?thesis
    using coop_drain_loses_frames [OF g(1) f(1) sta f(2) f(4) f(3) f(5,6,7), of ex_env] g held os by auto
qed

section \<open>Frames in the clear\<close>

text \<open>
  The drain applies no plaintext policy and no port control: a non-QoS frame that is not
  encrypted and not a duplicate goes straight to \<^verbatim>\<open>recv_process_mpdu\<close>, whatever the security
  of the network and whether or not the station has been authorised.
\<close>

theorem coop_bypasses_plaintext_check:
  assumes "cw_group w = Some g" "rf_psta f = Some addr" "ad_stapriv (cw_ad w i) addr = Some sta" "in_clear f"
    and "seq_ctrl f \<noteq> coop_rxseq (rf_attrib f) sta" "\<not> a_qos (rf_attrib f)"
  shows "\<exists>w'. coop_drain_frame env i f w = Some w'
    \<and> ad_recv (cw_ad w' i) = snd (recv_process_mpdu (sta_update addr (coop_set_rxseq (rf_attrib f) (seq_ctrl f)) (cw_ad w i))
          (ce_skb_ok env) (ad_recv (cw_ad w i)) f)"
proof -
  define v where "v = upd_ad i (sta_update addr (coop_set_rxseq (rf_attrib f) (seq_ctrl f))) w"
  have vi: "cw_ad v i = sta_update addr (coop_set_rxseq (rf_attrib f) (seq_ctrl f)) (cw_ad w i)"
    by (simp add: v_def)
  obtain ret rp where run: "recv_process_mpdu (cw_ad v i) (ce_skb_ok env) (ad_recv (cw_ad v i)) f = (ret, rp)"
    by (cases "recv_process_mpdu (cw_ad v i) (ce_skb_ok env) (ad_recv (cw_ad v i)) f")
  have "coop_post_decrypt env i (Some addr) f v = Some (ret, upd_ad i (\<lambda>ad. ad\<lparr>ad_recv := rp\<rparr>) v)"
    using run assms(6) by (simp add: coop_post_decrypt_def)
  moreover have "ad_recv (cw_ad v i) = ad_recv (cw_ad w i)" by (simp add: vi sta_update_def)
  ultimately show ?thesis
    using drain_frame_in_clear [OF assms(1-5)] assms(6) run by (simp add: v_def [symmetric] vi)
qed

text \<open>
  A frame in the clear from the access point: the network is encrypted, the port of the
  station is blocked, and the frame is handed to the network.
\<close>

definition ex_port_blocked :: coop_world where
  "ex_port_blocked = upd_ad 1 (\<lambda>ad. ad\<lparr>ad_stapriv := [[2, 0, 0, 0, 0, 2] \<mapsto> ex_sta\<lparr>sta_ieee8021x_blocked := True\<rparr>]\<rparr>) ex_bound"

definition ex_clear_waiting :: recv_frame where
  "ex_clear_waiting = ex_eapol_valid\<lparr>rf_psta := Some [2, 0, 0, 0, 0, 2],
     rf_buf := take 30 (rf_buf ex_eapol) @ [8, 0, 1, 3, 0, 0],
     rf_attrib := (rf_attrib ex_eapol_valid)\<lparr>a_seq_num := 7\<rparr>\<rparr>"

theorem coop_bypasses_plaintext_check_witness:
  "\<exists>w'. coop_drain_frame ex_env 1 ex_clear_waiting ex_port_blocked = Some w'
    \<and> \<not> plaintext_ok (ad_sec (cw_ad ex_port_blocked 1)) ex_clear_waiting
    \<and> rp_os_rx (ad_recv (cw_ad w' 1)) \<noteq> []"
proof -
  define addr :: mac where "addr = [2, 0, 0, 0, 0, 2]"
  define sta where "sta = ex_sta\<lparr>sta_ieee8021x_blocked := True\<rparr>"
  have g: "cw_group ex_port_blocked = Some (the (cw_group ex_port_blocked))"
    "rf_psta ex_clear_waiting = Some addr" "in_clear ex_clear_waiting" "\<not> a_qos (rf_attrib ex_clear_waiting)"
    "seq_ctrl ex_clear_waiting \<noteq> coop_rxseq (rf_attrib ex_clear_waiting) sta"
    unfolding addr_def sta_def by code_simp+
  have "ad_stapriv (cw_ad ex_port_blocked 1) addr = Some sta"
    by (simp add: ex_port_blocked_def addr_def sta_def del: One_nat_def)
  note run = coop_bypasses_plaintext_check [OF g(1,2) this g(3,5,4), of ex_env]
  have "rp_os_rx (snd (recv_process_mpdu (sta_update addr (coop_set_rxseq (rf_attrib ex_clear_waiting) (seq_ctrl ex_clear_waiting))
      (cw_ad ex_port_blocked 1)) (ce_skb_ok ex_env) (ad_recv (cw_ad ex_port_blocked 1)) ex_clear_waiting)) \<noteq> []"
    "\<not> plaintext_ok (ad_sec (cw_ad ex_port_blocked 1)) ex_clear_waiting"
    unfolding addr_def by code_simp+
  then show ?thesis using run by auto
qed

section \<open>The cached key\<close>

definition cached_key :: "cooperative_rx_group \<Rightarrow> u8 list" where
  "cached_key g = take (cg_cached_key_len g) (cg_cached_key g)"

text \<open>The transforms of a group that has just been bound have no key.\<close>

definition keyless :: "coop_world \<Rightarrow> cooperative_rx_group \<Rightarrow> bool" where
  "keyless w g \<longleftrightarrow> (\<forall>n t. Some n \<in> {cg_tfm_ccm g, cg_tfm_ccm_256 g, cg_tfm_gcm g} \<longrightarrow> cw_tfms w n = Some t \<longrightarrow> tf_key t = None)"

definition crypto_part :: "coop_world \<Rightarrow> (nat \<Rightarrow> crypto_aead option) \<times> cooperative_rx_group option" where
  "crypto_part w = (cw_tfms w, cw_group w)"

lemma crypto_part_fold:
  "(\<And>h v. crypto_part (k h v) = crypto_part v) \<Longrightarrow> crypto_part (fold k hs w) = crypto_part w"
  by (induction hs arbitrary: w) simp_all

lemma crypto_part_monitor: "crypto_part (rtw_coop_rx_enable_helper_monitor env h ch w) = crypto_part w"
  by (simp add: rtw_coop_rx_enable_helper_monitor_def crypto_part_def split: prod.splits)

lemma crypto_init_keyless:
  assumes "cw_group w = Some g" "crypto_part w' = crypto_part (coop_rx_crypto_init env w)" "cw_group w' = Some g'"
  shows "keyless w' g' \<and> cached_key g' = cached_key g \<and> cg_cached_key_len g' = cg_cached_key_len g
    \<and> cg_cached_key g' = cg_cached_key g"
  using assms
  by (auto simp: crypto_part_def coop_rx_crypto_init_def crypto_alloc_aead_def Let_def keyless_def cached_key_def
      split: if_splits prod.splits)

lemma bind_keyless:
  assumes "rtw_coop_rx_bind_session env i w = (COOP_OK, w')" "cw_group w = Some g" "cw_group w' = Some g'"
  shows "keyless w' g' \<and> cg_cached_key_len g' = cg_cached_key_len g \<and> cg_cached_key g' = cg_cached_key g"
proof -
  obtain g1 where g1: "cg_cached_key_len g1 = cg_cached_key_len g" "cg_cached_key g1 = cg_cached_key g"
    and w': "w' = fold (\<lambda>h. rtw_coop_rx_enable_helper_monitor env h (cg_bound_channel g1)) (cg_helpers g1)
        (coop_rx_crypto_init env (set_group g1 w))"
  proof -
    define ad where "ad = cw_ad w i"
    show ?thesis
      by (rule that [of "g\<lparr>cg_bound_bssid := (if ad_fw_ap ad then ad_mac ad else ad_cur_net_mac ad),
         cg_bound_channel := ad_cur_channel ad, cg_bound_bw := ad_cur_bwmode ad, cg_nonqos := empty_nonqos,
         cg_state := (if cg_helpers g \<noteq> [] then COOP_ACTIVE else cg_state g)\<rparr>"])
        (use assms(1,2) in \<open>auto simp: rtw_coop_rx_bind_session_def Let_def ad_def split: if_splits\<close>)
  qed
  have "crypto_part w' = crypto_part (coop_rx_crypto_init env (set_group g1 w))"
    unfolding w' by (rule crypto_part_fold [OF crypto_part_monitor])
  then show ?thesis
    using crypto_init_keyless [of "set_group g1 w" g1] assms(3) g1 by simp
qed

lemma unbind_cached:
  assumes "cw_group w = Some g"
  obtains g1 where "cw_group (rtw_coop_rx_unbind_session w) = Some g1"
    "cg_cached_key_len g1 = cg_cached_key_len g" "cg_cached_key g1 = cg_cached_key g"
proof -
  have "\<exists>g1. cw_group (rtw_coop_rx_unbind_session w) = Some g1
      \<and> cg_cached_key_len g1 = cg_cached_key_len g \<and> cg_cached_key g1 = cg_cached_key g"
    using assms by (simp add: rtw_coop_rx_unbind_session_def Let_def drain_to_pool_group coop_rx_crypto_deinit_def)
  then show ?thesis using that by blast
qed

lemma kernel_decrypt_keyless:
  assumes "keyless w g" "kernel_key ad sta (rf_attrib f) = Some key"
    and "length key = cg_cached_key_len g" "key = take (length key) (cg_cached_key g)"
  shows "fst (coop_rx_kernel_decrypt env ad (Some sta) f g w) = RX_FAIL"
proof -
  have "crypto_aead_decrypt env w n iv aad ct = (False, ct)"
    if "Some n \<in> {cg_tfm_ccm g, cg_tfm_ccm_256 g, cg_tfm_gcm g}" for n iv aad ct
    using assms(1) that by (auto simp: crypto_aead_decrypt_def keyless_def split: option.split)
  then show ?thesis
    using assms(2-4) by (auto simp: coop_rx_kernel_decrypt_def kernel_setkey_def Let_def split: option.split prod.split)
qed

text \<open>
  A session that is ended and started again under the same key decrypts nothing with the
  kernel: the new transforms have no key, and the copy of the last key, which outlives the old
  ones, makes the driver skip setting it.
\<close>

theorem rebind_keeps_stale_key:
  assumes "cw_group w = Some g" "rtw_coop_rx_bind_session env i (rtw_coop_rx_unbind_session w) = (COOP_OK, w')"
    and "cw_group w' = Some g'" "kernel_key ad sta (rf_attrib f) = Some (cached_key g)"
    and "cg_cached_key_len g \<le> length (cg_cached_key g)"
  shows "fst (coop_rx_kernel_decrypt env ad (Some sta) f g' w') = RX_FAIL"
proof -
  obtain g1 where "cw_group (rtw_coop_rx_unbind_session w) = Some g1"
    "cg_cached_key_len g1 = cg_cached_key_len g" "cg_cached_key g1 = cg_cached_key g"
    using unbind_cached [OF assms(1)] .
  then have "keyless w' g' \<and> cg_cached_key_len g' = cg_cached_key_len g \<and> cg_cached_key g' = cg_cached_key g"
    using bind_keyless [OF assms(2) _ assms(3)] by simp
  then show ?thesis
    using kernel_decrypt_keyless [OF _ assms(4)] assms(5) by (simp add: cached_key_def min_def)
qed

text \<open>A unicast CCMP frame is decrypted once, and fails after the session was bound again.\<close>

definition ex_ccmp_heard :: recv_frame where
  "ex_ccmp_heard = ex_ccmp_frame SEC_AES 51 ex_ccmp_buf"

definition ex_keyed_run :: "rx_ret \<times> recv_frame \<times> coop_world" where
  "ex_keyed_run = coop_rx_kernel_decrypt ex_env (cw_ad ex_bound 1) (Some ex_sta) ex_ccmp_heard (the (cw_group ex_bound)) ex_bound"

definition ex_keyed :: coop_world where
  "ex_keyed = snd (snd ex_keyed_run)"

definition ex_rebound :: coop_world where
  "ex_rebound = snd (rtw_coop_rx_bind_session ex_env 1 (rtw_coop_rx_unbind_session ex_keyed))"

theorem rebind_keeps_stale_key_witness:
  "fst ex_keyed_run = RX_SUCCESS
    \<and> fst (coop_rx_kernel_decrypt ex_env (cw_ad ex_rebound 1) (Some ex_sta) ex_ccmp_heard (the (cw_group ex_rebound)) ex_rebound) = RX_FAIL"
proof -
  define w where "w = ex_keyed"
  have g: "cw_group w = Some (the (cw_group w))" "cw_group ex_rebound = Some (the (cw_group ex_rebound))"
    and len: "cg_cached_key_len (the (cw_group w)) \<le> length (cg_cached_key (the (cw_group w)))"
    and key: "kernel_key (cw_ad ex_rebound 1) ex_sta (rf_attrib ex_ccmp_heard) = Some (cached_key (the (cw_group w)))"
    and ret: "fst (rtw_coop_rx_bind_session ex_env 1 (rtw_coop_rx_unbind_session w)) = COOP_OK"
    and ok: "fst ex_keyed_run = RX_SUCCESS"
    unfolding w_def by code_simp+
  have "rtw_coop_rx_bind_session ex_env 1 (rtw_coop_rx_unbind_session w) = (COOP_OK, ex_rebound)"
    using ret unfolding w_def ex_rebound_def
    by (metis prod.collapse)
  from rebind_keeps_stale_key [OF g(1) this g(2) key len] ok show ?thesis by simp
qed

section \<open>The drain ends with an empty queue\<close>

definition sta_dims :: "adapter \<Rightarrow> mac \<Rightarrow> nat option" where
  "sta_dims ad addr = map_option (\<lambda>s. length (sta_reorder s)) (ad_stapriv ad addr)"

lemma sta_dims_recv [simp]: "sta_dims (ad\<lparr>ad_recv := rp\<rparr>) = sta_dims ad"
  by (simp add: sta_dims_def fun_eq_iff)

lemma sta_dims_free [simp]: "sta_dims (ad_free f ad) = sta_dims ad"
  by (simp add: ad_free_def)

lemma sta_dims_update: "(\<And>s. length (sta_reorder (k s)) = length (sta_reorder s)) \<Longrightarrow> sta_dims (sta_update a k ad) = sta_dims ad"
  by (simp add: sta_dims_def sta_update_def fun_eq_iff option.map_comp comp_def)

lemma sta_dims_set_ro [simp]: "sta_dims (set_ro p rc ad) = sta_dims ad"
  unfolding set_ro_def by (rule sta_dims_update) simp

text \<open>The station of the frame is there, with a window for its TID.\<close>

definition has_station :: "adapter \<Rightarrow> recv_frame \<Rightarrow> bool" where
  "has_station ad f \<longleftrightarrow> (\<exists>addr n. rf_psta f = Some addr \<and> sta_dims ad addr = Some n \<and> coop_tid (rf_attrib f) < n)"

lemma post_decrypt_total:
  assumes "has_station (cw_ad w i) f" "rf_psta f = Some addr"
  shows "\<exists>ret w'. coop_post_decrypt env i (Some addr) f w = Some (ret, w') \<and> cw_group w' = cw_group w
    \<and> sta_dims (cw_ad w' i) = sta_dims (cw_ad w i)"
proof (cases "a_qos (rf_attrib f)")
  case True
  let ?f = "f\<lparr>rf_preorder := Some (addr, coop_tid (rf_attrib f))\<rparr>"
  obtain rc where rc: "ro_of (cw_ad w i) (addr, coop_tid (rf_attrib f)) = Some rc"
    using assms by (auto simp: has_station_def sta_dims_def ro_of_def)
  obtain ret rp rc' where run: "recv_indicatepkt_reorder_ctrl (recv_process_mpdu (cw_ad w i) (ce_skb_ok env))
      (ad_recv (cw_ad w i)) rc ?f = (ret, rp, rc')"
    by (cases "recv_indicatepkt_reorder_ctrl (recv_process_mpdu (cw_ad w i) (ce_skb_ok env)) (ad_recv (cw_ad w i)) rc ?f") auto
  have "recv_indicatepkt_reorder (ce_skb_ok env) (cw_ad w i) ?f
      = Some (ret, set_ro (addr, coop_tid (rf_attrib f)) rc' ((cw_ad w i)\<lparr>ad_recv := rp\<rparr>))"
    using rc run by (simp add: recv_indicatepkt_reorder_def)
  then show ?thesis using True by (simp add: coop_post_decrypt_def)
next
  case False
  then show ?thesis by (simp add: coop_post_decrypt_def Let_def split: prod.split)
qed

lemma drain_frame_total:
  assumes "cw_group w = Some g" "in_clear f" "has_station (cw_ad w i) f"
  shows "\<exists>w' k. coop_drain_frame env i f w = Some w' \<and> cw_group w' = Some (upd_stats k g)
    \<and> sta_dims (cw_ad w' i) = sta_dims (cw_ad w i)"
proof -
  obtain addr sta where sta: "rf_psta f = Some addr" "ad_stapriv (cw_ad w i) addr = Some sta"
    using assms(3) by (auto simp: has_station_def sta_dims_def)
  let ?claim = "coop_set_rxseq (rf_attrib f) (seq_ctrl f)"
  have claim: "sta_dims (sta_update addr ?claim ad) = sta_dims ad" for ad
    by (rule sta_dims_update) simp
  show ?thesis
  proof (cases "seq_ctrl f = coop_rxseq (rf_attrib f) sta
      \<or> a_qos (rf_attrib f) \<and> a_priority (rf_attrib f) \<le> 15 \<and> coop_late sta (rf_attrib f)")
    case True
    then show ?thesis using sta assms(1) claim by (auto simp: coop_drain_frame_def Let_def)
  next
    case False
    define v where "v = upd_ad i (sta_update addr ?claim) w"
    have v: "sta_dims (cw_ad v i) = sta_dims (cw_ad w i)" "cw_group v = Some g"
      using claim assms(1) by (simp_all add: v_def)
    then have "has_station (cw_ad v i) f" using assms(3) by (simp add: has_station_def)
    from post_decrypt_total [OF this sta(1), of env]
    obtain ret w' where "coop_post_decrypt env i (Some addr) f v = Some (ret, w')" "cw_group w' = Some g"
      "sta_dims (cw_ad w' i) = sta_dims (cw_ad w i)"
      using v by auto
    then show ?thesis
      using drain_frame_in_clear [OF assms(1) sta assms(2), of env] False by (auto simp: v_def)
  qed
qed

lemma drain_loop_empties:
  assumes "cw_group w = Some g" "cg_pending_count g = int (length (cg_pending g))" "length (cg_pending g) \<le> n"
    and "\<forall>f \<in> set (cg_pending g). in_clear f \<and> has_station (cw_ad w i) f"
  shows "\<exists>w' g'. coop_drain_loop env i n w = Some w' \<and> cw_group w' = Some g' \<and> cg_pending g' = []
    \<and> cg_pending_count g' = 0 \<and> cg_scheduled g' = cg_scheduled g"
  using assms
proof (induction n arbitrary: w g)
  case (Suc n)
  show ?case
  proof (cases "cg_pending g")
    case Nil
    then show ?thesis using Suc(2,3) by (simp add: dequeue_recvframe_def)
  next
    case (Cons f q)
    let ?g = "g\<lparr>cg_pending := q, cg_pending_count := cg_pending_count g - 1\<rparr>"
    obtain w1 k where w1: "coop_drain_frame env i f (set_group ?g w) = Some w1" "cw_group w1 = Some (upd_stats k ?g)"
      "sta_dims (cw_ad w1 i) = sta_dims (cw_ad w i)"
      using drain_frame_total [of "set_group ?g w" ?g f i env] Suc(5) Cons by auto
    have "\<exists>w' g'. coop_drain_loop env i n w1 = Some w' \<and> cw_group w' = Some g' \<and> cg_pending g' = []
        \<and> cg_pending_count g' = 0 \<and> cg_scheduled g' = cg_scheduled (upd_stats k ?g)"
      by (rule Suc(1) [OF w1(2)]) (use Suc(3-5) Cons w1(3) in \<open>auto simp: has_station_def\<close>)
    then show ?thesis using Suc(2) Cons w1(1) by (simp add: dequeue_recvframe_def)
  qed
qed simp


text \<open>The bound pair with one frame waiting.\<close>

definition ex_one_waiting :: coop_world where
  "ex_one_waiting = snd (rtw_coop_rx_pre_recv_entry None ex_eapol 2
     (ex_bound\<lparr>cw_ad := cw_ad (upd_ad 1 (\<lambda>ad. ad\<lparr>ad_recv := (ad_recv ad)\<lparr>rp_free_queue := [ex_frame 9], rp_free_cnt := 1\<rparr>,
        ad_stapriv := [[2, 0, 0, 0, 0, 2] \<mapsto> ex_sta\<lparr>sta_reorder := [ex_ctrl]\<rparr>]\<rparr>) ex_bound)\<rparr>))"


end
