(* ===== verification/Coop_Sysfs.thy ===== *)
theory Coop_Sysfs
  imports Coop_Run
begin

text \<open>
  The sysfs attributes of cooperative reception, \<^verbatim>\<open>core/rtw_cooperative_rx.c\<close>: what a user
  writes becomes operations of the group. The kernel reads the numbers and names and finds the
  network devices (\<open>sysfs_env\<close>); a device that was found is held until it is put back.

  The lemmas show that every write is a run of the group's operations, so that the invariant
  of the group holds whatever users write, that every device is put back on every path, and
  that the attribute which enables the group reads 1 after 0 was written to it.
\<close>

section \<open>Attributes\<close>

text \<open>
  \<^verbatim>\<open>kstrtoint\<close>, \<^verbatim>\<open>sscanf\<close> with the format \<^verbatim>\<open>%15s\<close>, the device with a name in the namespace of the
  interface, and whether it carries an adapter. A device and its adapter have one number.
\<close>

record sysfs_env =
  se_int :: "string \<Rightarrow> int option"
  se_word :: "string \<Rightarrow> string option"
  se_dev :: "string \<Rightarrow> nat option"
  se_adapter :: "nat \<Rightarrow> bool"

record sysfs_world =
  sw_coop :: coop_world
  sw_refs :: "nat \<Rightarrow> int"

text \<open>The result of a write: an error, or the number of bytes taken.\<close>

type_synonym sysfs_ret = "coop_ret + nat"

definition get_ndev :: "sysfs_env \<Rightarrow> string \<Rightarrow> sysfs_world \<Rightarrow> nat option \<times> sysfs_world" where
  "get_ndev se name s =
     (case se_dev se name of
        None \<Rightarrow> (None, s)
      | Some n \<Rightarrow> (Some n, s\<lparr>sw_refs := (sw_refs s)(n := sw_refs s n + 1)\<rparr>))"

definition dev_put :: "nat \<Rightarrow> sysfs_world \<Rightarrow> sysfs_world" where
  "dev_put n s = s\<lparr>sw_refs := (sw_refs s)(n := sw_refs s n - 1)\<rparr>"

definition coop_rx_show_enabled :: "coop_world \<Rightarrow> nat" where
  "coop_rx_show_enabled w =
     (case cw_group w of None \<Rightarrow> 0 | Some g \<Rightarrow> if state_num (cg_state g) \<ge> state_num COOP_IDLE then 1 else 0)"

definition coop_rx_store_enabled :: "coop_env \<Rightarrow> sysfs_env \<Rightarrow> nat \<Rightarrow> string \<Rightarrow> sysfs_world \<Rightarrow> sysfs_ret \<times> sysfs_world" where
  "coop_rx_store_enabled env se adapter buf s =
     (case se_int se buf of
        None \<Rightarrow> (Inl EINVAL, s)
      | Some val \<Rightarrow>
          (case cw_group (sw_coop s) of
             None \<Rightarrow> (Inl ENODEV, s)
           | Some g \<Rightarrow>
               (Inr (length buf),
                if val = 0 then s\<lparr>sw_coop := rtw_coop_rx_unbind_session (sw_coop s)\<rparr>
                else if val = 1 \<and> cg_primary g = Some adapter \<and> cg_state g = COOP_IDLE then
                  s\<lparr>sw_coop := snd (rtw_coop_rx_bind_session env adapter (sw_coop s))\<rparr>
                else s)))"

definition coop_rx_show_role :: "nat \<Rightarrow> coop_world \<Rightarrow> string" where
  "coop_rx_show_role adapter w =
     (case cw_group w of
        None \<Rightarrow> ''none''
      | Some g \<Rightarrow> if cg_primary g = Some adapter then ''primary''
          else if rtw_coop_rx_is_helper adapter w then ''helper'' else ''none'')"

definition coop_rx_store_pair :: "sysfs_env \<Rightarrow> nat \<Rightarrow> string \<Rightarrow> sysfs_world \<Rightarrow> sysfs_ret \<times> sysfs_world" where
  "coop_rx_store_pair se adapter buf s =
     (case se_word se buf of
        None \<Rightarrow> (Inl EINVAL, s)
      | Some ifname \<Rightarrow>
          let (ret, w1) = rtw_coop_rx_set_primary adapter (sw_coop s); s1 = s\<lparr>sw_coop := w1\<rparr> in
          if ret \<noteq> COOP_OK then (Inl ret, s1)
          else
            (case get_ndev se ifname s1 of
               (None, s2) \<Rightarrow> (Inl ENODEV, s2)
             | (Some n, s2) \<Rightarrow>
                 if \<not> ad_dev_rtw (cw_ad (sw_coop s2) n) then (Inl EINVAL, dev_put n s2)
                 else if \<not> se_adapter se n then (Inl EINVAL, dev_put n s2)
                 else
                   let (ret, w3) = rtw_coop_rx_add_helper n (sw_coop s2); s3 = dev_put n (s2\<lparr>sw_coop := w3\<rparr>)
                   in (if ret \<noteq> COOP_OK then Inl ret else Inr (length buf), s3)))"

definition coop_rx_store_unpair :: "sysfs_env \<Rightarrow> string \<Rightarrow> sysfs_world \<Rightarrow> sysfs_ret \<times> sysfs_world" where
  "coop_rx_store_unpair se buf s =
     (case se_word se buf of
        None \<Rightarrow> (Inl EINVAL, s)
      | Some ifname \<Rightarrow>
          (case get_ndev se ifname s of
             (None, s1) \<Rightarrow> (Inl ENODEV, s1)
           | (Some n, s1) \<Rightarrow>
               if \<not> ad_dev_rtw (cw_ad (sw_coop s1) n) then (Inl EINVAL, dev_put n s1)
               else
                 let (ret, w2) = rtw_coop_rx_remove_helper n (sw_coop s1); s2 = dev_put n (s1\<lparr>sw_coop := w2\<rparr>)
                 in (if ret \<noteq> COOP_OK then Inl ret else Inr (length buf), s2)))"

definition coop_rx_store_bind :: "coop_env \<Rightarrow> sysfs_env \<Rightarrow> nat \<Rightarrow> string \<Rightarrow> sysfs_world \<Rightarrow> sysfs_ret \<times> sysfs_world" where
  "coop_rx_store_bind env se adapter buf s =
     (case se_int se buf of
        None \<Rightarrow> (Inl EINVAL, s)
      | Some val \<Rightarrow>
          if val = 1 then
            let (ret, w1) = rtw_coop_rx_bind_session env adapter (sw_coop s)
            in (if ret \<noteq> COOP_OK then Inl ret else Inr (length buf), s\<lparr>sw_coop := w1\<rparr>)
          else (Inr (length buf), s\<lparr>sw_coop := rtw_coop_rx_unbind_session (sw_coop s)\<rparr>))"

definition coop_rx_store_reset_stats :: "string \<Rightarrow> sysfs_world \<Rightarrow> sysfs_ret \<times> sysfs_world" where
  "coop_rx_store_reset_stats buf s =
     (case cw_group (sw_coop s) of
        None \<Rightarrow> (Inl ENODEV, s)
      | Some g \<Rightarrow> (Inr (length buf), s\<lparr>sw_coop := set_group (upd_stats (\<lambda>_. coop_rx_stats_reset) g) (sw_coop s)\<rparr>))"

definition coop_rx_show_drop_primary :: "coop_world \<Rightarrow> nat" where
  "coop_rx_show_drop_primary w = of_bool (cw_drop_primary w)"

definition coop_rx_store_drop_primary :: "sysfs_env \<Rightarrow> string \<Rightarrow> sysfs_world \<Rightarrow> sysfs_ret \<times> sysfs_world" where
  "coop_rx_store_drop_primary se buf s =
     (case se_int se buf of
        None \<Rightarrow> (Inl EINVAL, s)
      | Some val \<Rightarrow> (Inr (length buf), s\<lparr>sw_coop := (sw_coop s)\<lparr>cw_drop_primary := val \<noteq> 0\<rparr>\<rparr>))"

text \<open>\<open>netdevs\<close> are the devices of the namespace, in the order of their list.\<close>

definition coop_rx_store_auto_pair ::
  "nat list \<Rightarrow> sysfs_env \<Rightarrow> nat \<Rightarrow> string \<Rightarrow> sysfs_world \<Rightarrow> sysfs_ret \<times> sysfs_world" where
  "coop_rx_store_auto_pair netdevs se adapter buf s =
     (if se_int se buf \<noteq> Some 1 then (Inl EINVAL, s)
      else
        let (ret, w1) = rtw_coop_rx_set_primary adapter (sw_coop s) in
        if ret \<noteq> COOP_OK then (Inl ret, s\<lparr>sw_coop := w1\<rparr>)
        else (Inr (length buf), s\<lparr>sw_coop := snd (rtw_coop_rx_auto_discover_helpers netdevs adapter w1)\<rparr>))"

text \<open>The name of the network as \<^verbatim>\<open>coop_rx_show_info\<close> prints it.\<close>

definition safe_ssid :: "u8 list \<Rightarrow> u8 list" where
  "safe_ssid ssid = map (\<lambda>b. if sint b < 0x20 \<or> sint b > 0x7e then 0x3f else b) ssid"

section \<open>Writes are runs of the group\<close>

inductive sysfs_write :: "coop_env \<Rightarrow> sysfs_env \<Rightarrow> sysfs_world \<Rightarrow> sysfs_ret \<times> sysfs_world \<Rightarrow> bool" for env se s where
  enabled: "sysfs_write env se s (coop_rx_store_enabled env se i buf s)"
| pair: "sysfs_write env se s (coop_rx_store_pair se i buf s)"
| unpair: "sysfs_write env se s (coop_rx_store_unpair se buf s)"
| bind: "sysfs_write env se s (coop_rx_store_bind env se i buf s)"
| reset_stats: "sysfs_write env se s (coop_rx_store_reset_stats buf s)"
| drop_primary: "sysfs_write env se s (coop_rx_store_drop_primary se buf s)"
| auto_pair: "sysfs_write env se s (coop_rx_store_auto_pair ns se i buf s)"

lemma step_of: "coop_step env w (snd p) \<Longrightarrow> p = (r, w') \<Longrightarrow> (coop_step env)\<^sup>*\<^sup>* w w'"
  by auto

lemma step_trans: "(coop_step env)\<^sup>*\<^sup>* w v \<Longrightarrow> coop_step env v x \<Longrightarrow> (coop_step env)\<^sup>*\<^sup>* w x"
  by (rule rtranclp.rtrancl_into_rtrancl)

lemma reach_run:
  assumes "(coop_step env)\<^sup>*\<^sup>* w w'" "coop_reach env w"
  shows "coop_reach env w'"
  using assms by (induction rule: rtranclp_induct) (auto intro: coop_reach.step)

lemma drop_primary_step: "coop_step env w (w\<lparr>cw_drop_primary := b\<rparr>)"
  using coop_step.driver [where env = env and w = w and ads = "cw_ad w" and en = "cw_enabled w" and dp = b] by simp

lemma put_get [simp]:
  "sw_refs (dev_put n (s\<lparr>sw_refs := (sw_refs s)(n := sw_refs s n + 1)\<rparr>)) = sw_refs s"
  "sw_coop (dev_put n s) = sw_coop s"
  "sw_refs (dev_put n (s\<lparr>sw_refs := (sw_refs s)(n := sw_refs s n + 1), sw_coop := w\<rparr>)) = sw_refs s"
  by (simp_all add: dev_put_def)

lemma write_is_run:
  assumes "sysfs_write env se s (ret, s')"
  shows "(coop_step env)\<^sup>*\<^sup>* (sw_coop s) (sw_coop s') \<and> sw_refs s' = sw_refs s"
  using assms
proof cases
  case (enabled i buf)
  then show ?thesis
    using coop_step.unbind_session [of env "sw_coop s"] coop_step.bind_session [of env "sw_coop s" i]
    by (auto simp: coop_rx_store_enabled_def split: option.splits if_splits)
next
  case (pair i buf)
  have first: "(coop_step env)\<^sup>*\<^sup>* (sw_coop s) (snd (rtw_coop_rx_set_primary i (sw_coop s)))"
    by (rule r_into_rtranclp, rule coop_step.set_primary)
  have second: "(coop_step env)\<^sup>*\<^sup>* (sw_coop s) (snd (rtw_coop_rx_add_helper n (snd (rtw_coop_rx_set_primary i (sw_coop s)))))" for n
    by (rule step_trans [OF first coop_step.add_helper])
  show ?thesis
    using pair first second
    by (auto simp: coop_rx_store_pair_def get_ndev_def dev_put_def Let_def split_beta split: option.splits if_splits)
next
  case (unpair buf)
  then show ?thesis
    using coop_step.remove_helper [of env "sw_coop s"]
    by (auto simp: coop_rx_store_unpair_def get_ndev_def dev_put_def Let_def split_beta split: option.splits if_splits)
next
  case (bind i buf)
  then show ?thesis
    using coop_step.unbind_session [of env "sw_coop s"] coop_step.bind_session [of env "sw_coop s" i]
    by (auto simp: coop_rx_store_bind_def Let_def split_beta split: option.splits if_splits)
next
  case (reset_stats buf)
  then show ?thesis
    using coop_step.reset_stats [of env "sw_coop s"]
    by (auto simp: coop_rx_store_reset_stats_def split: option.splits)
next
  case (drop_primary buf)
  then show ?thesis
    using drop_primary_step [of env "sw_coop s"]
    by (auto simp: coop_rx_store_drop_primary_def split: option.splits)
next
  case (auto_pair ns i buf)
  have first: "(coop_step env)\<^sup>*\<^sup>* (sw_coop s) (snd (rtw_coop_rx_set_primary i (sw_coop s)))"
    by (rule r_into_rtranclp, rule coop_step.set_primary)
  have second: "(coop_step env)\<^sup>*\<^sup>* (sw_coop s) (snd (rtw_coop_rx_auto_discover_helpers ns i (snd (rtw_coop_rx_set_primary i (sw_coop s)))))"
    by (rule step_trans [OF first coop_step.discover])
  show ?thesis
    using auto_pair first second
    by (auto simp: coop_rx_store_auto_pair_def Let_def split_beta split: if_splits)
qed

text \<open>
  C34. Whatever a user writes to the attributes of cooperative reception is a run of operations
  of the group, so that its invariant holds afterwards, and every network device that was
  looked up by its name is put back, on the error paths as well.
\<close>

theorem sysfs_write_is_run:
  assumes "sysfs_write env se s (ret, s')" "coop_reach env (sw_coop s)"
  shows "(coop_step env)\<^sup>*\<^sup>* (sw_coop s) (sw_coop s') \<and> coop_reach env (sw_coop s') \<and> world_ok (sw_coop s')
    \<and> sw_refs s' = sw_refs s"
  using write_is_run [OF assms(1)] reach_run [of env "sw_coop s" "sw_coop s'"] assms(2) coop_reach_ok by blast

text \<open>A failed write can have an effect: the interface has become the primary before the helper is looked up.\<close>

lemma failed_pair_sets_primary:
  assumes "cw_enabled (sw_coop s)" "cw_group (sw_coop s) = Some g" "cg_primary g = None"
    and "se_word se buf = Some name" "se_dev se name = None"
  shows "fst (coop_rx_store_pair se i buf s) = Inl ENODEV
    \<and> map_option cg_primary (cw_group (sw_coop (snd (coop_rx_store_pair se i buf s)))) = Some (Some i)"
  using assms by (simp add: coop_rx_store_pair_def rtw_coop_rx_set_primary_def get_ndev_def)

text \<open>
  The attribute that enables the group reads 1 in every reachable state with a group, also
  after a 0 was written: the state it is compared with is never left downwards.
\<close>

lemma enabled_reads_one:
  assumes "coop_reach env (sw_coop s)" "se_int se buf = Some 0" "cw_group (sw_coop s) = Some g"
  shows "coop_rx_show_enabled (sw_coop (snd (coop_rx_store_enabled env se i buf s))) = 1"
proof -
  obtain r s' where w: "coop_rx_store_enabled env se i buf s = (r, s')" by (cases "coop_rx_store_enabled env se i buf s")
  then have run: "sysfs_write env se s (r, s')" using sysfs_write.enabled [of env se s i buf] by simp
  have reach: "coop_reach env (sw_coop s')" using write_is_run [OF run] reach_run assms(1) by blast
  have "sw_coop s' = rtw_coop_rx_unbind_session (sw_coop s)"
    using w assms(2,3) by (auto simp: coop_rx_store_enabled_def)
  then obtain g' where "cw_group (sw_coop s') = Some g'"
    using assms(3) by (auto simp: rtw_coop_rx_unbind_session_def coop_rx_crypto_deinit_def drain_to_pool_group Let_def)
  moreover from this have "cg_state g' \<noteq> COOP_DISABLED"
    using coop_reach_ok [OF reach] by (simp add: world_ok_def group_ok_def)
  ultimately show ?thesis unfolding w by (cases "cg_state g'") (simp_all add: coop_rx_show_enabled_def)
qed

lemma safe_ssid_printable: "b \<in> set (safe_ssid ssid) \<Longrightarrow> 0x20 \<le> sint b \<and> sint b \<le> 0x7e"
  by (auto simp: safe_ssid_def)

theorem sysfs_write_is_run_witness:
  "let s = \<lparr>sw_coop = ex_bound, sw_refs = (\<lambda>_. 0)\<rparr>;
       se = \<lparr>se_int = (\<lambda>_. Some 0), se_word = Some, se_dev = (\<lambda>_. Some 2), se_adapter = (\<lambda>_. True)\<rparr>;
       s' = snd (coop_rx_store_unpair se ''wlan2'' s)
   in coop_reach ex_env (sw_coop s') \<and> sw_refs s' = sw_refs s"
proof -
  let ?s = "\<lparr>sw_coop = ex_bound, sw_refs = (\<lambda>_. 0)\<rparr>"
  let ?se = "\<lparr>se_int = (\<lambda>_. Some 0), se_word = Some, se_dev = (\<lambda>_. Some 2), se_adapter = (\<lambda>_. True)\<rparr>"
  have "sysfs_write ex_env ?se ?s (fst (coop_rx_store_unpair ?se ''wlan2'' ?s), snd (coop_rx_store_unpair ?se ''wlan2'' ?s))"
    using sysfs_write.unpair [of ex_env ?se ?s "''wlan2''"] by simp
  moreover have "coop_reach ex_env (sw_coop ?s)" using ex_bound_reach by simp
  ultimately show ?thesis unfolding Let_def using sysfs_write_is_run by blast
qed

end
