(* ===== verification/Ie_Base.thy ===== *)
theory Ie_Base
  imports Prelude "HOL-Library.Monad_Syntax"
begin

text \<open>
  Information elements, \<^verbatim>\<open>core/rtw_ieee80211.c\<close>: writing an element (\<^verbatim>\<open>rtw_set_ie\<close>,
  \<^verbatim>\<open>rtw_set_fixed_ie\<close>), finding one (\<^verbatim>\<open>rtw_get_ie\<close>, \<^verbatim>\<open>rtw_get_ie_ex\<close>), replacing and removing
  elements in place (\<^verbatim>\<open>rtw_ies_update_ie\<close>, \<^verbatim>\<open>rtw_ies_remove_ie\<close>).

  A pointer is a position in the allocation \<open>m\<close> it points into. Every function gives \<open>None\<close>
  when it reads or writes outside of the allocation; the checks of the code are against the
  limit its caller passes, which is not the same. The lemmas relate the functions to lists
  of elements: on the encoding of such a list they find the first match, replace it, and
  remove all matches; on a truncated list \<^verbatim>\<open>rtw_get_ie\<close> hands out an element that ends beyond
  the limit.
\<close>

section \<open>Reads and writes\<close>

definition rd :: "u8 list \<Rightarrow> nat \<Rightarrow> u8 option" where
  "rd m p = (if p < length m then Some (m ! p) else None)"

definition rdn :: "u8 list \<Rightarrow> nat \<Rightarrow> nat \<Rightarrow> u8 list option" where
  "rdn m p n = (if p + n \<le> length m then Some (take n (drop p m)) else None)"

definition wr :: "u8 list \<Rightarrow> nat \<Rightarrow> u8 list \<Rightarrow> u8 list option" where
  "wr m p bs = (if p + length bs \<le> length m then Some (take p m @ bs @ drop (p + length bs) m) else None)"

lemma rd_append: "rd (xs @ b # ys) (length xs) = Some b"
  by (simp add: rd_def)

lemma rd_append1: "rd (xs @ b # c # ys) (Suc (length xs)) = Some c"
  by (simp add: rd_def nth_append)

lemma rdn_append: "rdn (xs @ bs @ ys) (length xs) (length bs) = Some bs"
  by (simp add: rdn_def)

lemma wr_append: "length bs = length cs \<Longrightarrow> wr (xs @ bs @ ys) (length xs) cs = Some (xs @ cs @ ys)"
  by (simp add: wr_def)

lemma wr_at: "length cs \<le> length ys \<Longrightarrow> wr (xs @ ys) (length xs) cs = Some (xs @ cs @ drop (length cs) ys)"
  by (simp add: wr_def)

lemma length_wr: "wr m p bs = Some m' \<Longrightarrow> length m' = length m"
  by (auto simp: wr_def split: if_splits)

section \<open>Writing an element\<close>

text \<open>The result is the allocation, the position behind what was written, and the new length.\<close>

definition rtw_set_fixed_ie :: "u8 list \<Rightarrow> nat \<Rightarrow> nat \<Rightarrow> u8 list \<Rightarrow> u32 \<Rightarrow> (u8 list \<times> nat \<times> u32) option" where
  "rtw_set_fixed_ie m p len source frlen =
     do { src \<leftarrow> rdn source 0 len; m1 \<leftarrow> wr m p src; Some (m1, p + len, frlen + of_nat len) }"

definition rtw_set_ie :: "u8 list \<Rightarrow> nat \<Rightarrow> int \<Rightarrow> nat \<Rightarrow> u8 list \<Rightarrow> u32 \<Rightarrow> (u8 list \<times> nat \<times> u32) option" where
  "rtw_set_ie m p index len source frlen =
     do {
       m1 \<leftarrow> wr m p [of_int index];
       m2 \<leftarrow> wr m1 (p + 1) [of_nat len];
       m3 \<leftarrow> (if len > 0 then do { src \<leftarrow> rdn source 0 len; wr m2 (p + 2) src } else Some m2);
       Some (m3, p + len + 2, frlen + (of_nat len + 2))
     }"

section \<open>Finding an element\<close>

text \<open>
  \<open>Some (p, len)\<close> is the position of the element and the length of its content. The loop
  ends because the distance covered grows by at least two.
\<close>

function get_ie_loop :: "u8 list \<Rightarrow> int \<Rightarrow> int \<Rightarrow> nat \<Rightarrow> int \<Rightarrow> (nat \<times> nat) option option" where
  "get_ie_loop m index limit p i =
     do {
       b \<leftarrow> rd m p;
       l \<leftarrow> rd m (p + 1);
       if uint b = index then Some (Some (p, unat l))
       else
         let tmp = unat l + 2 in
         if i + int tmp \<ge> limit then Some None
         else get_ie_loop m index limit (p + tmp) (i + int tmp)
     }"
  by pat_completeness auto

termination
proof (relation "measure (\<lambda>(m, index, limit, p, i). nat (limit - i))")
  fix m :: "u8 list" and index limit i :: int and p tmp :: nat and b l :: u8
  assume "tmp = unat l + 2" "\<not> limit \<le> i + int tmp"
  then have "0 < tmp" "i + int tmp < limit" by simp_all
  then show "((m, index, limit, p + tmp, i + int tmp), m, index, limit, p, i)
      \<in> measure (\<lambda>(m, index, limit, p, i). nat (limit - i))"
    by simp
qed simp

declare get_ie_loop.simps [simp del]

definition rtw_get_ie :: "u8 list \<Rightarrow> nat \<Rightarrow> int \<Rightarrow> int \<Rightarrow> (nat \<times> nat) option option" where
  "rtw_get_ie m p index limit = (if limit < 1 then Some None else get_ie_loop m index limit p 0)"

text \<open>
  \<^verbatim>\<open>rtw_get_ie_ex\<close> over the search area that starts at \<open>p\<close>: \<open>oui\<close> is the selector after the
  element's head, if one is asked for, and \<open>copy\<close> whether the caller wants the element copied.
  The result holds the position, the length of the element with its head, and the copy.
\<close>

function get_ie_ex_loop ::
  "u8 list \<Rightarrow> nat \<Rightarrow> nat \<Rightarrow> u8 \<Rightarrow> u8 list option \<Rightarrow> bool \<Rightarrow> nat \<Rightarrow> (nat \<times> nat \<times> u8 list) option option" where
  "get_ie_ex_loop m p in_len eid oui copy cnt =
     (if cnt < in_len then
        do {
          b \<leftarrow> rd m (p + cnt);
          hit \<leftarrow> (if b = eid then
                   (case oui of None \<Rightarrow> Some True
                    | Some w \<Rightarrow> map_option ((=) w) (rdn m (p + cnt + 2) (length w)))
                 else Some False);
          l \<leftarrow> rd m (p + cnt + 1);
          if hit then
            do { bs \<leftarrow> (if copy then rdn m (p + cnt) (unat l + 2) else Some []);
                 Some (Some (p + cnt, unat l + 2, bs)) }
          else get_ie_ex_loop m p in_len eid oui copy (cnt + unat l + 2)
        }
      else Some None)"
  by pat_completeness auto

termination
  by (relation "measure (\<lambda>(m, p, in_len, eid, oui, copy, cnt). in_len - cnt)") auto

declare get_ie_ex_loop.simps [simp del]

definition rtw_get_ie_ex ::
  "u8 list \<Rightarrow> nat \<Rightarrow> nat \<Rightarrow> u8 \<Rightarrow> u8 list option \<Rightarrow> bool \<Rightarrow> (nat \<times> nat \<times> u8 list) option option" where
  "rtw_get_ie_ex m p in_len eid oui copy = get_ie_ex_loop m p in_len eid oui copy 0"

lemma get_ie_ex_loop_found:
  "get_ie_ex_loop m p in_len eid oui copy cnt = Some (Some (q, n, bs))
    \<Longrightarrow> p + cnt \<le> q \<and> q < p + in_len \<and> 2 \<le> n"
proof (induction m p in_len eid oui copy cnt rule: get_ie_ex_loop.induct)
  case (1 m p in_len eid oui copy cnt)
  then show ?case
    by (subst (asm) (2) get_ie_ex_loop.simps) (fastforce simp: bind_eq_Some_conv split: if_splits)
qed

lemma get_ie_ex_found:
  "rtw_get_ie_ex m p in_len eid oui copy = Some (Some (q, n, bs)) \<Longrightarrow> p \<le> q \<and> q < p + in_len \<and> 2 \<le> n"
  using get_ie_ex_loop_found by (fastforce simp: rtw_get_ie_ex_def)

section \<open>Replacing and removing\<close>

text \<open>
  \<^verbatim>\<open>remain_len\<close> is unsigned: when the element ends beyond the search area it is nearly 4 GiB.
  The allocation for the copy of the remaining elements may fail (\<open>malloc_ok\<close>).
\<close>

definition rtw_ies_update_ie ::
  "(nat \<Rightarrow> bool) \<Rightarrow> u8 list \<Rightarrow> nat \<Rightarrow> nat \<Rightarrow> u8 \<Rightarrow> u8 list \<Rightarrow> (rx_ret \<times> u8 list \<times> nat) option" where
  "rtw_ies_update_ie malloc_ok m ies_len off eid content =
     (if ies_len = 0 \<or> ies_len \<le> off then Some (RX_FAIL, m, ies_len)
      else
        do {
          target \<leftarrow> rtw_get_ie m off (uint eid) (int (ies_len - off));
          (case target of
             None \<Rightarrow> Some (RX_FAIL, m, ies_len)
           | Some (p, old) \<Rightarrow>
               if old = 0 then Some (RX_FAIL, m, ies_len)
               else if old = length content then
                 do { m1 \<leftarrow> wr m (p + 2) content;
                      m2 \<leftarrow> wr m1 (p + 1) [of_nat (length content)];
                      Some (RX_SUCCESS, m2, ies_len) }
               else
                 let remain = p + 2 + old;
                     remain_len = unat (of_nat ies_len - of_nat remain :: u32)
                 in if \<not> malloc_ok remain_len then Some (RX_FAIL, m, ies_len)
                    else
                      do { rest \<leftarrow> rdn m remain remain_len;
                           m1 \<leftarrow> wr m (p + 2) content;
                           m2 \<leftarrow> wr m1 (p + 1) [of_nat (length content)];
                           m3 \<leftarrow> wr m2 (p + 2 + length content) rest;
                           Some (RX_SUCCESS, m3, ies_len + length content - old) })
        })"

text \<open>
  The loop of \<^verbatim>\<open>rtw_ies_remove_ie\<close> with \<^verbatim>\<open>start\<close>, \<^verbatim>\<open>search_len\<close>, the allocation, the length and
  the status. A match that ends beyond the search area makes \<^verbatim>\<open>remain_len\<close> wrap to nearly
  4 GiB, and the move leaves every allocation.
\<close>

function remove_loop ::
  "nat \<Rightarrow> nat \<Rightarrow> u8 \<Rightarrow> u8 list option \<Rightarrow> u8 list \<Rightarrow> nat \<Rightarrow> rx_ret \<Rightarrow> (rx_ret \<times> u8 list \<times> nat) option" where
  "remove_loop start search_len eid oui m ies_len ret =
     do {
       target \<leftarrow> rtw_get_ie_ex m start search_len eid oui False;
       (case target of
          None \<Rightarrow> Some (ret, m, ies_len)
        | Some (p, n, _) \<Rightarrow>
            if p - start + n > search_len then None
            else
              let remain_len = search_len - (p - start + n) in
              do { rest \<leftarrow> rdn m (p + n) remain_len;
                   m1 \<leftarrow> wr m p rest;
                   remove_loop p remain_len eid oui m1 (ies_len - n) RX_SUCCESS })
     }"
  by pat_completeness auto

termination
  by (relation "measure (\<lambda>(start, search_len, eid, oui, m, ies_len, ret). search_len)")
    (auto dest: get_ie_ex_found)

declare remove_loop.simps [simp del]

definition rtw_ies_remove_ie ::
  "u8 list \<Rightarrow> nat \<Rightarrow> nat \<Rightarrow> u8 \<Rightarrow> u8 list option \<Rightarrow> (rx_ret \<times> u8 list \<times> nat) option" where
  "rtw_ies_remove_ie m ies_len off eid oui =
     (if ies_len \<le> off then Some (RX_FAIL, m, ies_len)
      else remove_loop off (ies_len - off) eid oui m ies_len RX_FAIL)"

section \<open>Lists of elements\<close>

type_synonym ie = "u8 \<times> u8 list"

definition ie_bytes :: "ie \<Rightarrow> u8 list" where
  "ie_bytes e = fst e # of_nat (length (snd e)) # snd e"

definition ies_bytes :: "ie list \<Rightarrow> u8 list" where
  "ies_bytes es = concat (map ie_bytes es)"

definition ies_ok :: "ie list \<Rightarrow> bool" where
  "ies_ok es \<longleftrightarrow> (\<forall>e \<in> set es. length (snd e) < 256)"

lemma ies_bytes_simps [simp]:
  "ies_bytes [] = []" "ies_bytes (e # es) = ie_bytes e @ ies_bytes es" "ies_bytes (es @ fs) = ies_bytes es @ ies_bytes fs"
  by (simp_all add: ies_bytes_def)

lemma ies_ok_simps [simp]:
  "ies_ok []" "ies_ok (e # es) \<longleftrightarrow> length (snd e) < 256 \<and> ies_ok es" "ies_ok (es @ fs) \<longleftrightarrow> ies_ok es \<and> ies_ok fs"
  by (auto simp: ies_ok_def)

lemma length_ie_bytes [simp]: "length (ie_bytes e) = length (snd e) + 2"
  by (simp add: ie_bytes_def)

lemma unat_length_u8 [simp]: "length xs < 256 \<Longrightarrow> unat (of_nat (length xs) :: u8) = length xs"
  by (simp add: unat_of_nat take_bit_eq_mod)

lemma rd_ie:
  "rd (pre @ ie_bytes e @ rest) (length pre) = Some (fst e)"
  "rd (pre @ ie_bytes e @ rest) (length pre + 1) = Some (of_nat (length (snd e)))"
  by (simp_all add: ie_bytes_def rd_def nth_append)

lemma get_ie_step:
  assumes "length (snd e) < 256" "uint (fst e) \<noteq> index" "i + int (length (ie_bytes e)) < limit"
  shows "get_ie_loop (pre @ ie_bytes e @ rest) index limit (length pre) i
    = get_ie_loop (pre @ ie_bytes e @ rest) index limit (length pre + length (ie_bytes e)) (i + int (length (ie_bytes e)))"
proof -
  have "get_ie_loop (pre @ ie_bytes e @ rest) index limit (length pre) i =
     do { b \<leftarrow> rd (pre @ ie_bytes e @ rest) (length pre); l \<leftarrow> rd (pre @ ie_bytes e @ rest) (length pre + 1);
       if uint b = index then Some (Some (length pre, unat l))
       else let tmp = unat l + 2 in if i + int tmp \<ge> limit then Some None
         else get_ie_loop (pre @ ie_bytes e @ rest) index limit (length pre + tmp) (i + int tmp) }"
    by (rule get_ie_loop.simps)
  then show ?thesis using assms by (simp add: rd_ie [simplified])
qed

lemma get_ie_skip:
  assumes "ies_ok es" "\<forall>e \<in> set es. uint (fst e) \<noteq> index" "i + int (length (ies_bytes es)) < limit"
  shows "get_ie_loop (pre @ ies_bytes es @ rest) index limit (length pre) i
    = get_ie_loop (pre @ ies_bytes es @ rest) index limit (length pre + length (ies_bytes es)) (i + int (length (ies_bytes es)))"
  using assms
proof (induction es arbitrary: pre i)
  case (Cons e es)
  have "get_ie_loop (pre @ ie_bytes e @ ies_bytes es @ rest) index limit (length pre) i
      = get_ie_loop (pre @ ie_bytes e @ ies_bytes es @ rest) index limit (length pre + length (ie_bytes e)) (i + int (length (ie_bytes e)))"
    by (rule get_ie_step) (use Cons(2-4) in auto)
  also have "\<dots> = get_ie_loop ((pre @ ie_bytes e) @ ies_bytes es @ rest) index limit (length (pre @ ie_bytes e))
      (i + int (length (ie_bytes e)))" by simp
  also have "\<dots> = get_ie_loop ((pre @ ie_bytes e) @ ies_bytes es @ rest) index limit (length (pre @ ie_bytes e) + length (ies_bytes es))
      (i + int (length (ie_bytes e)) + int (length (ies_bytes es)))"
    by (rule Cons.IH) (use Cons(2-4) in auto)
  finally show ?case by (simp add: ac_simps)
qed simp

lemma get_ie_hit:
  assumes "ies_ok es" "\<forall>e \<in> set es. fst e \<noteq> eid" "int (length (ies_bytes es)) < limit"
  shows "rtw_get_ie (pre @ ies_bytes es @ eid # l # rest) (length pre) (uint eid) limit
    = Some (Some (length pre + length (ies_bytes es), unat l))"
proof -
  let ?m = "pre @ ies_bytes es @ eid # l # rest"
  have "rtw_get_ie ?m (length pre) (uint eid) limit = get_ie_loop ?m (uint eid) limit (length pre) 0"
    using assms(3) by (simp add: rtw_get_ie_def)
  also have "\<dots> = get_ie_loop ?m (uint eid) limit (length pre + length (ies_bytes es)) (0 + int (length (ies_bytes es)))"
    by (rule get_ie_skip) (use assms in \<open>auto simp: unsigned_word_eqI\<close>)
  also have "\<dots> = Some (Some (length pre + length (ies_bytes es), unat l))"
    by (subst get_ie_loop.simps) (simp add: rd_def nth_append)
  finally show ?thesis .
qed

text \<open>
  \<^verbatim>\<open>rtw_get_ie\<close> looks at where an element starts and not at where it ends: behind a
  well-formed list without the wanted element, it hands out the element at any position
  before the limit with the length its head claims, also when the limit, or the end of the
  memory, comes first.
\<close>

theorem get_ie_overruns:
  assumes "ies_ok es" "\<forall>e \<in> set es. fst e \<noteq> eid" "int (length (ies_bytes es)) < limit"
  shows "rtw_get_ie (pre @ ies_bytes es @ eid # l # rest) (length pre) (uint eid) limit
    = Some (Some (length pre + length (ies_bytes es), unat l))"
  by (rule get_ie_hit [OF assms])

theorem get_ie_overruns_witness:
  "rtw_get_ie [1, 1, 9, 48, 20] 0 48 4 = Some (Some (3, 20))"
  using get_ie_overruns [of "[(1, [9])]" 48 4 "[]" 20 "[]"] by (simp add: ie_bytes_def)

text \<open>The position of the first element with the identifier, and the length of its content.\<close>

fun ie_find :: "u8 \<Rightarrow> ie list \<Rightarrow> nat \<Rightarrow> (nat \<times> nat) option" where
  "ie_find eid [] p = None"
| "ie_find eid (e # es) p =
     (if fst e = eid then Some (p, length (snd e)) else ie_find eid es (p + length (snd e) + 2))"

lemma ie_find_None: "ie_find eid es p = None \<longleftrightarrow> (\<forall>e \<in> set es. fst e \<noteq> eid)"
  by (induction es arbitrary: p) auto

lemma ie_find_skip:
  "\<forall>e \<in> set es. fst e \<noteq> eid \<Longrightarrow> ie_find eid (es @ fs) p = ie_find eid fs (p + length (ies_bytes es))"
  by (induction es arbitrary: p) (auto simp: algebra_simps)

lemma first_match:
  assumes "\<exists>e \<in> set es. P e"
  obtains a x b where "es = a @ x # b" "P x" "\<forall>e \<in> set a. \<not> P e"
  using split_list_first_prop [OF assms] by metis

lemma get_ie_absent:
  assumes "ies_ok es" "es \<noteq> []" "\<forall>e \<in> set es. uint (fst e) \<noteq> index"
  shows "rtw_get_ie (pre @ ies_bytes es @ post) (length pre) index (int (length (ies_bytes es))) = Some None"
proof -
  obtain fs e where es: "es = fs @ [e]" using assms(2) by (cases es rule: rev_exhaust) auto
  let ?m = "pre @ ies_bytes es @ post" and ?n = "int (length (ies_bytes es))"
  have "rtw_get_ie ?m (length pre) index ?n = get_ie_loop (pre @ ies_bytes fs @ ie_bytes e @ post) index ?n (length pre) 0"
    by (simp add: rtw_get_ie_def es)
  also have "\<dots> = get_ie_loop (pre @ ies_bytes fs @ ie_bytes e @ post) index ?n (length pre + length (ies_bytes fs))
      (0 + int (length (ies_bytes fs)))"
    by (rule get_ie_skip) (use assms in \<open>auto simp: es\<close>)
  also have "\<dots> = get_ie_loop ((pre @ ies_bytes fs) @ ie_bytes e @ post) index ?n (length (pre @ ies_bytes fs))
      (int (length (ies_bytes fs)))"
    by simp
  also have "\<dots> = Some None"
    by (subst get_ie_loop.simps) (use assms in \<open>simp add: es rd_ie [of "pre @ ies_bytes fs", simplified]\<close>)
  finally show ?thesis .
qed

text \<open>
  On the encoding of a list of elements, wherever it lies in the memory, \<^verbatim>\<open>rtw_get_ie\<close> finds
  the first element with the identifier, with the length of its content, and nothing
  exactly when there is none; it reads nothing outside of the memory.
\<close>

lemma get_ie_finds_first:
  assumes "ies_ok es" "es \<noteq> []"
  shows "rtw_get_ie (pre @ ies_bytes es @ post) (length pre) (uint eid) (int (length (ies_bytes es)))
    = Some (ie_find eid es (length pre))"
proof (cases "\<exists>e \<in> set es. fst e = eid")
  case False
  then have "\<forall>e \<in> set es. uint (fst e) \<noteq> uint eid" by (metis word_uint_eq_iff)
  moreover have "ie_find eid es (length pre) = None" using False by (simp add: ie_find_None)
  ultimately show ?thesis using get_ie_absent [OF assms] by simp
next
  case True
  obtain a x b where es: "es = a @ x # b" "fst x = eid" "\<forall>e \<in> set a. fst e \<noteq> eid"
    using first_match [OF True] .
  have "rtw_get_ie (pre @ ies_bytes a @ eid # of_nat (length (snd x)) # snd x @ ies_bytes b @ post) (length pre) (uint eid)
      (int (length (ies_bytes es))) = Some (Some (length pre + length (ies_bytes a), unat (of_nat (length (snd x)) :: u8)))"
    by (rule get_ie_hit) (use assms(1) es in auto)
  moreover have "ies_bytes es = ies_bytes a @ eid # of_nat (length (snd x)) # snd x @ ies_bytes b"
    using es(2) by (simp add: es(1) ie_bytes_def)
  moreover have "ie_find eid es (length pre) = Some (length pre + length (ies_bytes a), length (snd x))"
    using es by (simp add: ie_find_skip)
  ultimately show ?thesis using assms(1) es(1) by simp
qed

lemma get_ie_finds_first_ex:
  "rtw_get_ie ([7] @ ies_bytes [(0, [65, 66]), (48, [1, 0]), (48, [2])] @ [9]) 1 48 11 = Some (Some (5, 2))"
  using get_ie_finds_first [of "[(0, [65, 66]), (48, [1, 0]), (48, [2])]" "[7]" "[9]" 48] by simp

section \<open>Elements with a selector\<close>

definition ie_match :: "u8 \<Rightarrow> u8 list option \<Rightarrow> ie \<Rightarrow> bool" where
  "ie_match eid oui e \<longleftrightarrow> fst e = eid \<and> (case oui of None \<Rightarrow> True | Some w \<Rightarrow> take (length w) (snd e) = w)"

text \<open>
  \<^verbatim>\<open>rtw_get_ie_ex\<close> compares the selector without a look at the length of the element. It is
  a prefix of the element when the elements with the identifier are long enough.
\<close>

definition oui_fit :: "u8 \<Rightarrow> u8 list option \<Rightarrow> ie \<Rightarrow> bool" where
  "oui_fit eid oui e \<longleftrightarrow> (\<forall>w. oui = Some w \<longrightarrow> fst e = eid \<longrightarrow> length w \<le> length (snd e))"

definition oui_fits :: "u8 \<Rightarrow> u8 list option \<Rightarrow> ie list \<Rightarrow> bool" where
  "oui_fits eid oui es \<longleftrightarrow> (\<forall>e \<in> set es. oui_fit eid oui e)"

lemma oui_fit_None [simp]: "oui_fit eid None e"
  by (simp add: oui_fit_def)

lemma oui_fits_simps [simp]:
  "oui_fits eid oui []" "oui_fits eid None es"
  "oui_fits eid oui (e # es) \<longleftrightarrow> oui_fit eid oui e \<and> oui_fits eid oui es"
  "oui_fits eid oui (es @ fs) \<longleftrightarrow> oui_fits eid oui es \<and> oui_fits eid oui fs"
  by (auto simp: oui_fits_def)

definition oui_hit :: "u8 list \<Rightarrow> nat \<Rightarrow> u8 \<Rightarrow> u8 list option \<Rightarrow> u8 \<Rightarrow> bool option" where
  "oui_hit m q eid oui b = (if b = eid then
     (case oui of None \<Rightarrow> Some True | Some w \<Rightarrow> map_option ((=) w) (rdn m q (length w))) else Some False)"

lemma oui_hit_ie:
  assumes "oui_fit eid oui e"
  shows "oui_hit (pre @ ie_bytes e @ rest) (length pre + 2) eid oui (fst e) = Some (ie_match eid oui e)"
  using assms by (auto simp: oui_hit_def ie_match_def oui_fit_def ie_bytes_def rdn_def split: option.split)

lemma get_ie_ex_at:
  assumes "length (snd e) < 256" "oui_fit eid oui e"
    and "cnt < in_len" "p + cnt = length pre"
  shows "get_ie_ex_loop (pre @ ie_bytes e @ rest) p in_len eid oui copy cnt =
    (if ie_match eid oui e then
       Some (Some (length pre, length (ie_bytes e), if copy then ie_bytes e else []))
     else get_ie_ex_loop (pre @ ie_bytes e @ rest) p in_len eid oui copy (cnt + length (ie_bytes e)))"
proof -
  let ?m = "pre @ ie_bytes e @ rest"
  have copied: "rdn ?m (length pre) (length (snd e) + 2) = Some (ie_bytes e)"
    using rdn_append [of pre "ie_bytes e" rest] by simp
  have "get_ie_ex_loop ?m p in_len eid oui copy cnt =
      do { b \<leftarrow> rd ?m (p + cnt); hit \<leftarrow> oui_hit ?m (p + cnt + 2) eid oui b; l \<leftarrow> rd ?m (p + cnt + 1);
        if hit then do { bs \<leftarrow> (if copy then rdn ?m (p + cnt) (unat l + 2) else Some []);
          Some (Some (p + cnt, unat l + 2, bs)) }
        else get_ie_ex_loop ?m p in_len eid oui copy (cnt + unat l + 2) }"
    using assms(3) by (subst get_ie_ex_loop.simps) (simp only: oui_hit_def if_True)
  then show ?thesis
    using assms(1,4) copied by (simp add: rd_ie [simplified] oui_hit_ie [OF assms(2), simplified])
qed

lemma get_ie_ex_skip:
  assumes "ies_ok es" "oui_fits eid oui es" "\<forall>e \<in> set es. \<not> ie_match eid oui e"
    and "cnt + length (ies_bytes es) \<le> in_len" "p + cnt = length pre"
  shows "get_ie_ex_loop (pre @ ies_bytes es @ rest) p in_len eid oui copy cnt
    = get_ie_ex_loop (pre @ ies_bytes es @ rest) p in_len eid oui copy (cnt + length (ies_bytes es))"
  using assms
proof (induction es arbitrary: pre cnt)
  case (Cons e es)
  have "get_ie_ex_loop (pre @ ie_bytes e @ ies_bytes es @ rest) p in_len eid oui copy cnt
      = get_ie_ex_loop ((pre @ ie_bytes e) @ ies_bytes es @ rest) p in_len eid oui copy (cnt + length (ie_bytes e))"
    using Cons(2-6) by (subst get_ie_ex_at) auto
  also have "\<dots> = get_ie_ex_loop ((pre @ ie_bytes e) @ ies_bytes es @ rest) p in_len eid oui copy
      (cnt + length (ie_bytes e) + length (ies_bytes es))"
    by (rule Cons.IH) (use Cons(2-6) in auto)
  finally show ?case by (simp add: ac_simps)
qed simp

lemma get_ie_ex_none:
  assumes "ies_ok es" "oui_fits eid oui es" "\<forall>e \<in> set es. \<not> ie_match eid oui e"
  shows "rtw_get_ie_ex (pre @ ies_bytes es @ rest) (length pre) (length (ies_bytes es)) eid oui copy = Some None"
  unfolding rtw_get_ie_ex_def
  by (subst get_ie_ex_skip) (use assms in \<open>auto simp: get_ie_ex_loop.simps\<close>)

lemma get_ie_ex_first:
  assumes "ies_ok (a @ x # b)" "oui_fits eid oui (a @ x # b)" "\<forall>e \<in> set a. \<not> ie_match eid oui e" "ie_match eid oui x"
  shows "rtw_get_ie_ex (pre @ ies_bytes (a @ x # b) @ rest) (length pre) (length (ies_bytes (a @ x # b))) eid oui copy
    = Some (Some (length pre + length (ies_bytes a), length (ie_bytes x), if copy then ie_bytes x else []))"
proof -
  let ?n = "length (ies_bytes (a @ x # b))"
  have "rtw_get_ie_ex (pre @ ies_bytes (a @ x # b) @ rest) (length pre) ?n eid oui copy
      = get_ie_ex_loop (pre @ ies_bytes a @ ie_bytes x @ ies_bytes b @ rest) (length pre) ?n eid oui copy (0 + length (ies_bytes a))"
    unfolding rtw_get_ie_ex_def
    by (subst get_ie_ex_skip [of a, symmetric]) (use assms in auto)
  also have "\<dots> = get_ie_ex_loop ((pre @ ies_bytes a) @ ie_bytes x @ ies_bytes b @ rest) (length pre) ?n eid oui copy (length (ies_bytes a))"
    by simp
  finally show ?thesis
    using assms by (simp add: get_ie_ex_at [where e = x and pre = "pre @ ies_bytes a", simplified])
qed

section \<open>Removing and replacing on lists\<close>

lemma remove_loop_ies:
  assumes "ies_ok es" "oui_fits eid oui es"
  shows "\<exists>rest'. remove_loop (length pre) (length (ies_bytes es)) eid oui (pre @ ies_bytes es @ rest) (length pre + length (ies_bytes es)) ret
    = Some (if \<exists>e \<in> set es. ie_match eid oui e then RX_SUCCESS else ret,
        pre @ ies_bytes (filter (\<lambda>e. \<not> ie_match eid oui e) es) @ rest',
        length pre + length (ies_bytes (filter (\<lambda>e. \<not> ie_match eid oui e) es)))"
  using assms
proof (induction "length es" arbitrary: es pre rest ret rule: less_induct)
  case less
  show ?case
  proof (cases "\<exists>e \<in> set es. ie_match eid oui e")
    case False
    then have "filter (\<lambda>e. \<not> ie_match eid oui e) es = es" by (simp add: filter_id_conv)
    then show ?thesis
      using False less.prems by (subst remove_loop.simps) (simp add: get_ie_ex_none)
  next
    case True
    obtain a x b where es: "es = a @ x # b" "ie_match eid oui x" "\<forall>e \<in> set a. \<not> ie_match eid oui e"
      using first_match [OF True] .
    have a: "filter (\<lambda>e. \<not> ie_match eid oui e) a = a" using es(3) by (simp add: filter_id_conv)
    let ?pre = "pre @ ies_bytes a" and ?m = "pre @ ies_bytes es @ rest"
    have m: "?m = ?pre @ ie_bytes x @ ies_bytes b @ rest" by (simp add: es(1))
    have first: "rtw_get_ie_ex ?m (length pre) (length (ies_bytes es)) eid oui False
        = Some (Some (length ?pre, length (ie_bytes x), []))"
      using get_ie_ex_first [of a x b eid oui pre rest False] less.prems es by simp
    have rd: "rdn ?m (length ?pre + length (ie_bytes x)) (length (ies_bytes b)) = Some (ies_bytes b)"
      using rdn_append [of "?pre @ ie_bytes x" "ies_bytes b" rest] by (simp add: m add.assoc)
    obtain junk where wr: "wr ?m (length ?pre) (ies_bytes b) = Some (?pre @ ies_bytes b @ junk)"
      by (simp add: m wr_def)
    have "remove_loop (length pre) (length (ies_bytes es)) eid oui ?m (length pre + length (ies_bytes es)) ret
        = remove_loop (length ?pre) (length (ies_bytes b)) eid oui (?pre @ ies_bytes b @ junk)
            (length ?pre + length (ies_bytes b)) RX_SUCCESS"
      using first rd wr by (subst remove_loop.simps) (simp add: es(1) Let_def add.assoc)
    moreover obtain rest' where "remove_loop (length ?pre) (length (ies_bytes b)) eid oui (?pre @ ies_bytes b @ junk)
            (length ?pre + length (ies_bytes b)) RX_SUCCESS
        = Some (RX_SUCCESS, ?pre @ ies_bytes (filter (\<lambda>e. \<not> ie_match eid oui e) b) @ rest',
            length ?pre + length (ies_bytes (filter (\<lambda>e. \<not> ie_match eid oui e) b)))"
      using less.hyps [of b ?pre junk RX_SUCCESS] less.prems es(1) by auto
    ultimately show ?thesis using es True a by auto
  qed
qed

text \<open>
  \<^verbatim>\<open>rtw_ies_remove_ie\<close> removes from a list of elements exactly those with the identifier
  and selector, all of them, in place, keeps the order of the others and what is before the
  search area, and tells whether there was one. The elements with the identifier must be
  long enough for the selector.
\<close>

theorem ies_remove_filters:
  assumes "ies_ok es" "oui_fits eid oui es" "es \<noteq> []"
  shows "\<exists>rest. rtw_ies_remove_ie (pre @ ies_bytes es @ post) (length pre + length (ies_bytes es)) (length pre) eid oui
    = Some (if \<exists>e \<in> set es. ie_match eid oui e then RX_SUCCESS else RX_FAIL,
        pre @ ies_bytes (filter (\<lambda>e. \<not> ie_match eid oui e) es) @ rest,
        length pre + length (ies_bytes (filter (\<lambda>e. \<not> ie_match eid oui e) es)))"
proof -
  have "0 < length (ies_bytes es)" using assms(3) by (cases es) simp_all
  then show ?thesis
    using remove_loop_ies [OF assms(1,2), of pre post RX_FAIL] by (simp add: rtw_ies_remove_ie_def)
qed

theorem ies_remove_filters_witness:
  "\<exists>rest. rtw_ies_remove_ie [9, 0, 1, 65, 221, 2, 7, 8, 1, 1, 2, 221, 2, 7, 9] 15 1 221 (Some [7, 8])
    = Some (RX_SUCCESS, [9, 0, 1, 65, 1, 1, 2, 221, 2, 7, 9] @ rest, 11)"
proof -
  let ?es = "[(0, [65]), (221, [7, 8]), (1, [2]), (221, [7, 9])] :: ie list"
  have m: "[9] @ ies_bytes ?es @ [] = [9, 0, 1, 65, 221, 2, 7, 8, 1, 1, 2, 221, 2, 7, 9]"
    and l: "length [9::u8] + length (ies_bytes ?es) = 15" "length [9::u8] = 1"
    by (simp_all add: ie_bytes_def)
  have ok: "ies_ok ?es" "oui_fits 221 (Some [7, 8]) ?es" "?es \<noteq> []" by (simp_all add: oui_fit_def)
  have f: "filter (\<lambda>e. \<not> ie_match 221 (Some [7, 8]) e) ?es = [(0, [65]), (1, [2]), (221, [7, 9])]"
    "\<exists>e \<in> set ?es. ie_match 221 (Some [7, 8]) e"
    by (simp_all add: ie_match_def)
  show ?thesis
    using ies_remove_filters [OF ok, of "[9]" "[]"] unfolding f(1) if_P [OF f(2)] l(1) m unfolding l(2)
    by (simp add: ie_bytes_def eval_nat_numeral)
qed

lemma update_run:
  assumes "rtw_get_ie M off (uint eid) (int (len - off)) = Some (Some (length P, length c))"
    and M: "M = P @ [eid, L] @ c @ B @ post" and len: "len = length P + 2 + length c + length B"
    and "off < len" "c \<noteq> []" "length content \<le> length c + length post" "malloc_ok (length B)" "len < 2 ^ 32"
  shows "\<exists>m. rtw_ies_update_ie malloc_ok M len off eid content = Some (RX_SUCCESS, m, len + length content - length c)
    \<and> take (len + length content - length c) m = P @ [eid, of_nat (length content)] @ content @ B"
proof -
  define L' :: u8 where "L' = of_nat (length content)"
  define X where "X = drop (length content) (c @ B @ post)"
  have m1: "wr M (length P + 2) content = Some (P @ [eid, L] @ content @ X)"
    using wr_at [of content "c @ B @ post" "P @ [eid, L]"] assms(6) by (simp add: M X_def)
  have m2: "wr (P @ [eid, L] @ content @ X) (length P + 1) [L'] = Some (P @ [eid, L'] @ content @ X)"
    using wr_append [of "[L]" "[L']" "P @ [eid]" "content @ X"] by simp
  show ?thesis
  proof (cases "length c = length content")
    case True
    then have X: "X = B @ post" by (simp add: X_def)
    have "rtw_ies_update_ie malloc_ok M len off eid content = Some (RX_SUCCESS, P @ [eid, L'] @ content @ X, len)"
      unfolding rtw_ies_update_ie_def assms(1)
      using assms(4,5) True m1 m2 by (auto simp: L'_def)
    then show ?thesis using True by (simp add: X len L'_def)
  next
    case False
    have "(of_nat len - of_nat (length P + 2 + length c) :: u32) = of_nat (length B)"
      by (simp add: len)
    then have wrap: "unat (of_nat len - of_nat (length P + 2 + length c) :: u32) = length B"
      using assms(8) by (simp only: unat_of_nat) (simp add: len take_bit_eq_mod)
    have rest: "rdn M (length P + 2 + length c) (length B) = Some B"
      using rdn_append [of "P @ [eid, L] @ c" B post] by (simp add: M)
    have "length B \<le> length X" using assms(6) by (simp add: X_def)
    then have m3: "wr (P @ [eid, L'] @ content @ X) (length P + 2 + length content) B
        = Some (P @ [eid, L'] @ content @ B @ drop (length B) X)"
      using wr_at [of B X "P @ [eid, L'] @ content"] by simp
    have "rtw_ies_update_ie malloc_ok M len off eid content
        = Some (RX_SUCCESS, P @ [eid, L'] @ content @ B @ drop (length B) X, len + length content - length c)"
      unfolding rtw_ies_update_ie_def assms(1) Let_def bind.bind_lunit option.case prod.case wrap rest m1
      using assms(4,5,7) False by (simp only: L'_def [symmetric] m2 m3 bind.bind_lunit) simp
    then show ?thesis by (simp add: len L'_def)
  qed
qed

text \<open>
  \<^verbatim>\<open>rtw_ies_update_ie\<close> replaces the content of the first element with the identifier, and
  only that, when this content is not empty, the new content is at most 255 bytes long and
  fits into the memory; the elements behind it move.
\<close>

lemma ies_update_replaces:
  assumes "ies_ok (a @ (eid, c) # b)" "\<forall>e \<in> set a. fst e \<noteq> eid" "c \<noteq> []" "length content < 256"
    and "length content \<le> length c + length post" "malloc_ok (length (ies_bytes b))"
    and "length pre + length (ies_bytes (a @ (eid, c) # b)) < 2 ^ 32"
  shows "\<exists>m len. rtw_ies_update_ie malloc_ok (pre @ ies_bytes (a @ (eid, c) # b) @ post)
      (length pre + length (ies_bytes (a @ (eid, c) # b))) (length pre) eid content = Some (RX_SUCCESS, m, len)
    \<and> take len m = pre @ ies_bytes (a @ (eid, content) # b)"
proof -
  let ?es = "a @ (eid, c) # b"
  let ?m = "pre @ ies_bytes ?es @ post"
  have len: "length (ies_bytes ?es) = length (ies_bytes a) + (2 + length c) + length (ies_bytes b)" by simp
  have "rtw_get_ie ?m (length pre) (uint eid) (int (length pre + length (ies_bytes ?es) - length pre))
      = Some (Some (length (pre @ ies_bytes a), length c))"
    using get_ie_finds_first [OF assms(1), of pre post eid] assms(2) by (simp add: ie_find_skip)
  from update_run [OF this, of "of_nat (length c)" "ies_bytes b" post content malloc_ok]
  show ?thesis
    using assms(3,5,6,7) len by (auto simp: ie_bytes_def)
qed

lemma ies_update_replaces_ex:
  "\<exists>m len. rtw_ies_update_ie (\<lambda>_. True) [9, 0, 1, 65, 127, 1, 4, 1, 1, 2, 0, 0] 10 1 127 [5, 6, 7] = Some (RX_SUCCESS, m, len)
    \<and> take len m = [9, 0, 1, 65, 127, 3, 5, 6, 7, 1, 1, 2]"
proof -
  let ?a = "[(0, [65])] :: ie list" and ?b = "[(1, [2])] :: ie list"
  have m: "[9] @ ies_bytes (?a @ (127, [4]) # ?b) @ [0, 0] = [9, 0, 1, 65, 127, 1, 4, 1, 1, 2, 0, 0]"
    and l: "length [9::u8] + length (ies_bytes (?a @ (127, [4]) # ?b)) = 10" "length [9::u8] = 1"
    and r: "[9] @ ies_bytes (?a @ (127, [5, 6, 7]) # ?b) = [9, 0, 1, 65, 127, 3, 5, 6, 7, 1, 1, 2]"
    by (simp_all add: ie_bytes_def)
  have fits: "10 < (2::nat) ^ 32" "length (ies_bytes ?b) = 3" by (simp_all add: ie_bytes_def)
  show ?thesis
    using ies_update_replaces [of ?a 127 "[4]" ?b "[5, 6, 7]" "[0, 0]" "\<lambda>_. True" "[9]"]
    unfolding l(1) m r unfolding l(2) by (simp add: ie_bytes_def del: One_nat_def)
qed

end
