(* ===== verification/Ie_Elems.thy ===== *)
theory Ie_Elems
  imports Ie_Base
begin

text \<open>
  The parser of the elements of a management frame, \<^verbatim>\<open>rtw_ieee802_11_parse_elems\<close> of
  \<^verbatim>\<open>core/rtw_ieee80211.c\<close>: it notes where each element it knows is, in a structure with one
  pointer and one length per kind.

  The lemmas show that it reads and reports nothing outside of the area its caller gives it,
  for any bytes, that it fails exactly on the areas that are not a list of elements, and
  that of several elements of one kind it reports the last.
\<close>

section \<open>The structure\<close>

text \<open>\<^verbatim>\<open>struct rtw_ieee802_11_elems\<close>: each pointer, a position, with its length.\<close>

type_synonym elem = "(nat \<times> nat) option"

record ieee802_11_elems =
  el_ssid :: elem
  el_supp_rates :: elem
  el_fh_params :: elem
  el_ds_params :: elem
  el_cf_params :: elem
  el_tim :: elem
  el_ibss_params :: elem
  el_challenge :: elem
  el_erp_info :: elem
  el_ext_supp_rates :: elem
  el_wpa_ie :: elem
  el_rsn_ie :: elem
  el_wme :: elem
  el_wme_tspec :: elem
  el_wps_ie :: elem
  el_power_cap :: elem
  el_supp_channels :: elem
  el_mdie :: elem
  el_ftie :: elem
  el_timeout_int :: elem
  el_ht_capabilities :: elem
  el_ht_operation :: elem
  el_vendor_ht_cap :: elem
  el_vht_capabilities :: elem
  el_vht_operation :: elem
  el_vht_op_mode_notify :: elem
  el_rm_en_cap :: elem

definition no_elems :: ieee802_11_elems where
  "no_elems = \<lparr>el_ssid = None, el_supp_rates = None, el_fh_params = None, el_ds_params = None,
     el_cf_params = None, el_tim = None, el_ibss_params = None, el_challenge = None,
     el_erp_info = None, el_ext_supp_rates = None, el_wpa_ie = None, el_rsn_ie = None,
     el_wme = None, el_wme_tspec = None, el_wps_ie = None, el_power_cap = None,
     el_supp_channels = None, el_mdie = None, el_ftie = None, el_timeout_int = None,
     el_ht_capabilities = None, el_ht_operation = None, el_vendor_ht_cap = None,
     el_vht_capabilities = None, el_vht_operation = None, el_vht_op_mode_notify = None,
     el_rm_en_cap = None\<rparr>"

text \<open>The kinds of elements, one per field.\<close>

datatype slot = Ssid | SuppRates | FhParams | DsParams | CfParams | Tim | IbssParams | Challenge
  | ErpInfo | ExtSuppRates | WpaIe | RsnIe | Wme | WmeTspec | WpsIe | PowerCap | SuppChannels
  | Mdie | Ftie | TimeoutInt | HtCapabilities | HtOperation | VendorHtCap | VhtCapabilities
  | VhtOperation | VhtOpModeNotify | RmEnCap

primrec put_elem :: "slot \<Rightarrow> elem \<Rightarrow> ieee802_11_elems \<Rightarrow> ieee802_11_elems" where
  "put_elem Ssid v e = e\<lparr>el_ssid := v\<rparr>"
| "put_elem SuppRates v e = e\<lparr>el_supp_rates := v\<rparr>"
| "put_elem FhParams v e = e\<lparr>el_fh_params := v\<rparr>"
| "put_elem DsParams v e = e\<lparr>el_ds_params := v\<rparr>"
| "put_elem CfParams v e = e\<lparr>el_cf_params := v\<rparr>"
| "put_elem Tim v e = e\<lparr>el_tim := v\<rparr>"
| "put_elem IbssParams v e = e\<lparr>el_ibss_params := v\<rparr>"
| "put_elem Challenge v e = e\<lparr>el_challenge := v\<rparr>"
| "put_elem ErpInfo v e = e\<lparr>el_erp_info := v\<rparr>"
| "put_elem ExtSuppRates v e = e\<lparr>el_ext_supp_rates := v\<rparr>"
| "put_elem WpaIe v e = e\<lparr>el_wpa_ie := v\<rparr>"
| "put_elem RsnIe v e = e\<lparr>el_rsn_ie := v\<rparr>"
| "put_elem Wme v e = e\<lparr>el_wme := v\<rparr>"
| "put_elem WmeTspec v e = e\<lparr>el_wme_tspec := v\<rparr>"
| "put_elem WpsIe v e = e\<lparr>el_wps_ie := v\<rparr>"
| "put_elem PowerCap v e = e\<lparr>el_power_cap := v\<rparr>"
| "put_elem SuppChannels v e = e\<lparr>el_supp_channels := v\<rparr>"
| "put_elem Mdie v e = e\<lparr>el_mdie := v\<rparr>"
| "put_elem Ftie v e = e\<lparr>el_ftie := v\<rparr>"
| "put_elem TimeoutInt v e = e\<lparr>el_timeout_int := v\<rparr>"
| "put_elem HtCapabilities v e = e\<lparr>el_ht_capabilities := v\<rparr>"
| "put_elem HtOperation v e = e\<lparr>el_ht_operation := v\<rparr>"
| "put_elem VendorHtCap v e = e\<lparr>el_vendor_ht_cap := v\<rparr>"
| "put_elem VhtCapabilities v e = e\<lparr>el_vht_capabilities := v\<rparr>"
| "put_elem VhtOperation v e = e\<lparr>el_vht_operation := v\<rparr>"
| "put_elem VhtOpModeNotify v e = e\<lparr>el_vht_op_mode_notify := v\<rparr>"
| "put_elem RmEnCap v e = e\<lparr>el_rm_en_cap := v\<rparr>"

primrec get_elem :: "slot \<Rightarrow> ieee802_11_elems \<Rightarrow> elem" where
  "get_elem Ssid e = el_ssid e"
| "get_elem SuppRates e = el_supp_rates e"
| "get_elem FhParams e = el_fh_params e"
| "get_elem DsParams e = el_ds_params e"
| "get_elem CfParams e = el_cf_params e"
| "get_elem Tim e = el_tim e"
| "get_elem IbssParams e = el_ibss_params e"
| "get_elem Challenge e = el_challenge e"
| "get_elem ErpInfo e = el_erp_info e"
| "get_elem ExtSuppRates e = el_ext_supp_rates e"
| "get_elem WpaIe e = el_wpa_ie e"
| "get_elem RsnIe e = el_rsn_ie e"
| "get_elem Wme e = el_wme e"
| "get_elem WmeTspec e = el_wme_tspec e"
| "get_elem WpsIe e = el_wps_ie e"
| "get_elem PowerCap e = el_power_cap e"
| "get_elem SuppChannels e = el_supp_channels e"
| "get_elem Mdie e = el_mdie e"
| "get_elem Ftie e = el_ftie e"
| "get_elem TimeoutInt e = el_timeout_int e"
| "get_elem HtCapabilities e = el_ht_capabilities e"
| "get_elem HtOperation e = el_ht_operation e"
| "get_elem VendorHtCap e = el_vendor_ht_cap e"
| "get_elem VhtCapabilities e = el_vht_capabilities e"
| "get_elem VhtOperation e = el_vht_operation e"
| "get_elem VhtOpModeNotify e = el_vht_op_mode_notify e"
| "get_elem RmEnCap e = el_rm_en_cap e"

lemma get_put_same [simp]: "get_elem s (put_elem s v e) = v"
  by (cases s) simp_all

lemma get_put_other [simp]: "s \<noteq> t \<Longrightarrow> get_elem s (put_elem t v e) = get_elem s e"
  by (cases t; cases s) simp_all

lemma get_none [simp]: "get_elem s no_elems = None"
  by (cases s) (simp_all add: no_elems_def)

section \<open>The kind of an element\<close>

text \<open>
  \<^verbatim>\<open>rtw_ieee802_11_parse_vendor_specific\<close> on the content at \<open>pos\<close> of length \<open>elen\<close>: \<open>Some None\<close>
  is the result -1.
\<close>

definition parse_vendor_specific :: "u8 list \<Rightarrow> nat \<Rightarrow> nat \<Rightarrow> slot option option" where
  "parse_vendor_specific m pos elen =
     (if elen < 4 then Some None
      else
        do {
          oui \<leftarrow> rdn m pos 3;
          t \<leftarrow> rd m (pos + 3);
          if oui = [0x00, 0x50, 0xf2] then
            if t = 1 then Some (Some WpaIe)
            else if t = 2 then
              if elen < 5 then Some None
              else
                do { st \<leftarrow> rd m (pos + 4);
                     Some (if st = 0 \<or> st = 1 then Some Wme else if st = 2 then Some WmeTspec else None) }
            else if t = 4 then Some (Some WpsIe)
            else Some None
          else if oui = [0x00, 0x90, 0x4c] then Some (if t = 0x33 then Some VendorHtCap else None)
          else Some None
        })"

text \<open>The \<^verbatim>\<open>switch\<close> on the identifier.\<close>

definition elem_slot :: "u8 list \<Rightarrow> u8 \<Rightarrow> nat \<Rightarrow> nat \<Rightarrow> slot option option" where
  "elem_slot m eid pos elen =
     (if eid = 0 then Some (Some Ssid)
      else if eid = 1 then Some (Some SuppRates)
      else if eid = 2 then Some (Some FhParams)
      else if eid = 3 then Some (Some DsParams)
      else if eid = 4 then Some (Some CfParams)
      else if eid = 5 then Some (Some Tim)
      else if eid = 6 then Some (Some IbssParams)
      else if eid = 16 then Some (Some Challenge)
      else if eid = 42 then Some (Some ErpInfo)
      else if eid = 50 then Some (Some ExtSuppRates)
      else if eid = 221 then parse_vendor_specific m pos elen
      else if eid = 48 then Some (Some RsnIe)
      else if eid = 33 then Some (Some PowerCap)
      else if eid = 36 then Some (Some SuppChannels)
      else if eid = 54 then Some (Some Mdie)
      else if eid = 55 then Some (Some Ftie)
      else if eid = 56 then Some (Some TimeoutInt)
      else if eid = 45 then Some (Some HtCapabilities)
      else if eid = 61 then Some (Some HtOperation)
      else if eid = 191 then Some (Some VhtCapabilities)
      else if eid = 192 then Some (Some VhtOperation)
      else if eid = 199 then Some (Some VhtOpModeNotify)
      else if eid = 70 then Some (Some RmEnCap)
      else Some None)"

section \<open>The parser\<close>

datatype ParseRes = ParseOK | ParseUnknown | ParseFailed

function parse_elems_loop ::
  "u8 list \<Rightarrow> nat \<Rightarrow> nat \<Rightarrow> nat \<Rightarrow> ieee802_11_elems \<Rightarrow> (ParseRes \<times> ieee802_11_elems) option" where
  "parse_elems_loop m pos left unknown e =
     (if left \<ge> 2 then
        do {
          eid \<leftarrow> rd m pos;
          elen \<leftarrow> rd m (pos + 1);
          if unat elen > left - 2 then Some (ParseFailed, e)
          else
            do {
              s \<leftarrow> elem_slot m eid (pos + 2) (unat elen);
              (case s of
                 None \<Rightarrow> parse_elems_loop m (pos + 2 + unat elen) (left - 2 - unat elen) (unknown + 1) e
               | Some t \<Rightarrow> parse_elems_loop m (pos + 2 + unat elen) (left - 2 - unat elen) unknown
                   (put_elem t (Some (pos + 2, unat elen)) e))
            }
        }
      else if left > 0 then Some (ParseFailed, e)
      else Some (if unknown > 0 then ParseUnknown else ParseOK, e))"
  by pat_completeness auto

termination
  by (relation "measure (\<lambda>(m, pos, left, unknown, e). left)") auto

declare parse_elems_loop.simps [simp del]

definition rtw_ieee802_11_parse_elems :: "u8 list \<Rightarrow> nat \<Rightarrow> nat \<Rightarrow> (ParseRes \<times> ieee802_11_elems) option" where
  "rtw_ieee802_11_parse_elems m start len = parse_elems_loop m start len 0 no_elems"

section \<open>What the parser reports\<close>

lemma elem_slot_total:
  assumes "pos + elen \<le> length m"
  shows "\<exists>s. elem_slot m eid pos elen = Some s"
proof -
  have "\<exists>s. parse_vendor_specific m pos elen = Some s"
    using assms by (auto simp: parse_vendor_specific_def rdn_def rd_def)
  then show ?thesis by (simp add: elem_slot_def)
qed

text \<open>Every field lies in the area from \<open>p\<close> to \<open>q\<close>.\<close>

definition elems_inside :: "nat \<Rightarrow> nat \<Rightarrow> ieee802_11_elems \<Rightarrow> bool" where
  "elems_inside p q e \<longleftrightarrow> (\<forall>s a n. get_elem s e = Some (a, n) \<longrightarrow> p + 2 \<le> a \<and> a + n \<le> q)"

lemma elems_inside_put:
  "elems_inside p q e \<Longrightarrow> p + 2 \<le> a \<Longrightarrow> a + n \<le> q \<Longrightarrow> elems_inside p q (put_elem t (Some (a, n)) e)"
  unfolding elems_inside_def
proof (intro allI impI)
  fix s b k
  assume "\<forall>s a n. get_elem s e = Some (a, n) \<longrightarrow> p + 2 \<le> a \<and> a + n \<le> q" "p + 2 \<le> a" "a + n \<le> q"
    and "get_elem s (put_elem t (Some (a, n)) e) = Some (b, k)"
  then show "p + 2 \<le> b \<and> b + k \<le> q" by (cases "s = t") auto
qed

definition is_ies :: "u8 list \<Rightarrow> bool" where
  "is_ies bs \<longleftrightarrow> (\<exists>es. ies_ok es \<and> bs = ies_bytes es)"

lemma is_ies_Nil: "is_ies []"
  unfolding is_ies_def by (rule exI [of _ "[]"]) simp

lemma is_ies_Cons: "length c < 256 \<Longrightarrow> is_ies bs \<Longrightarrow> is_ies (eid # of_nat (length c) # c @ bs)"
  unfolding is_ies_def
proof (elim exE conjE)
  fix es assume "length c < 256" "ies_ok es" "bs = ies_bytes es"
  then show "\<exists>es. ies_ok es \<and> eid # of_nat (length c) # c @ bs = ies_bytes es"
    by (intro exI [of _ "(eid, c) # es"]) (simp add: ie_bytes_def)
qed

lemma is_ies_elim:
  assumes "is_ies bs" "bs \<noteq> []"
  obtains eid c bs' where "bs = eid # of_nat (length c) # c @ bs'" "length c < 256" "is_ies bs'"
proof -
  obtain es where es: "ies_ok es" "bs = ies_bytes es" using assms(1) by (auto simp: is_ies_def)
  then obtain e fs where "es = e # fs" using assms(2) by (cases es) auto
  then show ?thesis
    using that [of "fst e" "snd e" "ies_bytes fs"] es by (auto simp: ie_bytes_def is_ies_def)
qed

lemma is_ies_tail:
  assumes "is_ies (eid # of_nat (length c) # c @ bs)" "length c < 256"
  shows "is_ies bs"
  using assms(1)
proof (rule is_ies_elim)
  fix eid' d bs'
  assume d: "eid # of_nat (length c) # c @ bs = eid' # of_nat (length d) # d @ bs'" "length d < 256" "is_ies bs'"
  then have "unat (of_nat (length c) :: u8) = unat (of_nat (length d) :: u8)" by simp
  then have "length c = length d" using assms(2) d(2) by simp
  then show ?thesis using d by simp
qed simp

lemma parse_elems_step:
  assumes "rd m pos = Some eid" "rd m (pos + 1) = Some elen" "2 \<le> left" "unat elen \<le> left - 2" "pos + left \<le> length m"
  obtains s where "elem_slot m eid (pos + 2) (unat elen) = Some s" "parse_elems_loop m pos left unknown e =
     (case s of
        None \<Rightarrow> parse_elems_loop m (pos + 2 + unat elen) (left - 2 - unat elen) (unknown + 1) e
      | Some t \<Rightarrow> parse_elems_loop m (pos + 2 + unat elen) (left - 2 - unat elen) unknown
          (put_elem t (Some (pos + 2, unat elen)) e))"
proof -
  have "pos + 2 + unat elen \<le> length m" using assms(3-5) by linarith
  then obtain s where s: "elem_slot m eid (pos + 2) (unat elen) = Some s"
    using elem_slot_total [of "pos + 2" "unat elen" m eid] by blast
  show ?thesis
    by (rule that [OF s], subst parse_elems_loop.simps) (use s assms(1-4) in \<open>simp split: option.split\<close>)
qed

lemma area_split:
  assumes "pos + left \<le> length m" "2 + n \<le> left"
  shows "take left (drop pos m)
    = m ! pos # m ! (pos + 1) # take n (drop (pos + 2) m) @ take (left - 2 - n) (drop (pos + 2 + n) m)"
proof -
  have "drop pos m = m ! pos # m ! (pos + 1) # drop (pos + 2) m"
    using assms Cons_nth_drop_Suc [of pos m] Cons_nth_drop_Suc [of "Suc pos" m] by simp
  moreover have "take left (x # y # drop (pos + 2) m)
      = x # y # take n (drop (pos + 2) m) @ take (left - 2 - n) (drop (pos + 2 + n) m)" for x y
  proof -
    have "left = Suc (Suc (n + (left - 2 - n)))" using assms(2) by simp
    then show ?thesis by (metis take_Suc_Cons take_add drop_drop add.commute)
  qed
  ultimately show ?thesis by simp
qed

lemma parse_elems_loop_inside:
  assumes "pos + left \<le> length m" "p \<le> pos" "elems_inside p q e" "pos + left = q"
  shows "\<exists>r e'. parse_elems_loop m pos left unknown e = Some (r, e') \<and> elems_inside p q e'
    \<and> (r \<noteq> ParseFailed \<longleftrightarrow> is_ies (take left (drop pos m)))"
  using assms
proof (induction left arbitrary: pos unknown e rule: less_induct)
  case (less left)
  show ?case
  proof (cases "2 \<le> left")
    case False
    then have "left = 0 \<or> left = 1" by auto
    moreover have "\<not> is_ies [b]" for b by (auto elim: is_ies_elim)
    moreover have "left = 1 \<Longrightarrow> \<exists>b. take left (drop pos m) = [b]"
      using less.prems(1) by (cases "drop pos m") auto
    ultimately show ?thesis
      using less.prems(3) by (subst parse_elems_loop.simps) (auto simp: is_ies_Nil)
  next
    case True
    define eid where "eid = m ! pos"
    define elen where "elen = m ! (pos + 1)"
    have rd: "rd m pos = Some eid" "rd m (pos + 1) = Some elen"
      using True less.prems(1) by (simp_all add: rd_def eid_def elen_def)
    show ?thesis
    proof (cases "unat elen \<le> left - 2")
      case False
      have "\<not> is_ies (take left (drop pos m))"
      proof
        assume "is_ies (take left (drop pos m))"
        moreover have area: "take left (drop pos m) = eid # elen # take (left - 2) (drop (pos + 2) m)"
          using area_split [OF less.prems(1), of "left - 2"] True by (simp add: eid_def elen_def)
        ultimately obtain c bs where "eid # elen # take (left - 2) (drop (pos + 2) m) = eid # of_nat (length c) # c @ bs" "length c < 256"
          by (metis is_ies_elim list.distinct(1) list.inject)
        then have "unat elen = length c" "length c \<le> left - 2"
          by (auto dest: arg_cong [where f = length])
        then show False using False by simp
      qed
      then show ?thesis
        using rd True False less.prems(3) by (subst parse_elems_loop.simps) simp
    next
      case le: True
      define n where "n = unat elen"
      obtain s where s: "parse_elems_loop m pos left unknown e =
         (case s of
            None \<Rightarrow> parse_elems_loop m (pos + 2 + n) (left - 2 - n) (unknown + 1) e
          | Some t \<Rightarrow> parse_elems_loop m (pos + 2 + n) (left - 2 - n) unknown (put_elem t (Some (pos + 2, n)) e))"
        using parse_elems_step [OF rd True le less.prems(1)] unfolding n_def by metis
      have put: "elems_inside p q (put_elem t (Some (pos + 2, n)) e)" for t
        using less.prems True le by (intro elems_inside_put) (simp_all add: n_def)
      have IH: "\<exists>r e'. parse_elems_loop m (pos + 2 + n) (left - 2 - n) u d = Some (r, e') \<and> elems_inside p q e'
          \<and> (r \<noteq> ParseFailed \<longleftrightarrow> is_ies (take (left - 2 - n) (drop (pos + 2 + n) m)))"
        if "elems_inside p q d" for u d
        using less.prems True le that by (intro less.IH) (simp_all add: n_def)
      have len: "length (take n (drop (pos + 2) m)) = n" and n: "elen = of_nat n" "n < 256"
        using less.prems(1) True le u8_range [of elen] by (simp_all add: n_def)
      have area: "take left (drop pos m)
          = eid # of_nat (length (take n (drop (pos + 2) m))) # take n (drop (pos + 2) m) @ take (left - 2 - n) (drop (pos + 2 + n) m)"
        unfolding len n(1) [symmetric] eid_def elen_def
        by (rule area_split [OF less.prems(1)]) (use True le in \<open>simp add: n_def\<close>)
      have "is_ies (take left (drop pos m)) \<longleftrightarrow> is_ies (take (left - 2 - n) (drop (pos + 2 + n) m))"
      proof
        assume "is_ies (take left (drop pos m))"
        then show "is_ies (take (left - 2 - n) (drop (pos + 2 + n) m))"
          unfolding area by (rule is_ies_tail) (simp only: len n)
      next
        assume "is_ies (take (left - 2 - n) (drop (pos + 2 + n) m))"
        then show "is_ies (take left (drop pos m))"
          unfolding area by (rule is_ies_Cons [rotated]) (simp only: len n)
      qed
      then show ?thesis using s IH put less.prems(3) by (cases s) simp_all
    qed
  qed
qed

text \<open>
  C25. The parser is safe on every input and exact about what it accepts: for any bytes in
  the area its caller gives, as long as the area is in the memory, it reads nothing outside,
  every element it reports, of any kind, lies inside the area behind its head, and it fails
  exactly when the area is not a list of elements.
\<close>

theorem parse_elems_safe:
  assumes "start + len \<le> length m"
  shows "\<exists>r e. rtw_ieee802_11_parse_elems m start len = Some (r, e)
    \<and> (\<forall>s p n. get_elem s e = Some (p, n) \<longrightarrow> start + 2 \<le> p \<and> p + n \<le> start + len)
    \<and> (r = ParseFailed \<longleftrightarrow> (\<nexists>es. ies_ok es \<and> take len (drop start m) = ies_bytes es))"
  using parse_elems_loop_inside [OF assms, of start "start + len" no_elems 0]
  by (auto simp: rtw_ieee802_11_parse_elems_def elems_inside_def is_ies_def)

theorem parse_elems_safe_witness:
  "\<exists>e. rtw_ieee802_11_parse_elems [9, 0, 1, 65, 48, 7, 1] 1 6 = Some (ParseFailed, e)
    \<and> (\<forall>s p n. get_elem s e = Some (p, n) \<longrightarrow> 3 \<le> p \<and> p + n \<le> 7) \<and> get_elem Ssid e = Some (3, 1)"
proof -
  have "map_option (\<lambda>(r, e). (r, get_elem Ssid e)) (rtw_ieee802_11_parse_elems [9, 0, 1, 65, 48, 7, 1] 1 6)
      = Some (ParseFailed, Some (3, 1))"
    by code_simp
  then obtain e where e: "rtw_ieee802_11_parse_elems [9, 0, 1, 65, 48, 7, 1] 1 6 = Some (ParseFailed, e)"
    "get_elem Ssid e = Some (3, 1)"
    by auto
  then show ?thesis
    using parse_elems_safe [of 1 6 "[9, 0, 1, 65, 48, 7, 1]"] by (auto simp: numeral_3_eq_3)
qed

section \<open>The last element of each kind\<close>

definition ie_slot :: "ie \<Rightarrow> slot option" where
  "ie_slot x = the (elem_slot (snd x) (fst x) 0 (length (snd x)))"

text \<open>The elements with the positions of their contents.\<close>

fun placed :: "ie list \<Rightarrow> nat \<Rightarrow> (ie \<times> nat) list" where
  "placed [] p = []"
| "placed (x # xs) p = (x, p + 2) # placed xs (p + 2 + length (snd x))"

definition note_elem :: "ieee802_11_elems \<Rightarrow> ie \<times> nat \<Rightarrow> ieee802_11_elems" where
  "note_elem e x = (case ie_slot (fst x) of None \<Rightarrow> e | Some t \<Rightarrow> put_elem t (Some (snd x, length (snd (fst x)))) e)"

definition last_elem :: "slot \<Rightarrow> (ie \<times> nat) list \<Rightarrow> elem" where
  "last_elem s xs = (case filter (\<lambda>x. ie_slot (fst x) = Some s) xs of
     [] \<Rightarrow> None | ys \<Rightarrow> Some (snd (last ys), length (snd (fst (last ys)))))"

lemma last_elem_Nil [simp]: "last_elem s [] = None"
  by (simp add: last_elem_def)

lemma last_elem_snoc [simp]:
  "last_elem s (xs @ [x])
    = (if ie_slot (fst x) = Some s then Some (snd x, length (snd (fst x))) else last_elem s xs)"
proof -
  have "ys @ [x] = (z # zs) \<Longrightarrow> last (z # zs) = x" for ys z zs
    by (metis last_snoc)
  then show ?thesis
    by (cases "filter (\<lambda>x. ie_slot (fst x) = Some s) xs @ [x]") (auto simp: last_elem_def)
qed

lemma get_note:
  "get_elem s (foldl note_elem e xs) = (case last_elem s xs of None \<Rightarrow> get_elem s e | Some v \<Rightarrow> Some v)"
proof (induction xs rule: rev_induct)
  case (snoc x xs)
  then show ?case
    by (cases "ie_slot (fst x)") (auto simp: note_elem_def)
qed simp

lemma rd_content: "k < length c \<Longrightarrow> rd (pre @ c @ post) (length pre + k) = rd c k"
  by (simp add: rd_def nth_append)

lemma rdn_content: "k + n \<le> length c \<Longrightarrow> rdn (pre @ c @ post) (length pre + k) n = rdn c k n"
  by (simp add: rdn_def)

lemma elem_slot_content: "elem_slot (pre @ c @ post) eid (length pre) (length c) = elem_slot c eid 0 (length c)"
proof -
  have "parse_vendor_specific (pre @ c @ post) (length pre) (length c) = parse_vendor_specific c 0 (length c)"
  proof (cases "length c < 4")
    case True
    then show ?thesis by (simp add: parse_vendor_specific_def)
  next
    case False
    then have "rdn (pre @ c @ post) (length pre) 3 = rdn c 0 3" "rd (pre @ c @ post) (length pre + 3) = rd c 3"
      "4 < length c \<Longrightarrow> rd (pre @ c @ post) (length pre + 4) = rd c 4"
      using rd_content [of 3 c pre post] rd_content [of 4 c pre post] rdn_content [of 0 3 c pre post] by simp_all
    moreover have "length c < 5 \<or> 4 < length c" by linarith
    ultimately show ?thesis
      by (elim disjE) (simp_all add: parse_vendor_specific_def cong: if_cong)
  qed
  then show ?thesis by (simp add: elem_slot_def)
qed

lemma elem_slot_ie:
  "elem_slot (pre @ ie_bytes x @ post) (fst x) (length pre + 2) (length (snd x)) = Some (ie_slot x)"
proof -
  have "elem_slot (pre @ ie_bytes x @ post) (fst x) (length pre + 2) (length (snd x))
      = elem_slot ((pre @ [fst x, of_nat (length (snd x))]) @ snd x @ post) (fst x)
          (length (pre @ [fst x, of_nat (length (snd x))])) (length (snd x))"
    by (simp add: ie_bytes_def)
  also have "\<dots> = elem_slot (snd x) (fst x) 0 (length (snd x))" by (rule elem_slot_content)
  finally show ?thesis
    using elem_slot_total [of 0 "length (snd x)" "snd x" "fst x"] by (auto simp: ie_slot_def)
qed

lemma parse_elems_loop_ies:
  assumes "ies_ok es"
  shows "parse_elems_loop (pre @ ies_bytes es @ post) (length pre) (length (ies_bytes es)) u e
    = Some (if u > 0 \<or> (\<exists>x \<in> set es. ie_slot x = None) then ParseUnknown else ParseOK,
        foldl note_elem e (placed es (length pre)))"
  using assms
proof (induction es arbitrary: pre u e)
  case Nil
  then show ?case by (subst parse_elems_loop.simps) simp
next
  case (Cons x xs)
  have IH: "parse_elems_loop (pre @ ie_bytes x @ ies_bytes xs @ post) (length pre + 2 + length (snd x)) (length (ies_bytes xs)) v d
      = Some (if v > 0 \<or> (\<exists>x \<in> set xs. ie_slot x = None) then ParseUnknown else ParseOK,
          foldl note_elem d (placed xs (length pre + 2 + length (snd x))))" for v d
    using Cons.IH [of "pre @ ie_bytes x" v d] Cons.prems by (simp add: ac_simps)
  have "parse_elems_loop (pre @ ies_bytes (x # xs) @ post) (length pre) (length (ies_bytes (x # xs))) u e
      = (case ie_slot x of
          None \<Rightarrow> parse_elems_loop (pre @ ie_bytes x @ ies_bytes xs @ post) (length pre + 2 + length (snd x)) (length (ies_bytes xs)) (u + 1) e
        | Some t \<Rightarrow> parse_elems_loop (pre @ ie_bytes x @ ies_bytes xs @ post) (length pre + 2 + length (snd x)) (length (ies_bytes xs)) u
            (put_elem t (Some (length pre + 2, length (snd x))) e))"
    using Cons.prems rd_ie [of pre x "ies_bytes xs @ post"] elem_slot_ie [of pre x "ies_bytes xs @ post"]
    by (subst parse_elems_loop.simps) (simp split: option.split)
  then show ?case
    unfolding IH by (cases "ie_slot x") (simp_all add: note_elem_def [of e])
qed



end
