(* ===== verification/Ie_Sec.thy ===== *)
theory Ie_Sec
  imports Ie_Base
begin

text \<open>
  The security elements, \<^verbatim>\<open>core/rtw_ieee80211.c\<close>: the selectors of cipher suites and of key
  management, \<^verbatim>\<open>rtw_rsne_info_parse\<close> and \<^verbatim>\<open>rtw_parse_wpa2_ie\<close> for the RSN element,
  \<^verbatim>\<open>rtw_parse_wpa_ie\<close> for the WPA element, and the functions that find them.

  The lemmas show that the parser of the RSN element reports fields inside of the element
  only, whatever its bytes, and that the suites, the capabilities and the policy of every
  encoded element, cut behind any of its fields, are read back.
\<close>

section \<open>Selectors\<close>

definition WPA_CIPHER :: "nat \<Rightarrow> u32" where
  "WPA_CIPHER n = push_bit n 1"

definition rtw_get_wpa_cipher_suite :: "u8 list \<Rightarrow> u32" where
  "rtw_get_wpa_cipher_suite s =
     (if s = [0x00, 0x50, 0xf2, 0] then WPA_CIPHER 0
      else if s = [0x00, 0x50, 0xf2, 1] then WPA_CIPHER 1
      else if s = [0x00, 0x50, 0xf2, 2] then WPA_CIPHER 3
      else if s = [0x00, 0x50, 0xf2, 4] then WPA_CIPHER 4
      else if s = [0x00, 0x50, 0xf2, 5] then WPA_CIPHER 2
      else 0)"

definition rtw_get_rsn_cipher_suite :: "u8 list \<Rightarrow> u32" where
  "rtw_get_rsn_cipher_suite s =
     (if s = [0x00, 0x0f, 0xac, 0] then WPA_CIPHER 0
      else if s = [0x00, 0x0f, 0xac, 1] then WPA_CIPHER 1
      else if s = [0x00, 0x0f, 0xac, 2] then WPA_CIPHER 3
      else if s = [0x00, 0x0f, 0xac, 4] then WPA_CIPHER 4
      else if s = [0x00, 0x0f, 0xac, 8] then WPA_CIPHER 5
      else if s = [0x00, 0x0f, 0xac, 9] then WPA_CIPHER 6
      else if s = [0x00, 0x0f, 0xac, 10] then WPA_CIPHER 7
      else if s = [0x00, 0x0f, 0xac, 5] then WPA_CIPHER 2
      else if s = [0x00, 0x0f, 0xac, 6] then WPA_CIPHER 8
      else if s = [0x00, 0x0f, 0xac, 11] then WPA_CIPHER 9
      else if s = [0x00, 0x0f, 0xac, 12] then WPA_CIPHER 10
      else if s = [0x00, 0x0f, 0xac, 13] then WPA_CIPHER 11
      else 0)"

definition WLAN_AKM_TYPE :: "nat \<Rightarrow> u32" where
  "WLAN_AKM_TYPE n = push_bit n 1"

definition rtw_get_akm_suite_bitmap :: "u8 list \<Rightarrow> u32" where
  "rtw_get_akm_suite_bitmap s =
     (if s = [0x00, 0x0f, 0xac, 1] then WLAN_AKM_TYPE 0
      else if s = [0x00, 0x0f, 0xac, 2] then WLAN_AKM_TYPE 1
      else if s = [0x00, 0x0f, 0xac, 3] then WLAN_AKM_TYPE 2
      else if s = [0x00, 0x0f, 0xac, 4] then WLAN_AKM_TYPE 3
      else if s = [0x00, 0x0f, 0xac, 5] then WLAN_AKM_TYPE 4
      else if s = [0x00, 0x0f, 0xac, 6] then WLAN_AKM_TYPE 5
      else if s = [0x00, 0x0f, 0xac, 7] then WLAN_AKM_TYPE 6
      else if s = [0x00, 0x0f, 0xac, 8] then WLAN_AKM_TYPE 7
      else if s = [0x00, 0x0f, 0xac, 9] then WLAN_AKM_TYPE 8
      else if s = [0x00, 0x0f, 0xac, 11] then WLAN_AKM_TYPE 9
      else if s = [0x00, 0x0f, 0xac, 12] then WLAN_AKM_TYPE 10
      else if s = [0x00, 0x0f, 0xac, 14] then WLAN_AKM_TYPE 11
      else if s = [0x00, 0x0f, 0xac, 15] then WLAN_AKM_TYPE 12
      else if s = [0x00, 0x0f, 0xac, 16] then WLAN_AKM_TYPE 13
      else if s = [0x00, 0x0f, 0xac, 17] then WLAN_AKM_TYPE 14
      else 0)"

text \<open>The loops that collect the suites of a list at \<open>p\<close>.\<close>

primrec or_suites :: "(u8 list \<Rightarrow> u32) \<Rightarrow> u8 list \<Rightarrow> nat \<Rightarrow> nat \<Rightarrow> u32 \<Rightarrow> u32 option" where
  "or_suites f m p 0 acc = Some acc"
| "or_suites f m p (Suc n) acc = do { s \<leftarrow> rdn m p 4; or_suites f m (p + 4) n (acc OR f s) }"

definition rd16 :: "u8 list \<Rightarrow> nat \<Rightarrow> u16 option" where
  "rd16 m p = do { bs \<leftarrow> rdn m p 2; Some (le16_at bs 0) }"

section \<open>The RSN element\<close>

text \<open>\<^verbatim>\<open>struct rsne_info\<close>: the pointers are positions.\<close>

record rsne_info =
  ri_gcs :: "nat option"
  ri_pcs_cnt :: u16
  ri_pcs_list :: "nat option"
  ri_akm_cnt :: u16
  ri_akm_list :: "nat option"
  ri_cap :: "nat option"
  ri_pmkid_cnt :: u16
  ri_pmkid_list :: "nat option"
  ri_gmcs :: "nat option"
  ri_err :: bool

definition rsne_zero :: rsne_info where
  "rsne_zero = \<lparr>ri_gcs = None, ri_pcs_cnt = 0, ri_pcs_list = None, ri_akm_cnt = 0, ri_akm_list = None,
     ri_cap = None, ri_pmkid_cnt = 0, ri_pmkid_list = None, ri_gmcs = None, ri_err = False\<rparr>"

text \<open>The labels \<^verbatim>\<open>exit\<close> and \<^verbatim>\<open>err\<close>, and the choice between them when a field is cut.\<close>

definition rsne_err :: "rsne_info \<Rightarrow> (rx_ret \<times> rsne_info) option" where
  "rsne_err info = Some (RX_FAIL, info\<lparr>ri_err := True\<rparr>)"

definition rsne_cut :: "nat \<Rightarrow> nat \<Rightarrow> rsne_info \<Rightarrow> (rx_ret \<times> rsne_info) option" where
  "rsne_cut e pos info = (if e \<noteq> pos then rsne_err info else Some (RX_SUCCESS, info))"

text \<open>The fields from the last to the first; \<open>e\<close> is the end of the element.\<close>

definition rsne_gmcs :: "nat \<Rightarrow> nat \<Rightarrow> rsne_info \<Rightarrow> (rx_ret \<times> rsne_info) option" where
  "rsne_gmcs e pos info =
     (if e < pos + 4 then rsne_cut e pos info
      else Some (RX_SUCCESS, info\<lparr>ri_gmcs := Some pos\<rparr>))"

definition rsne_pmkid :: "u8 list \<Rightarrow> nat \<Rightarrow> nat \<Rightarrow> rsne_info \<Rightarrow> (rx_ret \<times> rsne_info) option" where
  "rsne_pmkid m e pos info =
     (if e < pos + 2 then rsne_cut e pos info
      else
        do {
          cnt \<leftarrow> rd16 m pos;
          (if e < pos + 2 + 16 * unat cnt then rsne_err info
           else rsne_gmcs e (pos + 2 + 16 * unat cnt)
             (info\<lparr>ri_pmkid_cnt := cnt, ri_pmkid_list := Some (pos + 2)\<rparr>))
        })"

definition rsne_cap :: "u8 list \<Rightarrow> nat \<Rightarrow> nat \<Rightarrow> rsne_info \<Rightarrow> (rx_ret \<times> rsne_info) option" where
  "rsne_cap m e pos info =
     (if e < pos + 2 then rsne_cut e pos info
      else rsne_pmkid m e (pos + 2) (info\<lparr>ri_cap := Some pos\<rparr>))"

definition rsne_akm :: "u8 list \<Rightarrow> nat \<Rightarrow> nat \<Rightarrow> rsne_info \<Rightarrow> (rx_ret \<times> rsne_info) option" where
  "rsne_akm m e pos info =
     (if e < pos + 2 then rsne_cut e pos info
      else
        do {
          cnt \<leftarrow> rd16 m pos;
          (if e < pos + 2 + 4 * unat cnt then rsne_cut e (pos + 2) info
           else rsne_cap m e (pos + 2 + 4 * unat cnt)
             (info\<lparr>ri_akm_cnt := cnt, ri_akm_list := Some (pos + 2)\<rparr>))
        })"

definition rsne_pcs :: "u8 list \<Rightarrow> nat \<Rightarrow> nat \<Rightarrow> rsne_info \<Rightarrow> (rx_ret \<times> rsne_info) option" where
  "rsne_pcs m e pos info =
     (if e < pos + 2 then rsne_cut e pos info
      else
        do {
          cnt \<leftarrow> rd16 m pos;
          (if e < pos + 2 + 4 * unat cnt then rsne_cut e (pos + 2) info
           else rsne_akm m e (pos + 2 + 4 * unat cnt)
             (info\<lparr>ri_pcs_cnt := cnt, ri_pcs_list := Some (pos + 2)\<rparr>))
        })"

definition rsne_gcs :: "u8 list \<Rightarrow> nat \<Rightarrow> nat \<Rightarrow> rsne_info \<Rightarrow> (rx_ret \<times> rsne_info) option" where
  "rsne_gcs m e pos info =
     (if e < pos + 4 then rsne_cut e pos info
      else rsne_pcs m e (pos + 4) (info\<lparr>ri_gcs := Some pos\<rparr>))"

definition rtw_rsne_info_parse :: "u8 list \<Rightarrow> nat \<Rightarrow> nat \<Rightarrow> (rx_ret \<times> rsne_info) option" where
  "rtw_rsne_info_parse m p ie_len =
     (if ie_len < 4 then rsne_err rsne_zero
      else
        do {
          b \<leftarrow> rd m p;
          l \<leftarrow> rd m (p + 1);
          if b \<noteq> 48 \<or> unat l \<noteq> ie_len - 2 then rsne_err rsne_zero
          else
            do {
              ver \<leftarrow> rd16 m (p + 2);
              if ver \<noteq> 1 then rsne_err rsne_zero
              else rsne_gcs m (p + ie_len) (p + 4) rsne_zero
            }
        })"

text \<open>
  \<^verbatim>\<open>rtw_parse_wpa2_ie\<close>. The caller's pointers may be null; here all results are there, and
  nothing of them when the element is refused.
\<close>

record wpa2_info =
  w2_group_cipher :: u32
  w2_pairwise_cipher :: u32
  w2_gmcs :: u32
  w2_akm :: u32
  w2_mfp_opt :: u8
  w2_spp_opt :: u8

definition GET_RSN_CAP_MFP_OPTION :: "u16 \<Rightarrow> u8" where
  "GET_RSN_CAP_MFP_OPTION cap = ucast (drop_bit 6 cap AND 3)"

definition GET_RSN_CAP_SPP_OPT :: "u16 \<Rightarrow> u8" where
  "GET_RSN_CAP_SPP_OPT cap = ucast (drop_bit 10 cap AND 3)"

definition rtw_parse_wpa2_ie :: "u8 list \<Rightarrow> nat \<Rightarrow> nat \<Rightarrow> wpa2_info option option" where
  "rtw_parse_wpa2_ie m p ie_len =
     do {
       (ret, info) \<leftarrow> rtw_rsne_info_parse m p ie_len;
       if ret \<noteq> RX_SUCCESS then Some None
       else
         do {
           group \<leftarrow> (case ri_gcs info of None \<Rightarrow> Some 0
             | Some q \<Rightarrow> map_option rtw_get_rsn_cipher_suite (rdn m q 4));
           pairwise \<leftarrow> (case ri_pcs_list info of None \<Rightarrow> Some 0
             | Some q \<Rightarrow> or_suites rtw_get_rsn_cipher_suite m q (unat (ri_pcs_cnt info)) 0);
           cap \<leftarrow> (case ri_cap info of None \<Rightarrow> Some None | Some q \<Rightarrow> map_option Some (rd16 m q));
           gmcs \<leftarrow> (case ri_gmcs info of
               Some q \<Rightarrow> map_option rtw_get_rsn_cipher_suite (rdn m q 4)
             | None \<Rightarrow> Some (case cap of None \<Rightarrow> 0
                 | Some c \<Rightarrow> if GET_RSN_CAP_MFP_OPTION c > 1 then WPA_CIPHER 8 else 0));
           akm \<leftarrow> (case ri_akm_list info of None \<Rightarrow> Some 0
             | Some q \<Rightarrow> or_suites rtw_get_akm_suite_bitmap m q (unat (ri_akm_cnt info)) 0);
           Some (Some \<lparr>w2_group_cipher = group, w2_pairwise_cipher = pairwise, w2_gmcs = gmcs, w2_akm = akm,
             w2_mfp_opt = (case cap of None \<Rightarrow> 0 | Some c \<Rightarrow> GET_RSN_CAP_MFP_OPTION c),
             w2_spp_opt = (case cap of None \<Rightarrow> 0 | Some c \<Rightarrow> GET_RSN_CAP_SPP_OPT c)\<rparr>)
         }
     }"

section \<open>Reported fields lie in the element\<close>

definition rsne_inside :: "nat \<Rightarrow> nat \<Rightarrow> rsne_info \<Rightarrow> bool" where
  "rsne_inside p e info \<longleftrightarrow>
     (\<forall>q. ri_gcs info = Some q \<longrightarrow> p \<le> q \<and> q + 4 \<le> e)
   \<and> (\<forall>q. ri_pcs_list info = Some q \<longrightarrow> p \<le> q \<and> q + 4 * unat (ri_pcs_cnt info) \<le> e)
   \<and> (\<forall>q. ri_akm_list info = Some q \<longrightarrow> p \<le> q \<and> q + 4 * unat (ri_akm_cnt info) \<le> e)
   \<and> (\<forall>q. ri_cap info = Some q \<longrightarrow> p \<le> q \<and> q + 2 \<le> e)
   \<and> (\<forall>q. ri_pmkid_list info = Some q \<longrightarrow> p \<le> q \<and> q + 16 * unat (ri_pmkid_cnt info) \<le> e)
   \<and> (\<forall>q. ri_gmcs info = Some q \<longrightarrow> p \<le> q \<and> q + 4 \<le> e)"

definition rsne_safe :: "nat \<Rightarrow> nat \<Rightarrow> (rx_ret \<times> rsne_info) option \<Rightarrow> bool" where
  "rsne_safe p e res \<longleftrightarrow>
     (\<exists>r info. res = Some (r, info) \<and> rsne_inside p e info \<and> r = (if ri_err info then RX_FAIL else RX_SUCCESS))"

definition rsne_good :: "nat \<Rightarrow> nat \<Rightarrow> rsne_info \<Rightarrow> bool" where
  "rsne_good p e info \<longleftrightarrow> rsne_inside p e info \<and> \<not> ri_err info"

lemma rsne_err_safe: "rsne_good p e info \<Longrightarrow> rsne_safe p e (rsne_err info)"
  by (simp add: rsne_safe_def rsne_err_def rsne_good_def rsne_inside_def)

lemma rsne_cut_safe: "rsne_good p e info \<Longrightarrow> rsne_safe p e (rsne_cut x pos info)"
  by (simp add: rsne_cut_def rsne_err_safe) (simp add: rsne_safe_def rsne_good_def)

lemma rd16_inside: "pos + 2 \<le> length m \<Longrightarrow> \<exists>c. rd16 m pos = Some c"
  by (simp add: rd16_def rdn_def)

lemma rsne_gmcs_safe: "rsne_good p e info \<Longrightarrow> p \<le> pos \<Longrightarrow> rsne_safe p e (rsne_gmcs e pos info)"
  by (simp add: rsne_gmcs_def rsne_cut_safe) (simp add: rsne_safe_def rsne_good_def rsne_inside_def)

lemma rsne_pmkid_safe:
  "rsne_good p e info \<Longrightarrow> p \<le> pos \<Longrightarrow> e \<le> length m \<Longrightarrow> rsne_safe p e (rsne_pmkid m e pos info)"
  using rd16_inside [of pos m]
  by (auto simp: rsne_pmkid_def rsne_cut_safe rsne_err_safe rsne_good_def rsne_inside_def intro!: rsne_gmcs_safe)

lemma rsne_cap_safe:
  "rsne_good p e info \<Longrightarrow> p \<le> pos \<Longrightarrow> e \<le> length m \<Longrightarrow> rsne_safe p e (rsne_cap m e pos info)"
  by (auto simp: rsne_cap_def rsne_cut_safe rsne_good_def rsne_inside_def intro!: rsne_pmkid_safe)

lemma rsne_akm_safe:
  "rsne_good p e info \<Longrightarrow> p \<le> pos \<Longrightarrow> e \<le> length m \<Longrightarrow> rsne_safe p e (rsne_akm m e pos info)"
  using rd16_inside [of pos m]
  by (auto simp: rsne_akm_def rsne_cut_safe rsne_good_def rsne_inside_def intro!: rsne_cap_safe)

lemma rsne_pcs_safe:
  "rsne_good p e info \<Longrightarrow> p \<le> pos \<Longrightarrow> e \<le> length m \<Longrightarrow> rsne_safe p e (rsne_pcs m e pos info)"
  using rd16_inside [of pos m]
  by (auto simp: rsne_pcs_def rsne_cut_safe rsne_good_def rsne_inside_def intro!: rsne_akm_safe)

lemma rsne_gcs_safe:
  "rsne_good p e info \<Longrightarrow> p \<le> pos \<Longrightarrow> e \<le> length m \<Longrightarrow> rsne_safe p e (rsne_gcs m e pos info)"
  by (auto simp: rsne_gcs_def rsne_cut_safe rsne_good_def rsne_inside_def intro!: rsne_pcs_safe)

lemma rsne_parse_inside:
  assumes "p + ie_len \<le> length m"
  shows "rsne_safe (p + 4) (p + ie_len) (rtw_rsne_info_parse m p ie_len)"
proof -
  have zero: "rsne_good (p + 4) (p + ie_len) rsne_zero"
    by (simp add: rsne_good_def rsne_zero_def rsne_inside_def)
  show ?thesis
  proof (cases "ie_len < 4")
    case True
    then show ?thesis by (simp add: rtw_rsne_info_parse_def rsne_err_safe [OF zero])
  next
    case False
    obtain ver where "rd16 m (p + 2) = Some ver"
      using rd16_inside [of "p + 2" m] False assms by auto
    then show ?thesis
      using False assms rsne_gcs_safe [OF zero, of "p + 4" m]
      by (simp add: rtw_rsne_info_parse_def rd_def rsne_err_safe [OF zero])
  qed
qed

lemma or_suites_inside: "p + 4 * n \<le> length m \<Longrightarrow> \<exists>x. or_suites f m p n acc = Some x"
  by (induction n arbitrary: p acc) (simp_all add: rdn_def)

lemma inside_read:
  "(\<And>q. x = Some q \<Longrightarrow> \<exists>y. f q = Some y) \<Longrightarrow> \<exists>y. (case x of None \<Rightarrow> Some d | Some q \<Rightarrow> f q) = Some y"
  by (cases x) simp_all

text \<open>
  C28. The parsing of the RSN element is safe for any bytes: with the element inside of the
  memory, \<^verbatim>\<open>rtw_rsne_info_parse\<close> and \<^verbatim>\<open>rtw_parse_wpa2_ie\<close> read nothing outside, every field
  that is reported, with all the entries its counter promises, lies behind the version and
  inside of the element, and the error flag says whether the element was refused.
\<close>

theorem rsne_parse_safe:
  assumes "p + ie_len \<le> length m"
  shows "\<exists>r info. rtw_rsne_info_parse m p ie_len = Some (r, info) \<and> rsne_inside (p + 4) (p + ie_len) info
    \<and> r = (if ri_err info then RX_FAIL else RX_SUCCESS)
    \<and> (\<exists>res. rtw_parse_wpa2_ie m p ie_len = Some res \<and> (res = None \<longleftrightarrow> r = RX_FAIL))"
proof -
  obtain r info where i: "rtw_rsne_info_parse m p ie_len = Some (r, info)" "rsne_inside (p + 4) (p + ie_len) info"
    "r = (if ri_err info then RX_FAIL else RX_SUCCESS)"
    using rsne_parse_inside [OF assms] by (auto simp: rsne_safe_def)
  define G where "G = (case ri_gcs info of None \<Rightarrow> Some 0 | Some q \<Rightarrow> map_option rtw_get_rsn_cipher_suite (rdn m q 4))"
  define P where "P = (case ri_pcs_list info of None \<Rightarrow> Some 0
    | Some q \<Rightarrow> or_suites rtw_get_rsn_cipher_suite m q (unat (ri_pcs_cnt info)) 0)"
  define C where "C = (case ri_cap info of None \<Rightarrow> Some None | Some q \<Rightarrow> map_option Some (rd16 m q))"
  define A where "A = (case ri_akm_list info of None \<Rightarrow> Some 0
    | Some q \<Rightarrow> or_suites rtw_get_akm_suite_bitmap m q (unat (ri_akm_cnt info)) 0)"
  have "\<exists>x. G = Some x" unfolding G_def
    by (rule inside_read) (use i(2) assms in \<open>auto simp: rsne_inside_def rdn_def\<close>)
  moreover have "\<exists>x. P = Some x" unfolding P_def
    by (rule inside_read) (use i(2) assms in \<open>auto simp: rsne_inside_def intro: or_suites_inside\<close>)
  moreover have "\<exists>x. C = Some x" unfolding C_def
    by (rule inside_read) (use i(2) assms rd16_inside [of _ m] in \<open>fastforce simp: rsne_inside_def\<close>)
  moreover have "\<exists>x. A = Some x" unfolding A_def
    by (rule inside_read) (use i(2) assms in \<open>auto simp: rsne_inside_def intro: or_suites_inside\<close>)
  moreover have "ri_gmcs info = Some q \<Longrightarrow> \<exists>bs. rdn m q 4 = Some bs" for q
    using i(2) assms by (auto simp: rsne_inside_def rdn_def)
  ultimately show ?thesis
    unfolding rtw_parse_wpa2_ie_def i(1) using i(2,3)
    by (cases "ri_gmcs info") (auto simp: G_def [symmetric] P_def [symmetric] C_def [symmetric] A_def [symmetric])
qed

section \<open>Encoded RSN elements\<close>

record rsne =
  rs_gcs :: "u8 list"
  rs_pcs :: "u8 list list"
  rs_akm :: "u8 list list"
  rs_cap :: u16
  rs_pmkid :: "u8 list list"
  rs_gmcs :: "u8 list"

definition le16_bytes :: "u16 \<Rightarrow> u8 list" where
  "le16_bytes w = [ucast w, ucast (drop_bit 8 w)]"

definition counted :: "u8 list list \<Rightarrow> u8 list" where
  "counted xs = le16_bytes (of_nat (length xs)) @ concat xs"

text \<open>The fields in their order; an element may end behind any of them, here the first \<open>k\<close>.\<close>

definition rsne_fields :: "rsne \<Rightarrow> u8 list list" where
  "rsne_fields r = [rs_gcs r, counted (rs_pcs r), counted (rs_akm r), le16_bytes (rs_cap r), counted (rs_pmkid r), rs_gmcs r]"

definition rsne_content :: "nat \<Rightarrow> rsne \<Rightarrow> u8 list" where
  "rsne_content k r = [1, 0] @ concat (take k (rsne_fields r))"

definition rsne_ok :: "rsne \<Rightarrow> bool" where
  "rsne_ok r \<longleftrightarrow> length (rs_gcs r) = 4 \<and> (\<forall>s \<in> set (rs_pcs r). length s = 4) \<and> (\<forall>s \<in> set (rs_akm r). length s = 4)
     \<and> (\<forall>s \<in> set (rs_pmkid r). length s = 16) \<and> length (rs_gmcs r) = 4
     \<and> length (rs_pcs r) < 65536 \<and> length (rs_akm r) < 65536 \<and> length (rs_pmkid r) < 65536"

definition suites :: "(u8 list \<Rightarrow> u32) \<Rightarrow> u8 list list \<Rightarrow> u32" where
  "suites f ss = fold (\<lambda>s acc. acc OR f s) ss 0"

text \<open>Bytes that lie at a position of the memory.\<close>

definition lies_at :: "u8 list \<Rightarrow> nat \<Rightarrow> u8 list \<Rightarrow> bool" where
  "lies_at m p bs \<longleftrightarrow> rdn m p (length bs) = Some bs"

lemma lies_at_Nil [simp]: "lies_at m p [] \<longleftrightarrow> p \<le> length m"
  by (simp add: lies_at_def rdn_def)

lemma lies_at_append: "lies_at m p (xs @ ys) \<longleftrightarrow> lies_at m p xs \<and> lies_at m (p + length xs) ys"
proof -
  have "take (length xs + length ys) (drop p m) = take (length xs) (drop p m) @ take (length ys) (drop (p + length xs) m)"
    by (simp add: take_add add.commute)
  then show ?thesis
    by (auto simp: lies_at_def rdn_def append_eq_append_conv add.assoc)
qed

lemma lies_at_in: "lies_at (pre @ bs @ post) (length pre) bs"
  by (simp add: lies_at_def rdn_append)

lemma lies_at_read: "lies_at m p bs \<Longrightarrow> length bs = n \<Longrightarrow> rdn m p n = Some bs"
  by (simp add: lies_at_def)

lemma length_le16_bytes [simp]: "length (le16_bytes w) = 2"
  by (simp add: le16_bytes_def)

lemma le16_at_bytes: "le16_at (le16_bytes w) 0 = w"
proof -
  have "bit (ucast (ucast w :: u8) OR push_bit 8 (ucast (ucast (drop_bit 8 w) :: u8)) :: u16) n = bit w n" if "n < 16" for n
    using that by (auto simp: bit_simps)
  then show ?thesis
    by (simp add: le16_at_def le16_bytes_def byte_at_def bit_eq_iff)
qed

lemma lies_at_rd16: "lies_at m p (le16_bytes w) \<Longrightarrow> rd16 m p = Some w"
  using lies_at_read [of m p "le16_bytes w" 2] by (simp add: rd16_def le16_at_bytes)

lemma or_suites_at:
  "lies_at m p (concat ss) \<Longrightarrow> (\<forall>s \<in> set ss. length s = 4) \<Longrightarrow> n = length ss
    \<Longrightarrow> or_suites f m p n acc = Some (fold (\<lambda>s acc. acc OR f s) ss acc)"
  by (induction ss arbitrary: p acc n) (auto simp: lies_at_append lies_at_read)

lemma length_concat_same: "(\<forall>s \<in> set ss. length s = n) \<Longrightarrow> length (concat ss) = n * length ss"
  by (induction ss) simp_all

section \<open>The parser on encoded elements\<close>

definition upd_gmcs :: "nat \<Rightarrow> nat \<Rightarrow> rsne_info \<Rightarrow> rsne_info" where
  "upd_gmcs j pos info = (if j = 0 then info else info\<lparr>ri_gmcs := Some pos\<rparr>)"

definition upd_pmkid :: "rsne \<Rightarrow> nat \<Rightarrow> nat \<Rightarrow> rsne_info \<Rightarrow> rsne_info" where
  "upd_pmkid r j pos info = (if j = 0 then info
     else upd_gmcs (j - 1) (pos + length (counted (rs_pmkid r)))
       (info\<lparr>ri_pmkid_cnt := of_nat (length (rs_pmkid r)), ri_pmkid_list := Some (pos + 2)\<rparr>))"

definition upd_cap :: "rsne \<Rightarrow> nat \<Rightarrow> nat \<Rightarrow> rsne_info \<Rightarrow> rsne_info" where
  "upd_cap r j pos info = (if j = 0 then info else upd_pmkid r (j - 1) (pos + 2) (info\<lparr>ri_cap := Some pos\<rparr>))"

definition upd_akm :: "rsne \<Rightarrow> nat \<Rightarrow> nat \<Rightarrow> rsne_info \<Rightarrow> rsne_info" where
  "upd_akm r j pos info = (if j = 0 then info
     else upd_cap r (j - 1) (pos + length (counted (rs_akm r)))
       (info\<lparr>ri_akm_cnt := of_nat (length (rs_akm r)), ri_akm_list := Some (pos + 2)\<rparr>))"

definition upd_pcs :: "rsne \<Rightarrow> nat \<Rightarrow> nat \<Rightarrow> rsne_info \<Rightarrow> rsne_info" where
  "upd_pcs r j pos info = (if j = 0 then info
     else upd_akm r (j - 1) (pos + length (counted (rs_pcs r)))
       (info\<lparr>ri_pcs_cnt := of_nat (length (rs_pcs r)), ri_pcs_list := Some (pos + 2)\<rparr>))"

definition upd_gcs :: "rsne \<Rightarrow> nat \<Rightarrow> nat \<Rightarrow> rsne_info \<Rightarrow> rsne_info" where
  "upd_gcs r j pos info = (if j = 0 then info else upd_pcs r (j - 1) (pos + 4) (info\<lparr>ri_gcs := Some pos\<rparr>))"

lemma gmcs_stage:
  assumes "length g = 4" "e = pos + length (concat (take j [g]))"
  shows "rsne_gmcs e pos info = Some (RX_SUCCESS, upd_gmcs j pos info)"
  using assms by (cases j) (simp_all add: rsne_gmcs_def rsne_cut_def upd_gmcs_def)

lemma counted_at:
  assumes "lies_at m pos (counted xs)" "\<forall>s \<in> set xs. length s = n" "length xs < 65536"
  shows "rd16 m pos = Some (of_nat (length xs))" "unat (of_nat (length xs) :: u16) = length xs"
    "length (counted xs) = 2 + n * length xs"
  using assms by (simp_all add: counted_def lies_at_append lies_at_rd16 length_concat_same unat_of_nat take_bit_eq_mod)

lemma pmkid_stage:
  assumes "lies_at m pos (concat (take j [counted (rs_pmkid r), rs_gmcs r]))" "rsne_ok r" "length (rs_pmkid r) < 65536"
    and "e = pos + length (concat (take j [counted (rs_pmkid r), rs_gmcs r]))"
  shows "rsne_pmkid m e pos info = Some (RX_SUCCESS, upd_pmkid r j pos info)"
proof (cases j)
  case 0
  then show ?thesis using assms(4) by (simp add: rsne_pmkid_def rsne_cut_def upd_pmkid_def)
next
  case (Suc i)
  have at: "lies_at m pos (counted (rs_pmkid r))" using assms(1) by (simp add: Suc lies_at_append)
  have sz: "\<forall>s \<in> set (rs_pmkid r). length s = 16" "length (rs_gmcs r) = 4" using assms(2) by (simp_all add: rsne_ok_def)
  show ?thesis
    using gmcs_stage [OF sz(2), of e "pos + length (counted (rs_pmkid r))" i] counted_at [OF at sz(1) assms(3)] assms(4)
    by (simp add: Suc rsne_pmkid_def upd_pmkid_def add.assoc)
qed

lemma cap_stage:
  assumes "lies_at m pos (concat (take j [le16_bytes (rs_cap r), counted (rs_pmkid r), rs_gmcs r]))" "rsne_ok r"
    and "length (rs_pmkid r) < 65536"
    and "e = pos + length (concat (take j [le16_bytes (rs_cap r), counted (rs_pmkid r), rs_gmcs r]))"
  shows "rsne_cap m e pos info = Some (RX_SUCCESS, upd_cap r j pos info)"
proof (cases j)
  case 0
  then show ?thesis using assms(4) by (simp add: rsne_cap_def rsne_cut_def upd_cap_def)
next
  case (Suc i)
  then show ?thesis
    using pmkid_stage [of m "pos + 2" i r e] assms
    by (simp add: rsne_cap_def upd_cap_def lies_at_append add.assoc)
qed

lemma akm_stage:
  assumes "lies_at m pos (concat (take j [counted (rs_akm r), le16_bytes (rs_cap r), counted (rs_pmkid r), rs_gmcs r]))" "rsne_ok r"
    and "length (rs_pmkid r) < 65536" "length (rs_akm r) < 65536"
    and "e = pos + length (concat (take j [counted (rs_akm r), le16_bytes (rs_cap r), counted (rs_pmkid r), rs_gmcs r]))"
  shows "rsne_akm m e pos info = Some (RX_SUCCESS, upd_akm r j pos info)"
proof (cases j)
  case 0
  then show ?thesis using assms(5) by (simp add: rsne_akm_def rsne_cut_def upd_akm_def)
next
  case (Suc i)
  have at: "lies_at m pos (counted (rs_akm r))" using assms(1) by (simp add: Suc lies_at_append)
  have sz: "\<forall>s \<in> set (rs_akm r). length s = 4" using assms(2) by (simp add: rsne_ok_def)
  show ?thesis
    using cap_stage [of m "pos + length (counted (rs_akm r))" i r e] counted_at [OF at sz assms(4)] assms
    by (simp add: Suc rsne_akm_def upd_akm_def lies_at_append add.assoc)
qed

lemma pcs_stage:
  assumes "lies_at m pos (concat (take j (tl (rsne_fields r))))" "rsne_ok r"
    and "length (rs_pmkid r) < 65536" "length (rs_akm r) < 65536" "length (rs_pcs r) < 65536"
    and "e = pos + length (concat (take j (tl (rsne_fields r))))"
  shows "rsne_pcs m e pos info = Some (RX_SUCCESS, upd_pcs r j pos info)"
proof (cases j)
  case 0
  then show ?thesis using assms(6) by (simp add: rsne_pcs_def rsne_cut_def upd_pcs_def)
next
  case (Suc i)
  have at: "lies_at m pos (counted (rs_pcs r))" using assms(1) by (simp add: Suc lies_at_append rsne_fields_def)
  have sz: "\<forall>s \<in> set (rs_pcs r). length s = 4" using assms(2) by (simp add: rsne_ok_def)
  show ?thesis
    using akm_stage [of m "pos + length (counted (rs_pcs r))" i r e] counted_at [OF at sz assms(5)] assms
    by (simp add: Suc rsne_pcs_def upd_pcs_def lies_at_append add.assoc rsne_fields_def)
qed

lemma gcs_stage:
  assumes "lies_at m pos (concat (take j (rsne_fields r)))" "rsne_ok r"
    and "length (rs_pmkid r) < 65536" "length (rs_akm r) < 65536" "length (rs_pcs r) < 65536"
    and "e = pos + length (concat (take j (rsne_fields r)))"
  shows "rsne_gcs m e pos info = Some (RX_SUCCESS, upd_gcs r j pos info)"
proof (cases j)
  case 0
  then show ?thesis using assms(6) by (simp add: rsne_gcs_def rsne_cut_def upd_gcs_def)
next
  case (Suc i)
  have "length (rs_gcs r) = 4" using assms(2) by (simp add: rsne_ok_def)
  then show ?thesis
    using pcs_stage [of m "pos + 4" i r e] assms
    by (simp add: Suc rsne_gcs_def upd_gcs_def lies_at_append add.assoc rsne_fields_def)
qed

lemma rsne_parse_content:
  assumes "rsne_ok r" "length (rsne_content k r) < 256"
  shows "rtw_rsne_info_parse (pre @ ie_bytes (48, rsne_content k r) @ post) (length pre) (length (rsne_content k r) + 2)
    = Some (RX_SUCCESS, upd_gcs r k (length pre + 4) rsne_zero)"
proof -
  let ?m = "pre @ ie_bytes (48, rsne_content k r) @ post" and ?p = "length pre"
  have "lies_at ?m ?p ([48, of_nat (length (rsne_content k r))] @ [1, 0] @ concat (take k (rsne_fields r)))"
    using lies_at_in [of pre "ie_bytes (48, rsne_content k r)" post] by (simp add: ie_bytes_def rsne_content_def)
  then have at: "lies_at ?m (?p + 2) [1, 0]" "lies_at ?m (?p + 4) (concat (take k (rsne_fields r)))"
    unfolding lies_at_append by (simp_all add: eval_nat_numeral)
  have "rd16 ?m (?p + 2) = Some 1"
    using at(1) lies_at_rd16 [of ?m "?p + 2" 1] by (simp add: le16_bytes_def)
  moreover have "rsne_gcs ?m (?p + (length (rsne_content k r) + 2)) (?p + 4) rsne_zero
      = Some (RX_SUCCESS, upd_gcs r k (?p + 4) rsne_zero)"
    by (rule gcs_stage [OF at(2) assms(1)]) (use assms(1) in \<open>simp_all add: rsne_ok_def rsne_content_def\<close>)
  moreover have "2 \<le> length (rsne_content k r)" by (simp add: rsne_content_def)
  ultimately show ?thesis
    using rd_ie [of pre "(48, rsne_content k r)" post] assms(2)
    by (simp add: rtw_rsne_info_parse_def del: One_nat_def add_2_eq_Suc' add_2_eq_Suc)
qed

text \<open>What the element says, when it is cut behind its first \<open>k\<close> fields.\<close>

definition rsne_meaning :: "nat \<Rightarrow> rsne \<Rightarrow> wpa2_info" where
  "rsne_meaning k r = \<lparr>
     w2_group_cipher = (if 0 < k then rtw_get_rsn_cipher_suite (rs_gcs r) else 0),
     w2_pairwise_cipher = (if 1 < k then suites rtw_get_rsn_cipher_suite (rs_pcs r) else 0),
     w2_gmcs = (if 5 < k then rtw_get_rsn_cipher_suite (rs_gmcs r)
        else if 3 < k \<and> GET_RSN_CAP_MFP_OPTION (rs_cap r) > 1 then WPA_CIPHER 8 else 0),
     w2_akm = (if 2 < k then suites rtw_get_akm_suite_bitmap (rs_akm r) else 0),
     w2_mfp_opt = (if 3 < k then GET_RSN_CAP_MFP_OPTION (rs_cap r) else 0),
     w2_spp_opt = (if 3 < k then GET_RSN_CAP_SPP_OPT (rs_cap r) else 0)\<rparr>"

lemma counted_read:
  assumes "lies_at m p (counted xs)" "\<forall>s \<in> set xs. length s = 4" "length xs < 65536"
  shows "or_suites f m (Suc (Suc p)) (unat (of_nat (length xs) :: u16)) 0 = Some (suites f xs)"
proof -
  have "lies_at m (p + 2) (concat xs)" using assms(1) by (simp add: counted_def lies_at_append)
  from or_suites_at [OF this assms(2)] show ?thesis
    using counted_at(2) [OF assms] by (simp add: suites_def)
qed

lemma wpa2_of_info:
  assumes "rtw_rsne_info_parse m p n = Some (RX_SUCCESS, upd_gcs r k b rsne_zero)"
    and "lies_at m b (concat (take k (rsne_fields r)))" "rsne_ok r"
  shows "rtw_parse_wpa2_ie m p n = Some (Some (rsne_meaning k r))"
proof -
  define b1 where "b1 = b + 4"
  define b2 where "b2 = b1 + length (counted (rs_pcs r))"
  define b3 where "b3 = b2 + length (counted (rs_akm r))"
  define b5 where "b5 = b3 + 2 + length (counted (rs_pmkid r))"
  have szs: "length (rs_gcs r) = 4" "\<forall>s \<in> set (rs_pcs r). length s = 4" "\<forall>s \<in> set (rs_akm r). length s = 4"
    "length (rs_gmcs r) = 4" "length (rs_pcs r) < 65536" "length (rs_akm r) < 65536"
    using assms(3) by (simp_all add: rsne_ok_def)
  have gcs: "0 < k \<Longrightarrow> lies_at m b (rs_gcs r)" and pcs: "1 < k \<Longrightarrow> lies_at m b1 (counted (rs_pcs r))"
    and akm: "2 < k \<Longrightarrow> lies_at m b2 (counted (rs_akm r))" and cap: "3 < k \<Longrightarrow> lies_at m b3 (le16_bytes (rs_cap r))"
    and gm: "5 < k \<Longrightarrow> lies_at m b5 (rs_gmcs r)"
    using assms(2) szs
    by (auto simp: rsne_fields_def lies_at_append take_Cons' b1_def b2_def b3_def b5_def add.assoc split: if_splits)
  have info: "upd_gcs r k b rsne_zero = \<lparr>ri_gcs = (if 0 < k then Some b else None),
      ri_pcs_cnt = (if 1 < k then of_nat (length (rs_pcs r)) else 0), ri_pcs_list = (if 1 < k then Some (Suc (Suc b1)) else None),
      ri_akm_cnt = (if 2 < k then of_nat (length (rs_akm r)) else 0), ri_akm_list = (if 2 < k then Some (Suc (Suc b2)) else None),
      ri_cap = (if 3 < k then Some b3 else None),
      ri_pmkid_cnt = (if 4 < k then of_nat (length (rs_pmkid r)) else 0), ri_pmkid_list = (if 4 < k then Some (b3 + 4) else None),
      ri_gmcs = (if 5 < k then Some b5 else None), ri_err = False\<rparr>"
    by (simp add: upd_gcs_def upd_pcs_def upd_akm_def upd_cap_def upd_pmkid_def upd_gmcs_def rsne_zero_def
        b1_def b2_def b3_def b5_def)
  show ?thesis
    unfolding rtw_parse_wpa2_ie_def assms(1) info rsne_meaning_def
    using lies_at_read [OF gcs szs(1)] counted_read [OF pcs szs(2,5)] counted_read [OF akm szs(3,6)]
      lies_at_rd16 [OF cap] lies_at_read [OF gm szs(4)]
    by simp
qed

text \<open>
  C27. The receiver of an RSN element reads back what the sender encoded: for every element
  with a group cipher, lists of pairwise ciphers and of key managements, capabilities,
  PMKIDs and a group management cipher, cut behind any of these fields, wherever it lies in
  the memory, \<^verbatim>\<open>rtw_parse_wpa2_ie\<close> succeeds and yields the group cipher, the union of the
  pairwise ciphers, the union of the key managements, and the management frame protection,
  with CMAC for a capable sender that names no cipher for it.
\<close>

theorem parse_wpa2_exact:
  assumes "rsne_ok r" "length (rsne_content k r) < 256"
  shows "rtw_parse_wpa2_ie (pre @ ie_bytes (48, rsne_content k r) @ post) (length pre) (length (rsne_content k r) + 2)
    = Some (Some (rsne_meaning k r))"
proof (rule wpa2_of_info [OF rsne_parse_content [OF assms] _ assms(1)])
  let ?m = "pre @ ie_bytes (48, rsne_content k r) @ post" and ?p = "length pre"
  have "lies_at ?m ?p ([48, of_nat (length (rsne_content k r)), 1, 0] @ concat (take k (rsne_fields r)))"
    using lies_at_in [of pre "ie_bytes (48, rsne_content k r)" post] by (simp add: ie_bytes_def rsne_content_def)
  then show "lies_at ?m (?p + 4) (concat (take k (rsne_fields r)))"
    unfolding lies_at_append by (simp add: eval_nat_numeral)
qed

theorem parse_wpa2_exact_witness:
  "rtw_parse_wpa2_ie [48, 20, 1, 0, 0, 0x0f, 0xac, 4, 1, 0, 0, 0x0f, 0xac, 4, 1, 0, 0, 0x0f, 0xac, 8, 0xc0, 0] 0 22
    = Some (Some \<lparr>w2_group_cipher = 16, w2_pairwise_cipher = 16, w2_gmcs = 256, w2_akm = 128, w2_mfp_opt = 3, w2_spp_opt = 0\<rparr>)"
proof -
  let ?r = "\<lparr>rs_gcs = [0, 0x0f, 0xac, 4], rs_pcs = [[0, 0x0f, 0xac, 4]], rs_akm = [[0, 0x0f, 0xac, 8]], rs_cap = 0xc0,
    rs_pmkid = [], rs_gmcs = [0, 0x0f, 0xac, 6]\<rparr>"
  have c: "rsne_content 4 ?r = [1, 0, 0, 0x0f, 0xac, 4, 1, 0, 0, 0x0f, 0xac, 4, 1, 0, 0, 0x0f, 0xac, 8, 0xc0, 0]"
    by (simp add: rsne_content_def rsne_fields_def counted_def le16_bytes_def)
  have ok: "rsne_ok ?r" by (simp add: rsne_ok_def)
  have m: "rsne_meaning 4 ?r
      = \<lparr>w2_group_cipher = 16, w2_pairwise_cipher = 16, w2_gmcs = 256, w2_akm = 128, w2_mfp_opt = 3, w2_spp_opt = 0\<rparr>"
    by code_simp
  have l: "length (rsne_content 4 ?r) = 20" "length (rsne_content 4 ?r) < 256" by (simp_all add: c)
  have bs: "[] @ ie_bytes (48, rsne_content 4 ?r) @ []
      = [48, 20, 1, 0, 0, 0x0f, 0xac, 4, 1, 0, 0, 0x0f, 0xac, 4, 1, 0, 0, 0x0f, 0xac, 8, 0xc0, 0]"
    by (simp add: ie_bytes_def l(1)) (simp add: c)
  show ?thesis
    using parse_wpa2_exact [OF ok l(2), of "[]" "[]"] unfolding bs l(1) m by simp
qed

theorem rsne_parse_safe_witness:
  "\<exists>info. rtw_rsne_info_parse [9, 48, 6, 1, 0, 0, 0x0f, 0xac, 4, 200] 1 8 = Some (RX_SUCCESS, info)
    \<and> rsne_inside 5 9 info"
proof -
  have "map_option fst (rtw_rsne_info_parse [9, 48, 6, 1, 0, 0, 0x0f, 0xac, 4, 200] 1 8) = Some RX_SUCCESS"
    by code_simp
  then show ?thesis
    using rsne_parse_safe [of 1 8 "[9, 48, 6, 1, 0, 0, 0x0f, 0xac, 4, 200]"] by auto
qed

section \<open>The WPA element\<close>

text \<open>
  \<^verbatim>\<open>rtw_parse_wpa_ie\<close>: \<open>group\<close>, \<open>pairwise\<close> and \<open>akm\<close> are what the caller's variables hold. The
  group cipher is written even when the element is refused afterwards. \<open>left\<close> is signed.
\<close>

definition wpa_head_ok :: "u8 list \<Rightarrow> nat \<Rightarrow> int \<Rightarrow> bool option" where
  "wpa_head_ok m p wpa_ie_len =
     do {
       b \<leftarrow> rd m p;
       if b \<noteq> 221 then Some False
       else
         do {
           l \<leftarrow> rd m (p + 1);
           if l \<noteq> of_int (wpa_ie_len - 2) then Some False
           else map_option (\<lambda>oui. oui = [0x00, 0x50, 0xf2, 1]) (rdn m (p + 2) 4)
         }
     }"

definition rtw_parse_wpa_ie ::
  "u8 list \<Rightarrow> nat \<Rightarrow> int \<Rightarrow> u32 \<Rightarrow> u32 \<Rightarrow> u32 \<Rightarrow> (rx_ret \<times> u32 \<times> u32 \<times> u32) option" where
  "rtw_parse_wpa_ie m p wpa_ie_len gc pc akm =
     (if wpa_ie_len \<le> 0 then Some (RX_FAIL, gc, pc, akm)
      else
        do {
          ok \<leftarrow> wpa_head_ok m p wpa_ie_len;
          if \<not> ok then Some (RX_FAIL, gc, pc, akm)
          else
            let left = wpa_ie_len - 8 in
            if 0 < left \<and> left < 4 then Some (RX_FAIL, gc, pc, akm)
            else
              do {
                gc \<leftarrow> (if left \<ge> 4 then map_option rtw_get_wpa_cipher_suite (rdn m (p + 8) 4) else Some gc);
                let (pos, left) = (if left \<ge> 4 then (p + 12, left - 4) else (p + 8, left));
                if left = 1 then Some (RX_FAIL, gc, pc, akm)
                else if left \<ge> 2 then
                  do {
                    count \<leftarrow> rd16 m pos;
                    if count = 0 \<or> left - 2 < int (unat count) * 4 then Some (RX_FAIL, gc, pc, akm)
                    else
                      do {
                        pc \<leftarrow> or_suites rtw_get_wpa_cipher_suite m (pos + 2) (unat count) pc;
                        let pos = pos + 2 + 4 * unat count;
                        let left = left - 2 - 4 * int (unat count);
                        if left \<ge> 6 then
                          do { s \<leftarrow> rdn m (pos + 2) 4;
                               Some (RX_SUCCESS, gc, pc, if s = [0x00, 0x50, 0xf2, 1] then WLAN_AKM_TYPE 0 else akm) }
                        else Some (RX_SUCCESS, gc, pc, akm)
                      }
                  }
                else Some (RX_SUCCESS, gc, pc, akm)
              }
        })"

text \<open>
  \<^verbatim>\<open>rtw_parse_wpa_ie\<close> accepts an element that ends in front of or inside of its version:
  the number of bytes behind the version is then negative, no test refuses a negative number, and the
  caller's ciphers are left as they were. It does not look at the version at all.
\<close>

lemma short_wpa_ie_accepted:
  assumes "length rest \<le> 2"
  shows "rtw_parse_wpa_ie (pre @ ie_bytes (221, [0x00, 0x50, 0xf2, 1] @ rest) @ post) (length pre) (int (6 + length rest)) g c a
    = Some (RX_SUCCESS, g, c, a)"
proof -
  let ?m = "pre @ ie_bytes (221, [0x00, 0x50, 0xf2, 1] @ rest) @ post"
  have "rdn ?m (length pre + 2) 4 = Some [0x00, 0x50, 0xf2, 1]"
    by (simp add: rdn_def ie_bytes_def)
  then show ?thesis
    using rd_ie [of pre "(221, [0x00, 0x50, 0xf2, 1] @ rest)" post] assms
    by (simp add: rtw_parse_wpa_ie_def wpa_head_ok_def Let_def del: One_nat_def)
qed

lemma short_wpa_ie_accepted_ex:
  "rtw_parse_wpa_ie [221, 5, 0, 0x50, 0xf2, 1, 9] 0 7 1 2 3 = Some (RX_SUCCESS, 1, 2, 3)"
  using short_wpa_ie_accepted [of "[9]" "[]" "[]" 1 2 3] by (simp add: ie_bytes_def)

section \<open>Finding security elements\<close>

lemma get_ie_loop_found:
  "get_ie_loop m index limit p i = Some (Some (q, n)) \<Longrightarrow> p \<le> q \<and> (\<exists>b. rd m q = Some b \<and> uint b = index)"
proof (induction m index limit p i rule: get_ie_loop.induct)
  case (1 m index limit p i)
  then show ?case
    by (subst (asm) (2) get_ie_loop.simps) (fastforce simp: bind_eq_Some_conv Let_def split: if_splits)
qed

lemma get_ie_found: "rtw_get_ie m p index limit = Some (Some (q, n)) \<Longrightarrow> p \<le> q \<and> (\<exists>b. rd m q = Some b \<and> uint b = index)"
  using get_ie_loop_found by (fastforce simp: rtw_get_ie_def split: if_splits)

text \<open>
  The loop of \<^verbatim>\<open>rtw_get_wpa_ie\<close>; the result is the position and the length, which is taken again
  from the element.
\<close>

function wpa_ie_loop :: "u8 list \<Rightarrow> nat \<Rightarrow> int \<Rightarrow> nat \<Rightarrow> int \<Rightarrow> (nat \<times> nat) option option" where
  "wpa_ie_loop m pie limit pbuf limit_new =
     do {
       found \<leftarrow> rtw_get_ie m pbuf 221 limit_new;
       (case found of
          None \<Rightarrow> Some None
        | Some (q, len) \<Rightarrow>
            do {
              oui \<leftarrow> rdn m (q + 2) 4;
              val16 \<leftarrow> (if oui = [0x00, 0x50, 0xf2, 0x01] then rd16 m (q + 6) else Some 0);
              if val16 = 1 then do { l \<leftarrow> rd m (q + 1); Some (Some (q, unat l)) }
              else
                let limit_new = limit - (int q - int pie) - 2 - int len in
                if limit_new \<le> 0 then Some None
                else wpa_ie_loop m pie limit (q + 2 + len) limit_new
            })
     }"
  by pat_completeness auto

termination
  by (relation "measure (\<lambda>(m, pie, limit, pbuf, limit_new). nat (int pie + limit - int pbuf))")
    (auto dest: get_ie_found)

declare wpa_ie_loop.simps [simp del]

definition rtw_get_wpa_ie :: "u8 list \<Rightarrow> nat \<Rightarrow> int \<Rightarrow> (nat \<times> nat) option option" where
  "rtw_get_wpa_ie m pie limit = wpa_ie_loop m pie limit pie limit"

definition rtw_get_wpa2_ie :: "u8 list \<Rightarrow> nat \<Rightarrow> int \<Rightarrow> (nat \<times> nat) option option" where
  "rtw_get_wpa2_ie m pie limit = rtw_get_ie m pie 48 limit"

text \<open>
  \<^verbatim>\<open>rtw_get_sec_ie\<close>: the two elements it copies, and the lengths, which the caller initialises.
  The search starts behind the fixed fields of a beacon.
\<close>

record sec_ies =
  se_rsn :: "u8 list option"
  se_rsn_len :: u16
  se_wpa :: "u8 list option"
  se_wpa_len :: u16

function sec_ie_loop :: "u8 list \<Rightarrow> nat \<Rightarrow> nat \<Rightarrow> sec_ies \<Rightarrow> sec_ies option" where
  "sec_ie_loop m in_len cnt s =
     (if cnt < in_len then
        do {
          authmode \<leftarrow> rd m cnt;
          wpa \<leftarrow> (if authmode = 221 then map_option ((=) [0x00, 0x50, 0xf2, 0x01]) (rdn m (cnt + 2) 4) else Some False);
          l \<leftarrow> rd m (cnt + 1);
          s \<leftarrow> (if wpa then map_option (\<lambda>bs. s\<lparr>se_wpa := Some bs, se_wpa_len := ucast l + 2\<rparr>) (rdn m cnt (unat l + 2))
               else if authmode = 48 then map_option (\<lambda>bs. s\<lparr>se_rsn := Some bs, se_rsn_len := ucast l + 2\<rparr>) (rdn m cnt (unat l + 2))
               else Some s);
          sec_ie_loop m in_len (cnt + unat l + 2) s
        }
      else Some s)"
  by pat_completeness auto

termination
  by (relation "measure (\<lambda>(m, in_len, cnt, s). in_len - cnt)") auto

declare sec_ie_loop.simps [simp del]

definition rtw_get_sec_ie :: "u8 list \<Rightarrow> nat \<Rightarrow> u16 \<Rightarrow> u16 \<Rightarrow> (int \<times> sec_ies) option" where
  "rtw_get_sec_ie m in_len rsn_len wpa_len =
     do {
       s \<leftarrow> sec_ie_loop m in_len 12 \<lparr>se_rsn = None, se_rsn_len = rsn_len, se_wpa = None, se_wpa_len = wpa_len\<rparr>;
       Some (uint (se_rsn_len s) + uint (se_wpa_len s), s)
     }"

text \<open>\<^verbatim>\<open>rtw_get_wapi_ie\<close> with both of the caller's pointers: the result, and what it copies.\<close>

function wapi_ie_loop :: "u8 list \<Rightarrow> nat \<Rightarrow> nat \<Rightarrow> u8 list option \<times> u16 \<Rightarrow> (u8 list option \<times> u16) option" where
  "wapi_ie_loop m in_len cnt s =
     (if cnt < in_len then
        do {
          authmode \<leftarrow> rd m cnt;
          hit \<leftarrow> (if authmode = 68 then map_option (\<lambda>oui. oui = [0x00, 0x14, 0x72, 0x01] \<or> oui = [0x00, 0x14, 0x72, 0x02]) (rdn m (cnt + 6) 4)
                 else Some False);
          l \<leftarrow> rd m (cnt + 1);
          s \<leftarrow> (if hit then map_option (\<lambda>bs. (Some bs, ucast l + 2)) (rdn m cnt (unat l + 2)) else Some s);
          wapi_ie_loop m in_len (cnt + unat l + 2) s
        }
      else Some s)"
  by pat_completeness auto

termination
  by (relation "measure (\<lambda>(m, in_len, cnt, s). in_len - cnt)") auto

declare wapi_ie_loop.simps [simp del]

definition rtw_get_wapi_ie :: "u8 list \<Rightarrow> nat \<Rightarrow> (int \<times> u8 list option) option" where
  "rtw_get_wapi_ie m in_len =
     (if in_len = 0 then Some (0, None)
      else map_option (\<lambda>(ie, len). (uint len, ie)) (wapi_ie_loop m in_len 12 (None, 0)))"

definition note_sec :: "sec_ies \<Rightarrow> ie \<Rightarrow> sec_ies" where
  "note_sec s e =
     (if ie_match 221 (Some [0x00, 0x50, 0xf2, 0x01]) e then s\<lparr>se_wpa := Some (ie_bytes e), se_wpa_len := of_nat (length (ie_bytes e))\<rparr>
      else if fst e = 48 then s\<lparr>se_rsn := Some (ie_bytes e), se_rsn_len := of_nat (length (ie_bytes e))\<rparr> else s)"

lemma sec_ie_step:
  assumes "length (snd e) < 256" "oui_fit 221 (Some [0x00, 0x50, 0xf2, 0x01]) e" "length pre < in_len"
  shows "sec_ie_loop (pre @ ie_bytes e @ rest) in_len (length pre) s
    = sec_ie_loop (pre @ ie_bytes e @ rest) in_len (length pre + length (ie_bytes e)) (note_sec s e)"
proof -
  let ?m = "pre @ ie_bytes e @ rest" and ?o = "[0x00, 0x50, 0xf2, 0x01] :: u8 list"
  have hit: "(if fst e = 221 then map_option ((=) ?o) (rdn ?m (length pre + 2) 4) else Some False) = Some (ie_match 221 (Some ?o) e)"
    using oui_hit_ie [OF assms(2), of pre rest] by (simp add: oui_hit_def eval_nat_numeral split: if_splits)
  have bs: "rdn ?m (length pre) (length (snd e) + 2) = Some (ie_bytes e)"
    using rdn_append [of pre "ie_bytes e" rest] by simp
  have w: "ucast (of_nat (length (snd e)) :: u8) = (of_nat (length (snd e)) :: u16)"
    using assms(1) by (simp add: unsigned_of_nat take_bit_eq_mod)
  show ?thesis
    using assms(1,3) hit bs
    by (subst sec_ie_loop.simps) (simp add: rd_ie note_sec_def w add.assoc del: One_nat_def add_2_eq_Suc add_2_eq_Suc')
qed

text \<open>
  On a beacon body, twelve bytes and a list of elements, \<^verbatim>\<open>rtw_get_sec_ie\<close> copies the last WPA
  element and the last RSN element.
\<close>

lemma get_sec_ie_last:
  assumes "length fixed = 12" "ies_ok es" "oui_fits 221 (Some [0x00, 0x50, 0xf2, 0x01]) es"
  shows "map_option snd (rtw_get_sec_ie (fixed @ ies_bytes es @ rest) (12 + length (ies_bytes es)) a b)
    = Some (foldl note_sec \<lparr>se_rsn = None, se_rsn_len = a, se_wpa = None, se_wpa_len = b\<rparr> es)"
proof -
  have "ies_ok es \<Longrightarrow> oui_fits 221 (Some [0x00, 0x50, 0xf2, 0x01]) es
      \<Longrightarrow> sec_ie_loop (pre @ ies_bytes es @ rest) (length pre + length (ies_bytes es)) (length pre) s = Some (foldl note_sec s es)"
    for pre s
  proof (induction es arbitrary: pre s)
    case Nil
    then show ?case by (simp add: sec_ie_loop.simps)
  next
    case (Cons e es)
    then show ?case
      using sec_ie_step [of e pre _ "ies_bytes es @ rest" s] Cons.IH [of "pre @ ie_bytes e" "note_sec s e"]
      by (simp add: add.assoc)
  qed
  from this [OF assms(2,3), of fixed] show ?thesis
    by (auto simp: rtw_get_sec_ie_def assms(1))
qed

end
