(* ===== verification/Ie_Wps.thy ===== *)
theory Ie_Wps
  imports Ie_Base
begin

text \<open>
  The WPS element and its attributes, the OWE element, and the extended capabilities,
  \<^verbatim>\<open>core/rtw_ieee80211.c\<close>.

  The attributes of the WPS element are searched with a 16-bit length that may wrap to zero:
  the lemmas show for which bytes the search does not return, that it returns for all
  others, and what it finds in an encoded list of attributes.
\<close>

section \<open>Finding the elements\<close>

definition MAX_IE_SZ :: nat where
  "MAX_IE_SZ = 768"

text \<open>\<^verbatim>\<open>rtw_is_wps_ie\<close>: the length of the element if it is one.\<close>

definition rtw_is_wps_ie :: "u8 list \<Rightarrow> nat \<Rightarrow> nat option option" where
  "rtw_is_wps_ie m p =
     do {
       eid \<leftarrow> rd m p;
       hit \<leftarrow> (if eid = 221 then map_option ((=) [0x00, 0x50, 0xf2, 0x04]) (rdn m (p + 2) 4) else Some False);
       if hit then do { l \<leftarrow> rd m (p + 1); Some (Some (unat l + 2)) } else Some None
     }"

text \<open>
  The loop of \<^verbatim>\<open>rtw_get_wps_ie\<close> over the area at \<open>p\<close>; the result holds the position, the length and
  what was copied, for a caller with a buffer.
\<close>

function wps_ie_loop :: "u8 list \<Rightarrow> nat \<Rightarrow> nat \<Rightarrow> bool \<Rightarrow> nat \<Rightarrow> (nat \<times> nat \<times> u8 list) option option" where
  "wps_ie_loop m p in_len copy cnt =
     (if cnt + 1 + 4 < in_len then
        do {
          eid \<leftarrow> rd m (p + cnt);
          if cnt + 1 + 4 \<ge> MAX_IE_SZ then Some None
          else
            do {
              hit \<leftarrow> (if eid = 221 then map_option ((=) [0x00, 0x50, 0xf2, 0x04]) (rdn m (p + cnt + 2) 4) else Some False);
              l \<leftarrow> rd m (p + cnt + 1);
              if hit then
                do { bs \<leftarrow> (if copy then rdn m (p + cnt) (unat l + 2) else Some []);
                     Some (Some (p + cnt, unat l + 2, bs)) }
              else wps_ie_loop m p in_len copy (cnt + unat l + 2)
            }
        }
      else Some None)"
  by pat_completeness auto

termination
  by (relation "measure (\<lambda>(m, p, in_len, copy, cnt). in_len - cnt)") auto

declare wps_ie_loop.simps [simp del]

definition rtw_get_wps_ie :: "u8 list \<Rightarrow> nat \<Rightarrow> int \<Rightarrow> bool \<Rightarrow> (nat \<times> nat \<times> u8 list) option option" where
  "rtw_get_wps_ie m p in_len copy = (if in_len \<le> 0 then Some None else wps_ie_loop m p (nat in_len) copy 0)"

datatype bss_type = BSS_TYPE_UNDEF | BSS_TYPE_PROB_REQ | BSS_TYPE_BCN | BSS_TYPE_PROB_RSP

text \<open>\<^verbatim>\<open>in_len\<close> is unsigned and passed on as a signed number.\<close>

definition rtw_get_wps_ie_from_scan_queue ::
  "u8 list \<Rightarrow> nat \<Rightarrow> u32 \<Rightarrow> bool \<Rightarrow> bss_type \<Rightarrow> (nat \<times> nat \<times> u8 list) option option" where
  "rtw_get_wps_ie_from_scan_queue m p in_len copy frame_type =
     (case frame_type of
        BSS_TYPE_BCN \<Rightarrow> rtw_get_wps_ie m (p + 12) (sint (in_len - 12)) copy
      | BSS_TYPE_PROB_RSP \<Rightarrow> rtw_get_wps_ie m (p + 12) (sint (in_len - 12)) copy
      | BSS_TYPE_PROB_REQ \<Rightarrow> rtw_get_wps_ie m p (sint in_len) copy
      | BSS_TYPE_UNDEF \<Rightarrow> Some None)"

function owe_ie_loop :: "u8 list \<Rightarrow> nat \<Rightarrow> nat \<Rightarrow> bool \<Rightarrow> nat \<Rightarrow> (nat \<times> nat \<times> u8 list) option option" where
  "owe_ie_loop m p in_len copy cnt =
     (if cnt + 1 + 4 < in_len then
        do {
          eid \<leftarrow> rd m (p + cnt);
          if cnt + 1 + 4 \<ge> MAX_IE_SZ then Some None
          else
            do {
              hit \<leftarrow> (if eid = 255 then map_option ((=) 32) (rd m (p + cnt + 2)) else Some False);
              l \<leftarrow> rd m (p + cnt + 1);
              if hit then
                do { bs \<leftarrow> (if copy then rdn m (p + cnt) (unat l + 2) else Some []);
                     Some (Some (p + cnt, unat l + 2, bs)) }
              else owe_ie_loop m p in_len copy (cnt + unat l + 2)
            }
        }
      else Some None)"
  by pat_completeness auto

termination
  by (relation "measure (\<lambda>(m, p, in_len, copy, cnt). in_len - cnt)") auto

declare owe_ie_loop.simps [simp del]

definition rtw_get_owe_ie :: "u8 list \<Rightarrow> nat \<Rightarrow> nat \<Rightarrow> bool \<Rightarrow> (nat \<times> nat \<times> u8 list) option option" where
  "rtw_get_owe_ie m p in_len copy = (if in_len = 0 then Some None else owe_ie_loop m p in_len copy 0)"

lemma wps_ie_loop_inside:
  "p + in_len \<le> length m \<Longrightarrow> \<exists>r. wps_ie_loop m p in_len False cnt = Some r
    \<and> (\<forall>q n bs. r = Some (q, n, bs) \<longrightarrow> p \<le> q \<and> q + 6 \<le> p + in_len)"
proof (induction m p in_len "False" cnt rule: wps_ie_loop.induct)
  case (1 m p in_len cnt)
  show ?case
  proof (cases "cnt + 1 + 4 < in_len \<and> cnt + 1 + 4 < MAX_IE_SZ")
    case False
    then show ?thesis
      using 1(2) by (subst wps_ie_loop.simps) (auto simp: rd_def)
  next
    case True
    have "\<exists>h. (if e = 221 then map_option ((=) [0x00, 0x50, 0xf2, 0x04]) (rdn m (p + cnt + 2) 4) else Some False) = Some h" for e :: u8
      using True 1(2) by (cases "e = 221") (auto simp: rdn_def)
    moreover have "\<exists>e. rd m (p + cnt) = Some e" "\<exists>l. rd m (p + cnt + 1) = Some l"
      using True 1(2) by (simp_all add: rd_def)
    ultimately obtain e h l where r: "rd m (p + cnt) = Some e" "rd m (p + cnt + 1) = Some l"
      "(if e = 221 then map_option ((=) [0x00, 0x50, 0xf2, 0x04]) (rdn m (p + cnt + 2) 4) else Some False) = Some h"
      by blast
    have IH: "\<not> h \<Longrightarrow> \<exists>r. wps_ie_loop m p in_len False (cnt + unat l + 2) = Some r
        \<and> (\<forall>q n bs. r = Some (q, n, bs) \<longrightarrow> p \<le> q \<and> q + 6 \<le> p + in_len)"
      using 1(1) [OF _ r(1) _ r(3,2)] 1(2) True by simp
    have "wps_ie_loop m p in_len False cnt = (if h then Some (Some (p + cnt, unat l + 2, []))
        else wps_ie_loop m p in_len False (cnt + unat l + 2))"
      by (subst wps_ie_loop.simps) (use True r in simp)
    then show ?thesis using IH True by (cases h) auto
  qed
qed

text \<open>The search for the WPS element reads nothing outside of its area, whatever the bytes.\<close>

lemma get_wps_ie_inside:
  assumes "int p + in_len \<le> int (length m)"
  shows "\<exists>r. rtw_get_wps_ie m p in_len False = Some r
    \<and> (\<forall>q n bs. r = Some (q, n, bs) \<longrightarrow> p \<le> q \<and> int q + 6 \<le> int p + in_len)"
  using wps_ie_loop_inside [of p "nat in_len" m 0] assms
  by (fastforce simp: rtw_get_wps_ie_def)

section \<open>The attributes of the WPS element\<close>

text \<open>
  \<^verbatim>\<open>rtw_get_wps_attr\<close>: \<open>None\<close> is a run that does not return, \<open>Inl\<close> an access outside of the
  memory. \<^verbatim>\<open>attr_len\<close> is a 16-bit number.
\<close>

datatype mem_fault = OutOfBounds

definition wps_attr_head :: "u8 list \<Rightarrow> nat \<Rightarrow> (u16 \<times> u16) option" where
  "wps_attr_head m pos = map_option (\<lambda>bs. (be16_at bs 0, be16_at bs 2 + 4)) (rdn m pos 4)"

partial_function (option) wps_attr_loop ::
  "u8 list \<Rightarrow> nat \<Rightarrow> nat \<Rightarrow> u16 \<Rightarrow> bool \<Rightarrow> nat \<Rightarrow> (mem_fault + (nat \<times> u16 \<times> u8 list) option) option" where
  "wps_attr_loop m wps_ie wps_ielen target copy pos =
     (if int pos - int wps_ie < int wps_ielen then
        (case wps_attr_head m pos of
           None \<Rightarrow> Some (Inl OutOfBounds)
         | Some (attr_id, attr_len) \<Rightarrow>
             if attr_id = target then
               Some (case if copy then rdn m pos (unat attr_len) else Some [] of
                       None \<Rightarrow> Inl OutOfBounds
                     | Some bs \<Rightarrow> Inr (Some (pos, attr_len, bs)))
             else wps_attr_loop m wps_ie wps_ielen target copy (pos + unat attr_len))
      else Some (Inr None))"

definition rtw_get_wps_attr ::
  "u8 list \<Rightarrow> nat \<Rightarrow> nat \<Rightarrow> u16 \<Rightarrow> bool \<Rightarrow> (mem_fault + (nat \<times> u16 \<times> u8 list) option) option" where
  "rtw_get_wps_attr m wps_ie wps_ielen target copy =
     (case rd m wps_ie of
        None \<Rightarrow> Some (Inl OutOfBounds)
      | Some b \<Rightarrow>
          if b \<noteq> 221 then Some (Inr None)
          else
            (case rdn m (wps_ie + 2) 4 of
               None \<Rightarrow> Some (Inl OutOfBounds)
             | Some oui \<Rightarrow>
                 if oui \<noteq> [0x00, 0x50, 0xf2, 0x04] then Some (Inr None)
                 else wps_attr_loop m wps_ie wps_ielen target copy (wps_ie + 6)))"

text \<open>
  \<^verbatim>\<open>rtw_get_wps_attr_content\<close>: \<open>len_content\<close> is the variable of the caller, if there is one, and
  \<open>buf\<close> whether there is a buffer. The result is the position of the content, the new value
  of the variable, and what was copied.
\<close>

definition rtw_get_wps_attr_content ::
  "u8 list \<Rightarrow> nat \<Rightarrow> nat \<Rightarrow> u16 \<Rightarrow> bool \<Rightarrow> u32 option \<Rightarrow> (mem_fault + nat option \<times> u32 option \<times> u8 list) option" where
  "rtw_get_wps_attr_content m wps_ie wps_ielen target buf len_content =
     do {
       r \<leftarrow> rtw_get_wps_attr m wps_ie wps_ielen target False;
       Some (case r of
         Inl e \<Rightarrow> Inl e
       | Inr None \<Rightarrow> Inr (None, map_option (\<lambda>_. 0) len_content, [])
       | Inr (Some (q, attr_len, _)) \<Rightarrow>
           if attr_len = 0 then Inr (None, map_option (\<lambda>_. 0) len_content, [])
           else
             let alen = ucast attr_len - 4;
                 len = (case len_content of None \<Rightarrow> None
                   | Some n \<Rightarrow> Some (if buf \<and> n > alen \<or> \<not> buf then alen else n));
                 n = (if \<not> buf then 0 else case len of None \<Rightarrow> 1 | Some k \<Rightarrow> unat k)
             in (case rdn m (q + 4) n of
                   None \<Rightarrow> Inl OutOfBounds
                 | Some bs \<Rightarrow> Inr (Some (q + 4), len, bs)))
     }"

text \<open>
  The positions that the search visits: from the first attribute to the next, for as long as
  it is inside of the element and the attribute is another one.
\<close>

inductive wps_visits :: "u8 list \<Rightarrow> nat \<Rightarrow> nat \<Rightarrow> u16 \<Rightarrow> nat \<Rightarrow> nat \<Rightarrow> bool"
  for m wps_ie wps_ielen target where
  here: "wps_visits m wps_ie wps_ielen target pos pos"
| hop: "wps_visits m wps_ie wps_ielen target pos q" if
    "int pos - int wps_ie < int wps_ielen" "wps_attr_head m pos = Some (attr_id, attr_len)" "attr_id \<noteq> target"
    "wps_visits m wps_ie wps_ielen target (pos + unat attr_len) q"

text \<open>An attribute at which the search stays: another one, whose length and head wrap to zero.\<close>

definition wps_trap :: "u8 list \<Rightarrow> nat \<Rightarrow> nat \<Rightarrow> u16 \<Rightarrow> nat \<Rightarrow> bool" where
  "wps_trap m wps_ie wps_ielen target q \<longleftrightarrow> int q - int wps_ie < int wps_ielen
     \<and> (\<exists>attr_id. wps_attr_head m q = Some (attr_id, 0) \<and> attr_id \<noteq> target)"

lemma wps_attr_loop_hop:
  assumes "int pos - int wps_ie < int wps_ielen" "wps_attr_head m pos = Some (attr_id, attr_len)" "attr_id \<noteq> target"
  shows "wps_attr_loop m wps_ie wps_ielen target copy pos = wps_attr_loop m wps_ie wps_ielen target copy (pos + unat attr_len)"
  by (subst wps_attr_loop.simps) (use assms in simp)

lemma wps_trap_no_return:
  assumes "wps_trap m wps_ie wps_ielen target q"
  shows "wps_attr_loop m wps_ie wps_ielen target copy q = None"
proof (rule ccontr)
  assume "wps_attr_loop m wps_ie wps_ielen target copy q \<noteq> None"
  then obtain r where ret: "wps_attr_loop m wps_ie wps_ielen target copy q = Some r" by blast
  have "\<not> wps_trap m wps_ie wps_ielen target q"
  proof (rule wps_attr_loop.raw_induct [where P = "\<lambda>m w n t c q r. \<not> wps_trap m w n t q", OF _ ret])
    fix f :: "u8 list \<Rightarrow> nat \<Rightarrow> nat \<Rightarrow> u16 \<Rightarrow> bool \<Rightarrow> nat \<Rightarrow> (mem_fault + (nat \<times> u16 \<times> u8 list) option) option"
      and m w n t c q r
    assume IH: "\<And>m w n t c q r. f m w n t c q = Some r \<Longrightarrow> \<not> wps_trap m w n t q"
      and eq: "(if int q - int w < int n then
          (case wps_attr_head m q of None \<Rightarrow> Some (Inl OutOfBounds)
           | Some (attr_id, attr_len) \<Rightarrow>
               if attr_id = t then Some (case if c then rdn m q (unat attr_len) else Some [] of
                 None \<Rightarrow> Inl OutOfBounds | Some bs \<Rightarrow> Inr (Some (q, attr_len, bs)))
               else f m w n t c (q + unat attr_len)) else Some (Inr None)) = Some r"
    show "\<not> wps_trap m w n t q"
    proof
      assume trap: "wps_trap m w n t q"
      then have "f m w n t c q = Some r" using eq by (auto simp: wps_trap_def)
      then show False using IH trap by blast
    qed
  qed
  then show False using assms by blast
qed

lemma wps_visits_same:
  "wps_visits m wps_ie wps_ielen target pos q
    \<Longrightarrow> wps_attr_loop m wps_ie wps_ielen target copy pos = wps_attr_loop m wps_ie wps_ielen target copy q"
  by (induction rule: wps_visits.induct) (simp_all add: wps_attr_loop_hop)

lemma nat_closer: "0 < d \<Longrightarrow> int pos < e \<Longrightarrow> nat (e - int (pos + d)) < nat (e - int pos)" for pos d :: nat
  by simp

lemma wps_attr_loop_returns:
  assumes "\<forall>q. wps_visits m wps_ie wps_ielen target pos q \<longrightarrow> \<not> wps_trap m wps_ie wps_ielen target q"
  shows "\<exists>r. wps_attr_loop m wps_ie wps_ielen target copy pos = Some r"
  using assms
proof (induction "nat (int wps_ielen + int wps_ie - int pos)" arbitrary: pos rule: less_induct)
  case less
  show ?case
  proof (cases "int pos - int wps_ie < int wps_ielen \<and> (\<exists>i l. wps_attr_head m pos = Some (i, l) \<and> i \<noteq> target)")
    case False
    then show ?thesis by (subst wps_attr_loop.simps) (auto split: option.split)
  next
    case True
    then obtain i l where il: "int pos - int wps_ie < int wps_ielen" "wps_attr_head m pos = Some (i, l)" "i \<noteq> target"
      by blast
    have "\<not> wps_trap m wps_ie wps_ielen target pos" using less.prems here by blast
    then have "l \<noteq> 0" using il by (auto simp: wps_trap_def)
    then have "0 < unat l" by (simp add: unat_gt_0)
    then have "nat (int wps_ielen + int wps_ie - int (pos + unat l)) < nat (int wps_ielen + int wps_ie - int pos)"
      by (rule nat_closer) (use il(1) in simp)
    then have "\<exists>r. wps_attr_loop m wps_ie wps_ielen target copy (pos + unat l) = Some r"
      using il less.prems hop [OF il] by (intro less.hyps) auto
    then show ?thesis using wps_attr_loop_hop [OF il] by simp
  qed
qed

lemma wps_attr_loop_None:
  "wps_attr_loop m wps_ie wps_ielen target copy pos = None
    \<longleftrightarrow> (\<exists>q. wps_visits m wps_ie wps_ielen target pos q \<and> wps_trap m wps_ie wps_ielen target q)"
proof
  assume none: "wps_attr_loop m wps_ie wps_ielen target copy pos = None"
  show "\<exists>q. wps_visits m wps_ie wps_ielen target pos q \<and> wps_trap m wps_ie wps_ielen target q"
  proof (rule ccontr)
    assume "\<not> ?thesis"
    then obtain r where "wps_attr_loop m wps_ie wps_ielen target copy pos = Some r"
      using wps_attr_loop_returns [of m wps_ie wps_ielen target pos copy] by blast
    then show False using none by simp
  qed
next
  assume "\<exists>q. wps_visits m wps_ie wps_ielen target pos q \<and> wps_trap m wps_ie wps_ielen target q"
  then obtain q where "wps_visits m wps_ie wps_ielen target pos q" "wps_trap m wps_ie wps_ielen target q" by blast
  then show "wps_attr_loop m wps_ie wps_ielen target copy pos = None"
    using wps_visits_same [of m wps_ie wps_ielen target pos q copy] wps_trap_no_return [of m wps_ie wps_ielen target q copy]
    by simp
qed

lemma wps_attr_head_zero:
  "wps_attr_head m q = Some (i, 0) \<longleftrightarrow> rdn m q 4 = Some (be16_bytes i @ [0xff, 0xfc])"
proof
  assume "wps_attr_head m q = Some (i, 0)"
  then obtain bs where bs: "rdn m q 4 = Some bs" "be16_at bs 0 = i" "be16_at bs 2 + 4 = 0"
    by (auto simp: wps_attr_head_def)
  have "length bs = 4" using bs(1) by (auto simp: rdn_def split: if_splits)
  then obtain a b c d where abcd: "bs = [a, b, c, d]" by (auto simp: eval_nat_numeral length_Suc_conv)
  have "be16_at bs 2 = 0xfffc" using bs(3) by (simp add: eq_neg_iff_add_eq_0 [symmetric])
  then have "[c, d] = [0xff, 0xfc]"
    using be16_bytes_at(2) [of a b c d] by (simp add: abcd be16_bytes_def)
  then show "rdn m q 4 = Some (be16_bytes i @ [0xff, 0xfc])"
    using bs be16_bytes_at(1) [of a b c d] by (simp add: abcd)
next
  assume r: "rdn m q 4 = Some (be16_bytes i @ [0xff, 0xfc])"
  have m: "be16_bytes 0xfffc = [0xff, 0xfc]" by (simp add: be16_bytes_def)
  moreover have "be16_at (be16_bytes i @ [0xff, 0xfc]) 0 = i" "be16_at (be16_bytes i @ [0xff, 0xfc]) 2 = 0xfffc"
    using be16_roundtrip [of "[]" i "[0xff, 0xfc]"] be16_roundtrip [of "be16_bytes i" "0xfffc" "[]"] m
    by (simp_all add: numeral_2_eq_2)
  ultimately show "wps_attr_head m q = Some (i, 0)" using r by (simp add: wps_attr_head_def)
qed

text \<open>
  C29. The search for an attribute of a WPS element returns exactly when it does not come
  across an attribute, other than the wanted one, that claims 0xFFFC bytes: with the four
  bytes of the head the 16-bit length is zero and the search stays where it is, for ever,
  with the lock its caller holds. The element may come from any beacon that is heard.
\<close>

theorem wps_attr_returns_iff:
  assumes "rd m wps_ie = Some 221" "rdn m (wps_ie + 2) 4 = Some [0x00, 0x50, 0xf2, 0x04]"
  shows "rtw_get_wps_attr m wps_ie wps_ielen target copy = None
    \<longleftrightarrow> (\<exists>q. wps_visits m wps_ie wps_ielen target (wps_ie + 6) q \<and> int q - int wps_ie < int wps_ielen
          \<and> (\<exists>i. rdn m q 4 = Some (be16_bytes i @ [0xff, 0xfc]) \<and> i \<noteq> target))"
proof -
  have "wps_trap m wps_ie wps_ielen target q \<longleftrightarrow> int q - int wps_ie < int wps_ielen
      \<and> (\<exists>i. rdn m q 4 = Some (be16_bytes i @ [0xff, 0xfc]) \<and> i \<noteq> target)" for q
    using wps_attr_head_zero by (auto simp: wps_trap_def)
  moreover have "rtw_get_wps_attr m wps_ie wps_ielen target copy = wps_attr_loop m wps_ie wps_ielen target copy (wps_ie + 6)"
    using assms by (simp add: rtw_get_wps_attr_def)
  moreover have "wps_attr_loop m wps_ie wps_ielen target copy (wps_ie + 6) = None
      \<longleftrightarrow> (\<exists>q. wps_visits m wps_ie wps_ielen target (wps_ie + 6) q \<and> wps_trap m wps_ie wps_ielen target q)"
    by (rule wps_attr_loop_None)
  ultimately show ?thesis by simp
qed

theorem wps_attr_returns_iff_witness:
  "rtw_get_wps_attr [221, 8, 0x00, 0x50, 0xf2, 0x04, 0x10, 0x4a, 0xff, 0xfc] 0 10 0x1041 False = None"
proof -
  let ?m = "[221, 8, 0x00, 0x50, 0xf2, 0x04, 0x10, 0x4a, 0xff, 0xfc] :: u8 list"
  have hd: "rd ?m 0 = Some 221" "rdn ?m (0 + 2) 4 = Some [0x00, 0x50, 0xf2, 0x04]"
    by (simp_all add: rd_def rdn_def)
  have "rdn ?m 6 4 = Some (be16_bytes 0x104a @ [0xff, 0xfc])" "(0x104a :: u16) \<noteq> 0x1041"
    by (simp_all add: rdn_def be16_bytes_def)
  then have "\<exists>i. rdn ?m 6 4 = Some (be16_bytes i @ [0xff, 0xfc]) \<and> i \<noteq> 0x1041" by blast
  moreover have "wps_visits ?m 0 10 0x1041 (0 + 6) 6" by (simp add: here)
  ultimately show ?thesis
    using wps_attr_returns_iff [OF hd, of 10 "0x1041" False] by fastforce
qed

section \<open>Encoded attributes\<close>

definition attr_bytes :: "u16 \<times> u8 list \<Rightarrow> u8 list" where
  "attr_bytes a = be16_bytes (fst a) @ be16_bytes (of_nat (length (snd a))) @ snd a"

definition wps_ie_bytes :: "(u16 \<times> u8 list) list \<Rightarrow> u8 list" where
  "wps_ie_bytes as = ie_bytes (221, [0x00, 0x50, 0xf2, 0x04] @ concat (map attr_bytes as))"

lemma length_attr_bytes [simp]: "length (attr_bytes a) = 4 + length (snd a)"
  by (simp add: attr_bytes_def)

lemma attr_head_at:
  "wps_attr_head (pre @ attr_bytes a @ rest) (length pre) = Some (fst a, of_nat (length (attr_bytes a)))"
proof -
  let ?h = "be16_bytes (fst a) @ be16_bytes (of_nat (length (snd a)))"
  have "rdn (pre @ attr_bytes a @ rest) (length pre) 4 = Some ?h"
    using rdn_append [of pre ?h "snd a @ rest"] by (simp add: attr_bytes_def eval_nat_numeral)
  moreover have "be16_at ?h 0 = fst a" "be16_at ?h 2 = of_nat (length (snd a))"
    using be16_roundtrip [of "[]" "fst a" "be16_bytes (of_nat (length (snd a)))"]
      be16_roundtrip [of "be16_bytes (fst a)" "of_nat (length (snd a))" "[]"]
    by (simp_all add: numeral_2_eq_2)
  ultimately show ?thesis by (simp add: wps_attr_head_def)
qed

lemma wps_attr_loop_skip:
  assumes "\<forall>a \<in> set as. fst a \<noteq> target \<and> length (snd a) < 0xfffc"
    and "length pre + length (concat (map attr_bytes as)) \<le> wps_ie + wps_ielen"
  shows "wps_attr_loop (pre @ concat (map attr_bytes as) @ rest) wps_ie wps_ielen target copy (length pre)
    = wps_attr_loop (pre @ concat (map attr_bytes as) @ rest) wps_ie wps_ielen target copy (length pre + length (concat (map attr_bytes as)))"
  using assms
proof (induction as arbitrary: pre)
  case (Cons a as)
  have "length (attr_bytes a) < 65536" using Cons.prems(1) by simp
  then have len: "unat (of_nat (length (attr_bytes a)) :: u16) = length (attr_bytes a)"
    by (simp add: unat_of_nat take_bit_eq_mod del: length_attr_bytes)
  have "wps_attr_loop (pre @ attr_bytes a @ concat (map attr_bytes as) @ rest) wps_ie wps_ielen target copy (length pre)
      = wps_attr_loop (pre @ attr_bytes a @ concat (map attr_bytes as) @ rest) wps_ie wps_ielen target copy
          (length pre + unat (of_nat (length (attr_bytes a)) :: u16))"
    by (rule wps_attr_loop_hop [OF _ attr_head_at]) (use Cons.prems in auto)
  then show ?case
    using Cons.IH [of "pre @ attr_bytes a"] Cons.prems len by (simp add: add.assoc)
qed simp

text \<open>
  On an encoded WPS element the search finds the first attribute with the wanted
  identifier, with its position, its length and a copy of it, and nothing when there is
  none.
\<close>

lemma wps_attr_finds_first:
  assumes "m = pre @ wps_ie_bytes (as @ bs) @ rest" "length (concat (map attr_bytes (as @ bs))) < 252"
    and "\<forall>a \<in> set as. fst a \<noteq> target" "bs = [] \<or> fst (hd bs) = target"
  shows "rtw_get_wps_attr m (length pre) (length (wps_ie_bytes (as @ bs))) target True
    = Some (Inr (if bs = [] then None
        else Some (length pre + 6 + length (concat (map attr_bytes as)), of_nat (length (attr_bytes (hd bs))), attr_bytes (hd bs))))"
proof -
  let ?A = "concat (map attr_bytes as)" and ?B = "concat (map attr_bytes bs)" and ?n = "length (wps_ie_bytes (as @ bs))"
  define pre' where "pre' = pre @ [221, of_nat (4 + length ?A + length ?B), 0x00, 0x50, 0xf2, 0x04]"
  have m: "m = pre' @ ?A @ ?B @ rest" and pre': "length pre' = length pre + 6"
    by (simp_all add: assms(1) pre'_def wps_ie_bytes_def ie_bytes_def eval_nat_numeral)
  have n: "?n = 6 + length ?A + length ?B" by (simp add: wps_ie_bytes_def)
  have head: "rd m (length pre) = Some 221" "rdn m (length pre + 2) 4 = Some [0x00, 0x50, 0xf2, 0x04]"
    by (simp_all add: assms(1) wps_ie_bytes_def ie_bytes_def rd_append rdn_def)
  have small: "\<forall>a \<in> set as. length (snd a) < 0xfffc"
  proof
    fix a assume "a \<in> set as"
    then have "length (attr_bytes a) \<le> length ?A"
      by (induction as) auto
    then show "length (snd a) < 0xfffc" using assms(2) by simp
  qed
  have "rtw_get_wps_attr m (length pre) ?n target True = wps_attr_loop m (length pre) ?n target True (length pre')"
    using head by (simp add: rtw_get_wps_attr_def pre')
  also have "\<dots> = wps_attr_loop m (length pre) ?n target True (length pre' + length ?A)"
    unfolding m by (rule wps_attr_loop_skip) (use assms(3) small in \<open>simp_all add: pre' n\<close>)
  also have "\<dots> = Some (Inr (if bs = [] then None
        else Some (length pre + 6 + length ?A, of_nat (length (attr_bytes (hd bs))), attr_bytes (hd bs))))"
  proof (cases bs)
    case Nil
    then show ?thesis using n by (subst wps_attr_loop.simps) (simp add: pre')
  next
    case (Cons b bs')
    have at: "wps_attr_head m (length pre' + length ?A) = Some (fst b, of_nat (length (attr_bytes b)))"
      using attr_head_at [of "pre' @ ?A" b "concat (map attr_bytes bs') @ rest"] by (simp add: m Cons)
    have "length (attr_bytes b) < 65536" using assms(2) by (simp add: Cons)
    then have len: "unat (of_nat (length (attr_bytes b)) :: u16) = length (attr_bytes b)"
      by (simp add: unat_of_nat take_bit_eq_mod del: length_attr_bytes)
    have rd: "rdn m (length pre' + length ?A) (length (attr_bytes b)) = Some (attr_bytes b)"
      using rdn_append [of "pre' @ ?A" "attr_bytes b" "concat (map attr_bytes bs') @ rest"] by (simp add: m Cons)
    have "int (length pre' + length ?A) - int (length pre) < int ?n" unfolding n pre' by (simp add: Cons)
    then show ?thesis
      using at len rd assms(4) by (subst wps_attr_loop.simps) (simp add: Cons pre' [symmetric] del: length_attr_bytes)
  qed
  finally show ?thesis .
qed

lemma wps_attr_finds_first_ex:
  "rtw_get_wps_attr [9, 221, 14, 0x00, 0x50, 0xf2, 0x04, 0x10, 0x4a, 0, 1, 0x10, 0x10, 0x41, 0, 1, 1] 1 16 0x1041 True
    = Some (Inr (Some (12, 5, [0x10, 0x41, 0, 1, 1])))"
proof -
  let ?as = "[(0x104a, [0x10])] :: (u16 \<times> u8 list) list" and ?bs = "[(0x1041, [1])] :: (u16 \<times> u8 list) list"
  have m: "[9, 221, 14, 0x00, 0x50, 0xf2, 0x04, 0x10, 0x4a, 0, 1, 0x10, 0x10, 0x41, 0, 1, 1] = [9] @ wps_ie_bytes (?as @ ?bs) @ []"
    and b: "attr_bytes (0x1041, [1]) = [0x10, 0x41, 0, 1, 1]"
    by (simp_all add: wps_ie_bytes_def ie_bytes_def attr_bytes_def be16_bytes_def)
  have l: "length [9::u8] = 1" "length (wps_ie_bytes (?as @ ?bs)) = 16" "1 + 6 + length (concat (map attr_bytes ?as)) = 12"
    by (simp_all add: wps_ie_bytes_def)
  show ?thesis
    using wps_attr_finds_first [OF m, of "0x1041"] unfolding l by (simp add: b)
qed

section \<open>Extended capabilities\<close>

definition WLAN_EID_EXT_CAP_MAX_LEN :: nat where
  "WLAN_EID_EXT_CAP_MAX_LEN = 10"

text \<open>
  \<^verbatim>\<open>ext_cap_data\<close> is an array of ten bytes, of which the first \<^verbatim>\<open>ext_cap_data_len\<close> are sent.
  \<open>None\<close> is an access outside of the array.
\<close>

definition rtw_add_ext_cap_info :: "u8 list \<Rightarrow> nat \<Rightarrow> u8 \<Rightarrow> (u8 list \<times> nat) option" where
  "rtw_add_ext_cap_info d len cap =
     (let byte = unat (drop_bit 3 cap); bit = unat (cap mod 8) in
      do { b \<leftarrow> rd d byte;
           Some (d[byte := b OR push_bit bit 1], if byte + 1 > len then byte + 1 else len) })"

definition rtw_remove_ext_cap_info :: "u8 list \<Rightarrow> u8 \<Rightarrow> (u8 list \<times> nat) option" where
  "rtw_remove_ext_cap_info d cap =
     (let byte = unat (drop_bit 3 cap); bit = unat (cap mod 8) in
      do { b \<leftarrow> rd d byte;
           let d' = d[byte := b AND NOT (push_bit bit 1)];
           if WLAN_EID_EXT_CAP_MAX_LEN > length d then None
           else Some (d', foldl (\<lambda>max_len i. if d' ! i \<noteq> 0 then i + 1 else max_len) 0 [0..<WLAN_EID_EXT_CAP_MAX_LEN]) })"

text \<open>
  \<^verbatim>\<open>rtw_update_ext_cap_ie\<close>: the elements in \<open>m\<close> with their length. \<^verbatim>\<open>*ies_len - ies_offset\<close> is
  unsigned and passed on as a signed number.
\<close>

definition rtw_update_ext_cap_ie ::
  "(nat \<Rightarrow> bool) \<Rightarrow> u8 list \<Rightarrow> nat \<Rightarrow> u8 list \<Rightarrow> nat \<Rightarrow> nat \<Rightarrow> (u8 list \<times> nat) option" where
  "rtw_update_ext_cap_ie malloc_ok d len m ies_len off =
     (if len \<noteq> 0 then
        do {
          found \<leftarrow> rtw_get_ie m off 127 (sint (of_nat ies_len - of_nat off :: u32));
          (case found of
             None \<Rightarrow> do { (m1, _, n) \<leftarrow> rtw_set_ie m ies_len 127 len d 0; Some (m1, ies_len + unat n) }
           | Some _ \<Rightarrow> do { content \<leftarrow> rdn d 0 len;
                            (_, m1, n) \<leftarrow> rtw_ies_update_ie malloc_ok m ies_len off 127 content; Some (m1, n) })
        }
      else do { (_, m1, n) \<leftarrow> rtw_ies_remove_ie m ies_len off 127 None; Some (m1, n) })"

primrec or_bytes :: "u8 list \<Rightarrow> nat \<Rightarrow> u8 list \<Rightarrow> u8 list option" where
  "or_bytes d i [] = Some d"
| "or_bytes d i (x # xs) = do { b \<leftarrow> rd d i; or_bytes (d[i := b OR x]) (Suc i) xs }"

definition rtw_parse_ext_cap_ie :: "u8 list \<Rightarrow> nat \<Rightarrow> u8 list \<Rightarrow> nat \<Rightarrow> nat \<Rightarrow> (u8 list \<times> nat) option" where
  "rtw_parse_ext_cap_ie d len m ies_len off =
     do {
       found \<leftarrow> rtw_get_ie m off 127 (sint (of_nat ies_len - of_nat off :: u32));
       (case found of
          None \<Rightarrow> Some (d, len)
        | Some (p, n) \<Rightarrow>
            do {
              content \<leftarrow> rdn m (p + 2) n;
              if len = 0 then do { d1 \<leftarrow> wr d 0 content; Some (d1, n) }
              else do { d1 \<leftarrow> or_bytes d 0 content; Some (d1, len) }
            })
     }"

text \<open>
  The length is the shortest that holds all capabilities; both operations keep it so, and
  the removal of a capability undoes its addition.
\<close>

definition ext_cap_ok :: "u8 list \<Rightarrow> nat \<Rightarrow> bool" where
  "ext_cap_ok d len \<longleftrightarrow> length d = 10 \<and> len \<le> 10 \<and> (\<forall>i < 10. len \<le> i \<longrightarrow> d ! i = 0) \<and> (0 < len \<longrightarrow> d ! (len - 1) \<noteq> 0)"

lemma last_nonzero:
  "foldl (\<lambda>max_len i. if (d :: u8 list) ! i \<noteq> 0 then i + 1 else max_len) 0 [0..<n] = len
    \<Longrightarrow> len \<le> n \<and> (\<forall>i < n. len \<le> i \<longrightarrow> d ! i = 0) \<and> (0 < len \<longrightarrow> d ! (len - 1) \<noteq> 0)"
proof (induction n arbitrary: len)
  case (Suc n)
  then show ?case
    by (auto simp: less_Suc_eq split: if_splits)
qed simp

lemma remove_ext_cap_ok:
  assumes "length d = 10" "rtw_remove_ext_cap_info d cap = Some (d', len)"
  shows "ext_cap_ok d' len"
  using assms last_nonzero [of d' 10 len]
  by (auto simp: rtw_remove_ext_cap_info_def ext_cap_ok_def Let_def WLAN_EID_EXT_CAP_MAX_LEN_def bind_eq_Some_conv)

lemma add_ext_cap_ok:
  assumes "ext_cap_ok d len" "rtw_add_ext_cap_info d len cap = Some (d', len')"
  shows "ext_cap_ok d' len'"
proof -
  define byte where "byte = unat (drop_bit 3 cap)"
  define k where "k = unat (cap mod 8)"
  have "unat (cap mod 8) < 8" using unat_mod [of cap 8] by simp
  then have k: "k < 8" by (simp add: k_def)
  have nz: "b OR push_bit k 1 \<noteq> 0" for b :: u8
  proof -
    have "bit (b OR push_bit k 1) k" using k by (simp add: bit_simps)
    then show ?thesis by (metis bit_0_eq bot_fun_def bot_bool_def)
  qed
  have r: "byte < 10" "d' = d[byte := d ! byte OR push_bit k 1]" "len' = max (byte + 1) len"
    using assms by (auto simp: rtw_add_ext_cap_info_def ext_cap_ok_def Let_def rd_def byte_def k_def bind_eq_Some_conv split: if_splits)
  show ?thesis
    using assms(1) nz k r by (auto simp: ext_cap_ok_def nth_list_update max_def)
qed

lemma ext_cap_len_unique:
  assumes "ext_cap_ok d len" "ext_cap_ok d len'"
  shows "len = len'"
proof (rule ccontr)
  assume "len \<noteq> len'"
  then consider "len < len'" | "len' < len" by linarith
  then show False
  proof cases
    case 1
    then have "len \<le> len' - 1" "len' - 1 < 10" using assms(2) by (auto simp: ext_cap_ok_def)
    then show False using assms 1 by (auto simp: ext_cap_ok_def)
  next
    case 2
    then have "len' \<le> len - 1" "len - 1 < 10" using assms(1) by (auto simp: ext_cap_ok_def)
    then show False using assms 2 by (auto simp: ext_cap_ok_def)
  qed
qed

lemma ext_cap_remove_add:
  assumes "ext_cap_ok d len" "rtw_add_ext_cap_info d len cap = Some (d1, len1)"
    and "\<not> bit (d ! unat (drop_bit 3 cap)) (unat (cap mod 8))"
  shows "rtw_remove_ext_cap_info d1 cap = Some (d, len)"
proof -
  define byte where "byte = unat (drop_bit 3 cap)"
  define k where "k = unat (cap mod 8)"
  have r: "byte < 10" "d1 = d[byte := d ! byte OR push_bit k 1]" "length d = 10"
    using assms by (auto simp: rtw_add_ext_cap_info_def ext_cap_ok_def Let_def rd_def byte_def k_def bind_eq_Some_conv split: if_splits)
  have "(d ! byte OR push_bit k 1) AND NOT (push_bit k 1) = d ! byte"
  proof (rule bit_word_eqI)
    fix n assume "n < LENGTH(8)"
    then show "bit ((d ! byte OR push_bit k 1) AND NOT (push_bit k 1)) n = bit (d ! byte) n"
      using assms(3) by (cases "n = k") (auto simp: bit_simps byte_def k_def)
  qed
  then have d: "d1[byte := d1 ! byte AND NOT (push_bit k 1)] = d"
    using r by (simp del: bit_push_bit_iff)
  have "\<exists>n. rtw_remove_ext_cap_info d1 cap = Some (d1[byte := d1 ! byte AND NOT (push_bit k 1)], n)"
    using r by (simp add: rtw_remove_ext_cap_info_def Let_def rd_def byte_def k_def WLAN_EID_EXT_CAP_MAX_LEN_def)
  then obtain n where n: "rtw_remove_ext_cap_info d1 cap = Some (d, n)" unfolding d by blast
  have "length d1 = 10" using r by simp
  from remove_ext_cap_ok [OF this n] have "n = len" using ext_cap_len_unique assms(1) by blast
  then show ?thesis using n by simp
qed

text \<open>
  \<^verbatim>\<open>rtw_parse_ext_cap_ie\<close> does not compare the length of the element, up to 255 bytes, with the
  ten bytes of the array it writes to.
\<close>

lemma parse_ext_cap_overflows:
  assumes "rtw_get_ie m off 127 (sint (of_nat ies_len - of_nat off :: u32)) = Some (Some (p, n))" "length d < n"
  shows "rtw_parse_ext_cap_ie d 0 m ies_len off = None"
  using assms by (auto simp: rtw_parse_ext_cap_ie_def wr_def rdn_def bind_eq_None_conv)

end
