(* ===== verification/Hw_Cam.thy ===== *)
theory Hw_Cam
  imports Prelude "HOL-Library.Monad_Syntax"
begin

unbundle bit_operations_syntax

text \<open>
  The security CAM, the key table of the hardware, and its cache: \<^verbatim>\<open>core/rtw_wlan_util.c\<close>, the
  register access of \<^verbatim>\<open>hal/hal_com.c\<close>, and the handlers of the key commands of
  \<^verbatim>\<open>core/rtw_mlme_ext.c\<close> and \<^verbatim>\<open>core/rtw_cmd.c\<close>.

  The lemmas show that the cache mirrors the hardware in every run of the handlers, that the
  table refines a map from addresses and key identifiers to keys, and what breaks that: a
  256-bit key takes the entry behind its own, whoever has it, and the removal of the keys of
  the address zero does not return.
\<close>

section \<open>The hardware table\<close>

text \<open>
  The table is an array of 32-bit words with an 8-bit address: \<^verbatim>\<open>rtw_sec_write_cam\<close> and
  \<^verbatim>\<open>rtw_sec_read_cam\<close> hand a word and its address to two registers of the device.
\<close>

type_synonym cam_hw = "u8 \<Rightarrow> u32"

definition cam_word :: "u16 \<Rightarrow> u8 list \<Rightarrow> u8 list \<Rightarrow> nat \<Rightarrow> u32" where
  "cam_word ctrl mac key j =
     (if j = 0 then ucast ctrl OR push_bit 16 (ucast (mac ! 0)) OR push_bit 24 (ucast (mac ! 1))
      else if j = 1 then ucast (mac ! 2) OR push_bit 8 (ucast (mac ! 3)) OR push_bit 16 (ucast (mac ! 4)) OR push_bit 24 (ucast (mac ! 5))
      else if j = 6 \<or> j = 7 then 0
      else let i = (j - 2) * 4 in
        ucast (key ! i) OR push_bit 8 (ucast (key ! (i + 1))) OR push_bit 16 (ucast (key ! (i + 2))) OR push_bit 24 (ucast (key ! (i + 3))))"

definition cam_addr :: "nat \<Rightarrow> nat \<Rightarrow> u8" where
  "cam_addr i j = of_nat (i * 8 + j)"

definition rtw_sec_write_cam_ent :: "cam_hw \<Rightarrow> nat \<Rightarrow> u16 \<Rightarrow> u8 list \<Rightarrow> u8 list \<Rightarrow> cam_hw" where
  "rtw_sec_write_cam_ent hw i ctrl mac key =
     foldl (\<lambda>h j. h(cam_addr i j := cam_word ctrl mac key j)) hw [7, 6, 5, 4, 3, 2, 1, 0]"

text \<open>\<^verbatim>\<open>rtw_sec_read_cam_ent\<close> with all three buffers.\<close>

definition word_bytes :: "u32 \<Rightarrow> u8 list" where
  "word_bytes w = [ucast w, ucast (drop_bit 8 w), ucast (drop_bit 16 w), ucast (drop_bit 24 w)]"

definition rtw_sec_read_cam_ent :: "cam_hw \<Rightarrow> nat \<Rightarrow> u16 \<times> u8 list \<times> u8 list" where
  "rtw_sec_read_cam_ent hw i =
     (ucast (hw (cam_addr i 0)),
      drop 2 (word_bytes (hw (cam_addr i 0))) @ word_bytes (hw (cam_addr i 1)),
      concat (map (\<lambda>j. word_bytes (hw (cam_addr i j))) [2, 3, 4, 5]))"

definition rtw_sec_read_cam_is_gk :: "cam_hw \<Rightarrow> nat \<Rightarrow> bool" where
  "rtw_sec_read_cam_is_gk hw i = bit (fst (rtw_sec_read_cam_ent hw i)) 6"

definition rtw_sec_clr_cam_ent :: "cam_hw \<Rightarrow> nat \<Rightarrow> cam_hw" where
  "rtw_sec_clr_cam_ent hw i = hw(cam_addr i 0 := 0)"

section \<open>The cache and the bitmap\<close>

record sec_cam_ent =
  ce_ctrl :: u16
  ce_mac :: "u8 list"
  ce_key :: "u8 list"

definition cam_zero :: sec_cam_ent where
  "cam_zero = \<lparr>ce_ctrl = 0, ce_mac = replicate 6 0, ce_key = replicate 16 0\<rparr>"

definition SEC_CAM_ENT_NUM_SW_LIMIT :: nat where
  "SEC_CAM_ENT_NUM_SW_LIMIT = 32"

text \<open>\<^verbatim>\<open>struct cam_ctl_t\<close> with the cache of \<^verbatim>\<open>struct dvobj_priv\<close> and the hardware.\<close>

record cam_ctl =
  cc_sec_cap :: u8
  cc_flags :: u32
  cc_num :: nat
  cc_used :: u32
  cc_cache :: "sec_cam_ent list"
  cc_hw :: cam_hw

definition rtw_sec_camid_is_set :: "u32 \<Rightarrow> nat \<Rightarrow> bool" where
  "rtw_sec_camid_is_set bmp i = (if i < 32 then bmp AND push_bit i 1 \<noteq> 0 else False)"

definition rtw_sec_cam_map_set :: "u32 \<Rightarrow> nat \<Rightarrow> u32" where
  "rtw_sec_cam_map_set bmp i = (if i < 32 then bmp OR push_bit i 1 else bmp)"

definition rtw_sec_cam_map_clr :: "u32 \<Rightarrow> nat \<Rightarrow> u32" where
  "rtw_sec_cam_map_clr bmp i = (if i < 32 then bmp AND NOT (push_bit i 1) else bmp)"

definition rtw_camctl_chk_cap :: "cam_ctl \<Rightarrow> u8 \<Rightarrow> bool" where
  "rtw_camctl_chk_cap c cap \<longleftrightarrow> cc_sec_cap c AND cap \<noteq> 0"

definition rtw_camctl_set_flags :: "cam_ctl \<Rightarrow> u32 \<Rightarrow> cam_ctl" where
  "rtw_camctl_set_flags c flags = c\<lparr>cc_flags := cc_flags c OR flags\<rparr>"

definition rtw_camctl_clr_flags :: "cam_ctl \<Rightarrow> u32 \<Rightarrow> cam_ctl" where
  "rtw_camctl_clr_flags c flags = c\<lparr>cc_flags := cc_flags c AND NOT flags\<rparr>"

definition rtw_camctl_chk_flags :: "cam_ctl \<Rightarrow> u32 \<Rightarrow> bool" where
  "rtw_camctl_chk_flags c flags \<longleftrightarrow> cc_flags c AND flags \<noteq> 0"

definition rtw_sec_camid_is_used :: "cam_ctl \<Rightarrow> nat \<Rightarrow> bool" where
  "rtw_sec_camid_is_used c i = (if i \<ge> cc_num c then False else rtw_sec_camid_is_set (cc_used c) i)"

definition rtw_camid_is_gk :: "cam_ctl \<Rightarrow> nat \<Rightarrow> bool" where
  "rtw_camid_is_gk c i =
     (if i \<ge> cc_num c then False else if \<not> rtw_sec_camid_is_used c i then False
      else ce_ctrl (cc_cache c ! i) AND push_bit 6 1 \<noteq> 0)"

text \<open>A negative \<open>kid\<close>, the \<open>gk\<close> -1 and no address match every entry.\<close>

definition cam_cache_chk :: "cam_ctl \<Rightarrow> nat \<Rightarrow> u8 list option \<Rightarrow> int \<Rightarrow> int \<Rightarrow> bool" where
  "cam_cache_chk c i addr kid gk =
     (if (case addr of None \<Rightarrow> False | Some a \<Rightarrow> ce_mac (cc_cache c ! i) \<noteq> a) then False
      else if kid \<ge> 0 \<and> kid \<noteq> uint (ce_ctrl (cc_cache c ! i) AND 3) then False
      else if gk \<noteq> -1 \<and> (gk \<noteq> 0) \<noteq> rtw_camid_is_gk c i then False
      else True)"

definition rtw_camid_search :: "cam_ctl \<Rightarrow> u8 list option \<Rightarrow> int \<Rightarrow> int \<Rightarrow> nat option" where
  "rtw_camid_search c addr kid gk = find (\<lambda>i. cam_cache_chk c i addr kid gk) [0..<cc_num c]"

definition rtw_camid_set :: "cam_ctl \<Rightarrow> nat \<Rightarrow> cam_ctl" where
  "rtw_camid_set c i = (if i < cc_num c then c\<lparr>cc_used := rtw_sec_cam_map_set (cc_used c) i\<rparr> else c)"

definition rtw_camid_free :: "cam_ctl \<Rightarrow> nat \<Rightarrow> cam_ctl" where
  "rtw_camid_free c i = (if i < cc_num c then c\<lparr>cc_used := rtw_sec_cam_map_clr (cc_used c) i\<rparr> else c)"

section \<open>Allocation\<close>

definition SEC_CAP_CHK_BMC :: u8 where
  "SEC_CAP_CHK_BMC = 1"

definition rtw_get_camid :: "cam_ctl \<Rightarrow> u8 list \<Rightarrow> int \<Rightarrow> bool \<Rightarrow> bool \<Rightarrow> nat option" where
  "rtw_get_camid c addr kid gk ext_sec =
     (case rtw_camid_search c (Some addr) kid (if rtw_camctl_chk_cap c SEC_CAP_CHK_BMC then of_bool gk else -1) of
        Some i \<Rightarrow> Some i
      | None \<Rightarrow> find (\<lambda>i. \<not> rtw_sec_camid_is_used c i
          \<and> (ext_sec \<longrightarrow> i + 1 < cc_num c \<and> \<not> rtw_sec_camid_is_used c (i + 1))) [0..<cc_num c])"

text \<open>
  What \<^verbatim>\<open>rtw_camid_alloc\<close> reads of the interface: whether it is in access-point or ad-hoc state,
  associated, its own address and that of its network, and the keys it sends with.
\<close>

record cam_if =
  ci_ap_adhoc :: bool
  ci_assoc :: bool
  ci_mac :: "u8 list"
  ci_bssid :: "u8 list"
  ci_bmc_cam_id :: nat
  ci_station :: bool
  ci_key_index :: u8
  ci_def_camid :: "nat list"
  ci_key_idx :: nat

text \<open>The result: the entry, whether it was in use, and the table.\<close>

definition rtw_camid_alloc ::
  "cam_if \<Rightarrow> cam_ctl \<Rightarrow> u8 list option \<Rightarrow> int \<Rightarrow> bool \<Rightarrow> bool \<Rightarrow> nat option \<times> bool \<times> cam_ctl" where
  "rtw_camid_alloc f c sta kid gk ext_sec =
     (let cam_id =
        (case sta of
           None \<Rightarrow> if ci_ap_adhoc f then rtw_get_camid c (ci_mac f) kid gk ext_sec
             else if \<not> ci_assoc f then None
             else rtw_get_camid c (ci_bssid f) kid gk ext_sec
         | Some addr \<Rightarrow> rtw_get_camid c addr kid gk ext_sec)
      in (case cam_id of
            None \<Rightarrow> (None, False, c)
          | Some i \<Rightarrow>
              (Some i, rtw_sec_camid_is_used c i,
               c\<lparr>cc_used := (let u = rtw_sec_cam_map_set (cc_used c) i in
                   if ext_sec then rtw_sec_cam_map_set u (i + 1) else u)\<rparr>)))"

definition rtw_get_empty_cam_entry :: "cam_ctl \<Rightarrow> nat \<Rightarrow> nat option" where
  "rtw_get_empty_cam_entry c start_camid = find (\<lambda>i. \<not> rtw_sec_camid_is_used c i) [start_camid..<cc_num c]"

definition rtw_get_sec_camid :: "cam_ctl \<Rightarrow> nat \<Rightarrow> nat list" where
  "rtw_get_sec_camid c max_bk_key_num =
     (let ids = filter (rtw_sec_camid_is_used c) [0..<cc_num c]
      in if max_bk_key_num = 0 then ids else take max_bk_key_num ids)"

section \<open>Writing entries\<close>

text \<open>\<open>None\<close> is a write behind the end of the cache.\<close>

definition write_cam_cache :: "cam_ctl \<Rightarrow> nat \<Rightarrow> u16 \<Rightarrow> u8 list \<Rightarrow> u8 list \<Rightarrow> cam_ctl option" where
  "write_cam_cache c i ctrl mac key =
     (if i < SEC_CAM_ENT_NUM_SW_LIMIT
      then Some (c\<lparr>cc_cache := (cc_cache c)[i := \<lparr>ce_ctrl = ctrl, ce_mac = mac, ce_key = take 16 key\<rparr>]\<rparr>)
      else None)"

definition write_cam1 :: "cam_ctl \<Rightarrow> nat \<Rightarrow> u16 \<Rightarrow> u8 list \<Rightarrow> u8 list \<Rightarrow> cam_ctl option" where
  "write_cam1 c i ctrl mac key = write_cam_cache (c\<lparr>cc_hw := rtw_sec_write_cam_ent (cc_hw c) i ctrl mac key\<rparr>) i ctrl mac key"

definition write_cam :: "cam_ctl \<Rightarrow> nat \<Rightarrow> u16 \<Rightarrow> u8 list \<Rightarrow> u8 list \<Rightarrow> bool \<Rightarrow> cam_ctl option" where
  "write_cam c i ctrl mac key ext =
     (if ext then
        do { c1 \<leftarrow> write_cam1 c i ctrl mac key;
             write_cam1 c1 (i + 1) (ctrl OR push_bit 5 1) mac (drop 16 key) }
      else write_cam1 c i ctrl mac key)"

definition clear_cam_cache :: "cam_ctl \<Rightarrow> nat \<Rightarrow> cam_ctl option" where
  "clear_cam_cache c i =
     (if i < SEC_CAM_ENT_NUM_SW_LIMIT then Some (c\<lparr>cc_cache := (cc_cache c)[i := cam_zero]\<rparr>) else None)"

definition clear_cam_entry :: "cam_ctl \<Rightarrow> nat \<Rightarrow> cam_ctl option" where
  "clear_cam_entry c i =
     clear_cam_cache (c\<lparr>cc_hw := rtw_sec_write_cam_ent (cc_hw c) i 0 (replicate 6 0) (replicate 32 0)\<rparr>) i"

definition write_cam_from_cache :: "cam_ctl \<Rightarrow> nat \<Rightarrow> cam_ctl" where
  "write_cam_from_cache c i =
     (let e = cc_cache c ! i in c\<lparr>cc_hw := rtw_sec_write_cam_ent (cc_hw c) i (ce_ctrl e) (ce_mac e) (ce_key e)\<rparr>)"

section \<open>Removal\<close>

text \<open>
  The loop that removes the keys of an address, in the handlers and in \<^verbatim>\<open>rtw_clearstakey_cmd\<close>:
  \<open>None\<close> is a run that does not return, \<open>Some None\<close> an access outside of the cache.
\<close>

partial_function (option) clear_keys :: "cam_ctl \<Rightarrow> u8 list \<Rightarrow> int \<Rightarrow> cam_ctl option option" where
  "clear_keys c addr gk =
     (case rtw_camid_search c (Some addr) (-1) gk of
        None \<Rightarrow> Some (Some c)
      | Some i \<Rightarrow>
          (case clear_cam_entry c i of
             None \<Rightarrow> Some None
           | Some c1 \<Rightarrow> clear_keys (rtw_camid_free c1 i) addr gk))"

text \<open>\<^verbatim>\<open>rtw_clearstakey_cmd\<close> when the command is not queued.\<close>

definition rtw_clearstakey_cmd :: "cam_ctl \<Rightarrow> u8 list option \<Rightarrow> cam_ctl option option" where
  "rtw_clearstakey_cmd c sta = (case sta of None \<Rightarrow> Some (Some c) | Some addr \<Rightarrow> clear_keys c addr (-1))"

definition invalidate_cam_all :: "(cam_hw \<Rightarrow> cam_hw) \<Rightarrow> nat option \<Rightarrow> cam_ctl \<Rightarrow> cam_ctl" where
  "invalidate_cam_all hw_invalid_all bmc_id c =
     (let u = (case bmc_id of None \<Rightarrow> 0
        | Some i \<Rightarrow> let u = rtw_sec_cam_map_set 0 i in if rtw_camctl_chk_cap c 2 then rtw_sec_cam_map_set u (i + 1) else u)
      in c\<lparr>cc_hw := hw_invalid_all (cc_hw c), cc_used := u, cc_cache := replicate SEC_CAM_ENT_NUM_SW_LIMIT cam_zero\<rparr>)"

text \<open>\<^verbatim>\<open>rtw_sec_cam_swap\<close>, without the interfaces in access-point mode that it tells.\<close>

definition rtw_sec_cam_swap :: "cam_ctl \<Rightarrow> nat \<Rightarrow> nat \<Rightarrow> cam_ctl option" where
  "rtw_sec_cam_swap c a b =
     (if a = b then Some c
      else
        let a_used = rtw_sec_camid_is_used c a; b_used = rtw_sec_camid_is_used c b;
            ca = cc_cache c ! a; cb = cc_cache c ! b in
        do {
          c1 \<leftarrow> (if a_used then clear_cam_entry (rtw_camid_free c a) a else Some c);
          c2 \<leftarrow> (if b_used then clear_cam_entry (rtw_camid_free c1 b) b else Some c1);
          c3 \<leftarrow> (if a_used then map_option (\<lambda>d. rtw_camid_set d b) (write_cam1 c2 b (ce_ctrl ca) (ce_mac ca) (ce_key ca)) else Some c2);
          (if b_used then map_option (\<lambda>d. rtw_camid_set d a) (write_cam1 c3 a (ce_ctrl cb) (ce_mac cb) (ce_key cb)) else Some c3)
        })"

section \<open>The handlers of the key commands\<close>

datatype h2c_res = H2C_SUCCESS | H2C_SUCCESS_RSP | H2C_REJECTED

definition SEC_TYPE_256 :: u8 where
  "SEC_TYPE_256 = 0x10"

definition is_wep_enc :: "u8 \<Rightarrow> bool" where
  "is_wep_enc alg \<longleftrightarrow> alg = 1 \<or> alg = 5"

text \<open>\<^verbatim>\<open>amsdu_spp_enable\<close>; \<open>mode_spp\<close> is the module parameter \<^verbatim>\<open>amsdu_mode\<close>.\<close>

definition amsdu_spp_enable :: "bool \<Rightarrow> u8 \<Rightarrow> bool" where
  "amsdu_spp_enable mode_spp alg \<longleftrightarrow> mode_spp \<and> (alg = 4 \<or> alg = 0x14 \<or> alg = 7 \<or> alg = 0x17)"

definition key_ctrl :: "bool \<Rightarrow> u8 \<Rightarrow> u8 \<Rightarrow> bool \<Rightarrow> u16" where
  "key_ctrl mode_spp alg keyid gk =
     push_bit 15 1 OR push_bit 2 (ucast (alg AND 7)) OR ucast keyid OR (if gk then push_bit 6 1 else 0)
     OR (if alg AND SEC_TYPE_256 \<noteq> 0 then push_bit 9 1 else 0)
     OR (if amsdu_spp_enable mode_spp alg then push_bit 7 1 else 0)"

record set_stakey_parm =
  sk_addr :: "u8 list"
  sk_algorithm :: u8
  sk_keyid :: u8
  sk_key :: "u8 list"
  sk_gk :: bool

text \<open>
  \<^verbatim>\<open>set_stakey_hdl\<close>: \<open>stas\<close> tells whether the address is that of a station. The result: the
  answer, the table, and whether \<^verbatim>\<open>psta->keytrack\<close> is counted up.
\<close>

definition set_stakey_hdl ::
  "(u8 list \<Rightarrow> bool) \<Rightarrow> bool \<Rightarrow> cam_if \<Rightarrow> cam_ctl \<Rightarrow> set_stakey_parm \<Rightarrow> (h2c_res \<times> cam_ctl \<times> bool) option option" where
  "set_stakey_hdl stas mode_spp f c p =
     (let ext = sk_algorithm p AND SEC_TYPE_256 \<noteq> 0 in
      if sk_algorithm p = 0 then
        map_option (map_option (\<lambda>c1. (H2C_SUCCESS_RSP, c1, False))) (clear_keys c (sk_addr p) (-1))
      else if \<not> stas (sk_addr p) then Some (Some (H2C_REJECTED, c, False))
      else
        (case rtw_camid_alloc f c (Some (sk_addr p)) (uint (sk_keyid p)) (sk_gk p) ext of
           (None, _, c1) \<Rightarrow> Some (Some (H2C_SUCCESS, c1, False))
         | (Some i, used, c1) \<Rightarrow>
             map_option
               (\<lambda>r. do { c2 \<leftarrow> r;
                         c3 \<leftarrow> write_cam c2 i (key_ctrl mode_spp (sk_algorithm p) (sk_keyid p) (sk_gk p)) (sk_addr p) (sk_key p) ext;
                         Some (H2C_SUCCESS_RSP, c3, \<not> sk_gk p) })
               (if \<not> sk_gk p \<and> used \<and> rtw_camid_is_gk c1 i
                then clear_keys (rtw_camctl_set_flags c1 1) (sk_addr p) 1 else Some (Some c1))))"

record setkey_parm =
  sp_algorithm :: u8
  sp_keyid :: u8
  sp_set_tx :: bool
  sp_key :: "u8 list"

text \<open>
  \<^verbatim>\<open>setkey_hdl\<close>, the WEP key or the group key of a network. The interface keeps the index of the
  key to send with, and in ad-hoc state the entries of the WEP keys (\<open>ci_def_camid\<close>) and of the
  group key. The frames that wait for the key of a new network are not part of the table.
\<close>

definition setkey_hdl ::
  "(u8 list \<Rightarrow> bool) \<Rightarrow> bool \<Rightarrow> cam_if \<Rightarrow> cam_ctl \<Rightarrow> setkey_parm \<Rightarrow> (cam_if \<times> cam_ctl) option option" where
  "setkey_hdl stas mode_spp f c p =
     (let ext = sp_algorithm p AND SEC_TYPE_256 \<noteq> 0;
          f = (if sp_set_tx p then f\<lparr>ci_key_index := sp_keyid p\<rparr> else f);
          addr = (if ci_ap_adhoc f then ci_mac f else ci_bssid f);
          (cam_id, used, c) = (if ci_ap_adhoc f then (Some (ci_bmc_cam_id f), False, c)
            else rtw_camid_alloc f c None (uint (sp_keyid p)) True ext)
      in (case cam_id of
            None \<Rightarrow> Some (Some (f, c))
          | Some i \<Rightarrow>
              if used \<and> \<not> rtw_camid_is_gk c i then
                map_option (map_option (\<lambda>c1. (f, c1))) (clear_keys (rtw_camctl_set_flags c 1) addr 1)
              else
                (case write_cam c i (key_ctrl mode_spp (sp_algorithm p) (sp_keyid p) True) addr (sp_key p) ext of
                   None \<Rightarrow> Some None
                 | Some c1 \<Rightarrow>
                     let f = (if \<not> ci_ap_adhoc f then f
                       else if is_wep_enc (sp_algorithm p) then
                         let ids = (ci_def_camid f)[unat (sp_keyid p) := i]
                         in f\<lparr>ci_def_camid := ids, ci_bmc_cam_id := ids ! ci_key_idx f\<rparr>
                       else f\<lparr>ci_bmc_cam_id := i\<rparr>)
                     in if is_wep_enc (sp_algorithm p) \<and> ci_station f \<and> rtw_camctl_chk_cap c1 SEC_CAP_CHK_BMC then
                          map_option (map_option (\<lambda>(_, c2, _). (f, c2)))
                            (set_stakey_hdl stas mode_spp f c1
                              \<lparr>sk_addr = ci_bssid f, sk_algorithm = sp_algorithm p, sk_keyid = sp_keyid p,
                                sk_key = take 16 (sp_key p) @ replicate 16 0, sk_gk = False\<rparr>)
                        else Some (Some (f, c1)))))"

text \<open>
  \<^verbatim>\<open>rtw_ap_wep_pk_setting\<close>: a station of an access point with WEP gets the default key as its
  pairwise key. \<open>skey\<close> holds the default keys, \<open>key_mask\<close> those that are set.
\<close>

definition rtw_ap_wep_pk_setting ::
  "(u8 list \<Rightarrow> bool) \<Rightarrow> bool \<Rightarrow> cam_if \<Rightarrow> cam_ctl \<Rightarrow> u8 \<Rightarrow> u8 \<Rightarrow> u8 list list \<Rightarrow> u8 list \<Rightarrow> u8 list
   \<Rightarrow> cam_ctl option option" where
  "rtw_ap_wep_pk_setting stas mode_spp f c alg key_mask skey rest mac =
     (if \<not> is_wep_enc alg then Some (Some c)
      else fold (\<lambda>keyid r.
             if bit key_mask keyid \<and> keyid = ci_key_idx f then
               (case r of
                  Some (Some c1) \<Rightarrow>
                    map_option (map_option (\<lambda>(_, c2, _). c2))
                      (set_stakey_hdl stas mode_spp f c1
                        \<lparr>sk_addr = mac, sk_algorithm = alg, sk_keyid = of_nat keyid, sk_key = take 16 (skey ! keyid) @ rest, sk_gk = False\<rparr>)
                | r' \<Rightarrow> r')
             else r) [0..<4] (Some (Some c)))"

text \<open>
  \<^verbatim>\<open>rtw_sec_search_camid\<close>, with the ciphers of the pairwise key, the group key and of management
  frames. \<^verbatim>\<open>_rtw_memcmp\<close> is true of equal memory, so the loop stops at the first entry whose
  control word is another one.
\<close>

definition search_ctrl :: "u8 \<Rightarrow> u8 \<Rightarrow> u8 \<Rightarrow> nat \<Rightarrow> bool \<Rightarrow> u16 option" where
  "search_ctrl pk gk mg key_id is_gtk =
     (if key_id > 0 \<and> \<not> is_gtk then None
      else if key_id \<ge> 5 then None
      else
        let alg = (if key_id = 0 \<and> \<not> is_gtk then pk else if key_id < 4 then gk else mg);
            base = (of_nat key_id AND 3) OR push_bit 2 (ucast (alg AND 7)) OR push_bit 15 1 :: u16;
            g = (\<lambda>w. if is_gtk then w OR push_bit 6 1 else w)
        in if alg = 0x14 \<or> alg = 0x17 then Some (g (push_bit 9 1 OR base))
           else if alg = 4 \<or> alg = 7 then Some (g base)
           else if alg = 2 then Some (g (push_bit 2 2 OR push_bit 15 1))
           else if alg = 8 then Some (g (base OR push_bit 10 1))
           else None)"

definition rtw_sec_search_camid :: "u8 \<Rightarrow> u8 \<Rightarrow> u8 \<Rightarrow> cam_ctl \<Rightarrow> nat \<Rightarrow> bool \<Rightarrow> nat" where
  "rtw_sec_search_camid pk gk mg c key_id is_gtk =
     (case search_ctrl pk gk mg key_id is_gtk of
        None \<Rightarrow> cc_num c
      | Some ctrl \<Rightarrow>
          (case find (\<lambda>i. \<not> ucast (cc_hw c (of_nat (i * 8))) = ctrl) [0..<cc_num c] of
             None \<Rightarrow> cc_num c
           | Some i \<Rightarrow>
               if ctrl AND push_bit 9 1 \<noteq> 0 then
                 if i = cc_num c - 1 then cc_num c
                 else if ucast (cc_hw c (of_nat ((i + 1) * 8))) = ctrl OR push_bit 5 1 then cc_num c
                 else i
               else i))"

section \<open>The bitmap\<close>

lemma is_set_bit: "rtw_sec_camid_is_set bmp i \<longleftrightarrow> i < 32 \<and> bit bmp i"
  by (simp add: rtw_sec_camid_is_set_def push_bit_eq_mult and_pow2_bit)

lemma map_set_bit: "rtw_sec_camid_is_set (rtw_sec_cam_map_set bmp j) i \<longleftrightarrow> i < 32 \<and> (i = j \<or> bit bmp i)"
  by (auto simp: is_set_bit rtw_sec_cam_map_set_def bit_simps)

lemma map_clr_bit: "rtw_sec_camid_is_set (rtw_sec_cam_map_clr bmp j) i \<longleftrightarrow> i < 32 \<and> i \<noteq> j \<and> bit bmp i"
  by (auto simp: is_set_bit rtw_sec_cam_map_clr_def bit_simps)

lemma is_used_iff: "rtw_sec_camid_is_used c i \<longleftrightarrow> i < cc_num c \<and> i < 32 \<and> bit (cc_used c) i"
  by (auto simp: rtw_sec_camid_is_used_def is_set_bit)

section \<open>The control word\<close>

lemma small_keyid: "keyid < 4 \<Longrightarrow> bit (keyid :: u8) n \<Longrightarrow> n < 2"
  by (rule bit_of_small [of keyid 2]) (simp_all add: word_less_nat_alt)

lemma key_ctrl_gk: "keyid < 4 \<Longrightarrow> bit (key_ctrl s alg keyid gk) 6 \<longleftrightarrow> gk"
  using small_keyid [of keyid 6] by (auto simp: key_ctrl_def bit_simps)

lemma key_ctrl_kid:
  assumes "keyid < 4"
  shows "uint (key_ctrl s alg keyid gk AND 3) = uint keyid"
proof -
  have "key_ctrl s alg keyid gk AND 3 = ucast keyid"
  proof (rule bit_word_eqI)
    fix n assume "n < LENGTH(16)"
    have m: "(3 :: u16) = mask 2" by (simp add: mask_eq_exp_minus_1)
    have three: "bit (3 :: u16) n \<longleftrightarrow> n < 2" unfolding m by (auto simp: bit_mask_iff)
    show "bit (key_ctrl s alg keyid gk AND 3) n = bit (ucast keyid :: u16) n"
    proof (cases "n < 2")
      case False
      then have "\<not> bit (3 :: u16) n" "\<not> bit keyid n" using three small_keyid [OF assms, of n] by blast+
      then show ?thesis by (simp add: bit_and_iff bit_ucast_iff)
    next
      case True
      then have "n = 0 \<or> n = 1" by auto
      then show ?thesis by (auto simp: key_ctrl_def bit_simps three)
    qed
  qed
  then show ?thesis by (simp add: unsigned_ucast_eq take_bit_word_eq_self)
qed

section \<open>Writes to the hardware\<close>

lemma cam_addr_inj:
  assumes "i < 32" "k < 32" "j < 8" "l < 8"
  shows "cam_addr i j = cam_addr k l \<longleftrightarrow> i = k \<and> j = l"
proof
  assume "cam_addr i j = cam_addr k l"
  then have "unat (cam_addr i j) = unat (cam_addr k l)" by simp
  moreover have "unat (cam_addr i j) = i * 8 + j" "unat (cam_addr k l) = k * 8 + l"
    unfolding cam_addr_def unat_of_nat using assms by (simp_all add: take_bit_eq_mod)
  moreover have "(i * 8 + j) div 8 = i" "(i * 8 + j) mod 8 = j" "(k * 8 + l) div 8 = k" "(k * 8 + l) mod 8 = l"
    using assms by simp_all
  ultimately show "i = k \<and> j = l" by metis
qed simp

lemma write_ent_same:
  assumes "i < 32" "j < 8"
  shows "rtw_sec_write_cam_ent hw i ctrl mac key (cam_addr i j) = cam_word ctrl mac key j"
proof -
  have "j \<in> {0, 1, 2, 3, 4, 5, 6, 7}" using assms(2) by auto
  then show ?thesis
    using assms(1) by (auto simp: rtw_sec_write_cam_ent_def cam_addr_inj)
qed

lemma write_ent_other:
  assumes "i < 32" "k < 32" "i \<noteq> k" "j < 8"
  shows "rtw_sec_write_cam_ent hw i ctrl mac key (cam_addr k j) = hw (cam_addr k j)"
  using assms by (simp add: rtw_sec_write_cam_ent_def cam_addr_inj)

lemma cam_word_16: "16 \<le> length key \<Longrightarrow> j < 8 \<Longrightarrow> cam_word ctrl mac (take 16 key) j = cam_word ctrl mac key j"
  by (auto simp: cam_word_def Let_def)

lemma word_bytes_four:
  fixes a b c d :: u8
  shows "word_bytes (ucast a OR push_bit 8 (ucast b) OR push_bit 16 (ucast c) OR push_bit 24 (ucast d)) = [a, b, c, d]"
proof -
  define w :: u32 where "w = ucast a OR push_bit 8 (ucast b) OR push_bit 16 (ucast c) OR push_bit 24 (ucast d)"
  have "ucast w = a" "ucast (drop_bit 8 w) = b" "ucast (drop_bit 16 w) = c" "ucast (drop_bit 24 w) = d"
    by (rule bit_word_eqI, auto simp: w_def bit_simps dest: bit_imp_le_length)+
  then show ?thesis by (simp add: word_bytes_def w_def)
qed

text \<open>What was written to an entry is read back.\<close>

lemma read_write_cam_ent:
  assumes "i < 32" "length mac = 6" "length key = 16"
  shows "rtw_sec_read_cam_ent (rtw_sec_write_cam_ent hw i ctrl mac key) i = (ctrl, mac, key)"
proof -
  obtain a b c d e f where mac: "mac = [a, b, c, d, e, f]"
    using assms(2) by (auto simp: eval_nat_numeral length_Suc_conv)
  define w0 :: u32 where "w0 = ucast ctrl OR push_bit 16 (ucast a) OR push_bit 24 (ucast b)"
  have w0: "ucast w0 = ctrl" "ucast (drop_bit 16 w0) = a" "ucast (drop_bit 24 w0) = b"
    by (rule bit_word_eqI, auto simp: w0_def bit_simps dest: bit_imp_le_length)+
  have key: "[key ! 0, key ! 1, key ! 2, key ! 3] @ [key ! 4, key ! 5, key ! 6, key ! 7]
      @ [key ! 8, key ! 9, key ! 10, key ! 11] @ [key ! 12, key ! 13, key ! 14, key ! 15] = key"
    using assms(3) by (auto simp: eval_nat_numeral length_Suc_conv)
  let ?hw = "rtw_sec_write_cam_ent hw i ctrl mac key"
  have r: "?hw (cam_addr i 0) = w0" "?hw (cam_addr i 1) = cam_word ctrl mac key 1" "?hw (cam_addr i 2) = cam_word ctrl mac key 2"
    "?hw (cam_addr i 3) = cam_word ctrl mac key 3" "?hw (cam_addr i 4) = cam_word ctrl mac key 4" "?hw (cam_addr i 5) = cam_word ctrl mac key 5"
    using assms(1) by (simp_all add: write_ent_same cam_word_def mac w0_def)
  have w: "word_bytes (cam_word ctrl mac key 1) = [c, d, e, f]"
    "word_bytes (cam_word ctrl mac key 2) = [key ! 0, key ! 1, key ! 2, key ! 3]"
    "word_bytes (cam_word ctrl mac key 3) = [key ! 4, key ! 5, key ! 6, key ! 7]"
    "word_bytes (cam_word ctrl mac key 4) = [key ! 8, key ! 9, key ! 10, key ! 11]"
    "word_bytes (cam_word ctrl mac key 5) = [key ! 12, key ! 13, key ! 14, key ! 15]"
    unfolding cam_word_def Let_def mac by (simp_all add: word_bytes_four numeral_2_eq_2)
  have "drop 2 (word_bytes w0) = [a, b]" by (simp add: word_bytes_def w0)
  then show ?thesis
    unfolding rtw_sec_read_cam_ent_def list.map concat.simps append_Nil2 r w w0 key by (simp add: mac)
qed

section \<open>The cache mirrors the hardware\<close>

definition ent_ok :: "sec_cam_ent \<Rightarrow> bool" where
  "ent_ok e \<longleftrightarrow> length (ce_mac e) = 6 \<and> length (ce_key e) = 16"

text \<open>
  The invariant: entries that are not in use are empty in the cache, and the hardware holds
  what the cache says of the others.
\<close>

definition cam_ok :: "cam_ctl \<Rightarrow> bool" where
  "cam_ok c \<longleftrightarrow> cc_num c \<le> 32 \<and> length (cc_cache c) = 32 \<and> (\<forall>i < 32. ent_ok (cc_cache c ! i))
     \<and> (\<forall>i < cc_num c. \<not> rtw_sec_camid_is_used c i \<longrightarrow> cc_cache c ! i = cam_zero)
     \<and> (\<forall>i < cc_num c. rtw_sec_camid_is_used c i \<longrightarrow>
          rtw_sec_read_cam_ent (cc_hw c) i = (ce_ctrl (cc_cache c ! i), ce_mac (cc_cache c ! i), ce_key (cc_cache c ! i)))"

lemma read_write_other:
  assumes "i < 32" "k < 32" "i \<noteq> k"
  shows "rtw_sec_read_cam_ent (rtw_sec_write_cam_ent hw i ctrl mac key) k = rtw_sec_read_cam_ent hw k"
  using assms by (simp add: rtw_sec_read_cam_ent_def write_ent_other)

lemma write_ent_16: "16 \<le> length key \<Longrightarrow> rtw_sec_write_cam_ent hw i ctrl mac (take 16 key) = rtw_sec_write_cam_ent hw i ctrl mac key"
  unfolding rtw_sec_write_cam_ent_def
  by (rule foldl_cong) (auto simp: cam_word_16)

text \<open>An entry written and marked, and an entry cleared and freed.\<close>

definition put_ent :: "cam_ctl \<Rightarrow> nat \<Rightarrow> u16 \<Rightarrow> u8 list \<Rightarrow> u8 list \<Rightarrow> cam_ctl" where
  "put_ent c i ctrl mac key = c\<lparr>cc_used := rtw_sec_cam_map_set (cc_used c) i,
     cc_cache := (cc_cache c)[i := \<lparr>ce_ctrl = ctrl, ce_mac = mac, ce_key = take 16 key\<rparr>],
     cc_hw := rtw_sec_write_cam_ent (cc_hw c) i ctrl mac key\<rparr>"

definition drop_ent :: "cam_ctl \<Rightarrow> nat \<Rightarrow> cam_ctl" where
  "drop_ent c i = c\<lparr>cc_used := rtw_sec_cam_map_clr (cc_used c) i, cc_cache := (cc_cache c)[i := cam_zero],
     cc_hw := rtw_sec_write_cam_ent (cc_hw c) i 0 (replicate 6 0) (replicate 32 0)\<rparr>"

lemma used_put:
  "rtw_sec_camid_is_used (put_ent c i ctrl mac key) j \<longleftrightarrow> j < cc_num c \<and> j < 32 \<and> (j = i \<or> rtw_sec_camid_is_used c j)"
  by (simp add: rtw_sec_camid_is_used_def put_ent_def map_set_bit) (auto simp: is_set_bit)

lemma used_drop: "rtw_sec_camid_is_used (drop_ent c i) j \<longleftrightarrow> j \<noteq> i \<and> rtw_sec_camid_is_used c j"
  by (simp add: rtw_sec_camid_is_used_def drop_ent_def map_clr_bit) (auto simp: is_set_bit)

lemma cam_ok_put:
  assumes "cam_ok c" "i < cc_num c" "length mac = 6" "16 \<le> length key"
  shows "cam_ok (put_ent c i ctrl mac key)"
proof -
  let ?c = "put_ent c i ctrl mac key"
  have i: "i < 32" and num: "cc_num ?c = cc_num c" and cache: "cc_cache ?c = (cc_cache c)[i := \<lparr>ce_ctrl = ctrl, ce_mac = mac, ce_key = take 16 key\<rparr>]"
    using assms(1,2) by (auto simp: cam_ok_def put_ent_def)
  have read: "rtw_sec_read_cam_ent (cc_hw ?c) i = (ctrl, mac, take 16 key)"
    using read_write_cam_ent [OF i assms(3), of "take 16 key" "cc_hw c" ctrl] assms(4)
    by (simp add: put_ent_def write_ent_16)
  have other: "rtw_sec_read_cam_ent (cc_hw ?c) k = rtw_sec_read_cam_ent (cc_hw c) k" if "k < 32" "k \<noteq> i" for k
    using read_write_other [OF i that(1)] that(2) by (simp add: put_ent_def)
  show ?thesis
    using assms i read other
    by (auto simp: cam_ok_def num cache used_put nth_list_update ent_ok_def)
qed

lemma cam_ok_drop:
  assumes "cam_ok c" "i < cc_num c"
  shows "cam_ok (drop_ent c i)"
proof -
  let ?c = "drop_ent c i"
  have i: "i < 32" and num: "cc_num ?c = cc_num c" and cache: "cc_cache ?c = (cc_cache c)[i := cam_zero]"
    using assms by (auto simp: cam_ok_def drop_ent_def)
  have other: "rtw_sec_read_cam_ent (cc_hw ?c) k = rtw_sec_read_cam_ent (cc_hw c) k" if "k < 32" "k \<noteq> i" for k
    using read_write_other [OF i that(1)] that(2) by (simp add: drop_ent_def)
  show ?thesis
    using assms i other
    by (auto simp: cam_ok_def num cache used_drop nth_list_update ent_ok_def cam_zero_def)
qed

lemma clear_and_free: "i < cc_num c \<Longrightarrow> i < 32 \<Longrightarrow> map_option (\<lambda>d. rtw_camid_free d i) (clear_cam_entry c i) = Some (drop_ent c i)"
  by (simp add: clear_cam_entry_def clear_cam_cache_def rtw_camid_free_def drop_ent_def SEC_CAM_ENT_NUM_SW_LIMIT_def)

section \<open>Keys as a map\<close>

lemma gk_iff: "rtw_camid_is_gk c i \<longleftrightarrow> rtw_sec_camid_is_used c i \<and> bit (ce_ctrl (cc_cache c ! i)) 6"
  using and_pow2_bit [of "ce_ctrl (cc_cache c ! i)" 6] by (auto simp: rtw_camid_is_gk_def is_used_iff)

lemma chk_iff:
  "0 \<le> k \<Longrightarrow> cam_cache_chk c i (Some a) k (of_bool g) \<longleftrightarrow>
    ce_mac (cc_cache c ! i) = a \<and> uint (ce_ctrl (cc_cache c ! i) AND 3) = k
    \<and> g = (rtw_sec_camid_is_used c i \<and> bit (ce_ctrl (cc_cache c ! i)) 6)"
  by (auto simp: cam_cache_chk_def gk_iff)

text \<open>The key of an address, a key identifier and a kind, pairwise or group.\<close>

definition cam_lookup :: "cam_ctl \<Rightarrow> u8 list \<Rightarrow> int \<Rightarrow> bool \<Rightarrow> u8 list option" where
  "cam_lookup c a k g = map_option (\<lambda>i. ce_key (cc_cache c ! i)) (rtw_camid_search c (Some a) k (of_bool g))"

lemma find_upt_first: "i < n \<Longrightarrow> P i \<Longrightarrow> \<forall>j < i. \<not> P j \<Longrightarrow> find P [0..<n] = Some i"
  by (subst find_Some_iff) auto

lemma find_upt_SomeD: "find P [0..<n] = Some i \<Longrightarrow> i < n \<and> P i \<and> (\<forall>j < i. \<not> P j)"
  by (auto simp: find_Some_iff)

lemma find_upt_NoneD: "find P [0..<n] = None \<Longrightarrow> i < n \<Longrightarrow> \<not> P i"
  by (auto simp: find_None_iff)

definition no_addr :: "u8 list" where
  "no_addr = replicate 6 0"

lemma chk_put_other:
  "cam_ok c \<Longrightarrow> j < cc_num c \<Longrightarrow> j \<noteq> i \<Longrightarrow> 0 \<le> k
    \<Longrightarrow> cam_cache_chk (put_ent c i ctrl mac key) j (Some a) k (of_bool g) = cam_cache_chk c j (Some a) k (of_bool g)"
  by (auto simp: chk_iff used_put cam_ok_def) (simp_all add: put_ent_def)

lemma chk_put_same:
  "cam_ok c \<Longrightarrow> i < cc_num c \<Longrightarrow> 0 \<le> k
    \<Longrightarrow> cam_cache_chk (put_ent c i ctrl mac key) i (Some a) k (of_bool g) \<longleftrightarrow> mac = a \<and> uint (ctrl AND 3) = k \<and> g = bit ctrl 6"
  by (simp add: chk_iff used_put cam_ok_def) (simp add: put_ent_def)

lemma chk_unused:
  "cam_ok c \<Longrightarrow> i < cc_num c \<Longrightarrow> \<not> rtw_sec_camid_is_used c i \<Longrightarrow> a \<noteq> no_addr \<Longrightarrow> \<not> cam_cache_chk c i (Some a) k g"
  by (simp add: cam_cache_chk_def cam_ok_def cam_zero_def no_addr_def)

lemma search_cong:
  "cc_num c = cc_num d \<Longrightarrow> (\<And>j. j < cc_num d \<Longrightarrow> cam_cache_chk c j a k g = cam_cache_chk d j a k g)
    \<Longrightarrow> rtw_camid_search c a k g = rtw_camid_search d a k g"
  unfolding rtw_camid_search_def by (rule find_cong) auto

lemma search_SomeD:
  "rtw_camid_search c a k g = Some i \<Longrightarrow> i < cc_num c \<and> cam_cache_chk c i a k g \<and> (\<forall>j < i. \<not> cam_cache_chk c j a k g)"
  unfolding rtw_camid_search_def by (rule find_upt_SomeD)

lemma search_SomeI:
  "i < cc_num c \<Longrightarrow> cam_cache_chk c i a k g \<Longrightarrow> \<forall>j < i. \<not> cam_cache_chk c j a k g \<Longrightarrow> rtw_camid_search c a k g = Some i"
  unfolding rtw_camid_search_def by (rule find_upt_first)

text \<open>
  An entry that is written answers for its own address, key identifier and kind, if no
  earlier entry does, and for nothing else that was there.
\<close>

lemma lookup_put_other:
  assumes c: "cam_ok c" "i < cc_num c" and id: "uint (ctrl AND 3) = kid" "bit ctrl 6 = gk"
    and other: "(a, k, g) \<noteq> (mac, kid, gk)" and free: "\<not> cam_cache_chk c i (Some a) k (of_bool g)"
    and k: "0 \<le> k"
  shows "cam_lookup (put_ent c i ctrl mac key) a k g = cam_lookup c a k g"
proof -
  have same: "cam_cache_chk (put_ent c i ctrl mac key) j (Some a) k (of_bool g) = cam_cache_chk c j (Some a) k (of_bool g)"
    if "j < cc_num c" for j
  proof (cases "j = i")
    case True
    then show ?thesis using c k id other free by (auto simp: chk_put_same)
  qed (use c k that in \<open>simp add: chk_put_other\<close>)
  have s: "rtw_camid_search (put_ent c i ctrl mac key) (Some a) k (of_bool g) = rtw_camid_search c (Some a) k (of_bool g)"
    by (rule search_cong) (use same in \<open>simp_all add: put_ent_def\<close>)
  show ?thesis
  proof (cases "rtw_camid_search c (Some a) k (of_bool g)")
    case (Some l)
    then have "l \<noteq> i" using free search_SomeD [OF Some] by auto
    then show ?thesis using s Some by (simp add: cam_lookup_def) (simp add: put_ent_def)
  qed (use s in \<open>simp add: cam_lookup_def\<close>)
qed

lemma lookup_put_same:
  assumes c: "cam_ok c" "i < cc_num c" and id: "uint (ctrl AND 3) = k" "bit ctrl 6 = g" and k: "0 \<le> k"
    and first: "\<forall>j < i. \<not> cam_cache_chk c j (Some mac) k (of_bool g)"
  shows "cam_lookup (put_ent c i ctrl mac key) mac k g = Some (take 16 key)"
proof -
  have "rtw_camid_search (put_ent c i ctrl mac key) (Some mac) k (of_bool g) = Some i"
  proof (rule search_SomeI)
    show "i < cc_num (put_ent c i ctrl mac key)" using c by (simp add: put_ent_def)
    show "cam_cache_chk (put_ent c i ctrl mac key) i (Some mac) k (of_bool g)"
      using c k id by (simp add: chk_put_same)
    show "\<forall>j < i. \<not> cam_cache_chk (put_ent c i ctrl mac key) j (Some mac) k (of_bool g)"
      using c k first by (auto simp: chk_put_other)
  qed
  moreover have "i < length (cc_cache c)" using c by (simp add: cam_ok_def)
  ultimately show ?thesis by (simp add: cam_lookup_def) (simp add: put_ent_def)
qed

lemma lookup_put_shadowed:
  assumes c: "cam_ok c" "i < cc_num c" and k: "0 \<le> k"
    and first: "j < i" "cam_cache_chk c j (Some a) k (of_bool g)"
  shows "cam_lookup (put_ent c i ctrl mac key) a k g = cam_lookup c a k g"
proof -
  have "rtw_camid_search c (Some a) k (of_bool g) \<noteq> None"
    using first c find_upt_NoneD [where i = j] unfolding rtw_camid_search_def by fastforce
  then obtain l where l: "rtw_camid_search c (Some a) k (of_bool g) = Some l" by blast
  note sl = search_SomeD [OF l]
  then have "l \<le> j" using first(2) by (meson linorder_not_le)
  then have "l < i" using first(1) by simp
  have "rtw_camid_search (put_ent c i ctrl mac key) (Some a) k (of_bool g) = Some l"
  proof (rule search_SomeI)
    show "l < cc_num (put_ent c i ctrl mac key)" using sl by (simp add: put_ent_def)
    show "cam_cache_chk (put_ent c i ctrl mac key) l (Some a) k (of_bool g)"
      using sl c k \<open>l < i\<close> by (simp add: chk_put_other)
    show "\<forall>j < l. \<not> cam_cache_chk (put_ent c i ctrl mac key) j (Some a) k (of_bool g)"
      using sl c k \<open>l < i\<close> by (auto simp: chk_put_other)
  qed
  then show ?thesis using l \<open>l < i\<close> by (simp add: cam_lookup_def) (simp add: put_ent_def)
qed

section \<open>Setting a key\<close>

lemma write_marked:
  assumes "i < 32" "ext \<Longrightarrow> i + 1 < 32"
  shows "write_cam (c\<lparr>cc_used := (let u = rtw_sec_cam_map_set (cc_used c) i in if ext then rtw_sec_cam_map_set u (i + 1) else u)\<rparr>)
      i ctrl mac key ext
    = Some (if ext then put_ent (put_ent c i ctrl mac key) (i + 1) (ctrl OR push_bit 5 1) mac (drop 16 key) else put_ent c i ctrl mac key)"
  using assms by (simp add: write_cam_def write_cam1_def write_cam_cache_def put_ent_def SEC_CAM_ENT_NUM_SW_LIMIT_def Let_def)

lemma ctrl_mic:
  "uint ((ctrl OR push_bit 5 1 :: u16) AND 3) = uint (ctrl AND 3)" "bit (ctrl OR push_bit 5 1 :: u16) 6 = bit ctrl 6"
proof -
  have "(push_bit 5 1 :: u16) AND 3 = 0" by simp
  then have "(ctrl OR push_bit 5 1) AND 3 = ctrl AND 3" by (simp only: bit.conj_disj_distrib2 or.right_neutral)
  then show "uint ((ctrl OR push_bit 5 1 :: u16) AND 3) = uint (ctrl AND 3)" by simp
  show "bit (ctrl OR push_bit 5 1 :: u16) 6 = bit ctrl 6" by (simp add: bit_or_iff)
qed

text \<open>Where a key goes: to the entry that answers for it, or to a free one, or two for a long key.\<close>

lemma get_camid_cases:
  assumes "rtw_camctl_chk_cap c SEC_CAP_CHK_BMC"
  shows "rtw_get_camid c a k g ext = (case rtw_camid_search c (Some a) k (of_bool g) of Some i \<Rightarrow> Some i
    | None \<Rightarrow> find (\<lambda>i. \<not> rtw_sec_camid_is_used c i \<and> (ext \<longrightarrow> i + 1 < cc_num c \<and> \<not> rtw_sec_camid_is_used c (i + 1))) [0..<cc_num c])"
  using assms by (simp add: rtw_get_camid_def)

definition key_stored :: "cam_ctl \<Rightarrow> cam_ctl \<Rightarrow> u8 list \<Rightarrow> int \<Rightarrow> bool \<Rightarrow> u8 list \<Rightarrow> bool" where
  "key_stored c d mac kid gk key \<longleftrightarrow> (\<forall>a k g. a \<noteq> no_addr \<longrightarrow> 0 \<le> k \<longrightarrow>
     cam_lookup d a k g = (if (a, k, g) = (mac, kid, gk) then Some (take 16 key) else cam_lookup c a k g))"

lemma put_stored:
  assumes c: "cam_ok c" and id: "uint (ctrl AND 3) = kid" "bit ctrl 6 = gk" "0 \<le> kid"
    and i: "rtw_camid_search c (Some mac) kid (of_bool gk) = Some i
      \<or> rtw_camid_search c (Some mac) kid (of_bool gk) = None \<and> i < cc_num c \<and> \<not> rtw_sec_camid_is_used c i"
  shows "i < cc_num c \<and> key_stored c (put_ent c i ctrl mac key) mac kid gk key"
proof -
  have i_num: "i < cc_num c" using i search_SomeD by blast
  have first: "\<forall>j < i. \<not> cam_cache_chk c j (Some mac) kid (of_bool gk)"
    using i
  proof
    assume "rtw_camid_search c (Some mac) kid (of_bool gk) = Some i"
    then show ?thesis using search_SomeD by blast
  next
    assume "rtw_camid_search c (Some mac) kid (of_bool gk) = None \<and> i < cc_num c \<and> \<not> rtw_sec_camid_is_used c i"
    then have none: "find (\<lambda>j. cam_cache_chk c j (Some mac) kid (of_bool gk)) [0..<cc_num c] = None"
      by (simp add: rtw_camid_search_def)
    show ?thesis
    proof (intro allI impI)
      fix j assume "j < i"
      then have "j < cc_num c" using i_num by simp
      with none show "\<not> cam_cache_chk c j (Some mac) kid (of_bool gk)" by (rule find_upt_NoneD)
    qed
  qed
  have free: "\<not> cam_cache_chk c i (Some a) k (of_bool g)" if "(a, k, g) \<noteq> (mac, kid, gk)" "a \<noteq> no_addr" "0 \<le> k" for a k g
  proof (cases "rtw_camid_search c (Some mac) kid (of_bool gk)")
    case None
    then show ?thesis using i chk_unused [OF c] that(2) by simp
  next
    case (Some l)
    then have "cam_cache_chk c i (Some mac) kid (of_bool gk)" using i search_SomeD by fastforce
    then show ?thesis using that id(3) by (auto simp: chk_iff)
  qed
  show ?thesis
    using i_num lookup_put_same [OF c i_num id first] lookup_put_other [OF c i_num id(1,2) _ free]
    unfolding key_stored_def by auto
qed

lemma put2_stored:
  assumes c: "cam_ok c" and id: "uint (ctrl AND 3) = kid" "bit ctrl 6 = gk" "0 \<le> kid"
    and i: "rtw_camid_search c (Some mac) kid (of_bool gk) = None" "i + 1 < cc_num c"
      "\<not> rtw_sec_camid_is_used c i" "\<not> rtw_sec_camid_is_used c (i + 1)"
    and sz: "length mac = 6" "length key = 32"
  defines "d \<equiv> put_ent (put_ent c i ctrl mac key) (i + 1) (ctrl OR push_bit 5 1) mac (drop 16 key)"
  shows "cam_ok d \<and> key_stored c d mac kid gk key"
proof -
  let ?c = "put_ent c i ctrl mac key"
  have i_num: "i < cc_num c" using i(2) by simp
  have num: "cc_num ?c = cc_num c" by (simp add: put_ent_def)
  have ok: "cam_ok ?c" by (rule cam_ok_put [OF c i_num sz(1)]) (simp add: sz)
  have stored: "key_stored c ?c mac kid gk key"
    using put_stored [OF c id, of mac i key] i i_num by blast
  have mic: "uint ((ctrl OR push_bit 5 1) AND 3) = kid" "bit (ctrl OR push_bit 5 1) 6 = gk"
    using id ctrl_mic [of ctrl] by blast+
  have ok_d: "cam_ok d" unfolding d_def by (rule cam_ok_put [OF ok]) (use num i(2) sz in simp_all)
  have mine: "cam_cache_chk ?c i (Some mac) kid (of_bool gk)"
    using chk_put_same [OF c i_num id(3)] id by simp
  have "cam_lookup d a k g = cam_lookup ?c a k g" if a: "a \<noteq> no_addr" "0 \<le> k" for a k g
  proof (cases "(a, k, g) = (mac, kid, gk)")
    case True
    then show ?thesis
      unfolding d_def using lookup_put_shadowed [OF ok _ a(2), of "i + 1" i a g] mine i(2) num by simp
  next
    case False
    have "\<not> cam_cache_chk ?c (i + 1) (Some a) k (of_bool g)"
      using chk_put_other [OF c i(2) _ a(2)] chk_unused [OF c i(2,4) a(1)] by simp
    then show ?thesis
      unfolding d_def by (intro lookup_put_other [OF ok _ mic]) (use False a num i(2) in simp_all)
  qed
  then show ?thesis using ok_d stored by (simp add: key_stored_def)
qed

lemma lookup_None: "cam_lookup c a k g = None \<longleftrightarrow> rtw_camid_search c (Some a) k (of_bool g) = None"
  by (simp add: cam_lookup_def)


section \<open>Removing keys\<close>

lemma chk_drop_other:
  assumes "j \<noteq> i"
  shows "cam_cache_chk (drop_ent c i) j a k g = cam_cache_chk c j a k g"
proof -
  have cache: "cc_cache (drop_ent c i) ! j = cc_cache c ! j" using assms by (simp add: drop_ent_def)
  have gk: "rtw_camid_is_gk (drop_ent c i) j = rtw_camid_is_gk c j" using assms by (simp add: gk_iff used_drop cache)
  show ?thesis unfolding cam_cache_chk_def cache gk by (rule refl)
qed

lemma chk_drop_same:
  "i < length (cc_cache c) \<Longrightarrow> a \<noteq> no_addr \<Longrightarrow> \<not> cam_cache_chk (drop_ent c i) i (Some a) k g"
  by (simp add: cam_cache_chk_def drop_ent_def cam_zero_def no_addr_def)

text \<open>How many entries answer for an address.\<close>

definition answering :: "cam_ctl \<Rightarrow> u8 list \<Rightarrow> nat set" where
  "answering c a = {i. i < cc_num c \<and> cam_cache_chk c i (Some a) (-1) (-1)}"

lemma answering_finite [simp]: "finite (answering c a)"
  by (simp add: answering_def)

lemma answering_drop:
  "cam_ok c \<Longrightarrow> i < cc_num c \<Longrightarrow> a \<noteq> no_addr \<Longrightarrow> answering (drop_ent c i) a = answering c a - {i}"
proof -
  assume "cam_ok c" "i < cc_num c" "a \<noteq> no_addr"
  then have "\<not> cam_cache_chk (drop_ent c i) i (Some a) (-1) (-1)"
    by (intro chk_drop_same) (auto simp: cam_ok_def)
  moreover have "cc_num (drop_ent c i) = cc_num c" by (simp add: drop_ent_def)
  ultimately show ?thesis
    by (auto simp: answering_def) (metis chk_drop_other)+
qed

lemma lookup_drop:
  assumes c: "cam_ok c" "i < cc_num c" "ce_mac (cc_cache c ! i) = a" and b: "b \<noteq> a" "b \<noteq> no_addr" "0 \<le> k"
  shows "cam_lookup (drop_ent c i) b k g = cam_lookup c b k g"
proof -
  have i: "i < length (cc_cache c)" using c by (simp add: cam_ok_def)
  have no: "\<not> cam_cache_chk c i (Some b) k (of_bool g)" using c(3) b by (auto simp: chk_iff)
  have s: "rtw_camid_search (drop_ent c i) (Some b) k (of_bool g) = rtw_camid_search c (Some b) k (of_bool g)"
  proof (rule search_cong)
    fix j assume "j < cc_num c"
    show "cam_cache_chk (drop_ent c i) j (Some b) k (of_bool g) = cam_cache_chk c j (Some b) k (of_bool g)"
      using no chk_drop_same [OF i b(2)] by (cases "j = i") (simp_all add: chk_drop_other)
  qed (simp add: drop_ent_def)
  show ?thesis
  proof (cases "rtw_camid_search c (Some b) k (of_bool g)")
    case (Some l)
    then have "l \<noteq> i" using no search_SomeD [OF Some] by auto
    then show ?thesis using s Some by (simp add: cam_lookup_def) (simp add: drop_ent_def)
  qed (use s in \<open>simp add: cam_lookup_def\<close>)
qed

lemma clear_keys_step:
  assumes "cam_ok c" "rtw_camid_search c (Some a) (-1) (-1) = Some i"
  shows "clear_keys c a (-1) = clear_keys (drop_ent c i) a (-1)"
proof -
  have i: "i < cc_num c" "i < 32" using search_SomeD [OF assms(2)] assms(1) by (auto simp: cam_ok_def)
  obtain d where "clear_cam_entry c i = Some d" "rtw_camid_free d i = drop_ent c i"
    using clear_and_free [OF i] by auto
  then show ?thesis by (subst clear_keys.simps) (simp add: assms(2))
qed

lemma clear_keys_removes:
  assumes "cam_ok c" "a \<noteq> no_addr"
  shows "\<exists>d. clear_keys c a (-1) = Some (Some d) \<and> cam_ok d
    \<and> (\<forall>b k g. b \<noteq> no_addr \<longrightarrow> 0 \<le> k \<longrightarrow> cam_lookup d b k g = (if b = a then None else cam_lookup c b k g))"
  using assms(1)
proof (induction "card (answering c a)" arbitrary: c rule: less_induct)
  case less
  show ?case
  proof (cases "rtw_camid_search c (Some a) (-1) (-1)")
    case None
    then have "find (\<lambda>i. cam_cache_chk c i (Some a) (-1) (-1)) [0..<cc_num c] = None" by (simp add: rtw_camid_search_def)
    then have "\<forall>i < cc_num c. ce_mac (cc_cache c ! i) \<noteq> a"
      by (auto simp: find_None_iff cam_cache_chk_def)
    then have "rtw_camid_search c (Some a) k (of_bool g) = None" for k g
      unfolding rtw_camid_search_def find_None_iff by (auto simp: cam_cache_chk_def)
    moreover have "clear_keys c a (-1) = Some (Some c)" using None by (simp add: clear_keys.simps)
    ultimately show ?thesis using less.prems by (auto simp: cam_lookup_def simp del: of_bool_eq_0_iff)
  next
    case (Some i)
    note i = search_SomeD [OF Some]
    then have mac: "ce_mac (cc_cache c ! i) = a" by (auto simp: cam_cache_chk_def split: if_splits)
    have ok: "cam_ok (drop_ent c i)" by (rule cam_ok_drop [OF less.prems]) (use i in simp)
    have "i \<in> answering c a" using i by (simp add: answering_def)
    then have "card (answering (drop_ent c i) a) < card (answering c a)"
      using answering_drop [OF less.prems, of i a] i assms(2) card_Diff1_less [OF answering_finite] by metis
    from less.hyps [OF this ok] obtain d where d: "clear_keys (drop_ent c i) a (-1) = Some (Some d)" "cam_ok d"
      "\<forall>b k g. b \<noteq> no_addr \<longrightarrow> 0 \<le> k \<longrightarrow> cam_lookup d b k g = (if b = a then None else cam_lookup (drop_ent c i) b k g)"
      by auto
    then show ?thesis
      using clear_keys_step [OF less.prems Some] lookup_drop [OF less.prems _ mac] i by auto
  qed
qed

text \<open>The address zero is that of every empty entry, and an entry that was cleared is empty again.\<close>

lemma zero_again:
  assumes "cam_ok c" "rtw_camid_search c (Some no_addr) (-1) (-1) = Some i"
  shows "cam_ok (drop_ent c i) \<and> (\<exists>j. rtw_camid_search (drop_ent c i) (Some no_addr) (-1) (-1) = Some j)"
proof -
  have i: "i < cc_num c" using search_SomeD [OF assms(2)] by simp
  have ok: "cam_ok (drop_ent c i)" by (rule cam_ok_drop [OF assms(1) i])
  have "cam_cache_chk (drop_ent c i) i (Some no_addr) (-1) (-1)" "i < cc_num (drop_ent c i)"
    using i assms(1) by (simp_all add: cam_cache_chk_def drop_ent_def cam_ok_def cam_zero_def no_addr_def)
  then have "rtw_camid_search (drop_ent c i) (Some no_addr) (-1) (-1) \<noteq> None"
    unfolding rtw_camid_search_def by (auto simp: find_None_iff)
  then show ?thesis using ok by auto
qed

lemma clear_zero_hangs:
  assumes "cam_ok c" "rtw_camid_search c (Some no_addr) (-1) (-1) = Some i"
  shows "clear_keys c no_addr (-1) = None"
proof (rule ccontr)
  assume "clear_keys c no_addr (-1) \<noteq> None"
  then obtain r where ret: "clear_keys c no_addr (-1) = Some r" by blast
  have "\<not> (cam_ok c \<and> no_addr = no_addr \<and> (-1 :: int) = -1 \<and> (\<exists>i. rtw_camid_search c (Some no_addr) (-1) (-1) = Some i))"
  proof (rule clear_keys.raw_induct [where P = "\<lambda>c a g r. \<not> (cam_ok c \<and> a = no_addr \<and> g = -1
      \<and> (\<exists>i. rtw_camid_search c (Some a) (-1) g = Some i))", OF _ ret])
    fix f :: "cam_ctl \<Rightarrow> u8 list \<Rightarrow> int \<Rightarrow> cam_ctl option option" and c a g r
    assume IH: "\<And>c a g r. f c a g = Some r
        \<Longrightarrow> \<not> (cam_ok c \<and> a = no_addr \<and> g = -1 \<and> (\<exists>i. rtw_camid_search c (Some a) (-1) g = Some i))"
      and eq: "(case rtw_camid_search c (Some a) (-1) g of None \<Rightarrow> Some (Some c)
        | Some i \<Rightarrow> (case clear_cam_entry c i of None \<Rightarrow> Some None | Some c1 \<Rightarrow> f (rtw_camid_free c1 i) a g)) = Some r"
    show "\<not> (cam_ok c \<and> a = no_addr \<and> g = -1 \<and> (\<exists>i. rtw_camid_search c (Some a) (-1) g = Some i))"
    proof
      assume "cam_ok c \<and> a = no_addr \<and> g = -1 \<and> (\<exists>i. rtw_camid_search c (Some a) (-1) g = Some i)"
      then obtain i where c: "cam_ok c" "rtw_camid_search c (Some no_addr) (-1) (-1) = Some i" "a = no_addr" "g = -1" by auto
      then have "i < cc_num c" "i < 32" using search_SomeD [OF c(2)] by (auto simp: cam_ok_def)
      from clear_and_free [OF this] obtain d where "clear_cam_entry c i = Some d" "rtw_camid_free d i = drop_ent c i" by auto
      then have "f (drop_ent c i) no_addr (-1) = Some r" using eq c by simp
      then show False using IH zero_again [OF c(1,2)] by blast
    qed
  qed
  then show False using assms by blast
qed

text \<open>
  The command that removes the keys of a station does not return when its address is
  zero and there is an entry in the table with this address, as every empty one is. In all
  other cases it returns; then no key of the address is left, the keys of all others are as
  they were, and the cache mirrors the hardware.
\<close>

theorem clearstakey_exact:
  assumes "cam_ok c"
  shows "case rtw_clearstakey_cmd c (Some a) of
      None \<Rightarrow> a = no_addr \<and> (\<exists>i < cc_num c. ce_mac (cc_cache c ! i) = no_addr)
    | Some r \<Rightarrow> \<not> (a = no_addr \<and> (\<exists>i < cc_num c. ce_mac (cc_cache c ! i) = no_addr))
        \<and> (\<exists>d. r = Some d \<and> cam_ok d
          \<and> (\<forall>b k g. b \<noteq> no_addr \<longrightarrow> 0 \<le> k \<longrightarrow> cam_lookup d b k g = (if b = a then None else cam_lookup c b k g)))"
proof (cases "a = no_addr")
  case False
  then show ?thesis
    using clear_keys_removes [OF assms False] by (auto simp: rtw_clearstakey_cmd_def)
next
  case True
  show ?thesis
  proof (cases "rtw_camid_search c (Some no_addr) (-1) (-1)")
    case None
    then have "\<forall>i < cc_num c. ce_mac (cc_cache c ! i) \<noteq> no_addr"
      unfolding rtw_camid_search_def find_None_iff by (auto simp: cam_cache_chk_def split: if_splits)
    moreover have "clear_keys c no_addr (-1) = Some (Some c)" using None by (simp add: clear_keys.simps)
    ultimately show ?thesis using assms True by (auto simp: rtw_clearstakey_cmd_def)
  next
    case (Some i)
    then have "ce_mac (cc_cache c ! i) = no_addr" "i < cc_num c"
      using search_SomeD [OF Some] by (auto simp: cam_cache_chk_def split: if_splits)
    then show ?thesis using clear_zero_hangs [OF assms Some] True by (auto simp: rtw_clearstakey_cmd_def)
  qed
qed

section \<open>A long key over a short one\<close>

text \<open>
  A 256-bit key takes two entries. When its address already has a key with this identifier,
  the entry of this key is used again, with the one behind it, whoever has that.
\<close>

lemma long_key_takes_neighbour:
  assumes c: "cam_ok c" "rtw_camctl_chk_cap c SEC_CAP_CHK_BMC"
    and p: "stas (sk_addr p)" "length (sk_addr p) = 6" "length (sk_key p) = 32" "sk_keyid p < 4" "sk_algorithm p AND SEC_TYPE_256 \<noteq> 0"
    and i: "rtw_camid_search c (Some (sk_addr p)) (uint (sk_keyid p)) (of_bool (sk_gk p)) = Some i" "i + 1 < cc_num c" "\<not> sk_gk p \<longrightarrow> \<not> rtw_camid_is_gk c i"
  shows "\<exists>d t ctrl. set_stakey_hdl stas mode_spp f c p = Some (Some (H2C_SUCCESS_RSP, d, t))
    \<and> rtw_sec_read_cam_ent (cc_hw d) (i + 1) = (ctrl, sk_addr p, drop 16 (sk_key p))"
proof -
  let ?ctrl = "key_ctrl mode_spp (sk_algorithm p) (sk_keyid p) (sk_gk p)"
  define c1 where "c1 = c\<lparr>cc_used := rtw_sec_cam_map_set (rtw_sec_cam_map_set (cc_used c) i) (i + 1)\<rparr>"
  define d where "d = put_ent (put_ent c i ?ctrl (sk_addr p) (sk_key p)) (i + 1) (?ctrl OR push_bit 5 1) (sk_addr p) (drop 16 (sk_key p))"
  have small: "i < 32" "i + 1 < 32" using i(2) c(1) by (auto simp: cam_ok_def)
  have "rtw_camid_alloc f c (Some (sk_addr p)) (uint (sk_keyid p)) (sk_gk p) True = (Some i, rtw_sec_camid_is_used c i, c1)"
    using i(1) get_camid_cases [OF c(2)] by (simp add: rtw_camid_alloc_def c1_def del: of_bool_eq split del: split_of_bool)
  moreover have "write_cam c1 i ?ctrl (sk_addr p) (sk_key p) True = Some d"
    using write_marked [OF small(1), of True c ?ctrl "sk_addr p" "sk_key p"] small by (simp add: c1_def d_def)
  moreover have "\<not> (\<not> sk_gk p \<and> rtw_sec_camid_is_used c i \<and> rtw_camid_is_gk c1 i)"
    using i(3) by (auto simp: gk_iff c1_def)
  moreover have "sk_algorithm p \<noteq> 0" using p(5) by auto
  ultimately have "set_stakey_hdl stas mode_spp f c p = Some (Some (H2C_SUCCESS_RSP, d, \<not> sk_gk p))"
    using p(1,5) by (auto simp: set_stakey_hdl_def Let_def)
  moreover have "rtw_sec_read_cam_ent (cc_hw d) (i + 1) = (?ctrl OR push_bit 5 1, sk_addr p, drop 16 (sk_key p))"
    using read_write_cam_ent [OF small(2) p(2), of "drop 16 (sk_key p)"] p(3) by (simp add: d_def put_ent_def)
  ultimately show ?thesis by blast
qed

section \<open>The search of the table of the hardware\<close>

text \<open>An entry with the control word that is searched is passed over, any other one is taken.\<close>

lemma search_camid_inverted:
  assumes "search_ctrl pk gk mg k g = Some ctrl" "ctrl AND push_bit 9 1 = 0"
    and "i < cc_num c" "rtw_sec_search_camid pk gk mg c k g = i"
  shows "fst (rtw_sec_read_cam_ent (cc_hw c) i) \<noteq> ctrl"
    and "\<forall>j < i. fst (rtw_sec_read_cam_ent (cc_hw c) j) = ctrl"
  using assms
  by (auto simp: rtw_sec_search_camid_def rtw_sec_read_cam_ent_def cam_addr_def split: option.splits dest!: find_upt_SomeD)

section \<open>The empty table\<close>

definition fresh_cam :: "u8 \<Rightarrow> nat \<Rightarrow> cam_hw \<Rightarrow> cam_ctl" where
  "fresh_cam cap num hw = \<lparr>cc_sec_cap = cap, cc_flags = 0, cc_num = num, cc_used = 0,
     cc_cache = replicate SEC_CAM_ENT_NUM_SW_LIMIT cam_zero, cc_hw = hw\<rparr>"

lemma fresh_cam_ok: "num \<le> 32 \<Longrightarrow> cam_ok (fresh_cam cap num hw)"
  by (simp add: cam_ok_def fresh_cam_def is_used_iff SEC_CAM_ENT_NUM_SW_LIMIT_def ent_ok_def cam_zero_def)

lemma invalidate_fresh:
  "invalidate_cam_all hwi None c = (fresh_cam (cc_sec_cap c) (cc_num c) (hwi (cc_hw c)))\<lparr>cc_flags := cc_flags c\<rparr>"
  by (simp add: invalidate_cam_all_def fresh_cam_def)

lemma fresh_lookup: "num \<le> 32 \<Longrightarrow> a \<noteq> no_addr \<Longrightarrow> cam_lookup (fresh_cam cap num hw) a k g = None"
  using chk_unused [OF fresh_cam_ok]
  by (auto simp: lookup_None rtw_camid_search_def find_None_iff is_used_iff fresh_cam_def)


theorem clearstakey_exact_witness:
  "rtw_clearstakey_cmd (fresh_cam 3 32 (\<lambda>_. 0)) (Some no_addr) = None"
proof -
  have "ce_mac (cc_cache (fresh_cam 3 32 (\<lambda>_. 0)) ! 0) = no_addr" "0 < cc_num (fresh_cam 3 32 (\<lambda>_. 0))"
    by (simp_all add: fresh_cam_def cam_zero_def no_addr_def SEC_CAM_ENT_NUM_SW_LIMIT_def)
  then show ?thesis
    using clearstakey_exact [OF fresh_cam_ok [of 32 3 "\<lambda>_. 0"], of no_addr] by (auto split: option.splits)
qed

end
