(* ===== verification/Sta_Tab.thy ===== *)
theory Sta_Tab
  imports Rx_Path Hw_Cam
begin

unbundle bit_operations_syntax

text \<open>
  The stations of an adapter, \<^verbatim>\<open>core/rtw_sta_mgt.c\<close>, and the identifiers by which the firmware
  knows them, \<^verbatim>\<open>core/rtw_wlan_util.c\<close>. A station is a slot of the array \<^verbatim>\<open>pstainfo_buf\<close>: the
  slots that are not in use wait in the free queue, the others are in the bucket of their
  address.

  The lemmas show that every run of the operations keeps the queue and the buckets apart, gives
  no two stations the same identifier and loses no received frame; that the table refines the
  map from addresses to stations that the receive path reads; and that the group key of an
  ad-hoc network can take the entry of another key in the table of the hardware.
\<close>

section \<open>Identifiers\<close>

definition rtw_macid_is_set :: "u32 \<Rightarrow> nat \<Rightarrow> bool" where
  "rtw_macid_is_set bmp i = (if i < 32 then bmp AND push_bit i 1 \<noteq> 0 else False)"

definition rtw_macid_map_set :: "u32 \<Rightarrow> nat \<Rightarrow> u32" where
  "rtw_macid_map_set bmp i = (if i < 32 then bmp OR push_bit i 1 else bmp)"

definition rtw_macid_map_clr :: "u32 \<Rightarrow> nat \<Rightarrow> u32" where
  "rtw_macid_map_clr bmp i = (if i < 32 then bmp AND NOT (push_bit i 1) else bmp)"

definition RTW_DEFAULT_MGMT_MACID :: nat where
  "RTW_DEFAULT_MGMT_MACID = 1"

definition INVALID_SEC_MAC_CAM_ID :: nat where
  "INVALID_SEC_MAC_CAM_ID = 255"

text \<open>
  \<^verbatim>\<open>struct macid_ctl_t\<close> without the registers for sleeping stations. \<open>mc_if_g\<close> has a bitmap for
  every interface; \<open>mc_sta\<close> points to slots.
\<close>

record macid_ctl =
  mc_num :: nat
  mc_used :: u32
  mc_bmc :: u32
  mc_if_g :: "u32 list"
  mc_ch_g :: "u32 list"
  mc_iface_bmc :: "nat list"
  mc_h2c_msr :: "u8 list"
  mc_bw :: "u8 list"
  mc_vht_en :: "u8 list"
  mc_rate_bmp0 :: "u32 list"
  mc_rate_bmp1 :: "u32 list"
  mc_op_num :: "u8 list"
  mc_sta :: "nat option list"

definition rtw_macid_is_used :: "macid_ctl \<Rightarrow> nat \<Rightarrow> bool" where
  "rtw_macid_is_used mc i = rtw_macid_is_set (mc_used mc) i"

definition rtw_macid_is_bmc :: "macid_ctl \<Rightarrow> nat \<Rightarrow> bool" where
  "rtw_macid_is_bmc mc i = rtw_macid_is_set (mc_bmc mc) i"

definition rtw_macid_get_iface_bmp :: "macid_ctl \<Rightarrow> nat \<Rightarrow> u8" where
  "rtw_macid_get_iface_bmp mc k =
     fold (\<lambda>i bmp. if rtw_macid_is_set (mc_if_g mc ! i) k then bmp OR push_bit i 1 else bmp) [0..<length (mc_if_g mc)] 0"

definition rtw_macid_is_iface_specific :: "macid_ctl \<Rightarrow> nat \<Rightarrow> nat \<Rightarrow> bool" where
  "rtw_macid_is_iface_specific mc k iface \<longleftrightarrow>
     (case filter (\<lambda>i. rtw_macid_is_set (mc_if_g mc ! i) k) [0..<length (mc_if_g mc)] of
        [i] \<Rightarrow> i = iface
      | _ \<Rightarrow> False)"

definition rtw_macid_get_ch_g :: "macid_ctl \<Rightarrow> nat \<Rightarrow> nat option" where
  "rtw_macid_get_ch_g mc k = find (\<lambda>i. rtw_macid_is_set (mc_ch_g mc ! i) k) [0..<2]"

definition rtw_iface_bcmc_id_set :: "macid_ctl \<Rightarrow> nat \<Rightarrow> nat \<Rightarrow> macid_ctl" where
  "rtw_iface_bcmc_id_set mc iface k = mc\<lparr>mc_iface_bmc := (mc_iface_bmc mc)[iface := k]\<rparr>"

definition rtw_iface_bcmc_id_get :: "macid_ctl \<Rightarrow> nat \<Rightarrow> nat" where
  "rtw_iface_bcmc_id_get mc iface = mc_iface_bmc mc ! iface"

definition rtw_macid_ctl_init :: "macid_ctl \<Rightarrow> macid_ctl" where
  "rtw_macid_ctl_init mc =
     mc\<lparr>mc_used := rtw_macid_map_set (mc_used mc) RTW_DEFAULT_MGMT_MACID,
        mc_bmc := rtw_macid_map_set (mc_bmc mc) RTW_DEFAULT_MGMT_MACID,
        mc_if_g := map (\<lambda>b. rtw_macid_map_set b RTW_DEFAULT_MGMT_MACID) (mc_if_g mc),
        mc_sta := (mc_sta mc)[RTW_DEFAULT_MGMT_MACID := None]\<rparr>"

text \<open>For \<open>mc_num\<close> 0 the loop leaves -1 in its counter, which becomes 255.\<close>

definition rtw_search_max_mac_id :: "macid_ctl \<Rightarrow> nat" where
  "rtw_search_max_mac_id mc =
     (if mc_num mc = 0 then 255
      else case find (rtw_macid_is_used mc) (rev [1..<mc_num mc]) of None \<Rightarrow> 0 | Some i \<Rightarrow> i)"

text \<open>
  \<^verbatim>\<open>rtw_macid_ctl_set_h2c_msr\<close>: bit 0 is the state of the connection, the upper half the role of
  the peer; the result is the bitmap of the roles whose number of connections has changed.
\<close>

definition rtw_macid_ctl_set_h2c_msr :: "macid_ctl \<Rightarrow> nat \<Rightarrow> u8 \<Rightarrow> u8 \<times> macid_ctl" where
  "rtw_macid_ctl_set_h2c_msr mc k msr =
     (if k \<ge> mc_num mc then (0, mc)
      else
        let old = mc_h2c_msr mc ! k;
            add = (\<lambda>role d (bmp, m). if role < 8
              then (bmp OR push_bit role 1, m\<lparr>mc_op_num := (mc_op_num m)[role := mc_op_num m ! role + d]\<rparr>) else (bmp, m));
            (bmp, m) =
              (if bit old 0 \<and> \<not> bit msr 0 then add (unat (drop_bit 4 old)) (-1) (0, mc)
               else if \<not> bit old 0 \<and> bit msr 0 then add (unat (drop_bit 4 msr)) 1 (0, mc)
               else (0, mc))
        in (bmp, m\<lparr>mc_h2c_msr := (mc_h2c_msr m)[k := msr]\<rparr>))"

definition rtw_macid_ctl_set_bw :: "macid_ctl \<Rightarrow> nat \<Rightarrow> u8 \<Rightarrow> macid_ctl" where
  "rtw_macid_ctl_set_bw mc k bw = (if k \<ge> mc_num mc then mc else mc\<lparr>mc_bw := (mc_bw mc)[k := bw]\<rparr>)"

definition rtw_macid_ctl_set_vht_en :: "macid_ctl \<Rightarrow> nat \<Rightarrow> u8 \<Rightarrow> macid_ctl" where
  "rtw_macid_ctl_set_vht_en mc k en = (if k \<ge> mc_num mc then mc else mc\<lparr>mc_vht_en := (mc_vht_en mc)[k := en]\<rparr>)"

definition rtw_macid_ctl_set_rate_bmp0 :: "macid_ctl \<Rightarrow> nat \<Rightarrow> u32 \<Rightarrow> macid_ctl" where
  "rtw_macid_ctl_set_rate_bmp0 mc k bmp = (if k \<ge> mc_num mc then mc else mc\<lparr>mc_rate_bmp0 := (mc_rate_bmp0 mc)[k := bmp]\<rparr>)"

definition rtw_macid_ctl_set_rate_bmp1 :: "macid_ctl \<Rightarrow> nat \<Rightarrow> u32 \<Rightarrow> macid_ctl" where
  "rtw_macid_ctl_set_rate_bmp1 mc k bmp = (if k \<ge> mc_num mc then mc else mc\<lparr>mc_rate_bmp1 := (mc_rate_bmp1 mc)[k := bmp]\<rparr>)"

section \<open>Bitmaps of any length\<close>

definition rtw_bmp_is_set :: "u8 list \<Rightarrow> nat \<Rightarrow> nat \<Rightarrow> bool" where
  "rtw_bmp_is_set bmp len k = (if k div 8 \<ge> len then False else bmp ! (k div 8) AND push_bit (k mod 8) 1 \<noteq> 0)"

definition rtw_bmp_set :: "u8 list \<Rightarrow> nat \<Rightarrow> nat \<Rightarrow> u8 list" where
  "rtw_bmp_set bmp len k = (if k div 8 < len then bmp[k div 8 := bmp ! (k div 8) OR push_bit (k mod 8) 1] else bmp)"

definition rtw_bmp_clear :: "u8 list \<Rightarrow> nat \<Rightarrow> nat \<Rightarrow> u8 list" where
  "rtw_bmp_clear bmp len k = (if k div 8 < len then bmp[k div 8 := bmp ! (k div 8) AND NOT (push_bit (k mod 8) 1)] else bmp)"

definition rtw_bmp_not_empty :: "u8 list \<Rightarrow> nat \<Rightarrow> bool" where
  "rtw_bmp_not_empty bmp len \<longleftrightarrow> list_ex (\<lambda>i. bmp ! i \<noteq> 0) [0..<len]"

definition rtw_bmp_not_empty_exclude_bit0 :: "u8 list \<Rightarrow> nat \<Rightarrow> bool" where
  "rtw_bmp_not_empty_exclude_bit0 bmp len \<longleftrightarrow>
     list_ex (\<lambda>i. if i = 0 then bmp ! i AND 0xFE \<noteq> 0 else bmp ! i \<noteq> 0) [0..<len]"

section \<open>The table of stations\<close>

definition NUM_STA :: nat where
  "NUM_STA = 32"

definition wifi_mac_hash :: "mac \<Rightarrow> nat" where
  "wifi_mac_hash m =
     (let x = fold (\<lambda>b x. push_bit 2 x XOR ucast b) (drop 1 m) (ucast (hd m) :: u32)
      in unat ((x XOR drop_bit 8 x) AND of_nat (NUM_STA - 1)))"

text \<open>A station is what the receive path has of it, with its identifier.\<close>

record stainfo =
  si_macid :: nat
  si_rx :: sta_info

record sta_priv =
  stp_slots :: "stainfo list"
  stp_free :: "nat list"
  stp_hash :: "nat list list"
  stp_count :: int

text \<open>
  The adapter: its address, its index among the interfaces, whether its MLME is that of a
  station or is idle, and the parts that the operations change.
\<close>

record sta_dev =
  sd_mac :: mac
  sd_iface :: nat
  sd_sta_or_null :: bool
  sd_sta :: sta_priv
  sd_macid :: macid_ctl
  sd_cam :: cam_ctl
  sd_recv :: recv_priv

definition sta_mac :: "sta_dev \<Rightarrow> nat \<Rightarrow> mac" where
  "sta_mac d s = sta_addr (si_rx (stp_slots (sd_sta d) ! s))"

definition set_macid :: "nat \<Rightarrow> nat \<Rightarrow> sta_dev \<Rightarrow> sta_dev" where
  "set_macid s i d =
     d\<lparr>sd_sta := (sd_sta d)\<lparr>stp_slots := (stp_slots (sd_sta d))[s := (stp_slots (sd_sta d) ! s)\<lparr>si_macid := i\<rparr>]\<rparr>\<rparr>"

definition SEC_CAP_CHK_EXTRA_SEC :: u8 where
  "SEC_CAP_CHK_EXTRA_SEC = 2"

definition rtw_alloc_macid :: "nat \<Rightarrow> sta_dev \<Rightarrow> sta_dev" where
  "rtw_alloc_macid s d =
     (if sta_mac d s = sd_mac d then set_macid s (mc_num (sd_macid d)) d
      else
        let is_bc = sta_mac d s = bc_addr;
            d = (if is_bc then d\<lparr>sd_macid := rtw_iface_bcmc_id_set (sd_macid d) (sd_iface d) INVALID_SEC_MAC_CAM_ID\<rparr> else d)
        in if is_bc \<and> sd_sta_or_null d then set_macid s RTW_DEFAULT_MGMT_MACID d
           else
             (case find (\<lambda>i. \<not> (is_bc \<and> rtw_sec_camid_is_used (sd_cam d) i) \<and> \<not> rtw_macid_is_used (sd_macid d) i)
                     [0..<mc_num (sd_macid d)] of
                None \<Rightarrow> set_macid s (mc_num (sd_macid d)) d
              | Some i \<Rightarrow>
                  let mc = (sd_macid d)\<lparr>mc_used := rtw_macid_map_set (mc_used (sd_macid d)) i\<rparr>;
                      mc = (if is_bc then rtw_iface_bcmc_id_set (mc\<lparr>mc_bmc := rtw_macid_map_set (mc_bmc mc) i\<rparr>) (sd_iface d) i else mc);
                      cam = (if is_bc then
                          let u = rtw_sec_cam_map_set (cc_used (sd_cam d)) i
                          in (sd_cam d)\<lparr>cc_used := if rtw_camctl_chk_cap (sd_cam d) SEC_CAP_CHK_EXTRA_SEC then rtw_sec_cam_map_set u (i + 1) else u\<rparr>
                        else sd_cam d);
                      mc = mc\<lparr>mc_if_g := (mc_if_g mc)[sd_iface d := rtw_macid_map_set (mc_if_g mc ! sd_iface d) i],
                             mc_sta := (mc_sta mc)[i := Some s]\<rparr>
                  in set_macid s i (d\<lparr>sd_macid := mc, sd_cam := cam\<rparr>)))"

definition rtw_release_macid :: "nat \<Rightarrow> sta_dev \<Rightarrow> sta_dev" where
  "rtw_release_macid s d =
     (let mc = sd_macid d; i = si_macid (stp_slots (sd_sta d) ! s); f = sd_iface d;
          free =
            (if sta_mac d s = sd_mac d \<or> i \<ge> mc_num mc \<or> i = RTW_DEFAULT_MGMT_MACID \<or> \<not> rtw_macid_is_used mc i
                \<or> \<not> bit (rtw_macid_get_iface_bmp mc i) f
             then d
             else
               let bmp = rtw_macid_get_iface_bmp mc i AND NOT (push_bit f 1);
                   is_bc = sta_mac d s = bc_addr;
                   b = rtw_iface_bcmc_id_get mc f;
                   cam = (if is_bc \<and> b \<noteq> INVALID_SEC_MAC_CAM_ID \<and> b < cc_num (sd_cam d) then
                       let u = rtw_sec_cam_map_clr (cc_used (sd_cam d)) b
                       in (sd_cam d)\<lparr>cc_used := if rtw_camctl_chk_cap (sd_cam d) SEC_CAP_CHK_EXTRA_SEC then rtw_sec_cam_map_clr u (b + 1) else u\<rparr>
                     else sd_cam d);
                   mc = (if is_bc then rtw_iface_bcmc_id_set mc f INVALID_SEC_MAC_CAM_ID else mc);
                   mc = mc\<lparr>mc_if_g := (mc_if_g mc)[f := rtw_macid_map_clr (mc_if_g mc ! f) i]\<rparr>;
                   mc = (if bmp = 0 then
                       mc\<lparr>mc_used := rtw_macid_map_clr (mc_used mc) i, mc_bmc := rtw_macid_map_clr (mc_bmc mc) i,
                          mc_ch_g := map (\<lambda>g. rtw_macid_map_clr g i) (mc_ch_g mc), mc_sta := (mc_sta mc)[i := None]\<rparr>
                     else mc)
               in d\<lparr>sd_macid := mc, sd_cam := cam\<rparr>)
      in set_macid s (mc_num mc) free)"

section \<open>Stations\<close>

text \<open>
  A station as \<^verbatim>\<open>_rtw_init_stainfo\<close> clears it and \<^verbatim>\<open>rtw_alloc_stainfo\<close> sets it up for reception.
\<close>

definition fresh_reorder :: recv_reorder_ctrl where
  "fresh_reorder = \<lparr>ro_enable = False, ro_indicate_seq = 0xffff, ro_wsize_b = 64, ro_pending = [], ro_timer = False,
     ro_waiting = False, ro_ack_or_timeout = False, ro_reorder_wow = False\<rparr>"

definition fresh_sta :: "mac \<Rightarrow> sta_info" where
  "fresh_sta a = \<lparr>sta_addr = a, sta_reorder = replicate 16 fresh_reorder, sta_tid_rxseq = replicate 16 0xffff,
     sta_iv = replicate 16 (replicate 8 0), sta_last_tid = 0, sta_bmc_tid_rxseq = replicate 16 0xffff,
     sta_nonqos_rxseq = 0xffff, sta_nonqos_bmc_rxseq = 0xffff, sta_duplicate_cnt = 0, sta_defrag_q = [],
     sta_keytrack = 0, sta_ieee8021x_blocked = False, sta_dot118021XPrivacy = 0, sta_uncst_key = replicate 32 0,
     sta_tkiprxmickey = replicate 32 0, sta_amsdu_disable = False\<rparr>"

definition hash_get_stainfo :: "sta_priv \<Rightarrow> mac \<Rightarrow> nat option" where
  "hash_get_stainfo t hwaddr =
     (let addr = (if is_mcast hwaddr then bc_addr else hwaddr)
      in find (\<lambda>s. sta_addr (si_rx (stp_slots t ! s)) = addr) (stp_hash t ! wifi_mac_hash addr))"

definition rtw_get_bcmc_stainfo :: "sta_priv \<Rightarrow> nat option" where
  "rtw_get_bcmc_stainfo t = hash_get_stainfo t bc_addr"

definition rtw_init_sta_priv :: sta_priv where
  "rtw_init_sta_priv =
     \<lparr>stp_slots = replicate NUM_STA \<lparr>si_macid = 0, si_rx = (fresh_sta (replicate 6 0))
        \<lparr>sta_reorder := replicate 16 (fresh_reorder\<lparr>ro_indicate_seq := 0, ro_wsize_b := 0\<rparr>), sta_tid_rxseq := replicate 16 0,
         sta_bmc_tid_rxseq := replicate 16 0, sta_nonqos_rxseq := 0, sta_nonqos_bmc_rxseq := 0\<rparr>\<rparr>,
      stp_free = [0..<NUM_STA], stp_hash = replicate NUM_STA [], stp_count = 0\<rparr>"

definition rtw_alloc_stainfo :: "mac \<Rightarrow> sta_dev \<Rightarrow> nat option \<times> sta_dev" where
  "rtw_alloc_stainfo hwaddr d =
     (let t = sd_sta d in
      case stp_free t of
        [] \<Rightarrow> (None, d)
      | s # rest \<Rightarrow>
          let index = wifi_mac_hash hwaddr;
              t = t\<lparr>stp_free := rest, stp_slots := (stp_slots t)[s := \<lparr>si_macid = 0, si_rx = fresh_sta hwaddr\<rparr>]\<rparr>
          in if index \<ge> NUM_STA then (None, d\<lparr>sd_sta := t\<rparr>)
             else
               (Some s,
                rtw_alloc_macid s
                  (d\<lparr>sd_sta := t\<lparr>stp_hash := (stp_hash t)[index := stp_hash t ! index @ [s]], stp_count := stp_count t + 1\<rparr>\<rparr>)))"

text \<open>The received frames that wait at a station go back to the pool, its timers are stopped.\<close>

fun flush_reorder :: "recv_reorder_ctrl list \<Rightarrow> recv_priv \<Rightarrow> recv_reorder_ctrl list \<times> recv_priv" where
  "flush_reorder [] rp = ([], rp)"
| "flush_reorder (rc # rcs) rp =
     (let (rcs', rp') = flush_reorder rcs (rtw_free_recvframe_queue (ro_pending rc) rp)
      in (rc\<lparr>ro_ack_or_timeout := False, ro_timer := False, ro_pending := []\<rparr> # rcs', rp'))"

definition flush_sta :: "nat \<Rightarrow> sta_dev \<Rightarrow> sta_dev" where
  "flush_sta s d =
     (let st = stp_slots (sd_sta d) ! s;
          (rcs, rp) = flush_reorder (sta_reorder (si_rx st)) (sd_recv d);
          rp = rtw_free_recvframe_queue (sta_defrag_q (si_rx st)) rp;
          rx = (si_rx st)\<lparr>sta_reorder := rcs, sta_defrag_q := []\<rparr>
      in d\<lparr>sd_sta := (sd_sta d)\<lparr>stp_slots := (stp_slots (sd_sta d))[s := st\<lparr>si_rx := rx\<rparr>]\<rparr>, sd_recv := rp\<rparr>)"

definition unhash :: "nat set \<Rightarrow> sta_priv \<Rightarrow> sta_priv" where
  "unhash S t = t\<lparr>stp_hash := map (filter (\<lambda>s. s \<notin> S)) (stp_hash t)\<rparr>"

text \<open>
  \<^verbatim>\<open>rtw_free_stainfo\<close> of a station that is not in the free queue, without the frames that wait
  to be sent and the tables of the PHY layer.
\<close>

definition rtw_free_stainfo :: "nat \<Rightarrow> sta_dev \<Rightarrow> sta_dev" where
  "rtw_free_stainfo s d =
     (let t = unhash {s} (sd_sta d);
          d = rtw_release_macid s (flush_sta s (d\<lparr>sd_sta := t\<lparr>stp_count := stp_count t - 1\<rparr>\<rparr>))
      in d\<lparr>sd_sta := (sd_sta d)\<lparr>stp_free := stp_free (sd_sta d) @ [s]\<rparr>\<rparr>)"

definition rtw_free_all_stainfo :: "sta_dev \<Rightarrow> sta_dev" where
  "rtw_free_all_stainfo d =
     (if stp_count (sd_sta d) = 1 then d
      else
        let keep = rtw_get_bcmc_stainfo (sd_sta d);
            free_sta_list = filter (\<lambda>s. Some s \<noteq> keep) (concat (stp_hash (sd_sta d)))
        in fold rtw_free_stainfo free_sta_list (d\<lparr>sd_sta := unhash (set free_sta_list) (sd_sta d)\<rparr>))"

definition rtw_init_bcmc_stainfo :: "sta_dev \<Rightarrow> sta_dev" where
  "rtw_init_bcmc_stainfo d = snd (rtw_alloc_stainfo bc_addr d)"

section \<open>The bitmaps\<close>

lemma macid_is_set: "rtw_macid_is_set bmp i \<longleftrightarrow> i < 32 \<and> bit bmp i"
  by (simp add: rtw_macid_is_set_def push_bit_eq_mult and_pow2_bit)

lemma macid_map_set: "bit (rtw_macid_map_set bmp j) i \<longleftrightarrow> bit bmp i \<or> i = j \<and> j < 32"
  by (auto simp: rtw_macid_map_set_def bit_simps)

lemma macid_map_clr: "bit (rtw_macid_map_clr bmp j) i \<longleftrightarrow> bit bmp i \<and> \<not> (i = j \<and> j < 32)"
  by (auto simp: rtw_macid_map_clr_def bit_simps dest: bit_imp_le_length)

lemma iface_bmp_one:
  assumes "length (mc_if_g mc) = 1"
  shows "rtw_macid_get_iface_bmp mc i = (if i < 32 \<and> bit (mc_if_g mc ! 0) i then 1 else 0)"
proof -
  have "[0..<length (mc_if_g mc)] = [0]" using assms by simp
  then show ?thesis by (simp add: rtw_macid_get_iface_bmp_def macid_is_set)
qed

section \<open>The identifiers of stations\<close>

text \<open>Of an adapter with one interface; \<open>S\<close> are the slots in use.\<close>

definition macid_of :: "sta_dev \<Rightarrow> nat \<Rightarrow> nat" where
  "macid_of d s = si_macid (stp_slots (sd_sta d) ! s)"

definition mac_tab :: "macid_ctl \<Rightarrow> bool" where
  "mac_tab mc \<longleftrightarrow> 1 < mc_num mc \<and> mc_num mc \<le> 32 \<and> length (mc_if_g mc) = 1 \<and> length (mc_sta mc) = 32
     \<and> bit (mc_used mc) 1 \<and> mc_sta mc ! 1 = None
     \<and> (\<forall>i < mc_num mc. i \<noteq> 1 \<longrightarrow> bit (mc_used mc) i = (mc_sta mc ! i \<noteq> None))
     \<and> (\<forall>i < mc_num mc. i \<noteq> 1 \<longrightarrow> mc_sta mc ! i \<noteq> None \<longrightarrow> bit (mc_if_g mc ! 0) i)"

definition mac_ok :: "nat set \<Rightarrow> sta_dev \<Rightarrow> bool" where
  "mac_ok S d \<longleftrightarrow> mac_tab (sd_macid d) \<and> sd_iface d = 0
     \<and> (\<forall>i < mc_num (sd_macid d). \<forall>s. mc_sta (sd_macid d) ! i = Some s
          \<longrightarrow> s \<in> S \<and> macid_of d s = i \<and> sta_mac d s \<noteq> sd_mac d)
     \<and> (\<forall>s \<in> S. macid_of d s = mc_num (sd_macid d) \<or> macid_of d s = 1
          \<or> macid_of d s < mc_num (sd_macid d) \<and> mc_sta (sd_macid d) ! macid_of d s = Some s)"

text \<open>No two stations have the same identifier, but those that have none and those of group frames.\<close>

lemma mac_ok_unique:
  assumes "mac_ok S d" "s \<in> S" "t \<in> S" "s \<noteq> t"
    and "macid_of d s = i" "macid_of d t = i"
  shows "i = RTW_DEFAULT_MGMT_MACID \<or> i = mc_num (sd_macid d)"
  using assms unfolding mac_ok_def RTW_DEFAULT_MGMT_MACID_def by (metis option.inject)

lemma mac_ok_cong:
  assumes "mac_ok S d" "sd_macid e = sd_macid d" "sd_iface e = sd_iface d" "sd_mac e = sd_mac d"
    and "\<And>s. s \<in> S \<Longrightarrow> macid_of e s = macid_of d s \<and> sta_mac e s = sta_mac d s"
  shows "mac_ok S e"
proof -
  have "s \<in> S \<and> macid_of e s = i \<and> sta_mac e s \<noteq> sd_mac e"
    if "i < mc_num (sd_macid d)" "mc_sta (sd_macid d) ! i = Some s" for i s
    using assms(1,4) assms(5) [of s] that by (auto simp: mac_ok_def)
  moreover have "macid_of e s = mc_num (sd_macid d) \<or> macid_of e s = 1
      \<or> macid_of e s < mc_num (sd_macid d) \<and> mc_sta (sd_macid d) ! macid_of e s = Some s" if "s \<in> S" for s
    using assms(1) assms(5) [of s] that by (auto simp: mac_ok_def)
  ultimately show ?thesis using assms(1) unfolding mac_ok_def assms(2,3) by blast
qed

lemma set_macid_simps [simp]:
  "sd_mac (set_macid s i d) = sd_mac d" "sd_iface (set_macid s i d) = sd_iface d"
  "sd_sta_or_null (set_macid s i d) = sd_sta_or_null d" "sd_macid (set_macid s i d) = sd_macid d"
  "sd_cam (set_macid s i d) = sd_cam d" "sd_recv (set_macid s i d) = sd_recv d"
  "stp_free (sd_sta (set_macid s i d)) = stp_free (sd_sta d)" "stp_hash (sd_sta (set_macid s i d)) = stp_hash (sd_sta d)"
  "stp_count (sd_sta (set_macid s i d)) = stp_count (sd_sta d)"
  "length (stp_slots (sd_sta (set_macid s i d))) = length (stp_slots (sd_sta d))"
  by (simp_all add: set_macid_def)

lemma set_macid_slot:
  "t < length (stp_slots (sd_sta d)) \<Longrightarrow> stp_slots (sd_sta (set_macid s i d)) ! t
     = (if t = s then (stp_slots (sd_sta d) ! s)\<lparr>si_macid := i\<rparr> else stp_slots (sd_sta d) ! t)"
  by (simp add: set_macid_def)

lemma set_macid_rx [simp]: "si_rx (stp_slots (sd_sta (set_macid s i d)) ! t) = si_rx (stp_slots (sd_sta d) ! t)"
  by (cases "t = s"; cases "s < length (stp_slots (sd_sta d))") (simp_all add: set_macid_def list_update_beyond)

lemma sta_mac_set_macid [simp]: "sta_mac (set_macid s i d) t = sta_mac d t"
  by (simp add: sta_mac_def)

lemma macid_of_set_macid [simp]:
  "t < length (stp_slots (sd_sta d)) \<Longrightarrow> macid_of (set_macid s i d) t = (if t = s then i else macid_of d t)"
  by (simp add: macid_of_def set_macid_slot)

text \<open>A free identifier goes to a new station.\<close>

lemma mac_ok_assign:
  assumes ok: "mac_ok S d" and s: "s \<notin> S" "S \<subseteq> {..<length (stp_slots (sd_sta d))}" "s < length (stp_slots (sd_sta d))"
    "sta_mac d s \<noteq> sd_mac d"
    and i: "i < mc_num (sd_macid d)" "\<not> bit (mc_used (sd_macid d)) i"
    and e: "sd_sta e = sd_sta d" "sd_iface e = sd_iface d" "sd_mac e = sd_mac d"
    "mc_num (sd_macid e) = mc_num (sd_macid d)" "mc_used (sd_macid e) = rtw_macid_map_set (mc_used (sd_macid d)) i"
    "mc_if_g (sd_macid e) = (mc_if_g (sd_macid d))[0 := rtw_macid_map_set (mc_if_g (sd_macid d) ! 0) i]"
    "mc_sta (sd_macid e) = (mc_sta (sd_macid d))[i := Some s]"
  shows "mac_ok (insert s S) (set_macid s i e)"
proof -
  have len: "length (mc_sta (sd_macid d)) = 32" "i < 32" "length (mc_if_g (sd_macid d)) = 1" "i \<noteq> 1"
    using ok i by (auto simp: mac_ok_def mac_tab_def)
  have tab: "mac_tab (sd_macid e)"
  proof -
    have t: "mac_tab (sd_macid d)" using ok by (simp add: mac_ok_def)
    have u: "bit (mc_used (sd_macid e)) j \<longleftrightarrow> j = i \<or> bit (mc_used (sd_macid d)) j" for j
      using len by (auto simp: e macid_map_set)
    have g: "bit (mc_if_g (sd_macid e) ! 0) j \<longleftrightarrow> j = i \<or> bit (mc_if_g (sd_macid d) ! 0) j" for j
      using len by (auto simp: e macid_map_set)
    have p: "mc_sta (sd_macid e) ! j = (if j = i then Some s else mc_sta (sd_macid d) ! j)" for j
      using len by (simp add: e)
    have t1: "1 < mc_num (sd_macid d)" "mc_num (sd_macid d) \<le> 32" "bit (mc_used (sd_macid d)) 1" "mc_sta (sd_macid d) ! 1 = None"
      and tu: "\<And>j. j < mc_num (sd_macid d) \<Longrightarrow> j \<noteq> 1 \<Longrightarrow> bit (mc_used (sd_macid d)) j = (mc_sta (sd_macid d) ! j \<noteq> None)"
      and tg: "\<And>j. j < mc_num (sd_macid d) \<Longrightarrow> j \<noteq> 1 \<Longrightarrow> mc_sta (sd_macid d) ! j \<noteq> None \<Longrightarrow> bit (mc_if_g (sd_macid d) ! 0) j"
      using t unfolding mac_tab_def by blast+
    have C: "length (mc_if_g (sd_macid e)) = 1" "length (mc_sta (sd_macid e)) = 32" using len by (simp_all add: e)
    have D: "bit (mc_used (sd_macid e)) 1" "mc_sta (sd_macid e) ! 1 = None" using u [of 1] p [of 1] t1(3,4) len(4) by metis+
    have A: "bit (mc_used (sd_macid e)) j = (mc_sta (sd_macid e) ! j \<noteq> None)" if "j < mc_num (sd_macid d)" "j \<noteq> 1" for j
      using tu [OF that] by (simp add: u p)
    have B: "bit (mc_if_g (sd_macid e) ! 0) j"
      if "j < mc_num (sd_macid d)" "j \<noteq> 1" "mc_sta (sd_macid e) ! j \<noteq> None" for j
      using tg [OF that(1,2)] that(3) by (auto simp: g p split: if_splits)
    show ?thesis unfolding mac_tab_def e(4) by (intro conjI allI impI A B C D t1(1,2))
  qed
  have same: "sta_mac e t = sta_mac d t" "macid_of e t = macid_of d t" for t by (simp_all add: sta_mac_def macid_of_def e)
  have bwd: "t \<in> insert s S \<and> macid_of (set_macid s i e) t = j \<and> sta_mac e t \<noteq> sd_mac e"
    if "j < mc_num (sd_macid e)" "mc_sta (sd_macid e) ! j = Some t" for j t
  proof (cases "j = i")
    case True
    then show ?thesis using that len s by (auto simp: e same)
  next
    case False
    then have t: "mc_sta (sd_macid d) ! j = Some t" using that len by (simp add: e)
    then have "t \<in> S" "macid_of d t = j" "sta_mac d t \<noteq> sd_mac d" using ok that(1) by (auto simp: mac_ok_def e)
    then show ?thesis using s by (auto simp: e same)
  qed
  have fwd: "macid_of (set_macid s i e) t = mc_num (sd_macid e) \<or> macid_of (set_macid s i e) t = 1
     \<or> macid_of (set_macid s i e) t < mc_num (sd_macid e) \<and> mc_sta (sd_macid e) ! macid_of (set_macid s i e) t = Some t"
    if "t \<in> insert s S" for t
  proof (cases "t = s")
    case True
    then show ?thesis using i len s by (simp add: e)
  next
    case False
    then have t: "t \<in> S" "t < length (stp_slots (sd_sta e))" using that s by (auto simp: e)
    have ne: "macid_of d t \<noteq> i" if "macid_of d t < mc_num (sd_macid d)" "mc_sta (sd_macid d) ! macid_of d t = Some t"
    proof
      assume "macid_of d t = i"
      moreover have "mc_sta (sd_macid d) ! i = None"
        using ok i len(4) unfolding mac_ok_def mac_tab_def by blast
      ultimately show False using that(2) by simp
    qed
    have m: "macid_of (set_macid s i e) t = macid_of d t" using t False by (simp add: same)
    have "macid_of d t = mc_num (sd_macid d) \<or> macid_of d t = 1
        \<or> macid_of d t < mc_num (sd_macid d) \<and> mc_sta (sd_macid d) ! macid_of d t = Some t"
      using ok t(1) unfolding mac_ok_def by blast
    then show ?thesis unfolding m using ne len by (auto simp: e)
  qed
  have "sd_iface e = 0" using ok by (simp add: mac_ok_def e)
  then show ?thesis using tab bwd fwd unfolding mac_ok_def by simp
qed

lemma mac_ok_none:
  assumes "mac_ok S d" "s \<notin> S" "S \<subseteq> {..<length (stp_slots (sd_sta d))}" "s < length (stp_slots (sd_sta d))" "i = mc_num (sd_macid d) \<or> i = 1"
  shows "mac_ok (insert s S) (set_macid s i d)"
proof -
  have same: "macid_of (set_macid s i d) t = macid_of d t" if "t \<in> S" for t
    using that assms(2,3) by auto
  have "macid_of (set_macid s i d) s = i" using assms(4) by simp
  then show ?thesis using assms(1,5) same unfolding mac_ok_def by auto
qed

text \<open>A station that is gone gives its identifier back.\<close>

lemma mac_ok_forget:
  assumes ok: "mac_ok (insert s S) d" and s: "s \<notin> S" "insert s S \<subseteq> {..<length (stp_slots (sd_sta d))}"
    and none: "\<And>i. i < mc_num (sd_macid d) \<Longrightarrow> mc_sta (sd_macid d) ! i \<noteq> Some s"
  shows "mac_ok S (set_macid s n d)"
proof -
  have same: "macid_of (set_macid s n d) t = macid_of d t" if "t \<in> S" for t using that s by auto
  have "t \<in> S \<and> macid_of (set_macid s n d) t = j \<and> sta_mac d t \<noteq> sd_mac d"
    if j: "j < mc_num (sd_macid d)" "mc_sta (sd_macid d) ! j = Some t" for j t
  proof -
    have "t \<noteq> s" using none [OF j(1)] j(2) by auto
    moreover have "t \<in> insert s S" "macid_of d t = j" "sta_mac d t \<noteq> sd_mac d" using ok j unfolding mac_ok_def by blast+
    ultimately show ?thesis using same by auto
  qed
  moreover have "macid_of d t = mc_num (sd_macid d) \<or> macid_of d t = 1
      \<or> macid_of d t < mc_num (sd_macid d) \<and> mc_sta (sd_macid d) ! macid_of d t = Some t" if "t \<in> S" for t
    using ok that unfolding mac_ok_def by blast
  ultimately show ?thesis using ok same unfolding mac_ok_def by simp
qed

lemma mac_ok_drop:
  assumes ok: "mac_ok (insert s S) d" and s: "s \<notin> S" "insert s S \<subseteq> {..<length (stp_slots (sd_sta d))}"
    and i: "macid_of d s = i" "i < mc_num (sd_macid d)" "i \<noteq> 1"
    and e: "sd_sta e = sd_sta d" "sd_iface e = sd_iface d" "sd_mac e = sd_mac d"
    "mc_num (sd_macid e) = mc_num (sd_macid d)" "mc_used (sd_macid e) = rtw_macid_map_clr (mc_used (sd_macid d)) i"
    "mc_if_g (sd_macid e) = (mc_if_g (sd_macid d))[0 := rtw_macid_map_clr (mc_if_g (sd_macid d) ! 0) i]"
    "mc_sta (sd_macid e) = (mc_sta (sd_macid d))[i := None]"
  shows "mac_ok S (set_macid s n e)"
proof -
  have t: "1 < mc_num (sd_macid d)" "mc_num (sd_macid d) \<le> 32" "length (mc_if_g (sd_macid d)) = 1" "length (mc_sta (sd_macid d)) = 32"
    "bit (mc_used (sd_macid d)) 1" "mc_sta (sd_macid d) ! 1 = None" and f0: "sd_iface d = 0"
    and tu: "\<And>j. j < mc_num (sd_macid d) \<Longrightarrow> j \<noteq> 1 \<Longrightarrow> bit (mc_used (sd_macid d)) j = (mc_sta (sd_macid d) ! j \<noteq> None)"
    and tg: "\<And>j. j < mc_num (sd_macid d) \<Longrightarrow> j \<noteq> 1 \<Longrightarrow> mc_sta (sd_macid d) ! j \<noteq> None \<Longrightarrow> bit (mc_if_g (sd_macid d) ! 0) j"
    using ok unfolding mac_ok_def mac_tab_def by blast+
  have small: "i < 32" using i t by simp
  have u: "bit (mc_used (sd_macid e)) j \<longleftrightarrow> j \<noteq> i \<and> bit (mc_used (sd_macid d)) j" for j
    using small by (auto simp: e macid_map_clr)
  have g: "bit (mc_if_g (sd_macid e) ! 0) j \<longleftrightarrow> j \<noteq> i \<and> bit (mc_if_g (sd_macid d) ! 0) j" for j
    using small t by (auto simp: e macid_map_clr)
  have p: "mc_sta (sd_macid e) ! j = (if j = i then None else mc_sta (sd_macid d) ! j)" for j
    using small t by (simp add: e)
  have A: "bit (mc_used (sd_macid e)) j = (mc_sta (sd_macid e) ! j \<noteq> None)" if "j < mc_num (sd_macid d)" "j \<noteq> 1" for j
    using tu [OF that] by (simp add: u p)
  have B: "bit (mc_if_g (sd_macid e) ! 0) j"
    if "j < mc_num (sd_macid d)" "j \<noteq> 1" "mc_sta (sd_macid e) ! j \<noteq> None" for j
    using tg [OF that(1,2)] that(3) by (auto simp: g p split: if_splits)
  have C: "length (mc_if_g (sd_macid e)) = 1" "length (mc_sta (sd_macid e)) = 32" using t by (simp_all add: e)
  have D: "bit (mc_used (sd_macid e)) 1" "mc_sta (sd_macid e) ! 1 = None" using u [of 1] p [of 1] t(5,6) i(3) by metis+
  have tab: "mac_tab (sd_macid e)" unfolding mac_tab_def e(4) by (intro conjI allI impI A B C D t(1,2))
  have owner: "mc_sta (sd_macid d) ! i = Some s" using ok i unfolding mac_ok_def by auto
  have same: "sta_mac e t = sta_mac d t" for t by (simp add: sta_mac_def e)
  have ms: "macid_of (set_macid s n e) t = macid_of d t" if "t \<in> S" for t
  proof -
    have "t \<noteq> s" "t < length (stp_slots (sd_sta e))" using that s by (auto simp: e)
    then show ?thesis by simp (simp add: macid_of_def e)
  qed
  have bwd: "t \<in> S \<and> macid_of (set_macid s n e) t = j \<and> sta_mac e t \<noteq> sd_mac e"
    if "j < mc_num (sd_macid e)" "mc_sta (sd_macid e) ! j = Some t" for j t
  proof -
    have j: "j < mc_num (sd_macid d)" "mc_sta (sd_macid d) ! j = Some t" "j \<noteq> i" using that by (auto simp: p e(4) split: if_splits)
    then have d: "t \<in> insert s S" "macid_of d t = j" "sta_mac d t \<noteq> sd_mac d" using ok unfolding mac_ok_def by blast+
    then have "t \<in> S" using i(1) j(3) by auto
    then show ?thesis using d ms by (simp add: same e)
  qed
  have fwd: "macid_of (set_macid s n e) t = mc_num (sd_macid e) \<or> macid_of (set_macid s n e) t = 1
      \<or> macid_of (set_macid s n e) t < mc_num (sd_macid e) \<and> mc_sta (sd_macid e) ! macid_of (set_macid s n e) t = Some t"
    if "t \<in> S" for t
  proof -
    have "macid_of d t = mc_num (sd_macid d) \<or> macid_of d t = 1
        \<or> macid_of d t < mc_num (sd_macid d) \<and> mc_sta (sd_macid d) ! macid_of d t = Some t"
      using ok that unfolding mac_ok_def by blast
    moreover have "t \<noteq> s" using that s by auto
    ultimately show ?thesis unfolding ms [OF that] using owner by (auto simp: p e(4))
  qed
  show ?thesis using tab bwd fwd f0 unfolding mac_ok_def by (simp add: e(2))
qed

lemma alloc_macid_ok:
  assumes ok: "mac_ok S d" and s: "s \<notin> S" "S \<subseteq> {..<length (stp_slots (sd_sta d))}" "s < length (stp_slots (sd_sta d))"
  shows "mac_ok (insert s S) (rtw_alloc_macid s d)"
proof -
  have bound: "mc_num (sd_macid d) \<le> 32" "sd_iface d = 0" using ok by (auto simp: mac_ok_def mac_tab_def)
  have reset: "mac_ok S (d\<lparr>sd_macid := rtw_iface_bcmc_id_set (sd_macid d) (sd_iface d) i\<rparr>)" for i
    using ok by (simp add: mac_ok_def mac_tab_def rtw_iface_bcmc_id_set_def macid_of_def sta_mac_def)
  show ?thesis
  proof (cases "sta_mac d s = sd_mac d")
    case True
    then show ?thesis using mac_ok_none [OF ok s, of "mc_num (sd_macid d)"] by (simp add: rtw_alloc_macid_def)
  next
    case False
    define e where "e = (if sta_mac d s = bc_addr then d\<lparr>sd_macid := rtw_iface_bcmc_id_set (sd_macid d) (sd_iface d) INVALID_SEC_MAC_CAM_ID\<rparr> else d)"
    have e: "mac_ok S e" "sd_sta e = sd_sta d" "sta_mac e s \<noteq> sd_mac e" "sd_iface e = 0" "mc_num (sd_macid e) \<le> 32" "sd_cam e = sd_cam d"
      "sd_sta_or_null e = sd_sta_or_null d"
      using ok reset False bound by (auto simp: e_def sta_mac_def rtw_iface_bcmc_id_set_def)
    note plain = mac_ok_none [OF e(1) s(1) s(2,3) [folded e(2)]]
    show ?thesis
    proof (cases "sta_mac d s = bc_addr \<and> sd_sta_or_null d")
      case True
      then show ?thesis using plain [of RTW_DEFAULT_MGMT_MACID] False
        by (simp add: rtw_alloc_macid_def e_def RTW_DEFAULT_MGMT_MACID_def Let_def)
    next
      case nb: False
      show ?thesis
      proof (cases "find (\<lambda>i. \<not> (sta_mac d s = bc_addr \<and> rtw_sec_camid_is_used (sd_cam e) i) \<and> \<not> rtw_macid_is_used (sd_macid e) i) [0..<mc_num (sd_macid e)]")
        case None
        then show ?thesis using plain [of "mc_num (sd_macid e)"] False nb
          by (auto simp: rtw_alloc_macid_def e_def Let_def)
      next
        case (Some i)
        then have i: "i < mc_num (sd_macid e)" "\<not> bit (mc_used (sd_macid e)) i"
          using e(5) by (auto dest!: find_upt_SomeD simp: rtw_macid_is_used_def macid_is_set)
        show ?thesis
          unfolding rtw_alloc_macid_def Let_def e_def [symmetric]
          using Some False nb
          by (auto simp: e(2) e(4) e(7) rtw_iface_bcmc_id_set_def simp flip: e_def intro!: mac_ok_assign [OF e(1) s(1) s(2,3) [folded e(2)] e(3) i])
      qed
    qed
  qed
qed

lemma release_macid_ok:
  assumes ok: "mac_ok (insert s S) d" and s: "s \<notin> S" "insert s S \<subseteq> {..<length (stp_slots (sd_sta d))}"
  shows "mac_ok S (rtw_release_macid s d)"
proof -
  have one: "length (mc_if_g (sd_macid d)) = 1" "mc_num (sd_macid d) \<le> 32" "mc_sta (sd_macid d) ! 1 = None" "sd_iface d = 0"
    using ok unfolding mac_ok_def mac_tab_def by blast+
  let ?i = "macid_of d s"
  let ?held = "?i < mc_num (sd_macid d) \<and> mc_sta (sd_macid d) ! ?i = Some s"
  show ?thesis
  proof (cases ?held)
    case True
    then have n1: "?i \<noteq> 1" using one(3) by auto
    then have held: "sta_mac d s \<noteq> sd_mac d" "bit (mc_used (sd_macid d)) ?i" "bit (mc_if_g (sd_macid d) ! 0) ?i"
      using True ok unfolding mac_ok_def mac_tab_def by blast+
    have bmp: "rtw_macid_get_iface_bmp (sd_macid d) ?i = 1" using one(1,2) True held(3) by (simp add: iface_bmp_one)
    have used: "rtw_macid_is_used (sd_macid d) ?i" using one(2) True held(2) by (simp add: rtw_macid_is_used_def macid_is_set)
    note drop = mac_ok_drop [OF ok s refl conjunct1 [OF True] n1]
    show ?thesis
      unfolding rtw_release_macid_def Let_def macid_of_def [symmetric]
      using True n1 held(1) bmp used one(4)
      by (auto simp: RTW_DEFAULT_MGMT_MACID_def rtw_iface_bcmc_id_set_def intro!: drop)
  next
    case False
    then have out: "?i = mc_num (sd_macid d) \<or> ?i = 1" using ok unfolding mac_ok_def by blast
    have "mc_sta (sd_macid d) ! j \<noteq> Some s" if "j < mc_num (sd_macid d)" for j
      using False ok that unfolding mac_ok_def by blast
    then have "mac_ok S (set_macid s (mc_num (sd_macid d)) d)" by (rule mac_ok_forget [OF ok s])
    moreover have "rtw_release_macid s d = set_macid s (mc_num (sd_macid d)) d"
      using out by (auto simp: rtw_release_macid_def macid_of_def RTW_DEFAULT_MGMT_MACID_def Let_def)
    ultimately show ?thesis by simp
  qed
qed

section \<open>Runs keep the table in order\<close>

definition live :: "sta_dev \<Rightarrow> nat set" where
  "live d = {..<NUM_STA} - set (stp_free (sd_sta d))"

text \<open>\<open>L\<close> are the stations that left their bucket and are about to be freed.\<close>

definition sta_inv :: "nat list \<Rightarrow> sta_dev \<Rightarrow> bool" where
  "sta_inv L d \<longleftrightarrow>
     (let t = sd_sta d in
      length (stp_slots t) = NUM_STA \<and> length (stp_hash t) = NUM_STA
      \<and> distinct (stp_free t) \<and> set (stp_free t) \<subseteq> {..<NUM_STA}
      \<and> distinct (concat (stp_hash t) @ L) \<and> set (concat (stp_hash t)) \<union> set L = live d
      \<and> (\<forall>i < NUM_STA. \<forall>s \<in> set (stp_hash t ! i). wifi_mac_hash (sta_mac d s) = i)
      \<and> stp_count t + int (length (stp_free t)) = int NUM_STA
      \<and> mac_ok (live d) d)"

text \<open>The received frames of the pool and of the stations.\<close>

definition tab_held :: "sta_dev \<Rightarrow> nat multiset" where
  "tab_held d = pool_ids (sd_recv d) + (\<Sum>s \<in> live d. sta_ids (si_rx (stp_slots (sd_sta d) ! s)))"

lemma wifi_mac_hash_bound: "wifi_mac_hash a < NUM_STA"
proof -
  have "(x AND (31 :: u32)) \<le> 31" for x by (simp add: word_and_le1)
  then have "unat (x AND (31 :: u32)) < 32" for x using unat_mono [of "x AND 31" "32 :: u32"] le_less_trans [of "x AND 31" 31 32] by simp
  then show ?thesis by (simp add: wifi_mac_hash_def NUM_STA_def Let_def)
qed

lemma alloc_macid_simps [simp]:
  "sd_mac (rtw_alloc_macid s d) = sd_mac d" "sd_recv (rtw_alloc_macid s d) = sd_recv d"
  "stp_free (sd_sta (rtw_alloc_macid s d)) = stp_free (sd_sta d)" "stp_hash (sd_sta (rtw_alloc_macid s d)) = stp_hash (sd_sta d)"
  "stp_count (sd_sta (rtw_alloc_macid s d)) = stp_count (sd_sta d)"
  "length (stp_slots (sd_sta (rtw_alloc_macid s d))) = length (stp_slots (sd_sta d))"
  "si_rx (stp_slots (sd_sta (rtw_alloc_macid s d)) ! t) = si_rx (stp_slots (sd_sta d) ! t)"
  by (auto simp: rtw_alloc_macid_def Let_def split: option.split)

lemma release_macid_simps [simp]:
  "sd_mac (rtw_release_macid s d) = sd_mac d" "sd_recv (rtw_release_macid s d) = sd_recv d"
  "stp_free (sd_sta (rtw_release_macid s d)) = stp_free (sd_sta d)" "stp_hash (sd_sta (rtw_release_macid s d)) = stp_hash (sd_sta d)"
  "stp_count (sd_sta (rtw_release_macid s d)) = stp_count (sd_sta d)"
  "length (stp_slots (sd_sta (rtw_release_macid s d))) = length (stp_slots (sd_sta d))"
  "si_rx (stp_slots (sd_sta (rtw_release_macid s d)) ! t) = si_rx (stp_slots (sd_sta d) ! t)"
  by (auto simp: rtw_release_macid_def Let_def)

lemma flush_reorder_all:
  "flush_reorder rcs rp = (map (\<lambda>rc. rc\<lparr>ro_ack_or_timeout := False, ro_timer := False, ro_pending := []\<rparr>) rcs, snd (flush_reorder rcs rp))
   \<and> pool_ids (snd (flush_reorder rcs rp)) = pool_ids rp + sum_list (map (\<lambda>rc. frame_ids (ro_pending rc)) rcs)"
proof (induction rcs arbitrary: rp)
  case (Cons rc rcs)
  then show ?case
    using Cons [of "rtw_free_recvframe_queue (ro_pending rc) rp"]
    by (cases "flush_reorder rcs (rtw_free_recvframe_queue (ro_pending rc) rp)") (auto simp: ac_simps)
qed simp

lemma flush_sta_simps [simp]:
  "sd_mac (flush_sta s d) = sd_mac d" "sd_iface (flush_sta s d) = sd_iface d" "sd_macid (flush_sta s d) = sd_macid d"
  "sd_cam (flush_sta s d) = sd_cam d"
  "stp_free (sd_sta (flush_sta s d)) = stp_free (sd_sta d)" "stp_hash (sd_sta (flush_sta s d)) = stp_hash (sd_sta d)"
  "stp_count (sd_sta (flush_sta s d)) = stp_count (sd_sta d)"
  "length (stp_slots (sd_sta (flush_sta s d))) = length (stp_slots (sd_sta d))"
  by (simp_all add: flush_sta_def Let_def split_beta)

lemma flush_sta_slot:
  "t < length (stp_slots (sd_sta d)) \<Longrightarrow> stp_slots (sd_sta (flush_sta s d)) ! t =
     (if t = s then (stp_slots (sd_sta d) ! s)\<lparr>si_rx := (si_rx (stp_slots (sd_sta d) ! s))
        \<lparr>sta_reorder := fst (flush_reorder (sta_reorder (si_rx (stp_slots (sd_sta d) ! s))) (sd_recv d)), sta_defrag_q := []\<rparr>\<rparr>
      else stp_slots (sd_sta d) ! t)"
  by (simp add: flush_sta_def Let_def split_beta)

lemma flush_sta_pool: "pool_ids (sd_recv (flush_sta s d)) = pool_ids (sd_recv d) + sta_ids (si_rx (stp_slots (sd_sta d) ! s))"
  using flush_reorder_all [of "sta_reorder (si_rx (stp_slots (sd_sta d) ! s))" "sd_recv d"]
  by (simp add: flush_sta_def Let_def split_beta sta_ids_def ac_simps)

lemma mset_concat_update:
  assumes "i < length h"
  shows "mset (concat (h[i := h ! i @ [s]])) = add_mset s (mset (concat h))"
proof -
  have "concat h = concat (take i h) @ h ! i @ concat (drop (Suc i) h)"
    using id_take_nth_drop [OF assms] by (metis concat.simps(2) concat_append)
  moreover have "concat (h[i := h ! i @ [s]]) = concat (take i h) @ (h ! i @ [s]) @ concat (drop (Suc i) h)"
    using assms by (simp add: upd_conv_take_nth_drop)
  ultimately show ?thesis by simp
qed

lemma fresh_sta_ids [simp]: "sta_ids (fresh_sta a) = {#}"
  by (simp add: sta_ids_def fresh_sta_def fresh_reorder_def eval_nat_numeral)

lemma alloc_Some_sta:
  assumes "stp_free (sd_sta d) = s # rest"
  shows "rtw_alloc_stainfo a d =
    (Some s, rtw_alloc_macid s (d\<lparr>sd_sta := (sd_sta d)\<lparr>stp_free := rest,
       stp_slots := (stp_slots (sd_sta d))[s := \<lparr>si_macid = 0, si_rx = fresh_sta a\<rparr>],
       stp_hash := (stp_hash (sd_sta d))[wifi_mac_hash a := stp_hash (sd_sta d) ! wifi_mac_hash a @ [s]],
       stp_count := stp_count (sd_sta d) + 1\<rparr>\<rparr>))"
  using assms wifi_mac_hash_bound [of a] by (simp add: rtw_alloc_stainfo_def Let_def)

lemma alloc_inv:
  assumes inv: "sta_inv L d"
  shows "sta_inv L (snd (rtw_alloc_stainfo a d)) \<and> tab_held (snd (rtw_alloc_stainfo a d)) = tab_held d"
proof (cases "stp_free (sd_sta d)")
  case Nil
  then show ?thesis using inv by (simp add: rtw_alloc_stainfo_def)
next
  case (Cons s rest)
  let ?h = "stp_hash (sd_sta d)" and ?i = "wifi_mac_hash a"
  define d1 where "d1 = d\<lparr>sd_sta := (sd_sta d)\<lparr>stp_free := rest,
       stp_slots := (stp_slots (sd_sta d))[s := \<lparr>si_macid = 0, si_rx = fresh_sta a\<rparr>],
       stp_hash := ?h[?i := ?h ! ?i @ [s]], stp_count := stp_count (sd_sta d) + 1\<rparr>\<rparr>"
  have i: "length (stp_slots (sd_sta d)) = NUM_STA" "length ?h = NUM_STA" "distinct (s # rest)" "s < NUM_STA" "set rest \<subseteq> {..<NUM_STA}"
    "distinct (concat ?h @ L)" "set (concat ?h) \<union> set L = live d" "\<And>j t. j < NUM_STA \<Longrightarrow> t \<in> set (?h ! j) \<Longrightarrow> wifi_mac_hash (sta_mac d t) = j"
    "stp_count (sd_sta d) + int (Suc (length rest)) = int NUM_STA" "mac_ok (live d) d"
    using inv Cons unfolding sta_inv_def Let_def by auto
  have live: "live (rtw_alloc_macid s d1) = insert s (live d)" "s \<notin> live d" "live d \<subseteq> {..<NUM_STA}"
    using i(3,4,5) Cons by (auto simp: live_def d1_def)
  have slot: "stp_slots (sd_sta d1) ! t = (if t = s then \<lparr>si_macid = 0, si_rx = fresh_sta a\<rparr> else stp_slots (sd_sta d) ! t)" for t
    using i(1,4) by (simp add: d1_def)
  have mac: "sta_mac d1 t = (if t = s then a else sta_mac d t)" for t by (simp add: sta_mac_def slot fresh_sta_def)
  have "mac_ok (live d) d1"
  proof (rule mac_ok_cong [OF i(10)])
    show "sd_macid d1 = sd_macid d" "sd_iface d1 = sd_iface d" "sd_mac d1 = sd_mac d" by (simp_all add: d1_def)
    show "macid_of d1 t = macid_of d t \<and> sta_mac d1 t = sta_mac d t" if "t \<in> live d" for t
      using that live(2) by (auto simp: macid_of_def slot mac)
  qed
  then have ok: "mac_ok (insert s (live d)) (rtw_alloc_macid s d1)"
    using live(2,3) i(1,4) by (intro alloc_macid_ok) (simp_all add: d1_def)
  have ms: "mset (concat (stp_hash (sd_sta d1))) = add_mset s (mset (concat ?h))"
    using mset_concat_update [of ?i ?h s] wifi_mac_hash_bound i(2) by (simp add: d1_def)
  then have dist: "distinct (concat (stp_hash (sd_sta d1)) @ L) \<longleftrightarrow> distinct (s # concat ?h @ L)"
    by (intro mset_eq_imp_distinct_iff) simp
  have all: "set (concat (stp_hash (sd_sta d1))) = insert s (set (concat ?h))"
    using ms by (metis set_mset_add_mset_insert set_mset_mset)
  have bucket: "stp_hash (sd_sta d1) ! j = (if j = ?i then ?h ! j @ [s] else ?h ! j)" if "j < NUM_STA" for j
    using that i(2) by (simp add: d1_def)
  have "wifi_mac_hash (sta_mac d1 t) = j" if j: "j < NUM_STA" "t \<in> set (stp_hash (sd_sta d1) ! j)" for j t
  proof (cases "t = s")
    case True
    have "s \<notin> set (?h ! j)"
    proof
      assume "s \<in> set (?h ! j)"
      then have "s \<in> set (concat ?h)" using j(1) i(2) by (auto intro: nth_mem)
      then show False using i(7) live(2) by blast
    qed
    then show ?thesis using True j by (auto simp: mac bucket split: if_splits)
  next
    case False
    then show ?thesis using j i(8) [of j t] by (auto simp: mac bucket split: if_splits)
  qed
  moreover have "distinct (concat (stp_hash (sd_sta d1)) @ L)"
    unfolding dist using i(6,7) live(2) by auto
  moreover have "set (concat (stp_hash (sd_sta d1))) \<union> set L = insert s (live d)" using all i(7) by auto
  moreover have "sta_mac (rtw_alloc_macid s d1) t = sta_mac d1 t" for t by (simp add: sta_mac_def)
  ultimately have "sta_inv L (rtw_alloc_macid s d1)"
    using i(1,2,3,5,9) ok live(1) unfolding sta_inv_def Let_def by (simp add: d1_def)
  moreover have "tab_held (rtw_alloc_macid s d1) = tab_held d"
  proof -
    have "(\<Sum>t \<in> insert s (live d). sta_ids (si_rx (stp_slots (sd_sta d1) ! t))) = (\<Sum>t \<in> live d. sta_ids (si_rx (stp_slots (sd_sta d) ! t)))"
      using live(2) by (auto simp: slot live_def intro!: sum.cong)
    then show ?thesis unfolding tab_held_def live(1) by (simp add: d1_def)
  qed
  ultimately show ?thesis unfolding alloc_Some_sta [OF Cons] d1_def by simp
qed

lemma unhash_simps [simp]:
  "stp_slots (unhash S t) = stp_slots t" "stp_free (unhash S t) = stp_free t" "stp_count (unhash S t) = stp_count t"
  "length (stp_hash (unhash S t)) = length (stp_hash t)"
  "concat (stp_hash (unhash S t)) = filter (\<lambda>s. s \<notin> S) (concat (stp_hash t))"
  "unhash S (unhash S t) = unhash S t"
  by (simp_all add: unhash_def filter_concat map_map o_def)

lemma unhash_none: "S \<inter> set (concat (stp_hash t)) = {} \<Longrightarrow> unhash S t = t"
proof -
  assume "S \<inter> set (concat (stp_hash t)) = {}"
  then have "map (filter (\<lambda>s. s \<notin> S)) (stp_hash t) = map (\<lambda>b. b) (stp_hash t)"
    by (intro map_cong refl filter_True) auto
  then show ?thesis by (simp add: unhash_def)
qed

lemma unhash_inv:
  assumes inv: "sta_inv [] d" and L: "distinct L" "set L \<subseteq> set (concat (stp_hash (sd_sta d)))"
  shows "sta_inv L (d\<lparr>sd_sta := unhash (set L) (sd_sta d)\<rparr>) \<and> tab_held (d\<lparr>sd_sta := unhash (set L) (sd_sta d)\<rparr>) = tab_held d"
proof
  let ?d = "d\<lparr>sd_sta := unhash (set L) (sd_sta d)\<rparr>"
  have same: "live ?d = live d" "sta_mac ?d = sta_mac d" "macid_of ?d = macid_of d"
    by (auto simp: live_def sta_mac_def macid_of_def)
  have "mac_ok (live d) d" using inv unfolding sta_inv_def Let_def by blast
  then have ok: "mac_ok (live d) ?d" by (rule mac_ok_cong) (simp_all add: same)
  have "stp_hash (sd_sta ?d) ! i = filter (\<lambda>s. s \<notin> set L) (stp_hash (sd_sta d) ! i)" if "i < NUM_STA" for i
    using that inv by (simp add: sta_inv_def Let_def unhash_def)
  then show "sta_inv L ?d"
    using inv L ok unfolding sta_inv_def Let_def same by auto
  show "tab_held ?d = tab_held d" by (simp add: tab_held_def same)
qed

lemma free_unhashed: "rtw_free_stainfo s d = rtw_free_stainfo s (d\<lparr>sd_sta := unhash {s} (sd_sta d)\<rparr>)"
  by (simp add: rtw_free_stainfo_def Let_def)

lemma free_inv:
  assumes inv: "sta_inv (s # L) d"
  shows "sta_inv L (rtw_free_stainfo s d) \<and> tab_held (rtw_free_stainfo s d) = tab_held d"
proof
  define d1 where "d1 = flush_sta s (d\<lparr>sd_sta := (sd_sta d)\<lparr>stp_count := stp_count (sd_sta d) - 1\<rparr>\<rparr>)"
  define e where "e = rtw_release_macid s d1"
  have i: "length (stp_slots (sd_sta d)) = NUM_STA" "length (stp_hash (sd_sta d)) = NUM_STA" "distinct (stp_free (sd_sta d))"
    "set (stp_free (sd_sta d)) \<subseteq> {..<NUM_STA}"
    "distinct (concat (stp_hash (sd_sta d)) @ s # L)" "set (concat (stp_hash (sd_sta d))) \<union> set (s # L) = live d"
    "\<And>j t. j < NUM_STA \<Longrightarrow> t \<in> set (stp_hash (sd_sta d) ! j) \<Longrightarrow> wifi_mac_hash (sta_mac d t) = j"
    "stp_count (sd_sta d) + int (length (stp_free (sd_sta d))) = int NUM_STA" "mac_ok (live d) d"
    using inv unfolding sta_inv_def Let_def by auto
  have s: "s \<in> live d" "s < NUM_STA" "s \<notin> set (stp_free (sd_sta d))" "s \<notin> set (concat (stp_hash (sd_sta d)))" "s \<notin> set L"
    using i(5,6) by (auto simp: live_def)
  have "unhash {s} (sd_sta d) = sd_sta d" by (rule unhash_none) (use s(4) in auto)
  then have free: "rtw_free_stainfo s d = e\<lparr>sd_sta := (sd_sta e)\<lparr>stp_free := stp_free (sd_sta d) @ [s]\<rparr>\<rparr>"
    by (simp add: rtw_free_stainfo_def e_def d1_def Let_def)
  let ?f = "rtw_free_stainfo s d"
  have live: "live ?f = live d - {s}" "live d = insert s (live d - {s})" using s by (auto simp: free live_def)
  have mac1: "sta_mac d1 t = sta_mac d t" "macid_of d1 t = macid_of d t" if "t < NUM_STA" for t
    using that i(1) flush_sta_slot [of t "d\<lparr>sd_sta := (sd_sta d)\<lparr>stp_count := stp_count (sd_sta d) - 1\<rparr>\<rparr>" s]
    by (auto simp: sta_mac_def macid_of_def d1_def)
  have "mac_ok (insert s (live d - {s})) d1"
    using i(9) unfolding live(2) [symmetric]
    by (rule mac_ok_cong) (use mac1 in \<open>auto simp: d1_def live_def\<close>)
  then have "mac_ok (live d - {s}) e"
    unfolding e_def using i(1) s(2) by (intro release_macid_ok) (auto simp: d1_def live_def)
  then have ok: "mac_ok (live ?f) ?f"
    unfolding live(1) by (rule mac_ok_cong) (simp_all add: free macid_of_def sta_mac_def)
  have mac: "sta_mac ?f t = sta_mac d t" if "t < NUM_STA" for t
    using mac1(1) [OF that] by (simp add: free sta_mac_def e_def)
  have "wifi_mac_hash (sta_mac ?f t) = j" if j: "j < NUM_STA" "t \<in> set (stp_hash (sd_sta d) ! j)" for j t
  proof -
    have "t \<in> set (concat (stp_hash (sd_sta d)))" using j i(2) by (auto intro: nth_mem)
    then have "t < NUM_STA" using i(6) by (auto simp: live_def)
    then show ?thesis using i(7) [OF j] mac by simp
  qed
  moreover have "set (concat (stp_hash (sd_sta d))) \<union> set L = live d - {s}" using i(6) s(4,5) by auto
  moreover have "stp_hash (sd_sta ?f) = stp_hash (sd_sta d)" "stp_free (sd_sta ?f) = stp_free (sd_sta d) @ [s]"
    "stp_count (sd_sta ?f) = stp_count (sd_sta d) - 1" "length (stp_slots (sd_sta ?f)) = NUM_STA"
    using i(1) by (simp_all add: free e_def d1_def)
  ultimately show "sta_inv L ?f"
    using i(2,3,4,5,8) s(2,3) ok unfolding sta_inv_def Let_def live(1) by auto
  have "(\<Sum>t \<in> live d - {s}. sta_ids (si_rx (stp_slots (sd_sta e) ! t))) = (\<Sum>t \<in> live d - {s}. sta_ids (si_rx (stp_slots (sd_sta d) ! t)))"
  proof (rule sum.cong [OF refl])
    fix t assume "t \<in> live d - {s}"
    then have "t \<noteq> s" "t < length (stp_slots (sd_sta d))" using i(1) by (auto simp: live_def)
    then show "sta_ids (si_rx (stp_slots (sd_sta e) ! t)) = sta_ids (si_rx (stp_slots (sd_sta d) ! t))"
      by (simp add: e_def d1_def flush_sta_slot)
  qed
  moreover have "(\<Sum>t \<in> live d. sta_ids (si_rx (stp_slots (sd_sta d) ! t)))
      = sta_ids (si_rx (stp_slots (sd_sta d) ! s)) + (\<Sum>t \<in> live d - {s}. sta_ids (si_rx (stp_slots (sd_sta d) ! t)))"
    by (rule sum.remove) (use s(1) in \<open>simp_all add: live_def\<close>)
  ultimately show "tab_held ?f = tab_held d"
    unfolding tab_held_def live(1) by (simp add: free e_def d1_def flush_sta_pool ac_simps)
qed

lemma free_hashed_inv:
  assumes "sta_inv [] d" "s \<in> set (concat (stp_hash (sd_sta d)))"
  shows "sta_inv [] (rtw_free_stainfo s d) \<and> tab_held (rtw_free_stainfo s d) = tab_held d"
  using unhash_inv [of d "[s]"] free_inv [of s "[]" "d\<lparr>sd_sta := unhash {s} (sd_sta d)\<rparr>"] assms
  by (simp add: free_unhashed [of s d])

lemma free_list_inv:
  "sta_inv L d \<Longrightarrow> sta_inv [] (fold rtw_free_stainfo L d) \<and> tab_held (fold rtw_free_stainfo L d) = tab_held d"
proof (induction L arbitrary: d)
  case (Cons s L)
  then show ?case using free_inv [OF Cons.prems] Cons.IH [of "rtw_free_stainfo s d"] by simp
qed simp

lemma free_all_inv:
  assumes inv: "sta_inv [] d"
  shows "sta_inv [] (rtw_free_all_stainfo d) \<and> tab_held (rtw_free_all_stainfo d) = tab_held d"
proof -
  let ?L = "filter (\<lambda>s. Some s \<noteq> rtw_get_bcmc_stainfo (sd_sta d)) (concat (stp_hash (sd_sta d)))"
  have "distinct ?L" using inv by (auto simp: sta_inv_def Let_def)
  then have "sta_inv ?L (d\<lparr>sd_sta := unhash (set ?L) (sd_sta d)\<rparr>) \<and> tab_held (d\<lparr>sd_sta := unhash (set ?L) (sd_sta d)\<rparr>) = tab_held d"
    by (intro unhash_inv [OF inv]) auto
  then show ?thesis using free_list_inv [of ?L "d\<lparr>sd_sta := unhash (set ?L) (sd_sta d)\<rparr>"] inv
    by (simp add: rtw_free_all_stainfo_def Let_def)
qed

section \<open>Runs\<close>

text \<open>
  What happens to the table: stations come and go, the MLME changes its mode, commands change
  the table of keys, and the receive path moves frames between the pool and the stations.
\<close>

inductive sta_step :: "sta_dev \<Rightarrow> sta_dev \<Rightarrow> bool" where
  alloc: "sta_step d (snd (rtw_alloc_stainfo a d))"
| free: "s \<in> set (concat (stp_hash (sd_sta d))) \<Longrightarrow> sta_step d (rtw_free_stainfo s d)"
| free_all: "sta_step d (rtw_free_all_stainfo d)"
| mode: "sta_step d (d\<lparr>sd_sta_or_null := b\<rparr>)"
| keys: "sta_step d (d\<lparr>sd_cam := c\<rparr>)"
| receive: "(\<And>x. sta_addr (g x) = sta_addr x) \<Longrightarrow>
    e = d\<lparr>sd_sta := (sd_sta d)\<lparr>stp_slots := map (\<lambda>st. st\<lparr>si_rx := g (si_rx st)\<rparr>) (stp_slots (sd_sta d))\<rparr>, sd_recv := rp\<rparr> \<Longrightarrow>
    tab_held e = tab_held d \<Longrightarrow> sta_step d e"

lemma sta_inv_cong:
  assumes "sta_inv L d" "sd_macid e = sd_macid d" "sd_iface e = sd_iface d" "sd_mac e = sd_mac d"
    and "length (stp_slots (sd_sta e)) = length (stp_slots (sd_sta d))" "stp_hash (sd_sta e) = stp_hash (sd_sta d)"
    "stp_free (sd_sta e) = stp_free (sd_sta d)" "stp_count (sd_sta e) = stp_count (sd_sta d)"
    and same: "\<And>s. s < length (stp_slots (sd_sta d)) \<Longrightarrow> macid_of e s = macid_of d s \<and> sta_mac e s = sta_mac d s"
  shows "sta_inv L e"
proof -
  have live: "live e = live d" using assms(7) by (simp add: live_def)
  have len: "length (stp_slots (sd_sta d)) = NUM_STA" and all: "set (concat (stp_hash (sd_sta d))) \<union> set L = live d"
    and "mac_ok (live d) d" and hash: "length (stp_hash (sd_sta d)) = NUM_STA"
    "\<And>i s. i < NUM_STA \<Longrightarrow> s \<in> set (stp_hash (sd_sta d) ! i) \<Longrightarrow> wifi_mac_hash (sta_mac d s) = i"
    using assms(1) unfolding sta_inv_def Let_def by blast+
  then have "mac_ok (live d) e"
    using assms(2,3,4) same by (elim mac_ok_cong) (auto simp: live_def)
  moreover have "wifi_mac_hash (sta_mac e s) = i" if i: "i < NUM_STA" "s \<in> set (stp_hash (sd_sta d) ! i)" for i s
  proof -
    have "s \<in> set (concat (stp_hash (sd_sta d)))" using i hash(1) by (auto intro: nth_mem)
    then have "s < NUM_STA" using all by (auto simp: live_def)
    then show ?thesis using hash(2) [OF i] same len by simp
  qed
  ultimately show ?thesis using assms(1) unfolding sta_inv_def Let_def live assms(5,6,7,8) by simp
qed

lemma sta_step_inv: "sta_step d e \<Longrightarrow> sta_inv [] d \<Longrightarrow> sta_inv [] e \<and> tab_held e = tab_held d"
proof (induction rule: sta_step.induct)
  case (alloc d a)
  then show ?case by (rule alloc_inv)
next
  case (free s d)
  then show ?case by (intro free_hashed_inv)
next
  case (free_all d)
  then show ?case by (rule free_all_inv)
next
  case (mode d b)
  have "sta_inv [] (d\<lparr>sd_sta_or_null := b\<rparr>)"
    by (rule sta_inv_cong [OF mode]) (simp_all add: macid_of_def sta_mac_def)
  then show ?case by (simp add: tab_held_def live_def)
next
  case (keys d c)
  have "sta_inv [] (d\<lparr>sd_cam := c\<rparr>)"
    by (rule sta_inv_cong [OF keys]) (simp_all add: macid_of_def sta_mac_def)
  then show ?case by (simp add: tab_held_def live_def)
next
  case (receive g e d rp)
  have "sta_inv [] e"
    by (rule sta_inv_cong [OF receive(4)]) (use receive(1,2) in \<open>simp_all add: macid_of_def sta_mac_def\<close>)
  then show ?case using receive(3) by blast
qed

lemma sta_run_inv:
  assumes "sta_step\<^sup>*\<^sup>* d e" "sta_inv [] d"
  shows "sta_inv [] e \<and> tab_held e = tab_held d"
  using assms by (induction rule: rtranclp_induct) (auto dest!: sta_step_inv)

text \<open>The adapter after its initialisation, with \<open>n\<close> identifiers.\<close>

definition sta_start :: "nat \<Rightarrow> mac \<Rightarrow> cam_ctl \<Rightarrow> recv_priv \<Rightarrow> sta_dev" where
  "sta_start n own cam rp = \<lparr>sd_mac = own, sd_iface = 0, sd_sta_or_null = True, sd_sta = rtw_init_sta_priv,
     sd_macid = rtw_macid_ctl_init \<lparr>mc_num = n, mc_used = 0, mc_bmc = 0, mc_if_g = [0], mc_ch_g = [0, 0], mc_iface_bmc = [0],
       mc_h2c_msr = replicate 32 0, mc_bw = replicate 32 0, mc_vht_en = replicate 32 0, mc_rate_bmp0 = replicate 32 0,
       mc_rate_bmp1 = replicate 32 0, mc_op_num = replicate 8 0, mc_sta = replicate 32 None\<rparr>,
     sd_cam = cam, sd_recv = rp\<rparr>"

lemma live_start [simp]: "live (sta_start n own cam rp) = {}"
  by (auto simp: live_def sta_start_def rtw_init_sta_priv_def)

lemma tab_held_start: "tab_held (sta_start n own cam rp) = pool_ids rp"
proof -
  have "sd_recv (sta_start n own cam rp) = rp" by (simp add: sta_start_def)
  then show ?thesis by (simp add: tab_held_def)
qed

lemma sta_start_inv: "1 < n \<Longrightarrow> n \<le> 32 \<Longrightarrow> sta_inv [] (sta_start n own cam rp)"
proof -
  assume n: "1 < n" "n \<le> 32"
  let ?d = "sta_start n own cam rp"
  have "mac_ok {} ?d" using n
    by (auto simp: mac_ok_def mac_tab_def sta_start_def rtw_macid_ctl_init_def RTW_DEFAULT_MGMT_MACID_def macid_map_set nth_list_update)
  moreover have "concat (stp_hash (sd_sta ?d)) = []" by (simp add: sta_start_def rtw_init_sta_priv_def)
  ultimately show ?thesis
    unfolding sta_inv_def Let_def live_start by (auto simp: sta_start_def rtw_init_sta_priv_def)
qed

text \<open>
  C31. In every run of an adapter the table of its stations stays in order: each of the slots
  is in the queue of the free ones or in one bucket, in that of the address of its station, the
  counter is the number of stations, no two stations have the same identifier apart from those
  that have none and those that share the identifier of management frames, and the frames of
  the pool and of the stations together stay the same.
\<close>

theorem station_table_invariant:
  assumes "sta_step\<^sup>*\<^sup>* (sta_start n own cam rp) d" "1 < n" "n \<le> 32"
  shows "mset (stp_free (sd_sta d) @ concat (stp_hash (sd_sta d))) = mset [0..<NUM_STA]
    \<and> (\<forall>i < NUM_STA. \<forall>s \<in> set (stp_hash (sd_sta d) ! i). wifi_mac_hash (sta_mac d s) = i)
    \<and> stp_count (sd_sta d) = int (length (concat (stp_hash (sd_sta d))))
    \<and> (\<forall>s \<in> set (concat (stp_hash (sd_sta d))). \<forall>t \<in> set (concat (stp_hash (sd_sta d))).
          s \<noteq> t \<and> macid_of d s = macid_of d t \<longrightarrow> macid_of d s = RTW_DEFAULT_MGMT_MACID \<or> macid_of d s = mc_num (sd_macid d))
    \<and> tab_held d = pool_ids rp"
proof (intro conjI)
  have run: "sta_inv [] d" "tab_held d = tab_held (sta_start n own cam rp)"
    using sta_run_inv [OF assms(1)] sta_start_inv [OF assms(2,3)] by auto
  then have i: "distinct (stp_free (sd_sta d))" "set (stp_free (sd_sta d)) \<subseteq> {..<NUM_STA}" "distinct (concat (stp_hash (sd_sta d)))"
    "set (concat (stp_hash (sd_sta d))) = live d" "stp_count (sd_sta d) + int (length (stp_free (sd_sta d))) = int NUM_STA"
    "mac_ok (live d) d" "\<forall>i < NUM_STA. \<forall>s \<in> set (stp_hash (sd_sta d) ! i). wifi_mac_hash (sta_mac d s) = i"
    unfolding sta_inv_def Let_def by auto
  have dist: "distinct (stp_free (sd_sta d) @ concat (stp_hash (sd_sta d)))" using i(1,3,4) by (auto simp: live_def)
  moreover have "set (stp_free (sd_sta d) @ concat (stp_hash (sd_sta d))) = set [0..<NUM_STA]"
    using i(2,4) by (auto simp: live_def)
  ultimately show ms: "mset (stp_free (sd_sta d) @ concat (stp_hash (sd_sta d))) = mset [0..<NUM_STA]"
    by (metis distinct_upt set_eq_iff_mset_eq_distinct)
  show "\<forall>i < NUM_STA. \<forall>s \<in> set (stp_hash (sd_sta d) ! i). wifi_mac_hash (sta_mac d s) = i" by (rule i(7))
  have "length (stp_free (sd_sta d)) + length (concat (stp_hash (sd_sta d))) = NUM_STA"
    using mset_eq_length [OF ms] by simp
  then show "stp_count (sd_sta d) = int (length (concat (stp_hash (sd_sta d))))" using i(5) by linarith
  show "\<forall>s \<in> set (concat (stp_hash (sd_sta d))). \<forall>t \<in> set (concat (stp_hash (sd_sta d))).
      s \<noteq> t \<and> macid_of d s = macid_of d t \<longrightarrow> macid_of d s = RTW_DEFAULT_MGMT_MACID \<or> macid_of d s = mc_num (sd_macid d)"
    using mac_ok_unique [OF i(6)] i(4) by metis
  show "tab_held d = pool_ids rp"
    unfolding run(2) by (rule tab_held_start)
qed

section \<open>The map of stations\<close>

text \<open>The stations as the receive path reads them (\<open>ad_stapriv\<close>).\<close>

definition bucket_find :: "sta_dev \<Rightarrow> mac \<Rightarrow> nat option" where
  "bucket_find d a = find (\<lambda>s. sta_mac d s = a) (stp_hash (sd_sta d) ! wifi_mac_hash a)"

definition stas_of :: "sta_dev \<Rightarrow> mac \<Rightarrow> sta_info option" where
  "stas_of d a = map_option (\<lambda>s. si_rx (stp_slots (sd_sta d) ! s)) (bucket_find d a)"

lemma bucket_find_SomeI:
  assumes "sta_inv [] d" "inj_on (sta_mac d) (live d)" "s \<in> live d" "sta_mac d s = a"
  shows "bucket_find d a = Some s"
proof -
  have len: "length (stp_hash (sd_sta d)) = NUM_STA" and all: "set (concat (stp_hash (sd_sta d))) = live d"
    and hash: "\<And>i s. i < NUM_STA \<Longrightarrow> s \<in> set (stp_hash (sd_sta d) ! i) \<Longrightarrow> wifi_mac_hash (sta_mac d s) = i"
    using assms(1) unfolding sta_inv_def Let_def by auto
  obtain i where "i < NUM_STA" "s \<in> set (stp_hash (sd_sta d) ! i)"
    using assms(3) len unfolding all [symmetric] by (auto simp: in_set_conv_nth [of _ "stp_hash (sd_sta d)"])
  then have here: "s \<in> set (stp_hash (sd_sta d) ! wifi_mac_hash a)" using hash [of i s] assms(4) by simp
  show ?thesis
  proof (cases "bucket_find d a")
    case None
    then show ?thesis using here assms(4) by (auto simp: bucket_find_def find_None_iff)
  next
    case (Some t)
    then have t: "t \<in> set (stp_hash (sd_sta d) ! wifi_mac_hash a)" "sta_mac d t = a"
      by (auto simp: bucket_find_def find_Some_iff)
    then have "t \<in> set (concat (stp_hash (sd_sta d)))" using len wifi_mac_hash_bound [of a] by (auto intro: nth_mem)
    then have "t \<in> live d" unfolding all .
    then have "t = s" using inj_onD [OF assms(2)] t(2) assms(3,4) by blast
    then show ?thesis using Some by simp
  qed
qed

lemma bucket_find_SomeD:
  assumes "sta_inv [] d" "bucket_find d a = Some s"
  shows "s \<in> live d" "sta_mac d s = a"
proof -
  have len: "length (stp_hash (sd_sta d)) = NUM_STA" and all: "set (concat (stp_hash (sd_sta d))) = live d"
    using assms(1) unfolding sta_inv_def Let_def by auto
  have s: "s \<in> set (stp_hash (sd_sta d) ! wifi_mac_hash a)" "sta_mac d s = a"
    using assms(2) by (auto simp: bucket_find_def find_Some_iff)
  then have "s \<in> set (concat (stp_hash (sd_sta d)))" using len wifi_mac_hash_bound [of a] by (auto intro: nth_mem)
  then show "s \<in> live d" unfolding all .
  show "sta_mac d s = a" by (rule s(2))
qed

lemma stas_of_None:
  assumes "sta_inv [] d" "inj_on (sta_mac d) (live d)"
  shows "stas_of d a = None \<longleftrightarrow> (\<forall>s \<in> live d. sta_mac d s \<noteq> a)"
proof (cases "bucket_find d a")
  case None
  then have "\<forall>s \<in> live d. sta_mac d s \<noteq> a" using bucket_find_SomeI [OF assms, of _ a] by fastforce
  then show ?thesis using None by (simp add: stas_of_def)
next
  case (Some s)
  then show ?thesis using bucket_find_SomeD [OF assms(1) Some] by (auto simp: stas_of_def)
qed

lemma stas_of_Some:
  assumes "sta_inv [] d" "inj_on (sta_mac d) (live d)" "s \<in> live d" "sta_mac d s = a"
  shows "stas_of d a = Some (si_rx (stp_slots (sd_sta d) ! s))"
  using bucket_find_SomeI [OF assms] by (simp add: stas_of_def)

text \<open>Two tables with the same stations but one, whose addresses differ, are the same map but for its address.\<close>

lemma stas_of_eqI:
  assumes d: "sta_inv [] d" "inj_on (sta_mac d) (live d)" and e: "sta_inv [] e" "inj_on (sta_mac e) (live e)"
    and same: "{s \<in> live e. sta_mac e s = b} = {s \<in> live d. sta_mac d s = b}"
      "\<And>s. s \<in> live d \<Longrightarrow> sta_mac d s = b \<Longrightarrow> si_rx (stp_slots (sd_sta e) ! s) = si_rx (stp_slots (sd_sta d) ! s)"
  shows "stas_of e b = stas_of d b"
proof (cases "\<exists>s \<in> live d. sta_mac d s = b")
  case True
  then obtain s where s: "s \<in> live d" "sta_mac d s = b" by blast
  then have "s \<in> live e" "sta_mac e s = b" using same(1) by blast+
  then show ?thesis using stas_of_Some [OF d s] stas_of_Some [OF e] same(2) [OF s] by simp
next
  case False
  then have "stas_of d b = None" "stas_of e b = None"
    using stas_of_None [OF d] stas_of_None [OF e] same(1) by blast+
  then show ?thesis by simp
qed

lemma hash_get_refines:
  assumes "ad_stapriv ad = stas_of d"
  shows "map_option (\<lambda>s. si_rx (stp_slots (sd_sta d) ! s)) (hash_get_stainfo (sd_sta d) a) = rtw_get_stainfo ad a"
  using assms by (simp add: hash_get_stainfo_def rtw_get_stainfo_def stas_of_def bucket_find_def sta_mac_def Let_def)

text \<open>
  C32. The table of stations refines the map from addresses to stations that the receive path
  reads: a lookup in the table is a lookup in the map; a new station for an address that has
  none, while a slot is free, adds it in its initial state; a station that is freed is removed;
  all other stations stay as they are, no two have the same address, and the slot that is
  returned is the one that answers for the address.
\<close>

theorem station_table_refines_map:
  assumes inv: "sta_inv [] d" "inj_on (sta_mac d) (live d)" and ad: "ad_stapriv ad = stas_of d"
  shows "map_option (\<lambda>s. si_rx (stp_slots (sd_sta d) ! s)) (hash_get_stainfo (sd_sta d) b) = rtw_get_stainfo ad b
    \<and> (stas_of d a = None \<longrightarrow>
        (case rtw_alloc_stainfo a d of
           (None, e) \<Rightarrow> e = d \<and> live d = {..<NUM_STA}
         | (Some s, e) \<Rightarrow> stas_of e = (stas_of d)(a \<mapsto> fresh_sta a) \<and> bucket_find e a = Some s
             \<and> sta_inv [] e \<and> inj_on (sta_mac e) (live e)))
    \<and> (s \<in> live d \<longrightarrow>
        (let e = rtw_free_stainfo s d
         in stas_of e = (stas_of d)(sta_mac d s := None) \<and> sta_inv [] e \<and> inj_on (sta_mac e) (live e)))"
proof (intro conjI impI)
  show "map_option (\<lambda>s. si_rx (stp_slots (sd_sta d) ! s)) (hash_get_stainfo (sd_sta d) b) = rtw_get_stainfo ad b"
    by (rule hash_get_refines [OF ad])
next
  assume none: "stas_of d a = None"
  show "case rtw_alloc_stainfo a d of
           (None, e) \<Rightarrow> e = d \<and> live d = {..<NUM_STA}
         | (Some s, e) \<Rightarrow> stas_of e = (stas_of d)(a \<mapsto> fresh_sta a) \<and> bucket_find e a = Some s
             \<and> sta_inv [] e \<and> inj_on (sta_mac e) (live e)"
  proof (cases "stp_free (sd_sta d)")
    case Nil
    then show ?thesis by (simp add: rtw_alloc_stainfo_def live_def)
  next
    case (Cons s rest)
    define e where "e = snd (rtw_alloc_stainfo a d)"
    have e: "rtw_alloc_stainfo a d = (Some s, e)" unfolding e_def alloc_Some_sta [OF Cons] by simp
    have inv': "sta_inv [] e" unfolding e_def using alloc_inv [OF inv(1)] by blast
    have i: "length (stp_slots (sd_sta d)) = NUM_STA" "distinct (s # rest)" "s < NUM_STA"
      using inv(1) Cons unfolding sta_inv_def Let_def by auto
    have live: "live e = insert s (live d)" "s \<notin> live d"
      using i Cons unfolding e_def alloc_Some_sta [OF Cons] by (auto simp: live_def)
    have slot: "si_rx (stp_slots (sd_sta e) ! t) = (if t = s then fresh_sta a else si_rx (stp_slots (sd_sta d) ! t))" for t
      using i(1,3) unfolding e_def alloc_Some_sta [OF Cons] by simp
    have mac: "sta_mac e t = (if t = s then a else sta_mac d t)" for t by (simp add: sta_mac_def slot fresh_sta_def)
    have free: "\<forall>t \<in> live d. sta_mac d t \<noteq> a" using none stas_of_None [OF inv] by simp
    have inj: "inj_on (sta_mac e) (live e)"
      unfolding live(1) using inv(2) free live(2) by (auto simp: inj_on_def mac)
    have here: "s \<in> live e" "sta_mac e s = a" using live by (auto simp: mac)
    have "stas_of e c = ((stas_of d)(a \<mapsto> fresh_sta a)) c" for c
    proof (cases "c = a")
      case True
      then show ?thesis using stas_of_Some [OF inv' inj here] by (simp add: slot)
    next
      case False
      then have "stas_of e c = stas_of d c"
        using live(2) by (intro stas_of_eqI [OF inv inv' inj]) (auto simp: live(1) mac slot)
      then show ?thesis using False by simp
    qed
    then show ?thesis using e inv' inj bucket_find_SomeI [OF inv' inj here] by auto
  qed
next
  assume s: "s \<in> live d"
  define e where "e = rtw_free_stainfo s d"
  have hashed: "s \<in> set (concat (stp_hash (sd_sta d)))" using s inv(1) unfolding sta_inv_def Let_def by auto
  have inv': "sta_inv [] e" unfolding e_def using free_hashed_inv [OF inv(1) hashed] by blast
  have len: "length (stp_slots (sd_sta d)) = NUM_STA" using inv(1) unfolding sta_inv_def Let_def by auto
  have live: "live e = live d - {s}" by (auto simp: e_def live_def rtw_free_stainfo_def Let_def)
  have slot: "si_rx (stp_slots (sd_sta e) ! t) = si_rx (stp_slots (sd_sta d) ! t)" if "t \<in> live d" "t \<noteq> s" for t
    using that len by (simp add: e_def rtw_free_stainfo_def Let_def flush_sta_slot live_def)
  then have mac: "sta_mac e t = sta_mac d t" if "t \<in> live d" "t \<noteq> s" for t using that by (simp add: sta_mac_def)
  have inj: "inj_on (sta_mac e) (live e)" unfolding live using inv(2) mac by (auto simp: inj_on_def)
  have "stas_of e c = ((stas_of d)(sta_mac d s := None)) c" for c
  proof (cases "c = sta_mac d s")
    case True
    have "stas_of e c = None" unfolding stas_of_None [OF inv' inj]
      using True inj_onD [OF inv(2), of _ s] s mac by (auto simp: live)
    then show ?thesis using True by simp
  next
    case False
    then have "stas_of e c = stas_of d c"
      using s slot mac by (intro stas_of_eqI [OF inv inv' inj]) (auto simp: live)
    then show ?thesis using False by simp
  qed
  then show "let e = rtw_free_stainfo s d in stas_of e = (stas_of d)(sta_mac d s := None) \<and> sta_inv [] e \<and> inj_on (sta_mac e) (live e)"
    using inv' inj by (auto simp: Let_def simp flip: e_def)
qed

section \<open>The entry of the group key\<close>

text \<open>
  C33. In ad-hoc mode the broadcast station takes an identifier whose entry in the table of keys
  is free, and with 256-bit keys also the entry behind it, without a look at whether that one
  is in use. When the station is freed, the entry behind it is given back: the key of another
  station that is in it counts as free from then on.
\<close>

theorem bmc_frees_foreign_entry:
  assumes inv: "sta_inv [] d" and free: "stp_free (sd_sta d) = s # rest"
    and adhoc: "\<not> sd_sta_or_null d" "sd_mac d \<noteq> bc_addr" "rtw_camctl_chk_cap (sd_cam d) SEC_CAP_CHK_EXTRA_SEC"
    and i: "find (\<lambda>i. \<not> rtw_sec_camid_is_used (sd_cam d) i \<and> \<not> rtw_macid_is_used (sd_macid d) i) [0..<mc_num (sd_macid d)] = Some i"
    and bmc: "length (mc_iface_bmc (sd_macid d)) = 1" and taken: "rtw_sec_camid_is_used (sd_cam d) (i + 1)"
  shows "\<exists>e. rtw_alloc_stainfo bc_addr d = (Some s, e) \<and> rtw_iface_bcmc_id_get (sd_macid e) 0 = i
    \<and> \<not> rtw_sec_camid_is_used (sd_cam (rtw_free_stainfo s e)) (i + 1)"
proof -
  have len: "length (stp_slots (sd_sta d)) = NUM_STA" "s < NUM_STA" "mac_ok (live d) d"
    using inv free unfolding sta_inv_def Let_def by auto
  then have mc: "mc_num (sd_macid d) \<le> 32" "length (mc_if_g (sd_macid d)) = 1" "bit (mc_used (sd_macid d)) 1" "sd_iface d = 0"
    "length (mc_sta (sd_macid d)) = 32"
    unfolding mac_ok_def mac_tab_def by auto
  have si: "i < mc_num (sd_macid d)" "\<not> rtw_macid_is_used (sd_macid d) i" using i by (auto dest: find_upt_SomeD)
  then have i32: "i < 32" "i \<noteq> 1" using mc(1,3) by (auto simp: rtw_macid_is_used_def macid_is_set)
  have ci: "i < cc_num (sd_cam d)" using taken by (simp add: is_used_iff)
  define d1 where "d1 = d\<lparr>sd_sta := (sd_sta d)\<lparr>stp_free := rest,
       stp_slots := (stp_slots (sd_sta d))[s := \<lparr>si_macid = 0, si_rx = fresh_sta bc_addr\<rparr>],
       stp_hash := (stp_hash (sd_sta d))[wifi_mac_hash bc_addr := stp_hash (sd_sta d) ! wifi_mac_hash bc_addr @ [s]],
       stp_count := stp_count (sd_sta d) + 1\<rparr>\<rparr>"
  define e where "e = rtw_alloc_macid s d1"
  have alloc: "rtw_alloc_stainfo bc_addr d = (Some s, e)" unfolding alloc_Some_sta [OF free] e_def d1_def by simp
  have m1: "sta_mac d1 s = bc_addr" using len by (simp add: sta_mac_def d1_def fresh_sta_def)
  have d1: "sd_mac d1 = sd_mac d" "sd_iface d1 = 0" "sd_sta_or_null d1 = sd_sta_or_null d" "sd_macid d1 = sd_macid d" "sd_cam d1 = sd_cam d"
    "length (stp_slots (sd_sta d1)) = NUM_STA"
    using len mc(4) by (simp_all add: d1_def)
  define mc' where "mc' = (sd_macid d)\<lparr>mc_used := rtw_macid_map_set (mc_used (sd_macid d)) i,
    mc_bmc := rtw_macid_map_set (mc_bmc (sd_macid d)) i, mc_iface_bmc := (mc_iface_bmc (sd_macid d))[0 := INVALID_SEC_MAC_CAM_ID, 0 := i],
    mc_if_g := (mc_if_g (sd_macid d))[0 := rtw_macid_map_set (mc_if_g (sd_macid d) ! 0) i], mc_sta := (mc_sta (sd_macid d))[i := Some s]\<rparr>"
  define cam where "cam = (sd_cam d)\<lparr>cc_used := rtw_sec_cam_map_set (rtw_sec_cam_map_set (cc_used (sd_cam d)) i) (i + 1)\<rparr>"
  have form: "e = set_macid s i (d1\<lparr>sd_macid := mc', sd_cam := cam\<rparr>)"
    using i adhoc by (simp add: e_def rtw_alloc_macid_def Let_def d1 m1 rtw_iface_bcmc_id_set_def rtw_macid_is_used_def mc'_def cam_def)
  have m2: "sta_mac (d1\<lparr>sd_macid := x, sd_cam := y\<rparr>) s = bc_addr" for x y using m1 by (simp add: sta_mac_def)
  have e: "sta_mac e s = bc_addr" "macid_of e s = i" "sd_mac e = sd_mac d" "sd_iface e = 0" "mc_num (sd_macid e) = mc_num (sd_macid d)"
    "mc_used (sd_macid e) = rtw_macid_map_set (mc_used (sd_macid d)) i"
    "mc_if_g (sd_macid e) = (mc_if_g (sd_macid d))[0 := rtw_macid_map_set (mc_if_g (sd_macid d) ! 0) i]"
    "mc_iface_bmc (sd_macid e) ! 0 = i" "length (mc_iface_bmc (sd_macid e)) = 1"
    "sd_cam e = (sd_cam d)\<lparr>cc_used := rtw_sec_cam_map_set (rtw_sec_cam_map_set (cc_used (sd_cam d)) i) (i + 1)\<rparr>"
    "length (stp_slots (sd_sta e)) = NUM_STA"
    using bmc len(2) by (simp_all add: form m2 d1 mc'_def cam_def)
  define f where "f = flush_sta s (e\<lparr>sd_sta := (unhash {s} (sd_sta e))\<lparr>stp_count := stp_count (sd_sta e) - 1\<rparr>\<rparr>)"
  have f: "sta_mac f s = bc_addr" "si_macid (stp_slots (sd_sta f) ! s) = i" "sd_macid f = sd_macid e" "sd_mac f = sd_mac d" "sd_iface f = 0" "sd_cam f = sd_cam e"
    using e len(2) flush_sta_slot [of s "e\<lparr>sd_sta := (unhash {s} (sd_sta e))\<lparr>stp_count := stp_count (sd_sta e) - 1\<rparr>\<rparr>" s]
    by (simp_all add: f_def sta_mac_def macid_of_def)
  have bmp: "rtw_macid_get_iface_bmp (sd_macid e) i = 1" using mc(2) i32 by (subst iface_bmp_one) (simp_all add: e macid_map_set)
  have used: "rtw_macid_is_used (sd_macid e) i" using i32 by (simp add: rtw_macid_is_used_def macid_is_set e macid_map_set)
  have "sd_cam (rtw_release_macid s f)
      = (sd_cam e)\<lparr>cc_used := rtw_sec_cam_map_clr (rtw_sec_cam_map_clr (cc_used (sd_cam e)) i) (i + 1)\<rparr>"
    using adhoc(2,3) si i32 ci
    by (simp add: rtw_release_macid_def Let_def f bmp used e rtw_iface_bcmc_id_get_def RTW_DEFAULT_MGMT_MACID_def INVALID_SEC_MAC_CAM_ID_def
        rtw_camctl_chk_cap_def)
  moreover have "sd_cam (rtw_free_stainfo s e) = sd_cam (rtw_release_macid s f)"
    by (simp add: rtw_free_stainfo_def f_def Let_def)
  ultimately have "\<not> rtw_sec_camid_is_used (sd_cam (rtw_free_stainfo s e)) (i + 1)"
    by (simp add: rtw_sec_camid_is_used_def map_clr_bit)
  then show ?thesis using alloc e(8) by (auto simp: rtw_iface_bcmc_id_get_def)
qed

section \<open>Examples\<close>

lemma alloc_step_start:
  "sta_step\<^sup>*\<^sup>* (sta_start n own cam rp) (snd (rtw_alloc_stainfo a (sta_start n own cam rp)))"
  by (rule r_into_rtranclp, rule sta_step.alloc)

theorem station_table_invariant_witness:
  "let d = snd (rtw_alloc_stainfo [2, 0, 0, 0, 0, 7] (sta_start 32 [2, 0, 0, 0, 0, 9] (fresh_cam 3 32 (\<lambda>_. 0)) ex_recv_priv))
   in mset (stp_free (sd_sta d) @ concat (stp_hash (sd_sta d))) = mset [0..<NUM_STA]
     \<and> stp_count (sd_sta d) = int (length (concat (stp_hash (sd_sta d)))) \<and> tab_held d = pool_ids ex_recv_priv"
  using station_table_invariant [OF alloc_step_start, of 32 "[2, 0, 0, 0, 0, 7]" "[2, 0, 0, 0, 0, 9]" "fresh_cam 3 32 (\<lambda>_. 0)" ex_recv_priv]
  by (simp add: Let_def)

theorem station_table_refines_map_witness:
  "case rtw_alloc_stainfo [2, 0, 0, 0, 0, 7] (sta_start 32 [2, 0, 0, 0, 0, 9] (fresh_cam 3 32 (\<lambda>_. 0)) ex_recv_priv) of
     (None, e) \<Rightarrow> False
   | (Some s, e) \<Rightarrow> stas_of e [2, 0, 0, 0, 0, 7] = Some (fresh_sta [2, 0, 0, 0, 0, 7])"
proof -
  let ?d = "sta_start 32 [2, 0, 0, 0, 0, 9] (fresh_cam 3 32 (\<lambda>_. 0)) ex_recv_priv"
  have inv: "sta_inv [] ?d" by (rule sta_start_inv) simp_all
  have inj: "inj_on (sta_mac ?d) (live ?d)" by simp
  have none: "stas_of ?d [2, 0, 0, 0, 0, 7] = None" unfolding stas_of_None [OF inv inj] by simp
  show ?thesis
  proof (cases "rtw_alloc_stainfo [2, 0, 0, 0, 0, 7] ?d")
    case (Pair r e)
    have "0 \<in> {..<NUM_STA}" by (simp add: NUM_STA_def)
    then have "live ?d \<noteq> {..<NUM_STA}" unfolding live_start by blast
    then show ?thesis
      using station_table_refines_map [OF inv inj, of "ex_adapter\<lparr>ad_stapriv := stas_of ?d\<rparr>" "[2, 0, 0, 0, 0, 7]" "[2, 0, 0, 0, 0, 7]" 0] none Pair
      by (cases r) simp_all
  qed
qed

theorem bmc_frees_foreign_entry_witness:
  "let d = (sta_start 32 [2, 0, 0, 0, 0, 9] ((fresh_cam 3 32 (\<lambda>_. 0))\<lparr>cc_used := 2\<rparr>) ex_recv_priv)\<lparr>sd_sta_or_null := False\<rparr>;
       (r, e) = rtw_alloc_stainfo bc_addr d
   in r = Some 0 \<and> rtw_sec_camid_is_used (sd_cam d) 1 \<and> \<not> rtw_sec_camid_is_used (sd_cam (rtw_free_stainfo 0 e)) 1"
proof -
  let ?s = "sta_start 32 [2, 0, 0, 0, 0, 9] ((fresh_cam 3 32 (\<lambda>_. 0))\<lparr>cc_used := 2\<rparr>) ex_recv_priv"
  let ?d = "?s\<lparr>sd_sta_or_null := False\<rparr>"
  have "sta_step ?s ?d" by (rule sta_step.mode)
  then have inv: "sta_inv [] ?d" using sta_step_inv sta_start_inv [of 32] by auto
  have free: "stp_free (sd_sta ?d) = 0 # [1..<32]" by (simp add: sta_start_def rtw_init_sta_priv_def NUM_STA_def upt_rec del: upt_Suc)
  have used: "rtw_sec_camid_is_used (sd_cam ?d) (0 + 1)" by (simp add: sta_start_def fresh_cam_def is_used_iff)
  have find: "find (\<lambda>i. \<not> rtw_sec_camid_is_used (sd_cam ?d) i \<and> \<not> rtw_macid_is_used (sd_macid ?d) i) [0..<mc_num (sd_macid ?d)] = Some 0"
    by (rule find_upt_first) (simp_all add: sta_start_def fresh_cam_def is_used_iff rtw_macid_is_used_def macid_is_set
        rtw_macid_ctl_init_def macid_map_set RTW_DEFAULT_MGMT_MACID_def)
  have own: "sd_mac ?d \<noteq> bc_addr" by (simp add: sta_start_def) code_simp
  have cap: "rtw_camctl_chk_cap (sd_cam ?d) SEC_CAP_CHK_EXTRA_SEC" by (simp add: sta_start_def fresh_cam_def rtw_camctl_chk_cap_def SEC_CAP_CHK_EXTRA_SEC_def)
  have one: "length (mc_iface_bmc (sd_macid ?d)) = 1" by (simp add: sta_start_def rtw_macid_ctl_init_def)
  obtain e where "rtw_alloc_stainfo bc_addr ?d = (Some 0, e)" "\<not> rtw_sec_camid_is_used (sd_cam (rtw_free_stainfo 0 e)) (0 + 1)"
    using bmc_frees_foreign_entry [OF inv free _ own cap find one used] by auto
  then show ?thesis using used by (simp add: Let_def)
qed

section \<open>The number of connections of a role\<close>

text \<open>\<open>mc_op_num\<close> counts the connected peers of a role, as long as no peer changes its role while connected.\<close>

definition op_peers :: "macid_ctl \<Rightarrow> nat \<Rightarrow> nat set" where
  "op_peers mc r = {i. i < mc_num mc \<and> bit (mc_h2c_msr mc ! i) 0 \<and> unat (drop_bit 4 (mc_h2c_msr mc ! i)) = r}"

definition op_ok :: "macid_ctl \<Rightarrow> bool" where
  "op_ok mc \<longleftrightarrow> (\<forall>r < 8. mc_op_num mc ! r = of_nat (card (op_peers mc r)))
     \<and> mc_num mc \<le> length (mc_h2c_msr mc) \<and> length (mc_op_num mc) = 8"

lemma op_peers_upd:
  assumes "i < mc_num mc" "mc_num mc \<le> length (mc_h2c_msr mc)" "mc_num m = mc_num mc" "mc_h2c_msr m = (mc_h2c_msr mc)[i := msr]"
  shows "op_peers m r = (if bit msr 0 \<and> unat (drop_bit 4 msr) = r then insert i (op_peers mc r) else op_peers mc r - {i})"
  using assms by (auto simp: op_peers_def nth_list_update)

lemma op_peers_finite [simp]: "finite (op_peers mc r)"
  by (simp add: op_peers_def)

lemma set_h2c_msr_counts:
  assumes ok: "op_ok mc" and i: "i < mc_num mc"
    and role: "bit (mc_h2c_msr mc ! i) 0 \<Longrightarrow> bit msr 0 \<Longrightarrow> drop_bit 4 msr = drop_bit 4 (mc_h2c_msr mc ! i)"
  shows "op_ok (snd (rtw_macid_ctl_set_h2c_msr mc i msr))"
proof -
  let ?old = "mc_h2c_msr mc ! i"
  define m where "m = snd (rtw_macid_ctl_set_h2c_msr mc i msr)"
  have len: "mc_num mc \<le> length (mc_h2c_msr mc)" "length (mc_op_num mc) = 8" using ok by (simp_all add: op_ok_def)
  have m: "mc_num m = mc_num mc" "mc_h2c_msr m = (mc_h2c_msr mc)[i := msr]" "length (mc_op_num m) = 8"
    using i len by (auto simp: m_def rtw_macid_ctl_set_h2c_msr_def Let_def)
  have num: "mc_op_num m ! r = mc_op_num mc ! r
      + (if bit ?old 0 \<and> \<not> bit msr 0 \<and> unat (drop_bit 4 ?old) = r then -1
         else if \<not> bit ?old 0 \<and> bit msr 0 \<and> unat (drop_bit 4 msr) = r then 1 else 0)" if "r < 8" for r
    using i len that by (auto simp: m_def rtw_macid_ctl_set_h2c_msr_def Let_def nth_list_update)
  have mem: "i \<in> op_peers mc r \<longleftrightarrow> bit ?old 0 \<and> unat (drop_bit 4 ?old) = r" for r
    using i by (simp add: op_peers_def)
  have "mc_op_num m ! r = of_nat (card (op_peers m r))" if r: "r < 8" for r
  proof -
    have cnt: "mc_op_num mc ! r = of_nat (card (op_peers mc r))" using ok r by (simp add: op_ok_def)
    have "i \<in> op_peers mc r \<Longrightarrow> 0 < card (op_peers mc r)" by (auto simp: card_gt_0_iff)
    then show ?thesis
      unfolding op_peers_upd [OF i len(1) m(1,2)] num [OF r] cnt
      using mem [of r] role by (auto simp: card_insert_if card_Diff_singleton_if of_nat_diff)
  qed
  then show ?thesis using len m by (simp add: op_ok_def flip: m_def)
qed

end
