(* ===== verification/Ef_Map.thy ===== *)
theory Ef_Map
  imports Prelude
begin

text \<open>
  The one-time programmable memory (efuse) of the 8822E as a log: the parser of the physical
  cells into the logical map and into the mask of the programmed words
  (\<^verbatim>\<open>hal/halmac/halmac_88xx/halmac_8822e/halmac_efuse_8822e.c\<close>), and what the parsers read
  from an encoded list of entries.

  A map is the list of its bytes. \<open>None\<close> as the result of a parser is an access outside of a
  map; otherwise it returns its status, the index it has reached and the logical map.
\<close>

section \<open>Constants and status codes\<close>

datatype halmac_ret_status =
    HALMAC_RET_SUCCESS | HALMAC_RET_EFUSE_SIZE_INCORRECT | HALMAC_RET_MALLOC_FAIL
  | HALMAC_RET_EFUSE_R_FAIL | HALMAC_RET_EFUSE_W_FAIL | HALMAC_RET_SWITCH_EFUSE_BANK_FAIL
  | HALMAC_RET_BUSY_STATE | HALMAC_RET_ERROR_STATE | HALMAC_RET_EFUSE_BANK_INCORRECT
  | HALMAC_RET_EEPROM_PARSING_FAIL | HALMAC_RET_EFUSE_NOT_ENOUGH | HALMAC_RET_ADR_NOT_ALIGN
  | HALMAC_RET_NULL_POINTER | HALMAC_RET_BUFFER_TOO_SMALL | HALMAC_RET_NO_DLFW
  | HALMAC_RET_CHIP_NOT_SUPPORT | HALMAC_RET_EFUSE_VER_ERR | HALMAC_RET_H2C_SPACE_FULL

definition SEC_CTRL_EFUSE_SIZE_8822E :: nat where "SEC_CTRL_EFUSE_SIZE_8822E = 4"
definition EFUSE_SIZE_8822E :: nat where "EFUSE_SIZE_8822E = 1216"
definition EEPROM_SIZE_8822E :: nat where "EEPROM_SIZE_8822E = 2048"
definition PRTCT_EFUSE_SIZE_8822E :: nat where "PRTCT_EFUSE_SIZE_8822E = 192 + 128 + 512"

section \<open>The parser of the logical map\<close>

text \<open>The header of an entry: the log ends here, or a block, its unset words and where they start.\<close>

datatype otp_header = Hdr_end nat | Hdr_entry u8 u8 nat

definition entry_header :: "bool \<Rightarrow> u8 list \<Rightarrow> nat \<Rightarrow> otp_header option" where
  "entry_header bt_switch phy_map efuse_idx =
     (if efuse_idx \<ge> length phy_map then None
      else
        let hdr = phy_map ! efuse_idx in
        if hdr = 0xff then Some (Hdr_end efuse_idx)
        else if bt_switch \<and> hdr AND 0xF \<noteq> 0xF then
          Some (Hdr_entry (drop_bit 4 (hdr AND 0xF0)) (hdr AND 0x0F) (efuse_idx + 1))
        else if efuse_idx + 1 \<ge> length phy_map then None
        else
          let hdr2 = phy_map ! (efuse_idx + 1) in
          if hdr2 = 0xff then Some (Hdr_end (efuse_idx + 1))
          else Some (Hdr_entry
            (if bt_switch then push_bit 3 (drop_bit 4 (hdr2 AND 0xF0)) + drop_bit 1 (drop_bit 4 (hdr AND 0xF0))
             else drop_bit 4 (hdr2 AND 0xF0) OR push_bit 4 (hdr AND 0x0F))
            (hdr2 AND 0x0F) (efuse_idx + 2)))"

text \<open>The loop over the words of an entry; the list holds the values of \<open>i\<close> that are left.\<close>

fun eeprom_words ::
  "nat \<Rightarrow> nat \<Rightarrow> u8 list \<Rightarrow> u8 \<Rightarrow> u8 \<Rightarrow> nat list \<Rightarrow> nat \<Rightarrow> u8 list \<Rightarrow> (halmac_ret_status \<times> nat \<times> u8 list) option" where
  "eeprom_words efuse_size eeprom_size phy_map blk_idx word_en [] efuse_idx log_map =
     Some (HALMAC_RET_SUCCESS, efuse_idx, log_map)"
| "eeprom_words efuse_size eeprom_size phy_map blk_idx word_en (i # is) efuse_idx log_map =
     (if bit word_en i then eeprom_words efuse_size eeprom_size phy_map blk_idx word_en is efuse_idx log_map
      else
        let eeprom_idx = 8 * unat blk_idx + 2 * i in
        if eeprom_idx + 1 > eeprom_size then Some (HALMAC_RET_EEPROM_PARSING_FAIL, efuse_idx, log_map)
        else if efuse_idx \<ge> length phy_map \<or> eeprom_idx \<ge> length log_map then None
        else
          let log_map = log_map[eeprom_idx := phy_map ! efuse_idx] in
          if efuse_idx + 1 > efuse_size - 1 then Some (HALMAC_RET_EEPROM_PARSING_FAIL, efuse_idx + 1, log_map)
          else if efuse_idx + 1 \<ge> length phy_map \<or> eeprom_idx + 1 \<ge> length log_map then None
          else
            let log_map = log_map[eeprom_idx + 1 := phy_map ! (efuse_idx + 1)] in
            if efuse_idx + 2 > efuse_size then Some (HALMAC_RET_EEPROM_PARSING_FAIL, efuse_idx + 2, log_map)
            else eeprom_words efuse_size eeprom_size phy_map blk_idx word_en is (efuse_idx + 2) log_map)"

lemma entry_header_advances: "entry_header bt phy idx = Some (Hdr_entry blk en k) \<Longrightarrow> idx < k"
  by (auto simp: entry_header_def Let_def split: if_splits)

lemma eeprom_words_advances: "eeprom_words es ee phy blk en is k log = Some (r, k', log') \<Longrightarrow> k \<le> k'"
  by (induction es ee phy blk en "is" k log rule: eeprom_words.induct)
    (force simp: Let_def split: if_splits)+

function eeprom_loop ::
  "bool \<Rightarrow> nat \<Rightarrow> nat \<Rightarrow> u8 list \<Rightarrow> nat \<Rightarrow> u8 list \<Rightarrow> (halmac_ret_status \<times> nat \<times> u8 list) option" where
  "eeprom_loop bt_switch efuse_size eeprom_size phy_map efuse_idx log_map =
     (if efuse_idx \<ge> efuse_size then Some (HALMAC_RET_SUCCESS, efuse_idx, log_map)
      else
        (case entry_header bt_switch phy_map efuse_idx of
           None \<Rightarrow> None
         | Some (Hdr_end efuse_idx) \<Rightarrow> Some (HALMAC_RET_SUCCESS, efuse_idx, log_map)
         | Some (Hdr_entry blk_idx word_en k) \<Rightarrow>
             if k \<ge> efuse_size - 1 then Some (HALMAC_RET_EEPROM_PARSING_FAIL, k, log_map)
             else
               (case eeprom_words efuse_size eeprom_size phy_map blk_idx word_en [0, 1, 2, 3] k log_map of
                  None \<Rightarrow> None
                | Some (status, k', log_map') \<Rightarrow>
                    if status \<noteq> HALMAC_RET_SUCCESS then Some (status, k', log_map')
                    else eeprom_loop bt_switch efuse_size eeprom_size phy_map k' log_map')))"
  by pat_completeness auto
termination
  by (relation "measure (\<lambda>(bt, es, ee, phy, idx, log). es - idx)")
    (auto simp del: eeprom_words.simps dest!: entry_header_advances eeprom_words_advances)

definition eeprom_parser :: "bool \<Rightarrow> nat \<Rightarrow> nat \<Rightarrow> u8 list \<Rightarrow> (halmac_ret_status \<times> nat \<times> u8 list) option" where
  "eeprom_parser bt_switch efuse_size eeprom_size phy_map =
     eeprom_loop bt_switch efuse_size eeprom_size phy_map SEC_CTRL_EFUSE_SIZE_8822E (replicate eeprom_size 0xFF)"

section \<open>The parser of the mask\<close>

definition mask_header :: "u8 list \<Rightarrow> nat \<Rightarrow> otp_header option" where
  "mask_header phy_map efuse_idx =
     (if efuse_idx \<ge> length phy_map then None
      else
        let hdr = phy_map ! efuse_idx in
        if hdr = 0xff then Some (Hdr_end efuse_idx)
        else if efuse_idx + 1 \<ge> length phy_map then None
        else
          let hdr2 = phy_map ! (efuse_idx + 1) in
          if hdr2 = 0xff then Some (Hdr_end efuse_idx)
          else Some (Hdr_entry (drop_bit 4 (hdr2 AND 0xF0) OR push_bit 4 (hdr AND 0x0F)) (hdr2 AND 0x0F) (efuse_idx + 2)))"

fun mask_words ::
  "nat \<Rightarrow> nat \<Rightarrow> u8 \<Rightarrow> u8 \<Rightarrow> nat list \<Rightarrow> nat \<Rightarrow> u8 list \<Rightarrow> (halmac_ret_status \<times> nat \<times> u8 list) option" where
  "mask_words efuse_size eeprom_size blk_idx word_en [] efuse_idx log_mask =
     Some (HALMAC_RET_SUCCESS, efuse_idx, log_mask)"
| "mask_words efuse_size eeprom_size blk_idx word_en (i # is) efuse_idx log_mask =
     (if bit word_en i then mask_words efuse_size eeprom_size blk_idx word_en is efuse_idx log_mask
      else
        let eeprom_idx = 8 * unat blk_idx + 2 * i in
        if eeprom_idx + 1 > eeprom_size then Some (HALMAC_RET_EEPROM_PARSING_FAIL, efuse_idx, log_mask)
        else if eeprom_idx \<ge> length log_mask then None
        else
          let log_mask = log_mask[eeprom_idx := 0] in
          if efuse_idx + 1 > efuse_size - 1 then Some (HALMAC_RET_EEPROM_PARSING_FAIL, efuse_idx + 1, log_mask)
          else if eeprom_idx + 1 \<ge> length log_mask then None
          else
            let log_mask = log_mask[eeprom_idx + 1 := 0] in
            if efuse_idx + 2 > efuse_size then Some (HALMAC_RET_EEPROM_PARSING_FAIL, efuse_idx + 2, log_mask)
            else mask_words efuse_size eeprom_size blk_idx word_en is (efuse_idx + 2) log_mask)"

lemma mask_header_advances: "mask_header phy idx = Some (Hdr_entry blk en k) \<Longrightarrow> idx < k"
  by (auto simp: mask_header_def Let_def split: if_splits)

lemma mask_words_advances: "mask_words es ee blk en is k log = Some (r, k', log') \<Longrightarrow> k \<le> k'"
  by (induction es ee blk en "is" k log rule: mask_words.induct)
    (force simp: Let_def split: if_splits)+

function mask_loop ::
  "nat \<Rightarrow> nat \<Rightarrow> u8 list \<Rightarrow> nat \<Rightarrow> u8 list \<Rightarrow> (halmac_ret_status \<times> nat \<times> u8 list) option" where
  "mask_loop efuse_size eeprom_size phy_map efuse_idx log_mask =
     (if efuse_idx \<ge> efuse_size then Some (HALMAC_RET_SUCCESS, efuse_idx, log_mask)
      else
        (case mask_header phy_map efuse_idx of
           None \<Rightarrow> None
         | Some (Hdr_end efuse_idx) \<Rightarrow> Some (HALMAC_RET_SUCCESS, efuse_idx, log_mask)
         | Some (Hdr_entry blk_idx word_en k) \<Rightarrow>
             if k \<ge> efuse_size - 1 then Some (HALMAC_RET_EEPROM_PARSING_FAIL, k, log_mask)
             else
               (case mask_words efuse_size eeprom_size blk_idx word_en [0, 1, 2, 3] k log_mask of
                  None \<Rightarrow> None
                | Some (status, k', log_mask') \<Rightarrow>
                    if status \<noteq> HALMAC_RET_SUCCESS then Some (status, k', log_mask')
                    else mask_loop efuse_size eeprom_size phy_map k' log_mask')))"
  by pat_completeness auto
termination
  by (relation "measure (\<lambda>(es, ee, phy, idx, log). es - idx)")
    (auto simp del: mask_words.simps dest!: mask_header_advances mask_words_advances)

definition eeprom_mask_parser :: "nat \<Rightarrow> nat \<Rightarrow> u8 list \<Rightarrow> (halmac_ret_status \<times> nat \<times> u8 list) option" where
  "eeprom_mask_parser efuse_size eeprom_size phy_map =
     mask_loop efuse_size eeprom_size phy_map SEC_CTRL_EFUSE_SIZE_8822E (replicate eeprom_size 0xFF)"

declare eeprom_loop.simps [simp del] mask_loop.simps [simp del]

section \<open>Entries\<close>

text \<open>
  An entry programs up to four 16-bit words of a block of eight bytes. It is written as a header
  of two bytes, with a set bit for every word that is left as it is, and the bytes of the others.
\<close>

type_synonym otp_word = "(u8 \<times> u8) option"

record otp_entry =
  oe_blk :: u8
  oe_words :: "otp_word list"

fun word_en_of :: "otp_word list \<Rightarrow> u8" where
  "word_en_of [] = 0"
| "word_en_of (w # ws) = (if w = None then 1 else 0) OR 2 * word_en_of ws"

definition word_bytes :: "otp_word \<Rightarrow> u8 list" where
  "word_bytes w = (case w of None \<Rightarrow> [] | Some (a, b) \<Rightarrow> [a, b])"

definition entry_bytes :: "otp_entry \<Rightarrow> u8 list" where
  "entry_bytes e =
     [drop_bit 4 (oe_blk e AND 0xF0) OR 0x30, push_bit 4 (oe_blk e AND 0x0F) + word_en_of (oe_words e)]
     @ concat (map word_bytes (oe_words e))"

fun apply_words :: "nat \<Rightarrow> otp_word list \<Rightarrow> u8 list \<Rightarrow> u8 list" where
  "apply_words off [] log = log"
| "apply_words off (None # ws) log = apply_words (off + 2) ws log"
| "apply_words off (Some (a, b) # ws) log = apply_words (off + 2) ws (log[off := a, off + 1 := b])"

definition apply_entry :: "otp_entry \<Rightarrow> u8 list \<Rightarrow> u8 list" where
  "apply_entry e log = apply_words (8 * unat (oe_blk e)) (oe_words e) log"

definition clear_entry :: "otp_entry \<Rightarrow> u8 list \<Rightarrow> u8 list" where
  "clear_entry e = apply_words (8 * unat (oe_blk e)) (map (map_option (\<lambda>_. (0, 0))) (oe_words e))"

definition logical_map :: "nat \<Rightarrow> otp_entry list \<Rightarrow> u8 list" where
  "logical_map eeprom_size es = fold apply_entry es (replicate eeprom_size 0xFF)"

definition programmed_mask :: "nat \<Rightarrow> otp_entry list \<Rightarrow> u8 list" where
  "programmed_mask eeprom_size es = fold clear_entry es (replicate eeprom_size 0xFF)"

definition entry_ok :: "nat \<Rightarrow> otp_entry \<Rightarrow> bool" where
  "entry_ok eeprom_size e \<longleftrightarrow>
     length (oe_words e) = 4 \<and> (\<exists>w \<in> set (oe_words e). w \<noteq> None) \<and> 8 * unat (oe_blk e) + 8 \<le> eeprom_size"

lemma word_bytes_simps [simp]: "word_bytes None = []" "word_bytes (Some (a, b)) = [a, b]"
  by (simp_all add: word_bytes_def)

lemma entry_bytes_split:
  "entry_bytes e = [drop_bit 4 (oe_blk e AND 0xF0) OR 0x30, push_bit 4 (oe_blk e AND 0x0F) + word_en_of (oe_words e)]
     @ concat (map word_bytes (oe_words e))"
  by (simp add: entry_bytes_def)

lemma bit_word_en_of: "bit (word_en_of ws) i \<longleftrightarrow> i < 8 \<and> i < length ws \<and> ws ! i = None"
proof (induction ws arbitrary: i)
  case (Cons w ws)
  show ?case
    by (cases i) (auto simp: bit_or_iff bit_double_iff Cons.IH bit_1_iff possible_bit_word)
qed simp

lemma word_en_of_4:
  assumes "length ws = 4"
  shows "word_en_of ws AND 0x0F = word_en_of ws" "word_en_of ws = 0x0F \<longleftrightarrow> (\<forall>w \<in> set ws. w = None)"
proof -
  obtain a b c d where ws: "ws = [a, b, c, d]"
    using assms by (auto simp: eval_nat_numeral length_Suc_conv)
  show "word_en_of ws AND 0x0F = word_en_of ws"
    unfolding ws by (cases a; cases b; cases c; cases d) simp_all
  show "word_en_of ws = 0x0F \<longleftrightarrow> (\<forall>w \<in> set ws. w = None)"
    unfolding ws by (cases a; cases b; cases c; cases d) simp_all
qed

lemma length_apply_words [simp]: "length (apply_words off ws log) = length log"
  by (induction off ws log rule: apply_words.induct) auto

lemma length_apply_entry [simp]: "length (apply_entry e log) = length log"
  by (simp add: apply_entry_def)

lemma length_clear_entry [simp]: "length (clear_entry e log) = length log"
  by (simp add: clear_entry_def)

lemma length_fold_apply [simp]: "length (fold apply_entry es log) = length log"
  by (induction es arbitrary: log) auto

lemma length_fold_clear [simp]: "length (fold clear_entry es log) = length log"
  by (induction es arbitrary: log) auto

lemma length_maps [simp]: "length (logical_map n es) = n" "length (programmed_mask n es) = n"
  by (simp_all add: logical_map_def programmed_mask_def)

section \<open>Reading back what was encoded\<close>

lemma low_nibble_bits:
  fixes w :: u8
  assumes "w AND 0x0F = w" "bit w n"
  shows "n < 4"
proof (rule bit_of_small [OF _ assms(2)])
  have "unat (w AND 0x0F) \<le> unat (0x0F :: u8)"
    using word_and_le1 [of w "0x0F"] by (simp add: word_le_nat_alt)
  then show "unat w < 2 ^ 4" using assms(1) by simp
qed

lemma u8_bits_eqI:
  fixes a b :: u8
  assumes "bit a 0 = bit b 0" "bit a 1 = bit b 1" "bit a 2 = bit b 2" "bit a 3 = bit b 3"
    and "bit a 4 = bit b 4" "bit a 5 = bit b 5" "bit a 6 = bit b 6" "bit a 7 = bit b 7"
  shows "a = b"
proof (rule bit_word_eqI)
  fix n assume "n < LENGTH(8)"
  then have "n \<in> {0, 1, 2, 3, 4, 5, 6, 7}" by auto
  with assms show "bit a n = bit b n" by (elim insertE) simp_all
qed

lemma header_second:
  fixes b w :: u8
  assumes "w AND 0x0F = w"
  shows "push_bit 4 (b AND 0x0F) + w = push_bit 4 (b AND 0x0F) OR w"
proof (rule disjunctive_add)
  fix n show "\<not> bit (push_bit 4 (b AND 0x0F)) n \<or> \<not> bit w n"
    using low_nibble_bits [OF assms, of n] by (simp only: bit_push_bit_iff) auto
qed

lemma header_decode:
  fixes b w :: u8
  assumes w: "w AND 0x0F = w"
  defines "h \<equiv> drop_bit 4 (b AND 0xF0) OR 0x30" and "h2 \<equiv> push_bit 4 (b AND 0x0F) + w"
  shows "h \<noteq> 0xff" "h2 AND 0x0F = w" "drop_bit 4 (h2 AND 0xF0) OR push_bit 4 (h AND 0x0F) = b"
    "w \<noteq> 0x0F \<Longrightarrow> h2 \<noteq> 0xff"
proof -
  have h2: "h2 = push_bit 4 (b AND 0x0F) OR w"
    unfolding h2_def by (rule header_second [OF w])
  have nw: "\<not> bit w 4" "\<not> bit w 5" "\<not> bit w 6" "\<not> bit w 7"
    using low_nibble_bits [OF w, of 4] low_nibble_bits [OF w, of 5] low_nibble_bits [OF w, of 6] low_nibble_bits [OF w, of 7]
    by auto
  note bits = bit_or_iff bit_and_iff bit_drop_bit_eq bit_push_bit_iff o_def
  have "\<not> bit h 6"
    unfolding h_def bit_or_iff bit_drop_bit_eq using bit_imp_le_length [of "b AND 0xF0" 10] by auto
  moreover have "bit (0xff :: u8) 6" by simp
  ultimately show "h \<noteq> 0xff" by auto
  show low: "h2 AND 0x0F = w"
    by (rule u8_bits_eqI; simp only: h2 bits; simp add: nw)
  show "drop_bit 4 (h2 AND 0xF0) OR push_bit 4 (h AND 0x0F) = b"
    by (rule u8_bits_eqI; simp only: h2 h_def bits; simp add: nw; auto dest: bit_imp_le_length)
  show "w \<noteq> 0x0F \<Longrightarrow> h2 \<noteq> 0xff" using low by auto
qed

lemma entry_ok_header:
  assumes "entry_ok ee e"
  shows "word_en_of (oe_words e) AND 0x0F = word_en_of (oe_words e)" "word_en_of (oe_words e) \<noteq> 0x0F"
  using assms word_en_of_4 [of "oe_words e"] by (auto simp: entry_ok_def)

lemma header_of_entry:
  assumes ok: "entry_ok ee e" and k: "drop idx phy = entry_bytes e @ rest"
  shows "entry_header False phy idx = Some (Hdr_entry (oe_blk e) (word_en_of (oe_words e)) (idx + 2))"
    "mask_header phy idx = Some (Hdr_entry (oe_blk e) (word_en_of (oe_words e)) (idx + 2))"
proof -
  note h = header_decode [OF entry_ok_header(1) [OF ok], of "oe_blk e"]
  have len: "idx + 1 < length phy"
    using arg_cong [OF k, of length] by (simp add: entry_bytes_def)
  have b: "phy ! idx = drop_bit 4 (oe_blk e AND 0xF0) OR 0x30"
    "phy ! (idx + 1) = push_bit 4 (oe_blk e AND 0x0F) + word_en_of (oe_words e)"
    using len arg_cong [OF k, of "\<lambda>l. l ! 0"] arg_cong [OF k, of "\<lambda>l. l ! 1"]
    by (simp_all add: entry_bytes_def)
  show "entry_header False phy idx = Some (Hdr_entry (oe_blk e) (word_en_of (oe_words e)) (idx + 2))"
    using len h(1-3) h(4) [OF entry_ok_header(2) [OF ok]]
    unfolding entry_header_def Let_def b by simp
  show "mask_header phy idx = Some (Hdr_entry (oe_blk e) (word_en_of (oe_words e)) (idx + 2))"
    using len h(1-3) h(4) [OF entry_ok_header(2) [OF ok]]
    unfolding mask_header_def Let_def b by simp
qed

lemma words_of_entry:
  assumes "i + length ws = 4" "\<forall>j < length ws. bit en (i + j) \<longleftrightarrow> ws ! j = None"
    and "drop k phy = concat (map word_bytes ws) @ rest" "k + length (concat (map word_bytes ws)) \<le> es"
    and "8 * unat blk + 8 \<le> ee" "length log = ee"
  shows "eeprom_words es ee phy blk en [i..<4] k log
    = Some (HALMAC_RET_SUCCESS, k + length (concat (map word_bytes ws)), apply_words (8 * unat blk + 2 * i) ws log)"
  using assms
proof (induction ws arbitrary: i k log)
  case Nil
  then show ?case by simp
next
  case (Cons w ws)
  have i: "[i..<4] = i # [Suc i..<4]" using Cons.prems(1) by (simp add: upt_conv_Cons)
  have bits: "\<forall>j < length ws. bit en (Suc i + j) \<longleftrightarrow> ws ! j = None"
  proof (intro allI impI)
    fix j assume "j < length ws"
    then show "bit en (Suc i + j) \<longleftrightarrow> ws ! j = None"
      using Cons.prems(2) by (auto dest: spec [of _ "Suc j"])
  qed
  show ?case
  proof (cases w)
    case None
    then have "bit en i" using Cons.prems(2) by (auto dest: spec [of _ 0])
    with None Cons.prems show ?thesis
      unfolding i using Cons.IH [of "Suc i" k log] bits by (simp add: algebra_simps)
  next
    case (Some ab)
    obtain a b where ab: "ab = (a, b)" by fastforce
    have nb: "\<not> bit en i" using Some Cons.prems(2) by (auto dest: spec [of _ 0])
    have d: "drop k phy = a # b # concat (map word_bytes ws) @ rest"
      using Cons.prems(3) Some ab by simp
    have len: "k + 1 < length phy" using arg_cong [OF d, of length] by simp
    have v: "phy ! k = a" "phy ! (k + 1) = b"
      using len arg_cong [OF d, of "\<lambda>l. l ! 0"] arg_cong [OF d, of "\<lambda>l. l ! 1"] by simp_all
    have d2: "drop (k + 2) phy = concat (map word_bytes ws) @ rest"
      using arg_cong [OF d, of "drop 2"] by (simp add: add.commute)
    have room: "k + 2 + length (concat (map word_bytes ws)) \<le> es"
      using Cons.prems(4) Some ab by simp
    have off: "8 * unat blk + 2 * i + 1 < ee" using Cons.prems(1,5) by simp
    have "eeprom_words es ee phy blk en (i # [Suc i..<4]) k log
        = eeprom_words es ee phy blk en [Suc i..<4] (k + 2)
            (log[8 * unat blk + 2 * i := a, 8 * unat blk + 2 * i + 1 := b])"
      using nb len v off room Cons.prems(6) by (auto simp: Let_def simp del: One_nat_def)
    also have "\<dots> = Some (HALMAC_RET_SUCCESS, k + 2 + length (concat (map word_bytes ws)),
        apply_words (8 * unat blk + 2 * Suc i) ws (log[8 * unat blk + 2 * i := a, 8 * unat blk + 2 * i + 1 := b]))"
      using Cons.IH [of "Suc i" "k + 2"] bits d2 room Cons.prems(1,5,6) by simp
    finally show ?thesis
      unfolding i using Some ab by (simp add: algebra_simps)
  qed
qed

lemma mask_words_of_entry:
  assumes "i + length ws = 4" "\<forall>j < length ws. bit en (i + j) \<longleftrightarrow> ws ! j = None"
    and "k + length (concat (map word_bytes ws)) \<le> es" and "8 * unat blk + 8 \<le> ee" "length log = ee"
  shows "mask_words es ee blk en [i..<4] k log
    = Some (HALMAC_RET_SUCCESS, k + length (concat (map word_bytes ws)),
        apply_words (8 * unat blk + 2 * i) (map (map_option (\<lambda>_. (0, 0))) ws) log)"
  using assms
proof (induction ws arbitrary: i k log)
  case Nil
  then show ?case by simp
next
  case (Cons w ws)
  have i: "[i..<4] = i # [Suc i..<4]" using Cons.prems(1) by (simp add: upt_conv_Cons)
  have bits: "\<forall>j < length ws. bit en (Suc i + j) \<longleftrightarrow> ws ! j = None"
  proof (intro allI impI)
    fix j assume "j < length ws"
    then show "bit en (Suc i + j) \<longleftrightarrow> ws ! j = None"
      using Cons.prems(2) by (auto dest: spec [of _ "Suc j"])
  qed
  show ?case
  proof (cases w)
    case None
    then have "bit en i" using Cons.prems(2) by (auto dest: spec [of _ 0])
    with None Cons.prems show ?thesis
      unfolding i using Cons.IH [of "Suc i" k log] bits by (simp add: algebra_simps)
  next
    case (Some ab)
    obtain a b where ab: "ab = (a, b)" by fastforce
    have nb: "\<not> bit en i" using Some Cons.prems(2) by (auto dest: spec [of _ 0])
    have room: "k + 2 + length (concat (map word_bytes ws)) \<le> es"
      using Cons.prems(3) Some ab by simp
    have off: "8 * unat blk + 2 * i + 1 < ee" using Cons.prems(1,4) by simp
    have "mask_words es ee blk en (i # [Suc i..<4]) k log
        = mask_words es ee blk en [Suc i..<4] (k + 2)
            (log[8 * unat blk + 2 * i := 0, 8 * unat blk + 2 * i + 1 := 0])"
      using nb off room Cons.prems(5) by (auto simp: Let_def simp del: One_nat_def)
    then show ?thesis
      unfolding i using Some ab Cons.IH [of "Suc i" "k + 2"] bits room Cons.prems(1,4,5)
      by (simp add: algebra_simps)
  qed
qed

lemma upt_4: "[0, 1, 2, 3] = [0..<4]"
  by (simp add: upt_rec)

lemma entry_en_bits:
  "entry_ok ee e \<Longrightarrow> \<forall>j < length (oe_words e). bit (word_en_of (oe_words e)) (0 + j) \<longleftrightarrow> oe_words e ! j = None"
  by (auto simp: entry_ok_def bit_word_en_of)

lemma length_entry_bytes: "length (entry_bytes e) = 2 + length (concat (map word_bytes (oe_words e)))"
  by (simp add: entry_bytes_def)

lemma entry_has_word: "entry_ok ee e \<Longrightarrow> 2 \<le> length (concat (map word_bytes (oe_words e)))"
  by (force simp: entry_ok_def in_set_conv_decomp)

lemma one_entry:
  assumes ok: "entry_ok ee e" and d: "drop idx phy = entry_bytes e @ rest"
    and "length phy = es" "length log = ee"
  shows "eeprom_loop False es ee phy idx log
      = eeprom_loop False es ee phy (idx + length (entry_bytes e)) (apply_entry e log)"
    "mask_loop es ee phy idx log = mask_loop es ee phy (idx + length (entry_bytes e)) (clear_entry e log)"
proof -
  let ?ws = "oe_words e"
  have len: "idx + length (entry_bytes e) \<le> es"
    using arg_cong [OF d, of length] assms(3) by (simp add: length_entry_bytes)
  have d2: "drop (idx + 2) phy = concat (map word_bytes ?ws) @ rest"
    using arg_cong [OF d, of "drop 2"] by (simp add: entry_bytes_def add.commute)
  have 4: "0 + length ?ws = 4" "8 * unat (oe_blk e) + 8 \<le> ee" using ok by (simp_all add: entry_ok_def)
  have k: "\<not> idx \<ge> es" "\<not> idx + 2 \<ge> es - 1"
    using len entry_has_word [OF ok] by (simp_all add: length_entry_bytes)
  have room: "idx + 2 + length (concat (map word_bytes ?ws)) \<le> es" using len by (simp add: length_entry_bytes)
  note w = words_of_entry [OF 4(1) entry_en_bits [OF ok] d2 room 4(2) assms(4), folded upt_4]
  note m = mask_words_of_entry [OF 4(1) entry_en_bits [OF ok] room 4(2) assms(4), folded upt_4]
  show "eeprom_loop False es ee phy idx log
      = eeprom_loop False es ee phy (idx + length (entry_bytes e)) (apply_entry e log)"
    by (subst eeprom_loop.simps)
      (simp add: k header_of_entry(1) [OF ok d] w apply_entry_def length_entry_bytes add.assoc del: eeprom_words.simps One_nat_def add_2_eq_Suc')
  show "mask_loop es ee phy idx log = mask_loop es ee phy (idx + length (entry_bytes e)) (clear_entry e log)"
    by (subst mask_loop.simps)
      (simp add: k header_of_entry(2) [OF ok d] m clear_entry_def length_entry_bytes add.assoc del: mask_words.simps One_nat_def add_2_eq_Suc')
qed

text \<open>The log ends where the map does or at an unprogrammed cell.\<close>

definition log_ends :: "u8 list \<Rightarrow> bool" where
  "log_ends rest \<longleftrightarrow> rest = [] \<or> hd rest = 0xff"

lemma loops_end:
  assumes "log_ends (drop idx phy)" "idx \<le> length phy"
  shows "eeprom_loop False (length phy) ee phy idx log = Some (HALMAC_RET_SUCCESS, idx, log)"
    "mask_loop (length phy) ee phy idx log = Some (HALMAC_RET_SUCCESS, idx, log)"
proof -
  have "idx < length phy \<Longrightarrow> phy ! idx = 0xff"
    using assms(1) by (simp add: log_ends_def hd_drop_conv_nth)
  then show "eeprom_loop False (length phy) ee phy idx log = Some (HALMAC_RET_SUCCESS, idx, log)"
    "mask_loop (length phy) ee phy idx log = Some (HALMAC_RET_SUCCESS, idx, log)"
    using assms(2) by (auto simp: eeprom_loop.simps [of _ _ _ _ idx] mask_loop.simps [of _ _ _ idx]
      entry_header_def mask_header_def Let_def)
qed

lemma loops_of_entries:
  assumes "\<forall>e \<in> set es. entry_ok ee e" "drop idx phy = concat (map entry_bytes es) @ rest" "log_ends rest"
    and "idx \<le> length phy" "length log = ee"
  shows "eeprom_loop False (length phy) ee phy idx log
      = Some (HALMAC_RET_SUCCESS, idx + length (concat (map entry_bytes es)), fold apply_entry es log)"
    "mask_loop (length phy) ee phy idx log
      = Some (HALMAC_RET_SUCCESS, idx + length (concat (map entry_bytes es)), fold clear_entry es log)"
proof -
  have "eeprom_loop False (length phy) ee phy idx log
      = Some (HALMAC_RET_SUCCESS, idx + length (concat (map entry_bytes es)), fold apply_entry es log) \<and>
    mask_loop (length phy) ee phy idx log'
      = Some (HALMAC_RET_SUCCESS, idx + length (concat (map entry_bytes es)), fold clear_entry es log')"
    if "length log' = ee" for log'
    using assms that
  proof (induction es arbitrary: idx log log')
    case Nil
    then show ?case using loops_end [of idx phy ee] by simp
  next
    case (Cons e es)
    have ok: "entry_ok ee e" using Cons.prems(1) by simp
    have d: "drop idx phy = entry_bytes e @ concat (map entry_bytes es) @ rest" using Cons.prems(2) by simp
    have d2: "drop (idx + length (entry_bytes e)) phy = concat (map entry_bytes es) @ rest"
      using arg_cong [OF d, of "drop (length (entry_bytes e))"] by (simp add: add.commute)
    have le: "idx + length (entry_bytes e) \<le> length phy"
      using arg_cong [OF d, of length] Cons.prems(4) by simp
    show ?case
      using Cons.IH [of "idx + length (entry_bytes e)" "apply_entry e log" "clear_entry e log'"]
        one_entry(1) [OF ok d refl, of log] one_entry(2) [OF ok d refl, of log'] d2 le Cons.prems
      by (simp add: add.assoc)
  qed
  from this [OF assms(5)] show "eeprom_loop False (length phy) ee phy idx log
      = Some (HALMAC_RET_SUCCESS, idx + length (concat (map entry_bytes es)), fold apply_entry es log)"
    "mask_loop (length phy) ee phy idx log
      = Some (HALMAC_RET_SUCCESS, idx + length (concat (map entry_bytes es)), fold clear_entry es log)"
    by simp_all
qed

text \<open>
  The physical cells that hold the entries \<open>es\<close>: the cells before the log, the entries, and
  cells that are not programmed yet.
\<close>

definition holds_log :: "nat \<Rightarrow> nat \<Rightarrow> u8 list \<Rightarrow> otp_entry list \<Rightarrow> bool" where
  "holds_log efuse_size eeprom_size phy es \<longleftrightarrow>
     length phy = efuse_size \<and> (\<forall>e \<in> set es. entry_ok eeprom_size e) \<and> SEC_CTRL_EFUSE_SIZE_8822E \<le> efuse_size \<and>
     (\<exists>n. drop SEC_CTRL_EFUSE_SIZE_8822E phy = concat (map entry_bytes es) @ replicate n 0xff)"

lemma parsers_of_log:
  assumes "holds_log efuse_size ee phy es"
  shows "eeprom_parser False efuse_size ee phy
      = Some (HALMAC_RET_SUCCESS, SEC_CTRL_EFUSE_SIZE_8822E + length (concat (map entry_bytes es)), logical_map ee es)"
    "eeprom_mask_parser efuse_size ee phy
      = Some (HALMAC_RET_SUCCESS, SEC_CTRL_EFUSE_SIZE_8822E + length (concat (map entry_bytes es)), programmed_mask ee es)"
proof -
  obtain n where d: "drop SEC_CTRL_EFUSE_SIZE_8822E phy = concat (map entry_bytes es) @ replicate n 0xff"
    and ok: "\<forall>e \<in> set es. entry_ok ee e" "SEC_CTRL_EFUSE_SIZE_8822E \<le> length phy" "length phy = efuse_size"
    using assms by (auto simp: holds_log_def)
  have e: "log_ends (replicate n 0xff)" by (cases n) (simp_all add: log_ends_def)
  show "eeprom_parser False efuse_size ee phy
      = Some (HALMAC_RET_SUCCESS, SEC_CTRL_EFUSE_SIZE_8822E + length (concat (map entry_bytes es)), logical_map ee es)"
    "eeprom_mask_parser efuse_size ee phy
      = Some (HALMAC_RET_SUCCESS, SEC_CTRL_EFUSE_SIZE_8822E + length (concat (map entry_bytes es)), programmed_mask ee es)"
    using loops_of_entries [OF ok(1) d e ok(2), of "replicate ee 0xFF"] ok(3)
    by (simp_all add: eeprom_parser_def eeprom_mask_parser_def logical_map_def programmed_mask_def)
qed


section \<open>How far the parser reads\<close>

text \<open>
  The last word of an entry that is cut off by the end of the memory is looked up behind it.
  The map is \<open>phy\<close>, and one byte of whatever follows it in memory.
\<close>

definition same_or_fails :: "(halmac_ret_status \<times> nat \<times> u8 list) option \<Rightarrow> (halmac_ret_status \<times> nat \<times> u8 list) option \<Rightarrow> bool" where
  "same_or_fails short full \<longleftrightarrow>
     (\<exists>r. full = Some r \<and> (short = Some r \<or> short = None \<and> fst r = HALMAC_RET_EEPROM_PARSING_FAIL))"

lemma words_overread:
  assumes "even es" "even ee" "length phy = es + 1" "even k" "k \<le> es" "length log = ee" "2 \<le> es"
  shows "same_or_fails (eeprom_words es ee (take es phy) blk en is k log) (eeprom_words es ee phy blk en is k log)
    \<and> (\<forall>k' log'. eeprom_words es ee phy blk en is k log = Some (HALMAC_RET_SUCCESS, k', log')
        \<longrightarrow> even k' \<and> k' \<le> es \<and> length log' = ee)"
  using assms(4-6)
proof (induction "is" arbitrary: k log)
  case Nil
  then show ?case by (simp add: same_or_fails_def)
next
  case (Cons i "is")
  let ?e = "8 * unat blk + 2 * i"
  show ?case
  proof (cases "bit en i \<or> ?e + 1 > ee")
    case True
    then consider "bit en i" | "\<not> bit en i" "?e + 1 > ee" by blast
    then show ?thesis
    proof cases
      case 1
      then have "eeprom_words es ee p blk en (i # is) k log = eeprom_words es ee p blk en is k log" for p by simp
      then show ?thesis using Cons.IH [of k log] Cons.prems by presburger
    next
      case 2
      then have "eeprom_words es ee p blk en (i # is) k log = Some (HALMAC_RET_EEPROM_PARSING_FAIL, k, log)" for p
        by (simp add: Let_def)
      then show ?thesis by (simp add: same_or_fails_def)
    qed
  next
    case False
    then have e: "\<not> bit en i" "?e + 1 < ee" using assms(2) by (auto elim!: evenE) presburger
    show ?thesis
    proof (cases "k = es")
      case True
      then show ?thesis using e Cons.prems assms(3,7) by (auto simp: same_or_fails_def Let_def)
    next
      case False
      then have k: "k + 2 \<le> es" using Cons.prems(1,2) assms(1) by presburger
      then have len: "k + 1 < es" by simp
      have step: "eeprom_words es ee p blk en (i # is) k log
          = eeprom_words es ee p blk en is (k + 2) (log[?e := p ! k, ?e + 1 := p ! (k + 1)])"
        if "es \<le> length p" for p
        using e k that Cons.prems(3) by (auto simp: Let_def simp del: One_nat_def)
      let ?log = "log[?e := phy ! k, ?e + 1 := phy ! (k + 1)]"
      have full: "eeprom_words es ee phy blk en (i # is) k log = eeprom_words es ee phy blk en is (k + 2) ?log"
        using step [of phy] assms(3) by simp
      have cut: "eeprom_words es ee (take es phy) blk en (i # is) k log
          = eeprom_words es ee (take es phy) blk en is (k + 2) ?log"
        using step [of "take es phy"] assms(3) len by simp
      show ?thesis
        unfolding full cut by (rule Cons.IH) (use Cons.prems k in simp_all)
    qed
  qed
qed

declare eeprom_words.simps(2) [simp del] mask_words.simps(2) [simp del]

lemma loop_entry:
  assumes "idx < es" "entry_header bt phy idx = Some (Hdr_entry blk en k)" "\<not> es - 1 \<le> k"
  shows "eeprom_loop bt es ee phy idx log =
    (case eeprom_words es ee phy blk en [0, 1, 2, 3] k log of
       None \<Rightarrow> None
     | Some (status, k', log') \<Rightarrow>
         if status \<noteq> HALMAC_RET_SUCCESS then Some (status, k', log') else eeprom_loop bt es ee phy k' log')"
  by (subst eeprom_loop.simps) (use assms in \<open>simp add: not_le del: eeprom_words.simps\<close>)

lemma loop_overread:
  assumes "even es" "even ee" "length phy = es + 1" "2 \<le> es" "even idx" "idx \<le> es" "length log = ee"
  shows "same_or_fails (eeprom_loop False es ee (take es phy) idx log) (eeprom_loop False es ee phy idx log)"
  using assms(5-7)
proof (induction "es - idx" arbitrary: idx log rule: less_induct)
  case less
  show ?case
  proof (cases "idx = es")
    case True
    then show ?thesis
      by (simp add: eeprom_loop.simps [of _ _ _ _ es] same_or_fails_def)
  next
    case False
    then have idx: "idx < es" "idx + 1 < es" "idx + 2 \<le> es" using less.prems(1,2) assms(1) by presburger+
    have hdr: "entry_header False (take es phy) idx = entry_header False phy idx"
      using idx assms(3) by (simp add: entry_header_def Let_def)
    have some: "entry_header False phy idx \<noteq> None"
      and adv: "\<And>b en k. entry_header False phy idx = Some (Hdr_entry b en k) \<Longrightarrow> k = idx + 2"
      using idx assms(3) by (auto simp: entry_header_def Let_def split: if_splits)
    show ?thesis
    proof (cases "entry_header False phy idx")
      case (Some h)
      show ?thesis
      proof (cases h)
        case (Hdr_end e)
        then have "eeprom_loop False es ee p idx log = Some (HALMAC_RET_SUCCESS, e, log)"
          if "entry_header False p idx = Some h" for p
          by (subst eeprom_loop.simps) (use that idx in simp)
        then show ?thesis using Some hdr by (simp add: same_or_fails_def)
      next
        case (Hdr_entry blk en k)
        have k: "k = idx + 2" using adv Some Hdr_entry by simp
        show ?thesis
        proof (cases "k \<ge> es - 1")
          case True
          then have "eeprom_loop False es ee p idx log = Some (HALMAC_RET_EEPROM_PARSING_FAIL, k, log)"
            if "entry_header False p idx = Some h" for p
            by (subst eeprom_loop.simps) (use that idx Hdr_entry in simp)
          then show ?thesis using Some hdr by (simp add: same_or_fails_def)
        next
          case short: False
          let ?f = "\<lambda>p. eeprom_words es ee p blk en [0, 1, 2, 3] k log"
          let ?c = "\<lambda>p. case ?f p of None \<Rightarrow> None | Some (status, k', log') \<Rightarrow>
            if status \<noteq> HALMAC_RET_SUCCESS then Some (status, k', log') else eeprom_loop False es ee p k' log'"
          have loops: "eeprom_loop False es ee (take es phy) idx log = ?c (take es phy)"
            "eeprom_loop False es ee phy idx log = ?c phy"
            using loop_entry [OF idx(1), of False "take es phy" blk en k ee log] loop_entry [OF idx(1), of False phy blk en k ee log]
              Some Hdr_entry hdr short by (simp_all only: simp_thms not_False_eq_True)
          have w: "same_or_fails (?f (take es phy)) (?f phy)"
            "\<And>k' log'. ?f phy = Some (HALMAC_RET_SUCCESS, k', log') \<Longrightarrow> even k' \<and> k' \<le> es \<and> length log' = ee"
            using words_overread [OF assms(1-3), of k log blk en "[0, 1, 2, 3]"] less.prems k idx assms(4) by simp_all
          obtain st k' log' where f: "?f phy = Some (st, k', log')"
            and c: "?f (take es phy) = Some (st, k', log') \<or> ?f (take es phy) = None \<and> st = HALMAC_RET_EEPROM_PARSING_FAIL"
            using w(1) unfolding same_or_fails_def by (metis fst_conv prod_cases3)
          show ?thesis
          proof (cases "st = HALMAC_RET_SUCCESS")
            case True
            have "es - k' < es - idx" using eeprom_words_advances [OF f] k idx by simp
            then have "same_or_fails (eeprom_loop False es ee (take es phy) k' log') (eeprom_loop False es ee phy k' log')"
              using less.hyps [of k' log'] w(2) f True by simp
            then show ?thesis unfolding loops using f c True by (auto simp del: eeprom_words.simps)
          next
            case False
            then show ?thesis unfolding loops using f c by (auto simp: same_or_fails_def simp del: eeprom_words.simps)
          qed
        qed
      qed
    qed (use some in simp)
  qed
qed


section \<open>Properties\<close>

text \<open>
  C36. The two parsers are exact on a log: on cells that hold a list of entries, followed by
  cells that are not programmed, the first returns the map that results from the entries in
  their order, the second the mask of their words, and both find where the log ends.
\<close>

theorem efuse_parsers_exact:
  assumes "holds_log efuse_size ee phy es"
  shows "eeprom_parser False efuse_size ee phy
      = Some (HALMAC_RET_SUCCESS, SEC_CTRL_EFUSE_SIZE_8822E + length (concat (map entry_bytes es)), logical_map ee es) \<and>
    eeprom_mask_parser efuse_size ee phy
      = Some (HALMAC_RET_SUCCESS, SEC_CTRL_EFUSE_SIZE_8822E + length (concat (map entry_bytes es)), programmed_mask ee es)"
  using parsers_of_log [OF assms] by blast

definition ex_entries :: "otp_entry list" where
  "ex_entries =
     [\<lparr>oe_blk = 0, oe_words = [Some (0x29, 0x81), None, Some (1, 2), None]\<rparr>,
      \<lparr>oe_blk = 1, oe_words = [None, None, None, Some (0xAA, 0xBB)]\<rparr>,
      \<lparr>oe_blk = 0, oe_words = [None, None, Some (3, 4), None]\<rparr>]"

definition ex_phy :: "u8 list" where
  "ex_phy = [0, 0, 0, 0, 0x30, 0x0A, 0x29, 0x81, 1, 2, 0x30, 0x17, 0xAA, 0xBB, 0x30, 0x0B, 3, 4] @ replicate 14 0xff"

lemma ex_phy_holds: "holds_log 32 16 ex_phy ex_entries"
  unfolding holds_log_def by (intro conjI exI [of _ 14]) (simp_all add: ex_phy_def ex_entries_def entry_ok_def
    entry_bytes_def SEC_CTRL_EFUSE_SIZE_8822E_def)

theorem efuse_parsers_exact_witness:
  "eeprom_parser False 32 16 ex_phy
    = Some (HALMAC_RET_SUCCESS, 18, [0x29, 0x81, 0xFF, 0xFF, 3, 4, 0xFF, 0xFF, 0xFF, 0xFF, 0xFF, 0xFF, 0xFF, 0xFF, 0xAA, 0xBB])"
proof -
  have "SEC_CTRL_EFUSE_SIZE_8822E + length (concat (map entry_bytes ex_entries)) = 18"
    by (simp add: ex_entries_def entry_bytes_def SEC_CTRL_EFUSE_SIZE_8822E_def)
  moreover have "logical_map 16 ex_entries
      = [0x29, 0x81, 0xFF, 0xFF, 3, 4, 0xFF, 0xFF, 0xFF, 0xFF, 0xFF, 0xFF, 0xFF, 0xFF, 0xAA, 0xBB]"
    by (simp add: logical_map_def ex_entries_def apply_entry_def eval_nat_numeral)
  ultimately show ?thesis
    using efuse_parsers_exact [OF ex_phy_holds] by simp
qed

text \<open>
  C40. Whatever the cells of the memory hold, the parser of the logical map reads at most one
  byte behind the map, and when it does it fails: what it returns with that byte in reach is
  what it returns without, or an error.
\<close>

theorem eeprom_parser_overread:
  assumes "even efuse_size" "even ee" "length phy = efuse_size + 1" "SEC_CTRL_EFUSE_SIZE_8822E \<le> efuse_size"
  shows "same_or_fails (eeprom_parser False efuse_size ee (take efuse_size phy)) (eeprom_parser False efuse_size ee phy)"
  unfolding eeprom_parser_def
  by (rule loop_overread) (use assms in \<open>simp_all add: SEC_CTRL_EFUSE_SIZE_8822E_def\<close>)

theorem eeprom_parser_overread_witness:
  "let phy = [0, 0, 0, 0, 0x30, 0x0C, 1, 2, 9]
   in eeprom_parser False 8 16 (take 8 phy) = None \<and>
     (\<exists>r. eeprom_parser False 8 16 phy = Some r \<and> fst r = HALMAC_RET_EEPROM_PARSING_FAIL)"
proof -
  let ?phy = "[0, 0, 0, 0, 0x30, 0x0C, 1, 2, 9] :: u8 list"
  have none: "eeprom_parser False 8 16 (take 8 ?phy) = None"
    by code_simp
  have "same_or_fails (eeprom_parser False 8 16 (take 8 ?phy)) (eeprom_parser False 8 16 ?phy)"
    using eeprom_parser_overread [of 8 16 ?phy] by (simp add: SEC_CTRL_EFUSE_SIZE_8822E_def)
  with none show ?thesis by (auto simp: same_or_fails_def Let_def)
qed

end
