(* ===== verification/Ef_Hw.thy ===== *)
theory Ef_Hw
  imports Ef_Map
begin

text \<open>
  The adapter as the efuse operations see it: the cells of the memory behind the registers of
  the 8822E, the copy of the cells in the adapter, and the functions that read and program
  single cells, with the logical read and the two logical writes
  (\<^verbatim>\<open>halmac_efuse_8822e.c\<close>).

  What the chip does is a parameter: how a cell is sensed and what it holds after it was
  programmed, both of which may depend on the registers that switch its power, and whether an
  access is ready within the 10000 polls of the code. So is the result of an allocation, and
  what the bytes of a new allocation hold.
\<close>

section \<open>State\<close>

datatype cnstr_state = HALMAC_CMD_CNSTR_IDLE | HALMAC_CMD_CNSTR_BUSY | HALMAC_CMD_CNSTR_H2C_SENT
  | HALMAC_CMD_CNSTR_CNSTR | HALMAC_CMD_CNSTR_BUF_CLR

datatype proc_status = HALMAC_CMD_PROCESS_IDLE | HALMAC_CMD_PROCESS_SENDING | HALMAC_CMD_PROCESS_RCVD
  | HALMAC_CMD_PROCESS_DONE | HALMAC_CMD_PROCESS_ERROR

datatype feature = DUMP_PHYSICAL_EFUSE | DUMP_LOGICAL_EFUSE | DUMP_LOGICAL_EFUSE_MASK

text \<open>The registers: \<^verbatim>\<open>REG_SYS_ISO_CTRL\<close>, the bytes 0 and 3 of \<^verbatim>\<open>REG_PMC_DBG_CTRL2\<close>, \<^verbatim>\<open>REG_EFUSE_CTRL_1\<close>.\<close>

record efuse_regs =
  rg_iso :: u16
  rg_pmc :: u8
  rg_pmc3 :: u8
  rg_ctrl1 :: u32

record efuse_env =
  fe_rdy :: "nat \<Rightarrow> bool"
  fe_sense :: "efuse_regs \<Rightarrow> u8 \<Rightarrow> u8"
  fe_burn :: "nat \<Rightarrow> efuse_regs \<Rightarrow> u8 \<Rightarrow> u8 \<Rightarrow> u8"
  fe_malloc :: "nat \<Rightarrow> bool"
  fe_fresh :: "nat \<Rightarrow> u8"

record efuse =
  ef_cells :: "u8 list"
  ef_regs :: efuse_regs
  ef_clock :: nat
  ef_nalloc :: nat
  ef_heap :: int
  ef_map :: "u8 list option"
  ef_map_valid :: bool
  ef_end :: nat
  ef_auto_check :: bool
  ef_bt_switch :: bool
  ef_size :: nat
  ef_eeprom_size :: nat
  ef_prtct_size :: nat
  ef_bt_size :: nat
  ef_cnstr :: cnstr_state
  ef_proc :: proc_status
  ef_seq :: u16
  ef_fw_rc :: u8
  ef_seg_size :: u8
  ef_c2h_part2 :: bool
  ef_h2c_seq :: u8
  ef_evnt_phy :: bool
  ef_evnt_log :: bool
  ef_evnt_mask :: bool
  ef_events :: "(feature \<times> proc_status \<times> u8 list) list"

text \<open>\<^verbatim>\<open>BIT_EF_ADDR_V1\<close> takes eleven bits of an address.\<close>

definition EF_CELLS :: nat where "EF_CELLS = 2048"

section \<open>Memory\<close>

definition pltfm_malloc :: "efuse_env \<Rightarrow> nat \<Rightarrow> efuse \<Rightarrow> bool \<times> efuse" where
  "pltfm_malloc env n s =
     (fe_malloc env (ef_nalloc s),
      s\<lparr>ef_nalloc := ef_nalloc s + 1,
        ef_heap := ef_heap s + (if fe_malloc env (ef_nalloc s) then int n else 0)\<rparr>)"

definition pltfm_free :: "nat \<Rightarrow> efuse \<Rightarrow> efuse" where
  "pltfm_free n s = s\<lparr>ef_heap := ef_heap s - int n\<rparr>"

section \<open>States of a command\<close>

definition cnv_efuse_state_8822e :: "cnstr_state \<Rightarrow> efuse \<Rightarrow> halmac_ret_status \<times> efuse" where
  "cnv_efuse_state_8822e dest s =
     (if ef_cnstr s \<notin> {HALMAC_CMD_CNSTR_IDLE, HALMAC_CMD_CNSTR_BUSY, HALMAC_CMD_CNSTR_H2C_SENT} then
        (HALMAC_RET_ERROR_STATE, s)
      else if ef_cnstr s = dest then (HALMAC_RET_ERROR_STATE, s)
      else if dest = HALMAC_CMD_CNSTR_BUSY \<and> ef_cnstr s = HALMAC_CMD_CNSTR_H2C_SENT then (HALMAC_RET_ERROR_STATE, s)
      else if dest = HALMAC_CMD_CNSTR_H2C_SENT \<and> ef_cnstr s = HALMAC_CMD_CNSTR_IDLE then (HALMAC_RET_ERROR_STATE, s)
      else (HALMAC_RET_SUCCESS, s\<lparr>ef_cnstr := dest\<rparr>))"

section \<open>Power\<close>

definition UNLOCK_CODE :: u8 where "UNLOCK_CODE = 0x69"
definition BIT_SYSON_DIS_PMCREG_WRMSK :: u8 where "BIT_SYSON_DIS_PMCREG_WRMSK = 0x04"
definition BIT_PWC_EV2EF_B_8822E :: u16 where "BIT_PWC_EV2EF_B_8822E = 0x8000"
definition BIT_PWC_EV2EF_S_8822E :: u16 where "BIT_PWC_EV2EF_S_8822E = 0x4000"
definition BIT_ISO_EB2CORE :: u16 where "BIT_ISO_EB2CORE = 0x0100"
definition BIT_EF_BURST :: u32 where "BIT_EF_BURST = 0x00080000"

lemmas efuse_bits = UNLOCK_CODE_def BIT_SYSON_DIS_PMCREG_WRMSK_def BIT_PWC_EV2EF_B_8822E_def
  BIT_PWC_EV2EF_S_8822E_def BIT_ISO_EB2CORE_def BIT_EF_BURST_def

definition enable_regs :: "bool \<Rightarrow> efuse_regs \<Rightarrow> efuse_regs" where
  "enable_regs is_write r =
     (let r = (if is_write then r\<lparr>rg_pmc3 := UNLOCK_CODE\<rparr> else r);
          r = r\<lparr>rg_pmc := rg_pmc r OR BIT_SYSON_DIS_PMCREG_WRMSK\<rparr>;
          r = r\<lparr>rg_iso := rg_iso r OR BIT_PWC_EV2EF_S_8822E\<rparr>;
          r = r\<lparr>rg_iso := rg_iso r OR BIT_PWC_EV2EF_B_8822E\<rparr>
      in r\<lparr>rg_iso := rg_iso r AND NOT BIT_ISO_EB2CORE\<rparr>)"

definition disable_regs :: "bool \<Rightarrow> efuse_regs \<Rightarrow> efuse_regs" where
  "disable_regs is_write r =
     (let r = r\<lparr>rg_iso := rg_iso r OR BIT_ISO_EB2CORE\<rparr>;
          r = r\<lparr>rg_iso := rg_iso r AND NOT BIT_PWC_EV2EF_B_8822E\<rparr>;
          r = r\<lparr>rg_iso := rg_iso r AND NOT BIT_PWC_EV2EF_S_8822E\<rparr>;
          r = (if is_write then r\<lparr>rg_pmc3 := 0\<rparr> else r)
      in r\<lparr>rg_pmc := rg_pmc r AND NOT BIT_SYSON_DIS_PMCREG_WRMSK\<rparr>)"

definition enable_efuse_sw_pwr_cut :: "bool \<Rightarrow> efuse \<Rightarrow> efuse" where
  "enable_efuse_sw_pwr_cut is_write s = s\<lparr>ef_regs := enable_regs is_write (ef_regs s)\<rparr>"

definition disable_efuse_sw_pwr_cut :: "bool \<Rightarrow> efuse \<Rightarrow> efuse" where
  "disable_efuse_sw_pwr_cut is_write s = s\<lparr>ef_regs := disable_regs is_write (ef_regs s)\<rparr>"

text \<open>The memory is powered and connected; and it can be programmed.\<close>

definition powered :: "efuse_regs \<Rightarrow> bool" where
  "powered r \<longleftrightarrow> bit (rg_iso r) 14 \<and> bit (rg_iso r) 15 \<and> \<not> bit (rg_iso r) 8 \<and> bit (rg_pmc r) 2"

definition writable :: "efuse_regs \<Rightarrow> bool" where
  "writable r \<longleftrightarrow> powered r \<and> rg_pmc3 r = UNLOCK_CODE"

section \<open>Single cells\<close>

fun read_cells :: "efuse_env \<Rightarrow> nat \<Rightarrow> nat \<Rightarrow> efuse \<Rightarrow> (halmac_ret_status \<times> u8 list) \<times> efuse" where
  "read_cells env addr 0 s = ((HALMAC_RET_SUCCESS, []), s)"
| "read_cells env addr (Suc n) s =
     (let v = fe_sense env (ef_regs s) (ef_cells s ! (addr mod EF_CELLS)); s' = s\<lparr>ef_clock := ef_clock s + 1\<rparr> in
      if \<not> fe_rdy env (ef_clock s) then ((HALMAC_RET_EFUSE_R_FAIL, []), s')
      else
        (case read_cells env (addr + 1) n s' of
           ((status, vs), s'') \<Rightarrow> ((status, v # vs), s'')))"

definition read_hw_efuse_8822e :: "efuse_env \<Rightarrow> nat \<Rightarrow> nat \<Rightarrow> efuse \<Rightarrow> (halmac_ret_status \<times> u8 list) \<times> efuse" where
  "read_hw_efuse_8822e env offset n s =
     (let s = enable_efuse_sw_pwr_cut False s;
          s = s\<lparr>ef_regs := (ef_regs s)\<lparr>rg_ctrl1 := rg_ctrl1 (ef_regs s) OR BIT_EF_BURST\<rparr>\<rparr>
      in (case read_cells env offset ((offset + n) mod 2 ^ 32 - offset) s of
            ((status, mp), s) \<Rightarrow>
              if status \<noteq> HALMAC_RET_SUCCESS then ((status, mp), s)
              else
                let s = s\<lparr>ef_regs := (ef_regs s)\<lparr>rg_ctrl1 := rg_ctrl1 (ef_regs s) AND NOT BIT_EF_BURST\<rparr>\<rparr>
                in ((HALMAC_RET_SUCCESS, mp), disable_efuse_sw_pwr_cut False s)))"

definition write_hw_efuse_8822e :: "efuse_env \<Rightarrow> nat \<Rightarrow> u8 \<Rightarrow> efuse \<Rightarrow> halmac_ret_status \<times> efuse" where
  "write_hw_efuse_8822e env offset value s =
     (let a = offset mod EF_CELLS;
          s' = s\<lparr>ef_map_valid := False, ef_clock := ef_clock s + 1,
            ef_cells := (ef_cells s)[a := fe_burn env (ef_clock s) (ef_regs s) (ef_cells s ! a) value]\<rparr>
      in if \<not> fe_rdy env (ef_clock s) then (HALMAC_RET_EFUSE_W_FAIL, s')
         else if ef_auto_check s' then
           (case read_hw_efuse_8822e env offset 1 s' of
              ((status, mp), s'') \<Rightarrow>
                if status \<noteq> HALMAC_RET_SUCCESS then (HALMAC_RET_EFUSE_R_FAIL, s'')
                else if mp \<noteq> [value] then (HALMAC_RET_EFUSE_W_FAIL, s'')
                else (HALMAC_RET_SUCCESS, s''))
         else (HALMAC_RET_SUCCESS, s'))"

text \<open>A run of writes to consecutive cells that ends at the first one that fails.\<close>

fun write_cells :: "efuse_env \<Rightarrow> nat \<Rightarrow> u8 list \<Rightarrow> efuse \<Rightarrow> halmac_ret_status \<times> efuse" where
  "write_cells env addr [] s = (HALMAC_RET_SUCCESS, s)"
| "write_cells env addr (v # vs) s =
     (case write_hw_efuse_8822e env addr v s of
        (status, s') \<Rightarrow> if status \<noteq> HALMAC_RET_SUCCESS then (status, s') else write_cells env (addr + 1) vs s')"

definition read_efuse_8822e :: "efuse_env \<Rightarrow> nat \<Rightarrow> nat \<Rightarrow> efuse \<Rightarrow> ((halmac_ret_status \<times> u8 list) \<times> efuse) option" where
  "read_efuse_8822e env offset n s =
     (if ef_map_valid s then
        (case ef_map s of
           None \<Rightarrow> None
         | Some m \<Rightarrow> if offset + n \<le> length m then Some ((HALMAC_RET_SUCCESS, take n (drop offset m)), s) else None)
      else
        (case read_hw_efuse_8822e env offset n s of
           ((status, mp), s') \<Rightarrow>
             Some (if status \<noteq> HALMAC_RET_SUCCESS then ((HALMAC_RET_EFUSE_R_FAIL, mp), s')
                   else ((HALMAC_RET_SUCCESS, mp), s'))))"

section \<open>The logical map\<close>

definition run_parser ::
  "(halmac_ret_status \<times> nat \<times> u8 list) option \<Rightarrow> efuse \<Rightarrow> ((halmac_ret_status \<times> u8 list) \<times> efuse) option" where
  "run_parser p s =
     (case p of
        None \<Rightarrow> None
      | Some (status, idx, mp) \<Rightarrow>
          Some (if status \<noteq> HALMAC_RET_SUCCESS then ((status, mp), s) else ((status, mp), s\<lparr>ef_end := idx\<rparr>)))"

text \<open>The copy of the cells in the adapter is made when there is no valid one.\<close>

definition load_efuse_map :: "efuse_env \<Rightarrow> efuse \<Rightarrow> (halmac_ret_status \<times> efuse) option" where
  "load_efuse_map env s =
     (case pltfm_malloc env (ef_size s) s of
        (ok, s1) \<Rightarrow>
          if \<not> ok then Some (HALMAC_RET_MALLOC_FAIL, s1)
          else
            (case read_efuse_8822e env 0 (ef_size s) s1 of
               None \<Rightarrow> None
             | Some ((status, local_map), s2) \<Rightarrow>
                 if status \<noteq> HALMAC_RET_SUCCESS then Some (status, pltfm_free (ef_size s) s2)
                 else
                   (case (if ef_map s2 = None then pltfm_malloc env (ef_size s) s2 else (True, s2)) of
                      (ok, s3) \<Rightarrow>
                        if \<not> ok then Some (HALMAC_RET_MALLOC_FAIL, pltfm_free (ef_size s) s3)
                        else Some (HALMAC_RET_SUCCESS,
                          pltfm_free (ef_size s) (s3\<lparr>ef_map := Some local_map, ef_map_valid := True\<rparr>)))))"

definition read_log_efuse_map_8822e :: "efuse_env \<Rightarrow> efuse \<Rightarrow> ((halmac_ret_status \<times> u8 list) \<times> efuse) option" where
  "read_log_efuse_map_8822e env s =
     (case (if ef_map_valid s then Some (HALMAC_RET_SUCCESS, s) else load_efuse_map env s) of
        None \<Rightarrow> None
      | Some (status, s1) \<Rightarrow>
          if status \<noteq> HALMAC_RET_SUCCESS then Some ((status, replicate (ef_eeprom_size s) 0xFF), s1)
          else
            (case ef_map s1 of
               None \<Rightarrow> None
             | Some m \<Rightarrow>
                 (case run_parser (eeprom_parser (ef_bt_switch s1) (ef_size s1) (ef_eeprom_size s1) m) s1 of
                    None \<Rightarrow> None
                  | Some ((status, mp), s2) \<Rightarrow>
                      Some (if status \<noteq> HALMAC_RET_SUCCESS then ((HALMAC_RET_EEPROM_PARSING_FAIL, mp), s2)
                            else ((HALMAC_RET_SUCCESS, mp), s2)))))"

section \<open>Logical writes\<close>

definition BT_1B_ENTRY_SIZE :: nat where "BT_1B_ENTRY_SIZE = 0x80"

definition word_bit :: "nat \<Rightarrow> u8" where
  "word_bit offset = push_bit ((offset mod 8) div 2) 1 XOR 0x0F"

text \<open>The header of the entry for one word: two bytes, or one for the first part of a Bluetooth map.\<close>

definition log_header :: "bool \<Rightarrow> nat \<Rightarrow> u8 list" where
  "log_header bt_switch offset =
     (if bt_switch then
        if offset < BT_1B_ENTRY_SIZE then [push_bit 4 (of_nat (offset div 8)) + word_bit offset]
        else [push_bit 4 (push_bit 1 (of_nat ((offset div 8) mod 8))) + 0xF,
          push_bit 4 (of_nat (offset div 8 div 8)) + word_bit offset]
      else
        let blk = of_nat (offset div 8)
        in [drop_bit 4 (blk AND 0xF0) OR 0x30, push_bit 4 (blk AND 0x0F) + word_bit offset])"

definition proc_write_log_efuse_8822e :: "efuse_env \<Rightarrow> nat \<Rightarrow> u8 \<Rightarrow> efuse \<Rightarrow> (halmac_ret_status \<times> efuse) option" where
  "proc_write_log_efuse_8822e env offset val s =
     (let eeprom_size = ef_eeprom_size s in
      case pltfm_malloc env eeprom_size s of
        (ok, s1) \<Rightarrow>
          if \<not> ok then Some (HALMAC_RET_MALLOC_FAIL, s1)
          else
            (case read_log_efuse_map_8822e env s1 of
               None \<Rightarrow> None
             | Some ((status, mp), s2) \<Rightarrow>
                 if status \<noteq> HALMAC_RET_SUCCESS then Some (status, pltfm_free eeprom_size s2)
                 else if offset \<ge> length mp then None
                 else if mp ! offset = val then Some (HALMAC_RET_SUCCESS, pltfm_free eeprom_size s2)
                 else if even offset \<and> offset + 1 \<ge> length mp then None
                 else
                   let hdr = log_header (ef_bt_switch s2) offset;
                       bytes = (if even offset then [val, mp ! (offset + 1)] else [mp ! (offset - 1), val])
                   in if ef_size s2 \<le> (if \<not> ef_bt_switch s2 \<or> offset \<ge> BT_1B_ENTRY_SIZE then 4 else 3) + ef_end s2
                      then Some (HALMAC_RET_EFUSE_NOT_ENOUGH, pltfm_free eeprom_size s2)
                      else
                        (case write_cells env (ef_end s2) (hdr @ bytes) (enable_efuse_sw_pwr_cut True s2) of
                           (status, s3) \<Rightarrow>
                             if status \<noteq> HALMAC_RET_SUCCESS then Some (status, pltfm_free eeprom_size s3)
                             else Some (HALMAC_RET_SUCCESS, pltfm_free eeprom_size (disable_efuse_sw_pwr_cut True s3)))))"

definition proc_write_log_efuse_word_8822e :: "efuse_env \<Rightarrow> nat \<Rightarrow> u16 \<Rightarrow> efuse \<Rightarrow> (halmac_ret_status \<times> efuse) option" where
  "proc_write_log_efuse_word_8822e env offset val s =
     (let eeprom_size = ef_eeprom_size s in
      case pltfm_malloc env eeprom_size s of
        (ok, s1) \<Rightarrow>
          if \<not> ok then Some (HALMAC_RET_MALLOC_FAIL, s1)
          else
            (case read_log_efuse_map_8822e env s1 of
               None \<Rightarrow> None
             | Some ((status, mp), s2) \<Rightarrow>
                 if status \<noteq> HALMAC_RET_SUCCESS then Some (status, pltfm_free eeprom_size s2)
                 else if offset + 1 \<ge> length mp then None
                 else if le16_at mp offset = val then Some (HALMAC_RET_SUCCESS, pltfm_free eeprom_size s2)
                 else if odd offset then Some (HALMAC_RET_ADR_NOT_ALIGN, pltfm_free eeprom_size s2)
                 else if ef_size s2 \<le> 4 + ef_end s2 then Some (HALMAC_RET_EFUSE_NOT_ENOUGH, pltfm_free eeprom_size s2)
                 else
                   (case write_cells env (ef_end s2)
                       (log_header (ef_bt_switch s2) offset @ [ucast (val AND 0xFF), ucast (drop_bit 8 val AND 0xFF)])
                       (enable_efuse_sw_pwr_cut True s2) of
                      (status, s3) \<Rightarrow>
                        if status \<noteq> HALMAC_RET_SUCCESS then Some (status, pltfm_free eeprom_size s3)
                        else Some (HALMAC_RET_SUCCESS, pltfm_free eeprom_size (disable_efuse_sw_pwr_cut True s3)))))"


section \<open>What the chip is relied on for\<close>

text \<open>
  Accesses are ready in time, allocations succeed, a cell that is powered is sensed as it is,
  and a cell that is not programmed yet takes the value it is programmed with when the memory
  is powered and unlocked.
\<close>

definition chip_ok :: "efuse_env \<Rightarrow> bool" where
  "chip_ok env \<longleftrightarrow>
     (\<forall>n. fe_rdy env n) \<and> (\<forall>n. fe_malloc env n) \<and> (\<forall>r v. powered r \<longrightarrow> fe_sense env r v = v) \<and>
     (\<forall>n r v. writable r \<longrightarrow> fe_burn env n r 0xFF v = v)"

lemma enable_powered: "powered (enable_regs w r)" "writable (enable_regs True r)"
proof -
  show p: "powered (enable_regs w r)" for w
    by (simp add: powered_def enable_regs_def Let_def efuse_bits bit_or_iff bit_and_iff bit_not_iff)
  show "writable (enable_regs True r)"
    using p [of True] by (simp add: writable_def) (simp add: enable_regs_def Let_def)
qed

lemma disable_unpowered: "\<not> powered (disable_regs w r)"
  by (simp add: powered_def disable_regs_def Let_def efuse_bits bit_or_iff bit_and_iff bit_not_iff)

lemma powered_burst [simp]: "powered (r\<lparr>rg_ctrl1 := c\<rparr>) = powered r"
  by (simp add: powered_def)

lemma read_cells_ok:
  assumes "chip_ok env" "powered (ef_regs s)"
  shows "read_cells env addr n s =
    ((HALMAC_RET_SUCCESS, map (\<lambda>i. ef_cells s ! ((addr + i) mod EF_CELLS)) [0..<n]), s\<lparr>ef_clock := ef_clock s + n\<rparr>)"
  using assms(2)
proof (induction n arbitrary: addr s)
  case (Suc n)
  have "map (\<lambda>i. ef_cells s ! ((addr + i) mod EF_CELLS)) [0..<Suc n]
      = ef_cells s ! (addr mod EF_CELLS) # map (\<lambda>i. ef_cells s ! ((addr + 1 + i) mod EF_CELLS)) [0..<n]"
    by (simp add: map_upt_Suc del: upt_Suc)
  then show ?case
    using Suc.IH [of "s\<lparr>ef_clock := ef_clock s + 1\<rparr>" "addr + 1"] Suc.prems assms(1)
    by (simp add: chip_ok_def Let_def del: upt_Suc)
qed simp

definition regs_after_read :: "efuse_regs \<Rightarrow> efuse_regs" where
  "regs_after_read r =
     (let r = enable_regs False r; r = r\<lparr>rg_ctrl1 := rg_ctrl1 r OR BIT_EF_BURST\<rparr>
      in disable_regs False (r\<lparr>rg_ctrl1 := rg_ctrl1 r AND NOT BIT_EF_BURST\<rparr>))"

lemma regs_after_read_unpowered: "\<not> powered (regs_after_read r)"
  by (simp add: regs_after_read_def Let_def disable_unpowered)

lemma read_hw_ok:
  assumes "chip_ok env" "offset + n < 2 ^ 32"
  shows "read_hw_efuse_8822e env offset n s =
    ((HALMAC_RET_SUCCESS, map (\<lambda>i. ef_cells s ! ((offset + i) mod EF_CELLS)) [0..<n]),
     s\<lparr>ef_clock := ef_clock s + n, ef_regs := regs_after_read (ef_regs s)\<rparr>)"
proof -
  have "(offset + n) mod 2 ^ 32 - offset = n" using assms(2) by simp
  then show ?thesis
    using enable_powered(1) [of False "ef_regs s"]
    by (simp add: read_hw_efuse_8822e_def Let_def read_cells_ok [OF assms(1)] enable_efuse_sw_pwr_cut_def
      disable_efuse_sw_pwr_cut_def regs_after_read_def)
qed

lemma write_hw_ok:
  assumes "chip_ok env" "writable (ef_regs s)" "\<not> ef_auto_check s" "offset < EF_CELLS" "ef_cells s ! offset = 0xFF"
  shows "write_hw_efuse_8822e env offset v s =
    (HALMAC_RET_SUCCESS, s\<lparr>ef_map_valid := False, ef_clock := ef_clock s + 1, ef_cells := (ef_cells s)[offset := v]\<rparr>)"
  using assms by (simp add: write_hw_efuse_8822e_def Let_def chip_ok_def)

lemma write_cells_ok:
  assumes "chip_ok env" "writable (ef_regs s)" "\<not> ef_auto_check s" "length (ef_cells s) = EF_CELLS"
    and "ef_cells s = A @ replicate (length vs) 0xFF @ C" "length A = addr" "vs \<noteq> []"
  shows "write_cells env addr vs s =
    (HALMAC_RET_SUCCESS, s\<lparr>ef_map_valid := False, ef_clock := ef_clock s + length vs, ef_cells := A @ vs @ C\<rparr>)"
  using assms(2-7)
proof (induction vs arbitrary: A addr s)
  case (Cons v vs)
  have at: "addr < EF_CELLS" "ef_cells s ! addr = 0xFF"
    using Cons.prems(3-5) by (auto simp: nth_append)
  have upd: "(ef_cells s)[addr := v] = (A @ [v]) @ replicate (length vs) 0xFF @ C"
    using Cons.prems(4,5) by (simp add: list_update_append)
  show ?case
  proof (cases "vs = []")
    case True
    then show ?thesis
      using write_hw_ok [OF assms(1) Cons.prems(1,2) at, of v] upd by simp
  next
    case False
    let ?s = "s\<lparr>ef_map_valid := False, ef_clock := ef_clock s + 1, ef_cells := (ef_cells s)[addr := v]\<rparr>"
    have "write_cells env (addr + 1) vs ?s
        = (HALMAC_RET_SUCCESS, ?s\<lparr>ef_map_valid := False, ef_clock := ef_clock ?s + length vs, ef_cells := (A @ [v]) @ vs @ C\<rparr>)"
      by (rule Cons.IH) (use Cons.prems False upd in simp_all)
    then show ?thesis
      using write_hw_ok [OF assms(1) Cons.prems(1,2) at, of v] by simp
  qed
qed simp

text \<open>The fields that reading and programming leave alone.\<close>

definition ef_ctl :: "efuse \<Rightarrow> _" where
  "ef_ctl s = (ef_auto_check s, ef_bt_switch s, ef_size s, ef_eeprom_size s, ef_prtct_size s, ef_bt_size s,
     ef_cnstr s, ef_proc s, (ef_seq s, ef_fw_rc s, ef_seg_size s, ef_c2h_part2 s, ef_h2c_seq s),
     ef_evnt_phy s, ef_evnt_log s, ef_evnt_mask s, ef_events s)"

lemma ef_ctl_simps [simp]:
  "ef_ctl (pltfm_free n s) = ef_ctl s" "ef_ctl (enable_efuse_sw_pwr_cut w s) = ef_ctl s"
  "ef_ctl (disable_efuse_sw_pwr_cut w s) = ef_ctl s"
  by (simp_all add: ef_ctl_def pltfm_free_def enable_efuse_sw_pwr_cut_def disable_efuse_sw_pwr_cut_def)

lemma ef_heap_simps [simp]:
  "ef_heap (pltfm_free n s) = ef_heap s - int n" "ef_heap (enable_efuse_sw_pwr_cut w s) = ef_heap s"
  "ef_heap (disable_efuse_sw_pwr_cut w s) = ef_heap s"
  by (simp_all add: pltfm_free_def enable_efuse_sw_pwr_cut_def disable_efuse_sw_pwr_cut_def)

text \<open>
  The cells of the adapter hold the entries \<open>es\<close>, followed by cells that are not programmed,
  and a copy that counts as valid is one.
\<close>

definition efuse_holds :: "efuse \<Rightarrow> otp_entry list \<Rightarrow> bool" where
  "efuse_holds s es \<longleftrightarrow>
     length (ef_cells s) = EF_CELLS \<and> ef_size s \<le> EF_CELLS \<and> \<not> ef_bt_switch s \<and>
     ef_eeprom_size s \<le> 2048 \<and> 8 dvd ef_eeprom_size s \<and>
     holds_log (ef_size s) (ef_eeprom_size s) (take (ef_size s) (ef_cells s)) es \<and>
     (ef_map_valid s \<longrightarrow> ef_map s = Some (take (ef_size s) (ef_cells s)))"

definition log_end :: "otp_entry list \<Rightarrow> nat" where
  "log_end es = SEC_CTRL_EFUSE_SIZE_8822E + length (concat (map entry_bytes es))"

lemma read_efuse_all:
  assumes "chip_ok env" "efuse_holds s es" "ef_size s = n"
  shows "\<exists>c r. read_efuse_8822e env 0 n s = Some ((HALMAC_RET_SUCCESS, take n (ef_cells s)), s\<lparr>ef_clock := c, ef_regs := r\<rparr>)"
proof (cases "ef_map_valid s")
  case True
  then show ?thesis
    using assms(2,3) by (intro exI [of _ "ef_clock s"] exI [of _ "ef_regs s"]) (simp add: read_efuse_8822e_def efuse_holds_def)
next
  case False
  have n: "n \<le> length (ef_cells s)" "length (ef_cells s) = EF_CELLS" using assms(2,3) by (simp_all add: efuse_holds_def)
  then have "map (\<lambda>i. ef_cells s ! ((0 + i) mod EF_CELLS)) [0..<n] = take n (ef_cells s)"
    by (intro nth_equalityI) simp_all
  then show ?thesis
    using False read_hw_ok [OF assms(1), of 0 n s] n
    by (auto simp: read_efuse_8822e_def EF_CELLS_def)
qed


section \<open>The logical map is what the entries say\<close>

lemma read_log_ok:
  assumes c: "chip_ok env" and h: "efuse_holds s es"
  shows "\<exists>s'. read_log_efuse_map_8822e env s = Some ((HALMAC_RET_SUCCESS, logical_map (ef_eeprom_size s) es), s')
    \<and> efuse_holds s' es \<and> ef_map_valid s' \<and> ef_map s' = Some (take (ef_size s) (ef_cells s))
    \<and> ef_cells s' = ef_cells s \<and> ef_end s' = log_end es \<and> ef_ctl s' = ef_ctl s
    \<and> ef_heap s' = ef_heap s + (if ef_map_valid s \<or> ef_map s \<noteq> None then 0 else int (ef_size s))"
proof -
  let ?m = "take (ef_size s) (ef_cells s)"
  have bt: "\<not> ef_bt_switch s" using h by (simp add: efuse_holds_def)
  have log: "holds_log (ef_size s) (ef_eeprom_size s) ?m es" using h by (simp add: efuse_holds_def)
  obtain s1 where s1: "(if ef_map_valid s then Some (HALMAC_RET_SUCCESS, s) else load_efuse_map env s) = Some (HALMAC_RET_SUCCESS, s1)"
    and f: "ef_map_valid s1" "ef_map s1 = Some ?m" "ef_cells s1 = ef_cells s" "ef_ctl s1 = ef_ctl s"
      "ef_heap s1 = ef_heap s + (if ef_map_valid s \<or> ef_map s \<noteq> None then 0 else int (ef_size s))"
  proof (cases "ef_map_valid s")
    case True
    then show thesis using that [of s] h by (simp add: efuse_holds_def)
  next
    case False
    define t where "t = snd (pltfm_malloc env (ef_size s) s)"
    have t: "pltfm_malloc env (ef_size s) s = (True, t)" "efuse_holds t es" "ef_size t = ef_size s"
      "ef_cells t = ef_cells s" "ef_ctl t = ef_ctl s" "ef_heap t = ef_heap s + int (ef_size s)" "ef_map t = ef_map s"
      using c h by (simp_all add: t_def pltfm_malloc_def chip_ok_def efuse_holds_def ef_ctl_def)
    obtain k r where rd: "read_efuse_8822e env 0 (ef_size s) t
        = Some ((HALMAC_RET_SUCCESS, take (ef_size s) (ef_cells t)), t\<lparr>ef_clock := k, ef_regs := r\<rparr>)"
      using read_efuse_all [OF c t(2), of "ef_size s"] t(3) by blast
    let ?u = "t\<lparr>ef_clock := k, ef_regs := r\<rparr>"
    obtain s3 where s3: "(if ef_map ?u = None then pltfm_malloc env (ef_size s) ?u else (True, ?u)) = (True, s3)"
      "ef_cells s3 = ef_cells s" "ef_ctl s3 = ef_ctl s"
      "ef_heap s3 = ef_heap t + (if ef_map s \<noteq> None then 0 else int (ef_size s))"
      using c t that by (cases "ef_map s = None") (auto simp: pltfm_malloc_def chip_ok_def ef_ctl_def)
    show thesis
      by (rule that [of "pltfm_free (ef_size s) (s3\<lparr>ef_map := Some ?m, ef_map_valid := True\<rparr>)"])
        (use False t s3 rd in \<open>simp_all add: load_efuse_map_def pltfm_free_def ef_ctl_def\<close>)
  qed
  have ctl: "ef_bt_switch s1 = ef_bt_switch s" "ef_size s1 = ef_size s" "ef_eeprom_size s1 = ef_eeprom_size s"
    using f(4) by (simp_all add: ef_ctl_def)
  have p: "run_parser (eeprom_parser (ef_bt_switch s1) (ef_size s1) (ef_eeprom_size s1) ?m) s1
      = Some ((HALMAC_RET_SUCCESS, logical_map (ef_eeprom_size s) es), s1\<lparr>ef_end := log_end es\<rparr>)"
    using parsers_of_log(1) [OF log] bt by (simp add: ctl run_parser_def log_end_def)
  have "read_log_efuse_map_8822e env s
      = Some ((HALMAC_RET_SUCCESS, logical_map (ef_eeprom_size s) es), s1\<lparr>ef_end := log_end es\<rparr>)"
    unfolding read_log_efuse_map_8822e_def s1 using f(2) p by simp
  moreover have "efuse_holds (s1\<lparr>ef_end := log_end es\<rparr>) es"
    using h f ctl by (simp add: efuse_holds_def)
  ultimately show ?thesis using f by (auto simp: ef_ctl_def)
qed

section \<open>A logical write appends an entry\<close>

definition word_entry :: "nat \<Rightarrow> u8 \<times> u8 \<Rightarrow> otp_entry" where
  "word_entry offset w =
     \<lparr>oe_blk = of_nat (offset div 8), oe_words = (replicate 4 None)[(offset mod 8) div 2 := Some w]\<rparr>"

lemma one_word:
  assumes "i < 4"
  shows "word_en_of ((replicate 4 None)[i := Some w]) = push_bit i 1 XOR 0x0F"
    "concat (map word_bytes ((replicate 4 None)[i := Some (a, b)])) = [a, b]"
proof -
  have r: "replicate 4 (None :: otp_word) = [None, None, None, None]" by (simp add: eval_nat_numeral)
  consider "i = 0" | "i = 1" | "i = 2" | "i = 3" using assms by linarith
  then show "word_en_of ((replicate 4 None)[i := Some w]) = push_bit i 1 XOR 0x0F"
    by cases (simp_all add: r)
  from assms consider "i = 0" | "i = 1" | "i = 2" | "i = 3" by linarith
  then show "concat (map word_bytes ((replicate 4 None)[i := Some (a, b)])) = [a, b]"
    by cases (simp_all add: r)
qed

lemma word_entry_bytes: "entry_bytes (word_entry offset (a, b)) = log_header False offset @ [a, b]"
proof -
  have i: "(offset mod 8) div 2 < 4" by simp
  show ?thesis
    by (simp only: entry_bytes_def word_entry_def log_header_def word_bit_def Let_def otp_entry.simps one_word [OF i] if_False)
qed

lemma word_entry_ok:
  assumes "offset < ee" "ee \<le> 2048" "8 dvd ee"
  shows "entry_ok ee (word_entry offset w)"
proof -
  have "offset div 8 < 256" using assms by simp
  then have "unat (of_nat (offset div 8) :: u8) = offset div 8"
    by (simp add: unat_of_nat)
  moreover have "8 * (offset div 8) + 8 \<le> ee"
  proof -
    obtain q where q: "ee = 8 * q" using assms(3) by (elim dvdE)
    then have "offset div 8 < q" using assms(1) by (simp add: div_less_iff_less_mult)
    then show ?thesis using q by simp
  qed
  moreover have "Some w \<in> set ((replicate 4 None)[(offset mod 8) div 2 := Some w])"
    by (rule set_update_memI) simp
  then have "\<exists>x \<in> set ((replicate 4 None)[(offset mod 8) div 2 := Some w]). x \<noteq> None" by blast
  ultimately show ?thesis
    by (simp only: entry_ok_def word_entry_def otp_entry.simps length_list_update length_replicate simp_thms)
qed

lemma apply_one_word:
  assumes "i < 4"
  shows "apply_words off ((replicate 4 None)[i := Some (a, b)]) log = log[off + 2 * i := a, off + 2 * i + 1 := b]"
proof -
  have "i \<in> {0, 1, 2, 3}" using assms by auto
  then show ?thesis by (elim insertE) (simp_all add: numeral_eq_Suc)
qed

lemma apply_word_entry:
  assumes "offset < 2048"
  shows "apply_entry (word_entry offset (a, b)) log = log[2 * (offset div 2) := a, 2 * (offset div 2) + 1 := b]"
proof -
  have "unat (of_nat (offset div 8) :: u8) = offset div 8"
    using assms by (simp add: unat_of_nat)
  moreover have "8 * (offset div 8) + 2 * ((offset mod 8) div 2) = 2 * (offset div 2)"
    by presburger
  ultimately show ?thesis
    by (simp add: apply_entry_def word_entry_def apply_one_word)
qed

lemma logical_map_snoc: "logical_map ee (es @ [e]) = apply_entry e (logical_map ee es)"
  by (simp add: logical_map_def)

text \<open>The cells behind the log, and what programming them makes of it.\<close>

lemma log_split:
  assumes h: "efuse_holds s es" and room: "log_end es + n \<le> ef_size s"
  shows "\<exists>A C. ef_cells s = A @ replicate n 0xFF @ C \<and> length A = log_end es \<and>
    (\<forall>t new. (\<forall>e \<in> set new. entry_ok (ef_eeprom_size s) e) \<and> length (concat (map entry_bytes new)) = n \<and>
       ef_cells t = A @ concat (map entry_bytes new) @ C \<and> \<not> ef_map_valid t \<and> ef_ctl t = ef_ctl s
       \<longrightarrow> efuse_holds t (es @ new))"
proof -
  let ?n = "ef_size s"
  let ?enc = "concat (map entry_bytes es)"
  have len: "length (ef_cells s) = EF_CELLS" "?n \<le> EF_CELLS" using h by (simp_all add: efuse_holds_def)
  obtain m where d: "drop SEC_CTRL_EFUSE_SIZE_8822E (take ?n (ef_cells s)) = ?enc @ replicate m 0xff"
    and oks: "\<forall>e \<in> set es. entry_ok (ef_eeprom_size s) e" "SEC_CTRL_EFUSE_SIZE_8822E \<le> ?n"
    using h by (auto simp: efuse_holds_def holds_log_def)
  have m: "?n = log_end es + m"
    using arg_cong [OF d, of length] len oks(2) by (simp add: log_end_def)
  then have mb: "m = n + (m - n)" using room by simp
  define P where "P = take SEC_CTRL_EFUSE_SIZE_8822E (ef_cells s)"
  have P: "length P = SEC_CTRL_EFUSE_SIZE_8822E" using oks(2) len by (simp add: P_def)
  have cells: "take ?n (ef_cells s) = P @ ?enc @ replicate m 0xff"
    unfolding P_def d [symmetric] using oks(2) by (metis append_take_drop_id min.absorb1 take_take)
  let ?C = "replicate (m - n) 0xff @ drop ?n (ef_cells s)"
  have split: "ef_cells s = (P @ ?enc) @ replicate n 0xFF @ ?C"
    using append_take_drop_id [of ?n "ef_cells s"] unfolding cells by (subst (asm) mb) (simp add: replicate_add)
  have A: "length (P @ ?enc) = log_end es" by (simp add: P log_end_def)
  have "efuse_holds t (es @ new)"
    if t: "\<forall>e \<in> set new. entry_ok (ef_eeprom_size s) e" "length (concat (map entry_bytes new)) = n"
      "ef_cells t = (P @ ?enc) @ concat (map entry_bytes new) @ ?C" "\<not> ef_map_valid t" "ef_ctl t = ef_ctl s" for t new
  proof -
    have ctl: "ef_bt_switch t = ef_bt_switch s" "ef_size t = ?n" "ef_eeprom_size t = ef_eeprom_size s"
      using t(5) by (simp_all add: ef_ctl_def)
    have c: "take ?n (ef_cells t) = P @ ?enc @ concat (map entry_bytes new) @ replicate (m - n) 0xff"
      using m room A by (simp add: t(2,3))
    have "holds_log ?n (ef_eeprom_size s) (take ?n (ef_cells t)) (es @ new)"
      unfolding c holds_log_def using P oks t(1,2) m room A
      by (intro conjI exI [of _ "m - n"]) (auto simp: log_end_def)
    moreover have "length (ef_cells t) = EF_CELLS"
      using arg_cong [OF split, of length] len(1) by (simp add: t(2,3))
    ultimately show ?thesis using h t(4) by (simp add: efuse_holds_def ctl)
  qed
  then show ?thesis using split A by blast
qed

lemma append_write:
  assumes c: "chip_ok env" and h: "efuse_holds s es" and a: "\<not> ef_auto_check s"
    and e: "entry_ok (ef_eeprom_size s) e" and room: "log_end es + length (entry_bytes e) \<le> ef_size s"
    and s: "ef_end s = log_end es"
  shows "\<exists>t. write_cells env (ef_end s) (entry_bytes e) (enable_efuse_sw_pwr_cut True s) = (HALMAC_RET_SUCCESS, t)
    \<and> efuse_holds (disable_efuse_sw_pwr_cut True t) (es @ [e]) \<and> ef_ctl t = ef_ctl s \<and> ef_heap t = ef_heap s"
proof -
  let ?s = "enable_efuse_sw_pwr_cut True s"
  have h': "writable (ef_regs ?s)" "\<not> ef_auto_check ?s" "length (ef_cells ?s) = EF_CELLS" "ef_cells ?s = ef_cells s"
    using h a enable_powered(2) by (simp_all add: efuse_holds_def enable_efuse_sw_pwr_cut_def)
  obtain A C where A: "ef_cells s = A @ replicate (length (entry_bytes e)) 0xFF @ C" "length A = log_end es"
    and holds: "\<And>t. ef_cells t = A @ entry_bytes e @ C \<Longrightarrow> \<not> ef_map_valid t \<Longrightarrow> ef_ctl t = ef_ctl s \<Longrightarrow> efuse_holds t (es @ [e])"
    using log_split [OF h room] e by (auto dest: spec [of _ "[e]"])
  have "entry_bytes e \<noteq> []" by (simp add: entry_bytes_def)
  note w = write_cells_ok [OF c h'(1-3) _ A(2) this, unfolded h'(4), OF A(1)]
  let ?t = "?s\<lparr>ef_map_valid := False, ef_clock := ef_clock ?s + length (entry_bytes e), ef_cells := A @ entry_bytes e @ C\<rparr>"
  have ctl: "ef_ctl ?t = ef_ctl s" by (simp add: ef_ctl_def enable_efuse_sw_pwr_cut_def)
  then have "efuse_holds (disable_efuse_sw_pwr_cut True ?t) (es @ [e])"
    by (intro holds) (simp_all add: disable_efuse_sw_pwr_cut_def del: ef_ctl_simps(2), simp add: ef_ctl_def enable_efuse_sw_pwr_cut_def)
  then show ?thesis unfolding s using w ctl
    by (intro exI conjI) (assumption | simp)+
qed

lemma write_byte_entry:
  fixes log :: "u8 list" and v :: u8
  assumes "offset < length log" "even (length log)" "length log \<le> 2048"
  defines "w \<equiv> (if even offset then (v, log ! (offset + 1)) else (log ! (offset - 1), v))"
  shows "apply_entry (word_entry offset w) log = log[offset := v]"
proof (cases "even offset")
  case True
  then have "2 * (offset div 2) = offset" by simp
  moreover have "offset + 1 < length log" using assms(1,2) True by presburger
  ultimately show ?thesis
    using True assms(1,3) by (simp add: w_def apply_word_entry list_update_swap [of offset] list_update_id)
next
  case False
  then have "2 * (offset div 2) = offset - 1" "2 * (offset div 2) + 1 = offset" by presburger+
  then show ?thesis
    using False assms(1,3) by (simp add: w_def apply_word_entry)
qed

text \<open>Either nothing is written, or one entry is appended.\<close>

lemma proc_write_log_cases:
  assumes c: "chip_ok env" and h: "efuse_holds s es" and a: "\<not> ef_auto_check s" and off: "offset < ef_eeprom_size s"
  defines "log \<equiv> logical_map (ef_eeprom_size s) es"
  shows "\<exists>st s' es'. proc_write_log_efuse_8822e env offset v s = Some (st, s') \<and> efuse_holds s' es' \<and> ef_ctl s' = ef_ctl s
    \<and> ef_heap s' = ef_heap s + (if ef_map_valid s \<or> ef_map s \<noteq> None then 0 else int (ef_size s))
    \<and> (log ! offset = v \<and> st = HALMAC_RET_SUCCESS \<and> es' = es \<and> ef_cells s' = ef_cells s
       \<or> log ! offset \<noteq> v \<and> ef_size s \<le> log_end es + 4 \<and> st = HALMAC_RET_EFUSE_NOT_ENOUGH \<and> es' = es \<and> ef_cells s' = ef_cells s
       \<or> log ! offset \<noteq> v \<and> log_end es + 4 < ef_size s \<and> st = HALMAC_RET_SUCCESS
         \<and> (\<exists>e. es' = es @ [e]) \<and> logical_map (ef_eeprom_size s) es' = log[offset := v])"
proof -
  let ?ee = "ef_eeprom_size s"
  let ?dh = "if ef_map_valid s \<or> ef_map s \<noteq> None then 0 else int (ef_size s)"
  define s1 where "s1 = snd (pltfm_malloc env ?ee s)"
  have s1: "pltfm_malloc env ?ee s = (True, s1)" "efuse_holds s1 es" "ef_eeprom_size s1 = ?ee" "ef_cells s1 = ef_cells s"
    "ef_ctl s1 = ef_ctl s" "ef_heap s1 = ef_heap s + int ?ee" "ef_map_valid s1 = ef_map_valid s" "ef_map s1 = ef_map s"
    "ef_size s1 = ef_size s"
    using c h by (simp_all add: s1_def pltfm_malloc_def chip_ok_def efuse_holds_def ef_ctl_def)
  obtain s2 where rd: "read_log_efuse_map_8822e env s1 = Some ((HALMAC_RET_SUCCESS, log), s2)"
    and s2: "efuse_holds s2 es" "ef_cells s2 = ef_cells s" "ef_end s2 = log_end es" "ef_ctl s2 = ef_ctl s"
      "ef_heap s2 = ef_heap s + int ?ee + ?dh"
    using read_log_ok [OF c s1(2)] s1 unfolding log_def by auto
  have ctl: "ef_bt_switch s2 = ef_bt_switch s" "ef_size s2 = ef_size s" "ef_eeprom_size s2 = ?ee" "ef_auto_check s2 = ef_auto_check s"
    using s2(4) by (simp_all add: ef_ctl_def)
  have len: "length log = ?ee" "even ?ee" "?ee \<le> 2048" "8 dvd ?ee" "\<not> ef_bt_switch s2"
    using h ctl by (auto simp: log_def efuse_holds_def)
  have free: "efuse_holds (pltfm_free ?ee t) es' = efuse_holds t es'" "ef_ctl (pltfm_free ?ee t) = ef_ctl t"
    "ef_heap (pltfm_free ?ee t) = ef_heap t - int ?ee" "ef_cells (pltfm_free ?ee t) = ef_cells t" for t es'
    by (simp_all add: pltfm_free_def efuse_holds_def ef_ctl_def)
  have oob: "\<not> (even offset \<and> offset + 1 \<ge> length log)" using off len by presburger
  show ?thesis
  proof (cases "log ! offset = v")
    case True
    then have "proc_write_log_efuse_8822e env offset v s = Some (HALMAC_RET_SUCCESS, pltfm_free ?ee s2)"
      using off len(1) by (simp add: proc_write_log_efuse_8822e_def Let_def s1(1) rd)
    then show ?thesis using True s2 by (intro exI conjI) (assumption | simp add: free)+
  next
    case False
    show ?thesis
    proof (cases "ef_size s \<le> 4 + log_end es")
      case True
      have "proc_write_log_efuse_8822e env offset v s = Some (HALMAC_RET_EFUSE_NOT_ENOUGH, pltfm_free ?ee s2)"
        using False True oob off len by (simp add: proc_write_log_efuse_8822e_def Let_def s1(1) rd ctl s2(3))
      then show ?thesis using False True s2 by (intro exI conjI) (assumption | simp add: free)+
    next
      case room: False
      let ?w = "if even offset then (v, log ! (offset + 1)) else (log ! (offset - 1), v)"
      let ?e = "word_entry offset ?w"
      have bytes: "log_header (ef_bt_switch s2) offset @ (if even offset then [v, log ! (offset + 1)] else [log ! (offset - 1), v])
          = entry_bytes ?e"
        using len(5) word_entry_bytes [of offset] by simp
      have "length (entry_bytes ?e) = 4"
        by (simp add: word_entry_bytes log_header_def Let_def del: if_split split: if_split)
      then obtain t where w: "write_cells env (ef_end s2) (entry_bytes ?e) (enable_efuse_sw_pwr_cut True s2) = (HALMAC_RET_SUCCESS, t)"
        and t: "efuse_holds (disable_efuse_sw_pwr_cut True t) (es @ [?e])" "ef_ctl t = ef_ctl s2" "ef_heap t = ef_heap s2"
        using append_write [OF c s2(1) _ _ _ s2(3), of ?e] word_entry_ok [OF off len(3,4), of ?w] a room by (auto simp: ctl)
      let ?r = "pltfm_free ?ee (disable_efuse_sw_pwr_cut True t)"
      have "proc_write_log_efuse_8822e env offset v s = Some (HALMAC_RET_SUCCESS, ?r)"
        using False room oob off len(1,5) w bytes
        by (simp add: proc_write_log_efuse_8822e_def Let_def s1(1) rd ctl s2(3) del: append_Cons append_Nil2 if_split)
      moreover have "efuse_holds ?r (es @ [?e])" "ef_ctl ?r = ef_ctl s" "ef_heap ?r = ef_heap s + ?dh"
        using t s2 by (simp_all add: free(1))
      moreover have "logical_map ?ee (es @ [?e]) = log[offset := v]"
        unfolding logical_map_snoc log_def [symmetric] by (rule write_byte_entry) (use off len in simp_all)
      ultimately show ?thesis using False room by (intro exI conjI) (assumption | simp)+
    qed
  qed
qed


lemma write_word_entry:
  fixes log :: "u8 list"
  assumes "offset + 1 < length log" "even offset" "length log \<le> 2048"
  shows "apply_entry (word_entry offset (a, b)) log = log[offset := a, offset + 1 := b]"
  using assms by (simp add: apply_word_entry)

lemma le16_bytes: "(ucast (val AND 0xFF) :: u8) = ucast val" "(ucast (drop_bit 8 val AND 0xFF) :: u8) = ucast (drop_bit 8 val)"
  for val :: u16
  by (auto intro!: bit_word_eqI simp: bit_and_iff bit_ucast_iff bit_drop_bit_eq min_def less_Suc_eq numeral_eq_Suc)

text \<open>
  The write of a word: besides what the byte write does, it refuses an odd offset, but only
  after it has compared the word there, and the last byte of the map has no word.
\<close>

lemma proc_write_log_word_cases:
  assumes c: "chip_ok env" and h: "efuse_holds s es" and a: "\<not> ef_auto_check s" and off: "offset < ef_eeprom_size s"
  defines "log \<equiv> logical_map (ef_eeprom_size s) es"
  shows "proc_write_log_efuse_word_8822e env offset v s = None \<and> offset + 1 = ef_eeprom_size s \<or>
    (\<exists>st s' es'. proc_write_log_efuse_word_8822e env offset v s = Some (st, s') \<and> efuse_holds s' es' \<and> ef_ctl s' = ef_ctl s
    \<and> ef_heap s' = ef_heap s + (if ef_map_valid s \<or> ef_map s \<noteq> None then 0 else int (ef_size s))
    \<and> (le16_at log offset = v \<and> st = HALMAC_RET_SUCCESS \<and> es' = es \<and> ef_cells s' = ef_cells s
       \<or> le16_at log offset \<noteq> v \<and> odd offset \<and> st = HALMAC_RET_ADR_NOT_ALIGN \<and> es' = es \<and> ef_cells s' = ef_cells s
       \<or> le16_at log offset \<noteq> v \<and> ef_size s \<le> log_end es + 4 \<and> st = HALMAC_RET_EFUSE_NOT_ENOUGH \<and> es' = es \<and> ef_cells s' = ef_cells s
       \<or> le16_at log offset \<noteq> v \<and> even offset \<and> log_end es + 4 < ef_size s \<and> st = HALMAC_RET_SUCCESS
         \<and> (\<exists>e. es' = es @ [e])
         \<and> logical_map (ef_eeprom_size s) es' = log[offset := ucast v, offset + 1 := ucast (drop_bit 8 v)]))"
proof -
  let ?ee = "ef_eeprom_size s"
  let ?dh = "if ef_map_valid s \<or> ef_map s \<noteq> None then 0 else int (ef_size s)"
  define s1 where "s1 = snd (pltfm_malloc env ?ee s)"
  have s1: "pltfm_malloc env ?ee s = (True, s1)" "efuse_holds s1 es" "ef_eeprom_size s1 = ?ee" "ef_cells s1 = ef_cells s"
    "ef_ctl s1 = ef_ctl s" "ef_heap s1 = ef_heap s + int ?ee" "ef_map_valid s1 = ef_map_valid s" "ef_map s1 = ef_map s"
    "ef_size s1 = ef_size s"
    using c h by (simp_all add: s1_def pltfm_malloc_def chip_ok_def efuse_holds_def ef_ctl_def)
  obtain s2 where rd: "read_log_efuse_map_8822e env s1 = Some ((HALMAC_RET_SUCCESS, log), s2)"
    and s2: "efuse_holds s2 es" "ef_cells s2 = ef_cells s" "ef_end s2 = log_end es" "ef_ctl s2 = ef_ctl s"
      "ef_heap s2 = ef_heap s + int ?ee + ?dh"
    using read_log_ok [OF c s1(2)] s1 unfolding log_def by auto
  have ctl: "ef_bt_switch s2 = ef_bt_switch s" "ef_size s2 = ef_size s" "ef_eeprom_size s2 = ?ee" "ef_auto_check s2 = ef_auto_check s"
    using s2(4) by (simp_all add: ef_ctl_def)
  have len: "length log = ?ee" "even ?ee" "?ee \<le> 2048" "8 dvd ?ee" "\<not> ef_bt_switch s2"
    using h ctl by (auto simp: log_def efuse_holds_def)
  have free: "efuse_holds (pltfm_free ?ee t) es' = efuse_holds t es'" "ef_cells (pltfm_free ?ee t) = ef_cells t" for t es'
    by (simp_all add: pltfm_free_def efuse_holds_def)
  note unfold = proc_write_log_efuse_word_8822e_def Let_def s1(1) rd ctl s2(3)
  consider "offset + 1 = ?ee" | "offset + 1 < ?ee" "le16_at log offset = v"
    | "offset + 1 < ?ee" "le16_at log offset \<noteq> v" "odd offset"
    | "offset + 1 < ?ee" "le16_at log offset \<noteq> v" "even offset" "ef_size s \<le> 4 + log_end es"
    | "offset + 1 < ?ee" "le16_at log offset \<noteq> v" "even offset" "\<not> ef_size s \<le> 4 + log_end es"
    using off by linarith
  then show ?thesis
  proof cases
    case 1
    then show ?thesis using off len(1) by (simp add: unfold)
  next
    case 2
    then have "proc_write_log_efuse_word_8822e env offset v s = Some (HALMAC_RET_SUCCESS, pltfm_free ?ee s2)"
      using len(1) by (simp add: unfold)
    then show ?thesis using 2 s2 by - (rule disjI2, intro exI conjI, (assumption | simp add: free)+)
  next
    case 3
    then have "proc_write_log_efuse_word_8822e env offset v s = Some (HALMAC_RET_ADR_NOT_ALIGN, pltfm_free ?ee s2)"
      using len(1) by (simp add: unfold)
    then show ?thesis using 3 s2 by - (rule disjI2, intro exI conjI, (assumption | simp add: free)+)
  next
    case 4
    then have "proc_write_log_efuse_word_8822e env offset v s = Some (HALMAC_RET_EFUSE_NOT_ENOUGH, pltfm_free ?ee s2)"
      using len(1) by (simp add: unfold)
    then show ?thesis using 4 s2 by - (rule disjI2, intro exI conjI, (assumption | simp add: free)+)
  next
    case 5
    let ?e = "word_entry offset (ucast v, ucast (drop_bit 8 v))"
    have bytes: "log_header (ef_bt_switch s2) offset @ [ucast (v AND 0xFF), ucast (drop_bit 8 v AND 0xFF)] = entry_bytes ?e"
      using len(5) by (simp only: word_entry_bytes le16_bytes)
    have "length (entry_bytes ?e) = 4" by (simp add: word_entry_bytes log_header_def Let_def)
    then obtain t where w: "write_cells env (ef_end s2) (entry_bytes ?e) (enable_efuse_sw_pwr_cut True s2) = (HALMAC_RET_SUCCESS, t)"
      and t: "efuse_holds (disable_efuse_sw_pwr_cut True t) (es @ [?e])" "ef_ctl t = ef_ctl s2" "ef_heap t = ef_heap s2"
      using append_write [OF c s2(1) _ _ _ s2(3), of ?e] word_entry_ok [OF off len(3,4)] a 5(4) by (auto simp: ctl)
    let ?r = "pltfm_free ?ee (disable_efuse_sw_pwr_cut True t)"
    have "proc_write_log_efuse_word_8822e env offset v s = Some (HALMAC_RET_SUCCESS, ?r)"
      using 5 len(1,5) w bytes by (simp add: unfold del: append_Cons append_Nil2 if_split)
    moreover have "efuse_holds ?r (es @ [?e])" "ef_ctl ?r = ef_ctl s" "ef_heap ?r = ef_heap s + ?dh"
      using t s2 by (simp_all add: free(1))
    moreover have "logical_map ?ee (es @ [?e]) = log[offset := ucast v, offset + 1 := ucast (drop_bit 8 v)]"
      unfolding logical_map_snoc log_def [symmetric] by (rule write_word_entry) (use 5 len in simp_all)
    ultimately show ?thesis using 5 by - (rule disjI2, intro exI conjI, (assumption | simp)+)
  qed
qed


section \<open>Properties\<close>

text \<open>
  C35. A logical write refines the update of one byte of a map: on a chip that works, and
  without the check of every byte, it returns with the entries of before and at most one more, from
  which the map results with just that byte changed; or it reports that the memory is full,
  which it does only when less than five cells are left, and leaves every cell as it was.
\<close>

theorem log_write_refines:
  assumes "chip_ok env" "efuse_holds s es" "\<not> ef_auto_check s" "offset < ef_eeprom_size s"
  shows "\<exists>st s' es'. proc_write_log_efuse_8822e env offset v s = Some (st, s') \<and> efuse_holds s' es' \<and> ef_ctl s' = ef_ctl s
    \<and> (es' = es \<or> (\<exists>e. es' = es @ [e]))
    \<and> (if st = HALMAC_RET_SUCCESS then
         logical_map (ef_eeprom_size s) es' = (logical_map (ef_eeprom_size s) es)[offset := v]
       else st = HALMAC_RET_EFUSE_NOT_ENOUGH \<and> ef_size s \<le> log_end es + 4 \<and> es' = es \<and> ef_cells s' = ef_cells s)"
proof -
  obtain st s' es' where w: "proc_write_log_efuse_8822e env offset v s = Some (st, s')" "efuse_holds s' es'" "ef_ctl s' = ef_ctl s"
    and r: "logical_map (ef_eeprom_size s) es ! offset = v \<and> st = HALMAC_RET_SUCCESS \<and> es' = es \<and> ef_cells s' = ef_cells s
       \<or> ef_size s \<le> log_end es + 4 \<and> st = HALMAC_RET_EFUSE_NOT_ENOUGH \<and> es' = es \<and> ef_cells s' = ef_cells s
       \<or> st = HALMAC_RET_SUCCESS \<and> (\<exists>e. es' = es @ [e])
         \<and> logical_map (ef_eeprom_size s) es' = (logical_map (ef_eeprom_size s) es)[offset := v]"
    using proc_write_log_cases [OF assms, of v] by blast
  show ?thesis
    using w r assms(4) by (intro exI [of _ st] exI [of _ s'] exI [of _ es']) auto
qed

lemma ff_and: "0xFF AND v = v" for v :: u8
proof -
  have "(0xFF :: u8) = - 1" by simp
  then show ?thesis by (simp only: and.left_neutral)
qed

definition ex_efuse_env :: efuse_env where
  "ex_efuse_env = \<lparr>fe_rdy = (\<lambda>_. True), fe_sense = (\<lambda>r v. if powered r then v else 0),
     fe_burn = (\<lambda>_ r old v. if writable r then old AND v else old), fe_malloc = (\<lambda>_. True), fe_fresh = (\<lambda>_. 0)\<rparr>"

definition ex_efuse :: efuse where
  "ex_efuse = \<lparr>ef_cells = ex_phy @ replicate 2016 0xff,
     ef_regs = \<lparr>rg_iso = 0x0100, rg_pmc = 0, rg_pmc3 = 0, rg_ctrl1 = 0\<rparr>, ef_clock = 0, ef_nalloc = 0, ef_heap = 0,
     ef_map = None, ef_map_valid = False, ef_end = 0, ef_auto_check = False, ef_bt_switch = False, ef_size = 32,
     ef_eeprom_size = 16, ef_prtct_size = 16, ef_bt_size = 64, ef_cnstr = HALMAC_CMD_CNSTR_IDLE,
     ef_proc = HALMAC_CMD_PROCESS_IDLE, ef_seq = 0, ef_fw_rc = 0, ef_seg_size = 0, ef_c2h_part2 = False, ef_h2c_seq = 0,
     ef_evnt_phy = False, ef_evnt_log = False, ef_evnt_mask = False, ef_events = []\<rparr>"

lemma ex_efuse_ok: "chip_ok ex_efuse_env" "efuse_holds ex_efuse ex_entries"
proof -
  show "chip_ok ex_efuse_env"
    by (auto simp: chip_ok_def ex_efuse_env_def ff_and)
  have "length ex_phy = 32" by (simp add: ex_phy_def)
  then show "efuse_holds ex_efuse ex_entries"
    using ex_phy_holds by (simp add: efuse_holds_def ex_efuse_def EF_CELLS_def)
qed

lemma ex_log: "logical_map 16 ex_entries = [0x29, 0x81, 0xFF, 0xFF, 3, 4, 0xFF, 0xFF, 0xFF, 0xFF, 0xFF, 0xFF, 0xFF, 0xFF, 0xAA, 0xBB]"
  "log_end ex_entries = 18"
  by (simp_all add: logical_map_def ex_entries_def apply_entry_def eval_nat_numeral log_end_def entry_bytes_def
    SEC_CTRL_EFUSE_SIZE_8822E_def)

theorem log_write_refines_witness:
  "\<exists>s' es'. proc_write_log_efuse_8822e ex_efuse_env 5 9 ex_efuse = Some (HALMAC_RET_SUCCESS, s') \<and> efuse_holds s' es' \<and>
     logical_map 16 es' = [0x29, 0x81, 0xFF, 0xFF, 3, 9, 0xFF, 0xFF, 0xFF, 0xFF, 0xFF, 0xFF, 0xFF, 0xFF, 0xAA, 0xBB]"
proof -
  have ex: "ef_eeprom_size ex_efuse = 16" "ef_size ex_efuse = 32" "\<not> ef_auto_check ex_efuse"
    by (simp_all add: ex_efuse_def)
  obtain st s' es' where w: "proc_write_log_efuse_8822e ex_efuse_env 5 9 ex_efuse = Some (st, s')" "efuse_holds s' es'"
    and r: "if st = HALMAC_RET_SUCCESS then logical_map 16 es' = (logical_map 16 ex_entries)[5 := 9]
      else ef_size ex_efuse \<le> log_end ex_entries + 4"
    using log_write_refines [OF ex_efuse_ok ex(3), of 5 9] unfolding ex(1) by auto
  have "st = HALMAC_RET_SUCCESS" using r by (rule contrapos_pp) (simp add: ex(2) ex_log(2))
  with w r show ?thesis by (auto simp: ex_log(1))
qed

end
