(* ===== verification/Ef_Pg.thy ===== *)
theory Ef_Pg
  imports Ef_Hw
begin

text \<open>
  Programming a whole logical map under a mask (\<^verbatim>\<open>proc_pg_efuse_by_map_8822e\<close> and what it
  calls): words that hold what they are to hold are left out, the space is checked, and the
  rest is appended to the log block by block.

  A mask has one byte for every 16 bytes of the map, its high half for the first block of
  eight and its low half for the second, with a bit for every word.
\<close>

section \<open>The request\<close>

definition PG_VER_LEN_8822E :: nat where "PG_VER_LEN_8822E = 7"

record pg_info =
  pi_map :: "u8 list option"
  pi_map_size :: nat
  pi_mask :: "u8 list option"
  pi_mask_size :: nat

text \<open>The version string behind the map has to be the one behind the mask.\<close>

fun compare_version :: "u8 list \<Rightarrow> nat \<Rightarrow> u8 list \<Rightarrow> nat \<Rightarrow> nat list \<Rightarrow> halmac_ret_status option" where
  "compare_version mp map_size msk mask_size [] = Some HALMAC_RET_SUCCESS"
| "compare_version mp map_size msk mask_size (i # is) =
     (if map_size + i \<ge> length mp \<or> mask_size + i \<ge> length msk then None
      else if mp ! (map_size + i) \<noteq> msk ! (mask_size + i) then Some HALMAC_RET_EFUSE_VER_ERR
      else compare_version mp map_size msk mask_size is)"

section \<open>The mask of what has to be written\<close>

text \<open>The bit of a mask byte for the word at \<open>j\<close> of its 16 bytes.\<close>

definition clr_bit :: "nat \<Rightarrow> nat" where
  "clr_bit j = (if j < 8 then 4 + j div 2 else (j - 8) div 2)"

fun clear_mask :: "u8 list \<Rightarrow> u8 list \<Rightarrow> u8 list \<Rightarrow> nat list \<Rightarrow> u8 list \<Rightarrow> u8 list" where
  "clear_mask map_pg mp mask_map [] updated_mask = updated_mask"
| "clear_mask map_pg mp mask_map (map_offset # offs) updated_mask =
     clear_mask map_pg mp mask_map offs
       (if le16_at map_pg map_offset = le16_at mp map_offset \<and> mask_map ! map_offset = 0 then
          updated_mask[map_offset div 16 := updated_mask ! (map_offset div 16) AND NOT (push_bit (clr_bit (map_offset mod 16)) 1)]
        else updated_mask)"

definition word_offsets :: "nat \<Rightarrow> nat list" where
  "word_offsets map_size = map (\<lambda>w. 2 * w) [0..<map_size div 2]"

definition update_eeprom_mask_8822e ::
  "efuse_env \<Rightarrow> u8 list \<Rightarrow> nat \<Rightarrow> u8 list \<Rightarrow> nat \<Rightarrow> u8 list \<Rightarrow> efuse \<Rightarrow> ((halmac_ret_status \<times> u8 list) \<times> efuse) option" where
  "update_eeprom_mask_8822e env map_pg map_size efuse_mask mask_size updated_mask s =
     (let eeprom_size = ef_eeprom_size s in
      case pltfm_malloc env eeprom_size s of
        (ok, s1) \<Rightarrow>
          if \<not> ok then Some ((HALMAC_RET_MALLOC_FAIL, updated_mask), s1)
          else
            (case read_log_efuse_map_8822e env s1 of
               None \<Rightarrow> None
             | Some ((status, mp), s2) \<Rightarrow>
                 if status \<noteq> HALMAC_RET_SUCCESS then Some ((status, updated_mask), pltfm_free eeprom_size s2)
                 else
                   (case pltfm_malloc env eeprom_size s2 of
                      (ok, s3) \<Rightarrow>
                        if \<not> ok then Some ((HALMAC_RET_MALLOC_FAIL, updated_mask), pltfm_free eeprom_size s3)
                        else
                          (case ef_map s3 of
                             None \<Rightarrow> None
                           | Some m \<Rightarrow>
                               (case run_parser (eeprom_mask_parser (ef_size s3) (ef_eeprom_size s3) m) s3 of
                                  None \<Rightarrow> None
                                | Some ((status, mask_map), s4) \<Rightarrow>
                                    if status \<noteq> HALMAC_RET_SUCCESS then
                                      Some ((status, updated_mask), pltfm_free eeprom_size (pltfm_free eeprom_size s4))
                                    else if mask_size > length updated_mask \<or> map_size > length mp then None
                                    else
                                      let um = take mask_size efuse_mask @ drop mask_size updated_mask
                                      in Some ((HALMAC_RET_SUCCESS, clear_mask map_pg mp mask_map (word_offsets map_size) um),
                                           pltfm_free eeprom_size s4))))))"

section \<open>The check of the space\<close>

definition block_offsets :: "nat \<Rightarrow> nat list" where
  "block_offsets map_size = map (\<lambda>k. 8 * k) [0..<(map_size + 7) div 8]"

definition enough_word_en :: "u8 list \<Rightarrow> nat \<Rightarrow> u8" where
  "enough_word_en updated_mask i =
     (if i mod 8 > 0 then updated_mask ! (i div 16) AND 0x0F else drop_bit 4 (updated_mask ! (i div 16)))"

fun count_pg :: "u8 list \<Rightarrow> nat list \<Rightarrow> nat \<Rightarrow> nat" where
  "count_pg updated_mask [] pg_num = pg_num"
| "count_pg updated_mask (i # is) pg_num =
     (let pre_word_en = enough_word_en updated_mask i in
      count_pg updated_mask is
        (if pre_word_en > 0 then pg_num + 2 + 2 * length (filter (bit pre_word_en) [0, 1, 2, 3]) else pg_num))"

definition check_efuse_enough_8822e :: "nat \<Rightarrow> u8 list \<Rightarrow> efuse \<Rightarrow> halmac_ret_status" where
  "check_efuse_enough_8822e map_size updated_mask s =
     (if ef_size s \<le> count_pg updated_mask (block_offsets map_size) 0 + ef_end s then HALMAC_RET_EFUSE_NOT_ENOUGH
      else HALMAC_RET_SUCCESS)"

section \<open>Writing\<close>

definition pg_words :: "u8 list \<Rightarrow> u8 \<Rightarrow> nat \<Rightarrow> u8 list" where
  "pg_words mp pre_word_en eeprom_offset =
     concat (map (\<lambda>i. if bit pre_word_en i then [mp ! (eeprom_offset + 2 * i), mp ! (eeprom_offset + 2 * i + 1)] else [])
       [0, 1, 2, 3])"

definition proc_pg_efuse_8822e :: "efuse_env \<Rightarrow> u8 list \<Rightarrow> u8 \<Rightarrow> u8 \<Rightarrow> nat \<Rightarrow> efuse \<Rightarrow> halmac_ret_status \<times> efuse" where
  "proc_pg_efuse_8822e env mp word_en pre_word_en eeprom_offset s =
     (let blk = of_nat (eeprom_offset div 8);
          hdr = drop_bit 4 (blk AND 0xF0) OR 0x30;
          hdr2 = push_bit 4 (blk AND 0x0F) + word_en;
          bytes = [hdr, hdr2] @ pg_words mp pre_word_en eeprom_offset
      in (case write_cells env (ef_end s) bytes s of
            (status, s1) \<Rightarrow>
              if status \<noteq> HALMAC_RET_SUCCESS then (status, s1)
              else (HALMAC_RET_SUCCESS, s1\<lparr>ef_end := ef_end s + length bytes\<rparr>)))"

definition pre_word_en_at :: "u8 list \<Rightarrow> nat \<Rightarrow> u8" where
  "pre_word_en_at msk i =
     (if (i div 8) mod 2 > 0 then msk ! (i div 16) AND 0x0F else drop_bit 4 (msk ! (i div 16)))"

fun program_blocks :: "efuse_env \<Rightarrow> u8 list \<Rightarrow> u8 list \<Rightarrow> nat list \<Rightarrow> efuse \<Rightarrow> halmac_ret_status \<times> efuse" where
  "program_blocks env mp updated_mask [] s = (HALMAC_RET_SUCCESS, s)"
| "program_blocks env mp updated_mask (i # is) s =
     (let pre_word_en = pre_word_en_at updated_mask i in
      if pre_word_en > 0 then
        (case proc_pg_efuse_8822e env mp (pre_word_en XOR 0x0F) pre_word_en i s of
           (status, s1) \<Rightarrow> if status \<noteq> HALMAC_RET_SUCCESS then (status, s1) else program_blocks env mp updated_mask is s1)
      else program_blocks env mp updated_mask is s)"

definition program_efuse_8822e :: "efuse_env \<Rightarrow> u8 list \<Rightarrow> nat \<Rightarrow> u8 list \<Rightarrow> efuse \<Rightarrow> halmac_ret_status \<times> efuse" where
  "program_efuse_8822e env mp map_size updated_mask s =
     (case program_blocks env mp updated_mask (block_offsets map_size) (enable_efuse_sw_pwr_cut True s) of
        (status, s1) \<Rightarrow>
          if status \<noteq> HALMAC_RET_SUCCESS then (status, s1) else (HALMAC_RET_SUCCESS, disable_efuse_sw_pwr_cut True s1))"

definition proc_pg_efuse_by_map_8822e ::
  "efuse_env \<Rightarrow> u8 list \<Rightarrow> nat \<Rightarrow> u8 list \<Rightarrow> nat \<Rightarrow> efuse \<Rightarrow> (halmac_ret_status \<times> efuse) option" where
  "proc_pg_efuse_by_map_8822e env mp map_size msk mask_size s =
     (let n = ef_eeprom_size s div 16 in
      case compare_version mp map_size msk mask_size [0..<PG_VER_LEN_8822E] of
        None \<Rightarrow> None
      | Some status \<Rightarrow>
          if status \<noteq> HALMAC_RET_SUCCESS then Some (status, s)
          else
            (case pltfm_malloc env n s of
               (ok, s1) \<Rightarrow>
                 if \<not> ok then Some (HALMAC_RET_MALLOC_FAIL, s1)
                 else
                   (case update_eeprom_mask_8822e env mp map_size msk mask_size (replicate n 0) s1 of
                      None \<Rightarrow> None
                    | Some ((status, um), s2) \<Rightarrow>
                        if status \<noteq> HALMAC_RET_SUCCESS then Some (status, pltfm_free n s2)
                        else
                          let status = check_efuse_enough_8822e map_size um s2 in
                          if status \<noteq> HALMAC_RET_SUCCESS then Some (status, pltfm_free n s2)
                          else
                            (case program_efuse_8822e env mp map_size um s2 of
                               (status, s3) \<Rightarrow>
                                 if status \<noteq> HALMAC_RET_SUCCESS then Some (status, pltfm_free n s3)
                                 else Some (HALMAC_RET_SUCCESS, pltfm_free n s3)))))"

section \<open>Masking a map\<close>

fun mask_blocks :: "u8 list \<Rightarrow> nat list \<Rightarrow> u8 list \<Rightarrow> u8 list" where
  "mask_blocks msk [] mp = mp"
| "mask_blocks msk (i # is) mp =
     (let pre_word_en = pre_word_en_at msk i in
      mask_blocks msk is
        (fold (\<lambda>j mp. if \<not> bit pre_word_en j then mp[i + 2 * j := 0xFF, i + 2 * j + 1 := 0xFF] else mp) [0, 1, 2, 3] mp))"

definition mask_eeprom_8822e :: "pg_info \<Rightarrow> u8 list \<Rightarrow> u8 list \<Rightarrow> u8 list" where
  "mask_eeprom_8822e info msk mp = mask_blocks msk (block_offsets (pi_map_size info)) mp"


section \<open>What the mask of the request becomes\<close>

definition mask_bit :: "u8 list \<Rightarrow> nat \<Rightarrow> bool" where
  "mask_bit msk p \<longleftrightarrow> bit (msk ! (p div 16)) (clr_bit (p mod 16))"

definition same_programmed :: "u8 list \<Rightarrow> u8 list \<Rightarrow> u8 list \<Rightarrow> nat \<Rightarrow> bool" where
  "same_programmed map_pg mp mask_map off \<longleftrightarrow> le16_at map_pg off = le16_at mp off \<and> mask_map ! off = 0"

lemma bit_15 [simp]: "bit (15 :: int) n \<longleftrightarrow> n < 4"
proof -
  have m: "(15 :: int) = mask 4" by (simp add: mask_eq_exp_minus_1)
  show ?thesis unfolding m bit_mask_iff by simp
qed

lemma clr_bit_less: "j < 16 \<Longrightarrow> clr_bit j < 8"
  by (auto simp: clr_bit_def)

lemma clr_bit_inj:
  assumes "even p" "even q" "p div 16 = q div 16" "clr_bit (p mod 16) = clr_bit (q mod 16)"
  shows "p = q"
proof -
  have "p mod 16 = q mod 16" if "p mod 16 < 16" "q mod 16 < 16" "even (p mod 16)" "even (q mod 16)"
    using assms(4) that by (auto simp: clr_bit_def elim!: evenE split: if_splits)
  then have "p mod 16 = q mod 16" using assms(1,2) by (simp add: dvd_mod_iff)
  with assms(3) show ?thesis by (metis div_mult_mod_eq)
qed

lemma length_clear_mask [simp]: "length (clear_mask map_pg mp mask_map offs um) = length um"
  by (induction map_pg mp mask_map offs um rule: clear_mask.induct) simp_all

lemma clear_mask_bit:
  assumes "even p" "p div 16 < length um" "\<forall>o' \<in> set offs. even o'"
  shows "mask_bit (clear_mask map_pg mp mask_map offs um) p
    \<longleftrightarrow> mask_bit um p \<and> (p \<in> set offs \<longrightarrow> \<not> same_programmed map_pg mp mask_map p)"
  using assms
proof (induction map_pg mp mask_map offs um rule: clear_mask.induct)
  case (2 map_pg mp mask_map off offs um)
  let ?um = "um[off div 16 := um ! (off div 16) AND NOT (push_bit (clr_bit (off mod 16)) 1)]"
  have "mask_bit ?um p \<longleftrightarrow> mask_bit um p \<and> p \<noteq> off"
  proof (cases "p div 16 = off div 16")
    case True
    have "bit (um ! (p div 16) AND NOT (push_bit (clr_bit (off mod 16)) 1)) (clr_bit (p mod 16))
        \<longleftrightarrow> bit (um ! (p div 16)) (clr_bit (p mod 16)) \<and> clr_bit (p mod 16) \<noteq> clr_bit (off mod 16)"
      using clr_bit_less [of "p mod 16"] by (auto simp: bit_and_iff bit_not_iff bit_exp_iff)
    moreover have "clr_bit (p mod 16) = clr_bit (off mod 16) \<longleftrightarrow> p = off"
      using clr_bit_inj [of p off] True 2 by auto
    ultimately show ?thesis using True 2 by (simp add: mask_bit_def)
  next
    case False
    then show ?thesis by (auto simp: mask_bit_def)
  qed
  with 2 show ?case by (auto simp: same_programmed_def)
qed simp

lemma div_mod_16: "r < 16 \<Longrightarrow> (16 * q + r) div 16 = q \<and> (16 * q + r) mod 16 = r" for q r :: nat
  by simp

lemma high_bit_less: "bit (drop_bit 4 (w :: u8)) j \<Longrightarrow> j < 4"
  using bit_imp_le_length [of w "4 + j"] by (simp add: bit_drop_bit_eq)

lemma pre_word_bit:
  assumes "8 dvd i"
  shows "bit (pre_word_en_at msk i) j \<longleftrightarrow> j < 4 \<and> mask_bit msk (i + 2 * j)"
proof -
  obtain k where k: "i = 8 * k" using assms by (elim dvdE)
  consider q where "k = 2 * q" | q where "k = 2 * q + 1" by (metis evenE oddE)
  then show ?thesis
  proof cases
    case 1
    then have i: "i = 16 * q" using k by simp
    have p: "pre_word_en_at msk i = drop_bit 4 (msk ! q)"
      unfolding pre_word_en_at_def i by simp
    show ?thesis
    proof (cases "j < 4")
      case True
      then have "mask_bit msk (i + 2 * j) \<longleftrightarrow> bit (msk ! q) (4 + j)"
        unfolding mask_bit_def i using div_mod_16 [of "2 * j" q] by (simp add: clr_bit_def)
      then show ?thesis using True by (simp add: p bit_drop_bit_eq)
    qed (use high_bit_less p in auto)
  next
    case 2
    then have i: "i = 16 * q + 8" using k by simp
    have p: "pre_word_en_at msk i = msk ! q AND 0x0F"
      unfolding pre_word_en_at_def i using div_mod_16 [of 8 q] by simp
    show ?thesis
    proof (cases "j < 4")
      case True
      then have "mask_bit msk (i + 2 * j) \<longleftrightarrow> bit (msk ! q) j"
        unfolding mask_bit_def i using div_mod_16 [of "8 + 2 * j" q] by (simp add: clr_bit_def add.assoc)
      then show ?thesis using True unfolding p bit_and_iff by simp
    next
      case False
      then show ?thesis unfolding p bit_and_iff by simp
    qed
  qed
qed

lemma pre_word_nibble: "pre_word_en_at msk i AND 0x0F = pre_word_en_at msk i"
proof -
  have "bit (pre_word_en_at msk i) j \<Longrightarrow> j < 4" for j
    using bit_imp_le_length [of "msk ! (i div 16)" "4 + j"]
    by (auto simp: pre_word_en_at_def bit_drop_bit_eq bit_and_iff split: if_splits)
  then show ?thesis
    by (intro bit_word_eqI) (auto simp: bit_and_iff)
qed

section \<open>Blocks are entries\<close>

definition block_entry :: "u8 list \<Rightarrow> u8 \<Rightarrow> nat \<Rightarrow> otp_entry" where
  "block_entry mp pre i = \<lparr>oe_blk = of_nat (i div 8),
     oe_words = map (\<lambda>j. if bit pre j then Some (mp ! (i + 2 * j), mp ! (i + 2 * j + 1)) else None) [0, 1, 2, 3]\<rparr>"

lemma nth_4: "j < 4 \<Longrightarrow> [0, 1, 2, 3] ! j = (j :: nat)"
  by (auto simp: less_Suc_eq numeral_eq_Suc)

lemma length_4: "length [0, 1, 2, 3 :: nat] = 4"
  by simp

lemma block_word_en:
  assumes "pre AND 0x0F = pre"
  shows "word_en_of (oe_words (block_entry mp pre i)) = pre XOR 0x0F"
proof (rule bit_word_eqI)
  fix n
  show "bit (word_en_of (oe_words (block_entry mp pre i))) n \<longleftrightarrow> bit (pre XOR 0x0F) n"
    using low_nibble_bits [OF assms, of n]
    by (cases "n < 4")
      (simp_all only: bit_word_en_of bit_xor_iff block_entry_def otp_entry.simps length_map nth_map nth_4 length_4, auto)
qed

lemma block_entry_bytes:
  assumes "pre AND 0x0F = pre"
  shows "entry_bytes (block_entry mp pre i) =
    [drop_bit 4 (of_nat (i div 8) AND 0xF0) OR 0x30, push_bit 4 (of_nat (i div 8) AND 0x0F) + (pre XOR 0x0F)] @ pg_words mp pre i"
proof -
  have "concat (map word_bytes (oe_words (block_entry mp pre i))) = pg_words mp pre i"
    by (simp add: block_entry_def pg_words_def if_distrib [of word_bytes] cong: if_cong)
  moreover have "oe_blk (block_entry mp pre i) = of_nat (i div 8)" by (simp add: block_entry_def)
  ultimately show ?thesis by (simp only: entry_bytes_def block_word_en [OF assms])
qed

definition pg_entries :: "u8 list \<Rightarrow> u8 list \<Rightarrow> nat list \<Rightarrow> otp_entry list" where
  "pg_entries mp um is =
     map (\<lambda>i. block_entry mp (pre_word_en_at um i) i) (filter (\<lambda>i. pre_word_en_at um i > 0) is)"

definition pg_bytes :: "u8 list \<Rightarrow> u8 list \<Rightarrow> nat list \<Rightarrow> u8 list" where
  "pg_bytes mp um is = concat (map entry_bytes (pg_entries mp um is))"

lemma program_blocks_ok:
  assumes c: "chip_ok env"
    and "writable (ef_regs s)" "\<not> ef_auto_check s" "length (ef_cells s) = EF_CELLS"
    and "ef_cells s = A @ replicate (length (pg_bytes mp um is)) 0xFF @ C" "length A = ef_end s"
  shows "\<exists>k v. program_blocks env mp um is s = (HALMAC_RET_SUCCESS, s\<lparr>ef_map_valid := v, ef_clock := k,
      ef_cells := A @ pg_bytes mp um is @ C, ef_end := ef_end s + length (pg_bytes mp um is)\<rparr>)
    \<and> v = (pg_bytes mp um is = [] \<and> ef_map_valid s)"
  using assms(2-)
proof (induction "is" arbitrary: s A)
  case Nil
  then show ?case
    by (intro exI [of _ "ef_clock s"] exI [of _ "ef_map_valid s"]) (simp add: pg_bytes_def pg_entries_def)
next
  case (Cons i "is")
  let ?pre = "pre_word_en_at um i"
  show ?case
  proof (cases "?pre > 0")
    case False
    then have b: "pg_bytes mp um (i # is) = pg_bytes mp um is" by (simp add: pg_bytes_def pg_entries_def)
    show ?thesis using Cons.IH [of s A] Cons.prems False unfolding b by simp
  next
    case True
    let ?e = "entry_bytes (block_entry mp ?pre i)"
    have b: "pg_bytes mp um (i # is) = ?e @ pg_bytes mp um is" using True by (simp add: pg_bytes_def pg_entries_def)
    let ?C = "replicate (length (pg_bytes mp um is)) 0xFF @ C"
    have cells: "ef_cells s = A @ replicate (length ?e) 0xFF @ ?C"
      using Cons.prems(4) unfolding b by (simp add: replicate_add)
    have ne: "?e \<noteq> []" by (simp add: entry_bytes_def)
    note w = write_cells_ok [OF c Cons.prems(1-3) cells Cons.prems(5) ne]
    let ?s = "s\<lparr>ef_map_valid := False, ef_clock := ef_clock s + length ?e, ef_cells := A @ ?e @ ?C, ef_end := ef_end s + length ?e\<rparr>"
    have p: "proc_pg_efuse_8822e env mp (?pre XOR 0x0F) ?pre i s = (HALMAC_RET_SUCCESS, ?s)"
      using w unfolding proc_pg_efuse_8822e_def Let_def block_entry_bytes [OF pre_word_nibble] by simp
    obtain k v where r: "program_blocks env mp um is ?s = (HALMAC_RET_SUCCESS, ?s\<lparr>ef_map_valid := v, ef_clock := k,
        ef_cells := (A @ ?e) @ pg_bytes mp um is @ C, ef_end := ef_end ?s + length (pg_bytes mp um is)\<rparr>)"
      and v: "v = (pg_bytes mp um is = [] \<and> ef_map_valid ?s)"
      using Cons.IH [of ?s "A @ ?e"] Cons.prems by (auto simp: cells)
    show ?thesis
      using True p r v ne unfolding b by (intro exI [of _ k] exI [of _ v]) (simp add: Let_def add.assoc)
  qed
qed


section \<open>The map that results\<close>

lemma nth_apply_words:
  "p < length log \<Longrightarrow> apply_words off ws log ! p =
    (if off \<le> p \<and> p < off + 2 * length ws then
       (case ws ! ((p - off) div 2) of None \<Rightarrow> log ! p | Some (a, b) \<Rightarrow> if even (p - off) then a else b)
     else log ! p)"
proof (induction off ws log rule: apply_words.induct)
  case (2 off ws log)
  consider "p < off" | "p = off" | "p = off + 1" | "off + 2 \<le> p" by linarith
  then show ?case
  proof cases
    case 4
    then have j: "(p - off) div 2 = Suc ((p - (off + 2)) div 2)" and ev: "even (p - off) = even (p - (off + 2))" by presburger+
    show ?thesis using 4 2 unfolding ev j by auto
  qed (use 2 in auto)
next
  case (3 off a b ws log)
  consider "p < off" | "p = off" | "p = off + 1" | "off + 2 \<le> p" by linarith
  then show ?case
  proof cases
    case 4
    then have j: "(p - off) div 2 = Suc ((p - (off + 2)) div 2)" and ev: "even (p - off) = even (p - (off + 2))"
      and ne: "p \<noteq> off" "p \<noteq> off + 1" by presburger+
    have u: "log[off := a, off + 1 := b] ! p = log ! p" using ne by simp
    show ?thesis using 4 3 ne unfolding ev j u by auto
  qed (use 3 in auto)
qed auto

lemma nth_block_entry:
  assumes "p < length log" "8 dvd i" "i < 2048"
  shows "apply_entry (block_entry mp pre i) log ! p =
    (if i \<le> p \<and> p < i + 8 \<and> bit pre ((p - i) div 2) then mp ! p else log ! p)"
proof -
  obtain k where k: "i = 8 * k" using assms(2) by (elim dvdE)
  have blk: "8 * unat (oe_blk (block_entry mp pre i)) = i"
    using k assms(3) by (simp add: block_entry_def unat_of_nat)
  have len: "length (oe_words (block_entry mp pre i)) = 4" by (simp add: block_entry_def)
  have n: "oe_words (block_entry mp pre i) ! j = (if bit pre j then Some (mp ! (i + 2 * j), mp ! (i + 2 * j + 1)) else None)"
    if "j < 4" for j
    using that by (simp only: block_entry_def otp_entry.simps nth_map length_4 nth_4)
  show ?thesis
  proof (cases "i \<le> p \<and> p < i + 8")
    case True
    then have "p - i < 8" by linarith
    then have j: "(p - i) div 2 < 4" by (simp add: less_mult_imp_div_less)
    have "even (p - i) \<Longrightarrow> i + 2 * ((p - i) div 2) = p" "odd (p - i) \<Longrightarrow> i + 2 * ((p - i) div 2) + 1 = p"
      using True by presburger+
    then show ?thesis
      using True unfolding apply_entry_def nth_apply_words [OF assms(1)] blk len n [OF j] by auto
  next
    case False
    then show ?thesis unfolding apply_entry_def nth_apply_words [OF assms(1)] blk len by auto
  qed
qed

lemma nth_pg_entries:
  assumes "p < length log" "\<forall>i \<in> set is. 8 dvd i \<and> i < 2048"
  shows "fold apply_entry (pg_entries mp um is) log ! p =
    (if \<exists>i \<in> set is. i \<le> p \<and> p < i + 8 \<and> mask_bit um (i + 2 * ((p - i) div 2)) then mp ! p else log ! p)"
  using assms
proof (induction "is" arbitrary: log)
  case Nil
  then show ?case by (simp add: pg_entries_def)
next
  case (Cons i "is")
  let ?pre = "pre_word_en_at um i"
  have i: "8 dvd i" "i < 2048" "\<forall>i \<in> set is. 8 dvd i \<and> i < 2048" using Cons.prems(2) by simp_all
  let ?log = "if ?pre > 0 then apply_entry (block_entry mp ?pre i) log else log"
  have f: "fold apply_entry (pg_entries mp um (i # is)) log = fold apply_entry (pg_entries mp um is) ?log"
    by (simp add: pg_entries_def)
  have b: "bit ?pre ((p - i) div 2) \<longleftrightarrow> mask_bit um (i + 2 * ((p - i) div 2))" if "i \<le> p" "p < i + 8"
    using pre_word_bit [OF i(1), of um "(p - i) div 2"] that by auto
  have z: "\<not> bit ?pre n" if "\<not> ?pre > 0" for n
  proof -
    have "?pre = 0" using that by (simp add: word_gt_0)
    then show ?thesis by simp
  qed
  have n: "?log ! p = (if i \<le> p \<and> p < i + 8 \<and> mask_bit um (i + 2 * ((p - i) div 2)) then mp ! p else log ! p)"
    using nth_block_entry [OF Cons.prems(1) i(1,2), of mp ?pre] b z by auto
  have len: "p < length ?log" using Cons.prems(1) by simp
  show ?case unfolding f Cons.IH [OF len i(3)] n by auto
qed

definition overlay :: "nat \<Rightarrow> u8 list \<Rightarrow> u8 list \<Rightarrow> u8 list \<Rightarrow> u8 list" where
  "overlay map_size msk mp log =
     map (\<lambda>p. if p < map_size \<and> mask_bit msk p then mp ! p else log ! p) [0..<length log]"

lemma mask_bit_even: "mask_bit msk (2 * (p div 2)) = mask_bit msk p"
proof -
  define q r where "q = p div 16" and "r = p mod 16"
  have p: "p = 16 * q + r" "r < 16" by (simp_all add: q_def r_def)
  have "2 * (p div 2) = 16 * q + 2 * (r div 2)" unfolding p(1) by presburger
  moreover have "2 * (r div 2) < 16" using p(2) by linarith
  ultimately have d: "2 * (p div 2) div 16 = q" "2 * (p div 2) mod 16 = 2 * (r div 2)"
    using div_mod_16 [of "2 * (r div 2)" q] by simp_all
  have "clr_bit (2 * (r div 2)) = clr_bit r"
    unfolding clr_bit_def using p(2) by (cases "even r") (auto elim!: evenE oddE, presburger)
  then show ?thesis
    by (simp only: mask_bit_def d) (simp only: q_def r_def)
qed

lemma in_block_offsets: "i \<in> set (block_offsets n) \<longleftrightarrow> 8 dvd i \<and> i < n"
proof -
  have "Suc k \<le> (n + 7) div 8 \<longleftrightarrow> 8 * k < n" for k
    unfolding less_eq_div_iff_mult_less_eq [of 8, simplified] by auto
  then have "set (block_offsets n) = (\<lambda>k. 8 * k) ` {k. 8 * k < n}"
    by (auto simp: block_offsets_def Suc_le_eq)
  then show ?thesis by (auto simp: dvd_def)
qed

lemma in_word_offsets: "even n \<Longrightarrow> off \<in> set (word_offsets n) \<longleftrightarrow> even off \<and> off < n"
  by (auto simp: word_offsets_def dvd_def)

lemma le16_eq:
  assumes "le16_at a off = le16_at b off" "off + 1 < length a" "off + 1 < length b"
  shows "a ! off = b ! off \<and> a ! (off + 1) = b ! (off + 1)"
proof -
  have lo: "(ucast (ucast x OR push_bit 8 (ucast y) :: u16) :: u8) = x"
    and hi: "(ucast (drop_bit 8 (ucast x OR push_bit 8 (ucast y) :: u16)) :: u8) = y" for x y :: u8
  proof -
    show "(ucast (ucast x OR push_bit 8 (ucast y) :: u16) :: u8) = x"
      by (rule bit_word_eqI) (auto simp: bit_ucast_iff bit_or_iff bit_push_bit_iff)
    show "(ucast (drop_bit 8 (ucast x OR push_bit 8 (ucast y) :: u16)) :: u8) = y"
      using bit_imp_le_length [of x]
      by (intro bit_word_eqI) (force simp: bit_ucast_iff bit_or_iff bit_push_bit_iff bit_drop_bit_eq)
  qed
  have i: "off < length a" "off < length b" using assms(2,3) by simp_all
  show ?thesis
    using arg_cong [OF assms(1), of "\<lambda>w. ucast w :: u8"] arg_cong [OF assms(1), of "\<lambda>w. ucast (drop_bit 8 w) :: u8"]
    by (simp only: le16_at_def byte_at_def assms(2,3) i if_True lo hi simp_thms)
qed

text \<open>What the words of a request that are not left out make of a map.\<close>

lemma pg_entries_overlay:
  fixes mask_map :: "u8 list"
  assumes n: "even n" "n \<le> 2048" "n \<le> length log" "n \<le> length mp" "n div 16 \<le> length msk" "16 dvd n"
  defines "um \<equiv> clear_mask mp log mask_map (word_offsets n) msk"
  shows "fold apply_entry (pg_entries mp um (block_offsets n)) log = overlay n msk mp log"
proof (rule nth_equalityI)
  show "length (fold apply_entry (pg_entries mp um (block_offsets n)) log) = length (overlay n msk mp log)"
    by (simp add: overlay_def)
next
  fix p assume "p < length (fold apply_entry (pg_entries mp um (block_offsets n)) log)"
  then have p: "p < length log" by simp
  let ?i = "8 * (p div 8)"
  have blocks: "\<forall>i \<in> set (block_offsets n). 8 dvd i \<and> i < 2048"
    using n(2) by (auto simp: in_block_offsets)
  have only: "i = ?i" if at: "i \<le> p" "p < i + 8" "8 dvd i" for i
  proof -
    obtain k where "i = 8 * k" using at(3) by (elim dvdE)
    then have "p div 8 = k" using at(1,2) by (intro div_nat_eqI) simp_all
    then show ?thesis using \<open>i = 8 * k\<close> by simp
  qed
  have w: "?i + 2 * ((p - ?i) div 2) = 2 * (p div 2)"
  proof -
    have "p = 8 * (p div 8) + p mod 8" by simp
    then obtain q r where p: "p = 8 * q + r" "r < 8" by (meson mod_less_divisor zero_less_numeral)
    then have "p div 8 = q" "p div 2 = 4 * q + r div 2" by simp_all
    then show ?thesis unfolding p(1) by simp
  qed
  have here: "?i \<le> p" "p < ?i + 8" by simp_all
  obtain m where m: "n = 16 * m" using n(6) by (elim dvdE)
  have lt: "?i < n \<longleftrightarrow> p < n"
    using div_less_iff_less_mult [of 8 p "2 * m"] by (simp add: m mult.commute)
  have "(\<exists>i \<in> set (block_offsets n). i \<le> p \<and> p < i + 8 \<and> mask_bit um (i + 2 * ((p - i) div 2)))
      \<longleftrightarrow> p < n \<and> mask_bit um (2 * (p div 2))"
  proof
    assume "\<exists>i \<in> set (block_offsets n). i \<le> p \<and> p < i + 8 \<and> mask_bit um (i + 2 * ((p - i) div 2))"
    then obtain i where i0: "i \<in> set (block_offsets n)"
      and ip: "i \<le> p \<and> p < i + 8 \<and> mask_bit um (i + 2 * ((p - i) div 2))" by (rule bexE)
    have i: "i \<le> p" "p < i + 8" "8 dvd i" "mask_bit um (i + 2 * ((p - i) div 2))" "i < n"
      using i0 ip unfolding in_block_offsets by simp_all
    have e: "i = ?i" by (rule only) (fact i(1-3))+
    have "mask_bit um (?i + 2 * ((p - ?i) div 2))" "?i < n"
      using i(4,5) by (simp_all only: e [symmetric])
    then show "p < n \<and> mask_bit um (2 * (p div 2))" unfolding w lt by blast
  next
    assume "p < n \<and> mask_bit um (2 * (p div 2))"
    then show "\<exists>i \<in> set (block_offsets n). i \<le> p \<and> p < i + 8 \<and> mask_bit um (i + 2 * ((p - i) div 2))"
      using here lt unfolding in_block_offsets [symmetric]
      by (intro bexI [of _ ?i]) (simp_all only: w in_block_offsets dvd_triv_left simp_thms)
  qed
  then have r: "fold apply_entry (pg_entries mp um (block_offsets n)) log ! p
      = (if p < n \<and> mask_bit um (2 * (p div 2)) then mp ! p else log ! p)"
    using nth_pg_entries [OF p blocks] by simp
  let ?o = "2 * (p div 2)"
  have um: "mask_bit um ?o \<longleftrightarrow> mask_bit msk p \<and> \<not> same_programmed mp log mask_map ?o" if "p < n"
  proof -
    have "?o < n" using that by simp
    moreover have "?o div 16 < length msk" using n(5) that by (simp add: m less_mult_imp_div_less)
    ultimately show ?thesis
      unfolding um_def using clear_mask_bit [of ?o msk "word_offsets n" mp log mask_map] n(1)
      by (simp add: in_word_offsets mask_bit_even)
  qed
  have "mp ! p = log ! p" if "p < n" "same_programmed mp log mask_map ?o"
  proof -
    have "?o + 1 < n" using that(1) n(1) by presburger
    then have "mp ! ?o = log ! ?o \<and> mp ! (?o + 1) = log ! (?o + 1)"
      using le16_eq [of mp ?o log] that(2) n(3,4) by (simp add: same_programmed_def)
    moreover have "p = ?o \<or> p = ?o + 1" by presburger
    ultimately show ?thesis by metis
  qed
  with um r p show "fold apply_entry (pg_entries mp um (block_offsets n)) log ! p = overlay n msk mp log ! p"
    by (auto simp: overlay_def)
qed


section \<open>The whole operation\<close>

text \<open>A request whose sizes, lengths and versions fit an adapter with a map of \<open>ee\<close> bytes.\<close>

definition request_ok :: "nat \<Rightarrow> u8 list \<Rightarrow> nat \<Rightarrow> u8 list \<Rightarrow> bool" where
  "request_ok ee mp n msk \<longleftrightarrow>
     16 dvd n \<and> n \<le> ee \<and> n + PG_VER_LEN_8822E \<le> length mp \<and> n div 16 + PG_VER_LEN_8822E \<le> length msk \<and>
     (\<forall>i < PG_VER_LEN_8822E. mp ! (n + i) = msk ! (n div 16 + i))"

definition updated_mask :: "nat \<Rightarrow> otp_entry list \<Rightarrow> u8 list \<Rightarrow> nat \<Rightarrow> u8 list \<Rightarrow> u8 list" where
  "updated_mask ee es mp n msk =
     clear_mask mp (logical_map ee es) (programmed_mask ee es) (word_offsets n)
       (take (n div 16) msk @ drop (n div 16) (replicate (ee div 16) 0))"

definition pg_new :: "nat \<Rightarrow> otp_entry list \<Rightarrow> u8 list \<Rightarrow> nat \<Rightarrow> u8 list \<Rightarrow> otp_entry list" where
  "pg_new ee es mp n msk = pg_entries mp (updated_mask ee es mp n msk) (block_offsets n)"

lemma ef_ctl_updates [simp]:
  "ef_ctl (s\<lparr>ef_end := e\<rparr>) = ef_ctl s" "ef_ctl (s\<lparr>ef_map_valid := v\<rparr>) = ef_ctl s"
  "ef_ctl (s\<lparr>ef_clock := k\<rparr>) = ef_ctl s" "ef_ctl (s\<lparr>ef_cells := c\<rparr>) = ef_ctl s"
  by (simp_all add: ef_ctl_def)

lemma compare_version_ok:
  "(\<And>i. i \<in> set is \<Longrightarrow> n + i < length mp \<and> k + i < length msk \<and> mp ! (n + i) = msk ! (k + i)) \<Longrightarrow>
    compare_version mp n msk k is = Some HALMAC_RET_SUCCESS"
  by (induction "is") (simp_all add: not_le)

lemma request_version: "request_ok ee mp n msk \<Longrightarrow> compare_version mp n msk (n div 16) [0..<PG_VER_LEN_8822E] = Some HALMAC_RET_SUCCESS"
  by (rule compare_version_ok) (auto simp: request_ok_def)

lemma update_mask_ok:
  assumes c: "chip_ok env" and h: "efuse_holds s es" and r: "request_ok (ef_eeprom_size s) mp n msk"
  shows "\<exists>s'. update_eeprom_mask_8822e env mp n msk (n div 16) (replicate (ef_eeprom_size s div 16) 0) s
      = Some ((HALMAC_RET_SUCCESS, updated_mask (ef_eeprom_size s) es mp n msk), s')
    \<and> efuse_holds s' es \<and> ef_cells s' = ef_cells s \<and> ef_end s' = log_end es \<and> ef_ctl s' = ef_ctl s
    \<and> ef_heap s' = ef_heap s + int (ef_eeprom_size s) + (if ef_map_valid s \<or> ef_map s \<noteq> None then 0 else int (ef_size s))"
proof -
  let ?ee = "ef_eeprom_size s"
  define s1 where "s1 = snd (pltfm_malloc env ?ee s)"
  have s1: "pltfm_malloc env ?ee s = (True, s1)" "efuse_holds s1 es" "ef_eeprom_size s1 = ?ee" "ef_cells s1 = ef_cells s"
    "ef_ctl s1 = ef_ctl s" "ef_heap s1 = ef_heap s + int ?ee" "ef_map_valid s1 = ef_map_valid s" "ef_map s1 = ef_map s"
    "ef_size s1 = ef_size s"
    using c h by (simp_all add: s1_def pltfm_malloc_def chip_ok_def efuse_holds_def ef_ctl_def)
  obtain s2 where rd: "read_log_efuse_map_8822e env s1 = Some ((HALMAC_RET_SUCCESS, logical_map ?ee es), s2)"
    and s2: "efuse_holds s2 es" "ef_cells s2 = ef_cells s" "ef_end s2 = log_end es" "ef_ctl s2 = ef_ctl s"
      "ef_map s2 = Some (take (ef_size s) (ef_cells s))"
      "ef_heap s2 = ef_heap s + int ?ee + (if ef_map_valid s \<or> ef_map s \<noteq> None then 0 else int (ef_size s))"
    using read_log_ok [OF c s1(2)] s1 by auto
  define s3 where "s3 = snd (pltfm_malloc env ?ee s2)"
  have s3: "pltfm_malloc env ?ee s2 = (True, s3)" "efuse_holds s3 es" "ef_cells s3 = ef_cells s" "ef_ctl s3 = ef_ctl s"
    "ef_map s3 = Some (take (ef_size s) (ef_cells s))" "ef_heap s3 = ef_heap s2 + int ?ee"
    using c s2 by (simp_all add: s3_def pltfm_malloc_def chip_ok_def efuse_holds_def ef_ctl_def)
  have ctl: "ef_size s3 = ef_size s" "ef_eeprom_size s3 = ?ee" using s3(4) by (simp_all add: ef_ctl_def)
  have log: "holds_log (ef_size s) ?ee (take (ef_size s) (ef_cells s)) es" using h by (simp add: efuse_holds_def)
  have p: "run_parser (eeprom_mask_parser (ef_size s3) (ef_eeprom_size s3) (take (ef_size s) (ef_cells s))) s3
      = Some ((HALMAC_RET_SUCCESS, programmed_mask ?ee es), s3\<lparr>ef_end := log_end es\<rparr>)"
    using parsers_of_log(2) [OF log] by (simp add: ctl run_parser_def log_end_def)
  have sizes: "\<not> n div 16 > length (replicate (?ee div 16) (0 :: u8))" "\<not> n > length (logical_map ?ee es)"
    using r by (simp_all add: request_ok_def div_le_mono not_less)
  let ?s = "pltfm_free ?ee (s3\<lparr>ef_end := log_end es\<rparr>)"
  have "update_eeprom_mask_8822e env mp n msk (n div 16) (replicate (?ee div 16) 0) s
      = Some ((HALMAC_RET_SUCCESS, updated_mask ?ee es mp n msk), ?s)"
    using sizes by (simp add: update_eeprom_mask_8822e_def Let_def s1(1) rd s3(1,5) p updated_mask_def del: drop_replicate)
  moreover have "efuse_holds ?s es" "ef_cells ?s = ef_cells s" "ef_end ?s = log_end es"
    using s3(2,3) by (simp_all add: pltfm_free_def efuse_holds_def)
  moreover have "ef_ctl ?s = ef_ctl s" "ef_heap ?s = ef_heap s2"
    using s3(4,6) by simp_all
  ultimately show ?thesis using s2(6) by auto
qed

lemma length_updated_mask [simp]: "n \<le> ee \<Longrightarrow> n div 16 \<le> length msk \<Longrightarrow> length (updated_mask ee es mp n msk) = ee div 16"
  using div_le_mono [of n ee 16] by (simp add: updated_mask_def)

lemma pg_new_ok:
  assumes "n \<le> ee" "ee \<le> 2048" "8 dvd ee"
  shows "\<forall>e \<in> set (pg_new ee es mp n msk). entry_ok ee e"
proof
  fix e assume "e \<in> set (pg_new ee es mp n msk)"
  then obtain i where i: "8 dvd i" "i < n" "pre_word_en_at (updated_mask ee es mp n msk) i > 0"
    and e: "e = block_entry mp (pre_word_en_at (updated_mask ee es mp n msk) i) i" (is "e = block_entry mp ?pre i")
    by (auto simp: pg_new_def pg_entries_def in_block_offsets)
  have "?pre \<noteq> 0" using i(3) by auto
  then obtain j where j: "bit ?pre j" by (auto simp: bit_eq_iff)
  then have j4: "j < 4" using pre_word_bit [OF i(1)] by blast
  then have "oe_words e ! j \<noteq> None" "j < length (oe_words e)"
    using j by (simp_all only: e block_entry_def otp_entry.simps nth_map length_4 length_map nth_4) simp_all
  then have some: "\<exists>w \<in> set (oe_words e). w \<noteq> None" by (metis nth_mem)
  obtain k q where k: "i = 8 * k" "ee = 8 * q" using i(1) assms(3) by (elim dvdE)
  then have kq: "k < q" using i(2) assms(1) by linarith
  have "unat (oe_blk e) = k" using k kq assms(2) by (simp add: e block_entry_def unat_of_nat)
  then have "8 * unat (oe_blk e) + 8 \<le> ee" using k kq by simp
  moreover have "length (oe_words e) = 4" by (simp add: e block_entry_def)
  ultimately show "entry_ok ee e" using some by (simp add: entry_ok_def)
qed

lemma overlay_cong: "(\<And>p. p < n \<Longrightarrow> mask_bit a p = mask_bit b p) \<Longrightarrow> overlay n a mp log = overlay n b mp log"
  unfolding overlay_def by (intro map_cong refl) auto

lemma pg_new_overlay:
  assumes r: "request_ok ee mp n msk" and ee: "ee \<le> 2048" "8 dvd ee"
  shows "logical_map ee (es @ pg_new ee es mp n msk) = overlay n msk mp (logical_map ee es)"
proof -
  let ?um = "take (n div 16) msk @ drop (n div 16) (replicate (ee div 16) 0)"
  have n: "16 dvd n" "n \<le> ee" "n \<le> length mp" "n div 16 \<le> length msk" using r by (simp_all add: request_ok_def)
  then have "even n" using dvd_trans [of 2 16 n] by simp
  have "logical_map ee (es @ pg_new ee es mp n msk) = overlay n ?um mp (logical_map ee es)"
    unfolding logical_map_def fold_append o_apply pg_new_def updated_mask_def
    unfolding logical_map_def [symmetric] programmed_mask_def [symmetric]
    using pg_entries_overlay [OF \<open>even n\<close>, of "logical_map ee es" mp ?um "programmed_mask ee es"] n ee by simp
  also have "\<dots> = overlay n msk mp (logical_map ee es)"
  proof (rule overlay_cong)
    fix p assume "p < n"
    then have "p div 16 < n div 16" using n(1) by (auto elim!: dvdE simp: less_mult_imp_div_less mult.commute)
    then show "mask_bit ?um p = mask_bit msk p" using n(4) by (simp add: mask_bit_def nth_append)
  qed
  finally show ?thesis .
qed

text \<open>
  Once the check of the space has passed, the new entries are programmed behind the log
  whenever the cells there can be programmed, whether or not they are cells of the log.
\<close>

lemma program_efuse_cells:
  assumes c: "chip_ok env" and s: "\<not> ef_auto_check s" "length (ef_cells s) = EF_CELLS"
    and A: "ef_cells s = A @ replicate (length (pg_bytes mp um (block_offsets n))) 0xFF @ C" "length A = ef_end s"
  shows "\<exists>s'. program_efuse_8822e env mp n um s = (HALMAC_RET_SUCCESS, s')
    \<and> ef_cells s' = A @ pg_bytes mp um (block_offsets n) @ C \<and> ef_ctl s' = ef_ctl s \<and> ef_heap s' = ef_heap s
    \<and> ef_map s' = ef_map s \<and> ef_map_valid s' = (pg_bytes mp um (block_offsets n) = [] \<and> ef_map_valid s)"
proof -
  let ?s = "enable_efuse_sw_pwr_cut True s"
  let ?b = "pg_bytes mp um (block_offsets n)"
  have e: "writable (ef_regs ?s)" "\<not> ef_auto_check ?s" "length (ef_cells ?s) = EF_CELLS"
    "ef_cells ?s = A @ replicate (length ?b) 0xFF @ C" "length A = ef_end ?s"
    using s A enable_powered(2) by (simp_all add: enable_efuse_sw_pwr_cut_def)
  obtain k v where p: "program_blocks env mp um (block_offsets n) ?s = (HALMAC_RET_SUCCESS, ?s\<lparr>ef_map_valid := v, ef_clock := k,
      ef_cells := A @ ?b @ C, ef_end := ef_end ?s + length ?b\<rparr>)" "v = (?b = [] \<and> ef_map_valid ?s)"
    using program_blocks_ok [OF c e] by blast
  let ?t = "disable_efuse_sw_pwr_cut True (?s\<lparr>ef_map_valid := v, ef_clock := k, ef_cells := A @ ?b @ C, ef_end := ef_end ?s + length ?b\<rparr>)"
  have "program_efuse_8822e env mp n um s = (HALMAC_RET_SUCCESS, ?t)"
    by (simp add: program_efuse_8822e_def p(1))
  moreover have "ef_cells ?t = A @ ?b @ C" "ef_map ?t = ef_map s" "ef_map_valid ?t = (?b = [] \<and> ef_map_valid s)"
    using p(2) by (simp_all add: disable_efuse_sw_pwr_cut_def enable_efuse_sw_pwr_cut_def)
  moreover have "ef_ctl ?t = ef_ctl s" "ef_heap ?t = ef_heap s"
    by simp_all
  ultimately show ?thesis by blast
qed

text \<open>The operation up to the writing: the mask, the check, and what is left to do.\<close>

lemma proc_pg_steps:
  assumes c: "chip_ok env" and h: "efuse_holds s es" and r: "request_ok (ef_eeprom_size s) mp n msk"
  defines "um \<equiv> updated_mask (ef_eeprom_size s) es mp n msk"
  shows "\<exists>s2. efuse_holds s2 es \<and> ef_cells s2 = ef_cells s \<and> ef_end s2 = log_end es \<and> ef_ctl s2 = ef_ctl s
    \<and> ef_heap s2 = ef_heap s + int (ef_eeprom_size s div 16) + int (ef_eeprom_size s)
        + (if ef_map_valid s \<or> ef_map s \<noteq> None then 0 else int (ef_size s))
    \<and> proc_pg_efuse_by_map_8822e env mp n msk (n div 16) s =
        (if ef_size s \<le> count_pg um (block_offsets n) 0 + log_end es
         then Some (HALMAC_RET_EFUSE_NOT_ENOUGH, pltfm_free (ef_eeprom_size s div 16) s2)
         else (case program_efuse_8822e env mp n um s2 of
                 (status, s3) \<Rightarrow> Some (status, pltfm_free (ef_eeprom_size s div 16) s3)))"
proof -
  let ?ee = "ef_eeprom_size s"
  define s1 where "s1 = snd (pltfm_malloc env (?ee div 16) s)"
  have s1: "pltfm_malloc env (?ee div 16) s = (True, s1)" "efuse_holds s1 es" "ef_eeprom_size s1 = ?ee" "ef_cells s1 = ef_cells s"
    "ef_ctl s1 = ef_ctl s" "ef_heap s1 = ef_heap s + int (?ee div 16)" "ef_map_valid s1 = ef_map_valid s" "ef_map s1 = ef_map s"
    "ef_size s1 = ef_size s"
    using c h by (simp_all add: s1_def pltfm_malloc_def chip_ok_def efuse_holds_def ef_ctl_def)
  have r1: "request_ok (ef_eeprom_size s1) mp n msk" using r s1(3) by simp
  obtain s2 where u: "update_eeprom_mask_8822e env mp n msk (n div 16) (replicate (?ee div 16) 0) s1
      = Some ((HALMAC_RET_SUCCESS, um), s2)"
    and s2: "efuse_holds s2 es" "ef_cells s2 = ef_cells s" "ef_end s2 = log_end es" "ef_ctl s2 = ef_ctl s"
      "ef_heap s2 = ef_heap s + int (?ee div 16) + int ?ee + (if ef_map_valid s \<or> ef_map s \<noteq> None then 0 else int (ef_size s))"
    using update_mask_ok [OF c s1(2) r1] s1 unfolding um_def by auto
  have "ef_size s2 = ef_size s" using s2(4) by (simp add: ef_ctl_def)
  then have "proc_pg_efuse_by_map_8822e env mp n msk (n div 16) s =
      (if ef_size s \<le> count_pg um (block_offsets n) 0 + log_end es
       then Some (HALMAC_RET_EFUSE_NOT_ENOUGH, pltfm_free (?ee div 16) s2)
       else (case program_efuse_8822e env mp n um s2 of (status, s3) \<Rightarrow> Some (status, pltfm_free (?ee div 16) s3)))"
    by (simp add: proc_pg_efuse_by_map_8822e_def Let_def request_version [OF r] s1(1) u check_efuse_enough_8822e_def s2(3)
      split: prod.split)
  with s2 show ?thesis by blast
qed

section \<open>Properties\<close>

text \<open>
  C37. Programming a map under a mask, on a chip that works and without the check of every byte:
  when the count of the cells is too high for what is left, nothing is written; otherwise, when
  the new entries do fit, they are appended to the log, and the map that results is the one of
  before with the words of the mask replaced by those of the request.
\<close>

theorem pg_efuse_overlay:
  assumes "chip_ok env" "efuse_holds s es" "\<not> ef_auto_check s" "request_ok (ef_eeprom_size s) mp n msk"
    and "log_end es + length (concat (map entry_bytes (pg_new (ef_eeprom_size s) es mp n msk))) \<le> ef_size s"
  shows "\<exists>st s' es'. proc_pg_efuse_by_map_8822e env mp n msk (n div 16) s = Some (st, s') \<and> efuse_holds s' es' \<and> ef_ctl s' = ef_ctl s
    \<and> (if ef_size s \<le> count_pg (updated_mask (ef_eeprom_size s) es mp n msk) (block_offsets n) 0 + log_end es
       then st = HALMAC_RET_EFUSE_NOT_ENOUGH \<and> es' = es \<and> ef_cells s' = ef_cells s
       else st = HALMAC_RET_SUCCESS \<and> es' = es @ pg_new (ef_eeprom_size s) es mp n msk
         \<and> logical_map (ef_eeprom_size s) es' = overlay n msk mp (logical_map (ef_eeprom_size s) es))"
proof -
  let ?ee = "ef_eeprom_size s"
  let ?um = "updated_mask ?ee es mp n msk"
  let ?new = "pg_new ?ee es mp n msk"
  have ee: "?ee \<le> 2048" "8 dvd ?ee" "n \<le> ?ee" using assms(2,4) by (simp_all add: efuse_holds_def request_ok_def)
  obtain s2 where s2: "efuse_holds s2 es" "ef_cells s2 = ef_cells s" "ef_end s2 = log_end es" "ef_ctl s2 = ef_ctl s"
    and p: "proc_pg_efuse_by_map_8822e env mp n msk (n div 16) s =
        (if ef_size s \<le> count_pg ?um (block_offsets n) 0 + log_end es
         then Some (HALMAC_RET_EFUSE_NOT_ENOUGH, pltfm_free (?ee div 16) s2)
         else (case program_efuse_8822e env mp n ?um s2 of (status, s3) \<Rightarrow> Some (status, pltfm_free (?ee div 16) s3)))"
    using proc_pg_steps [OF assms(1,2,4)] by blast
  have ctl: "ef_size s2 = ef_size s" "ef_eeprom_size s2 = ?ee" "ef_auto_check s2 = ef_auto_check s"
    using s2(4) by (simp_all add: ef_ctl_def)
  have free: "efuse_holds (pltfm_free k t) es' = efuse_holds t es'" "ef_cells (pltfm_free k t) = ef_cells t" for k t es'
    by (simp_all add: pltfm_free_def efuse_holds_def)
  show ?thesis
  proof (cases "ef_size s \<le> count_pg ?um (block_offsets n) 0 + log_end es")
    case True
    then show ?thesis
      using p s2 by (intro exI [of _ HALMAC_RET_EFUSE_NOT_ENOUGH] exI [of _ "pltfm_free (?ee div 16) s2"] exI [of _ es]) (simp add: free)
  next
    case False
    have bytes: "pg_bytes mp ?um (block_offsets n) = concat (map entry_bytes ?new)" by (simp add: pg_bytes_def pg_new_def)
    obtain A C where A: "ef_cells s2 = A @ replicate (length (concat (map entry_bytes ?new))) 0xFF @ C" "length A = log_end es"
      and ext: "\<forall>t new. (\<forall>e \<in> set new. entry_ok ?ee e) \<and> length (concat (map entry_bytes new)) = length (concat (map entry_bytes ?new))
        \<and> ef_cells t = A @ concat (map entry_bytes new) @ C \<and> \<not> ef_map_valid t \<and> ef_ctl t = ef_ctl s2 \<longrightarrow> efuse_holds t (es @ new)"
      using log_split [OF s2(1), of "length (concat (map entry_bytes ?new))"] assms(5) by (auto simp: ctl)
    have "length (ef_cells s2) = EF_CELLS" "\<not> ef_auto_check s2" "length A = ef_end s2"
      using s2 assms(3) A(2) by (simp_all add: efuse_holds_def ctl)
    then obtain s3 where w: "program_efuse_8822e env mp n ?um s2 = (HALMAC_RET_SUCCESS, s3)"
      and s3: "ef_cells s3 = A @ concat (map entry_bytes ?new) @ C" "ef_ctl s3 = ef_ctl s2" "ef_map s3 = ef_map s2"
        "ef_map_valid s3 = (concat (map entry_bytes ?new) = [] \<and> ef_map_valid s2)"
      using program_efuse_cells [OF assms(1), of s2 A mp ?um n C] A(1) unfolding bytes by blast
    have "efuse_holds s3 (es @ ?new)"
    proof (cases "?new = []")
      case True
      have "ef_cells s3 = ef_cells s2" using s3(1) A(1) True by simp
      then show ?thesis using s2(1) s3 True by (simp add: efuse_holds_def ef_ctl_def)
    next
      case False
      then have "\<not> ef_map_valid s3" using s3(4) by (cases ?new) (simp_all add: entry_bytes_def)
      then show ?thesis using ext s3 pg_new_ok [OF ee(3,1,2)] by blast
    qed
    moreover have "proc_pg_efuse_by_map_8822e env mp n msk (n div 16) s = Some (HALMAC_RET_SUCCESS, pltfm_free (?ee div 16) s3)"
      using p w False by simp
    ultimately show ?thesis
      using False s3(2) s2(4) pg_new_overlay [OF assms(4) ee(1,2), of es]
      by (intro exI [of _ HALMAC_RET_SUCCESS] exI [of _ "pltfm_free (?ee div 16) s3"] exI [of _ "es @ ?new"]) (simp add: free)
  qed
qed


definition ex_mp :: "u8 list" where
  "ex_mp = [0x10, 0x11, 0x12, 0x13, 0x14, 0x15, 0x16, 0x17, 0x18, 0x19, 0x1A, 0x1B, 0x1C, 0x1D, 0x1E, 0x1F]"

definition ex_ver :: "u8 list" where
  "ex_ver = [0x56, 0x31, 0x2E, 0x30, 0x2E, 0x30, 0x30]"

lemma length_ex_mp: "length ex_mp = 16"
  by (simp add: ex_mp_def)

lemma ex_request: "request_ok 16 (ex_mp @ ex_ver) 16 ([0x21] @ ex_ver)"
proof -
  have "(ex_mp @ ex_ver) ! (16 + i) = ([0x21] @ ex_ver) ! (16 div 16 + i)" for i
    by (simp add: nth_append length_ex_mp)
  then show ?thesis by (simp add: request_ok_def PG_VER_LEN_8822E_def) (simp add: ex_mp_def ex_ver_def)
qed

theorem pg_efuse_overlay_witness:
  "\<exists>s' es'. proc_pg_efuse_by_map_8822e ex_efuse_env (ex_mp @ ex_ver) 16 ([0x21] @ ex_ver) 1 ex_efuse = Some (HALMAC_RET_SUCCESS, s')
    \<and> efuse_holds s' es'
    \<and> logical_map 16 es' = [0x29, 0x81, 0x12, 0x13, 3, 4, 0xFF, 0xFF, 0x18, 0x19, 0xFF, 0xFF, 0xFF, 0xFF, 0xAA, 0xBB]"
proof -
  let ?mp = "ex_mp @ ex_ver" and ?msk = "[0x21] @ ex_ver"
  have ex: "ef_eeprom_size ex_efuse = 16" "ef_size ex_efuse = 32" "\<not> ef_auto_check ex_efuse"
    by (simp_all add: ex_efuse_def)
  have need: "length (concat (map entry_bytes (pg_new 16 ex_entries ?mp 16 ?msk))) = 8"
    and count: "count_pg (updated_mask 16 ex_entries ?mp 16 ?msk) (block_offsets 16) 0 = 8"
    by code_simp+
  have ov: "overlay 16 ?msk ?mp (logical_map 16 ex_entries)
      = [0x29, 0x81, 0x12, 0x13, 3, 4, 0xFF, 0xFF, 0x18, 0x19, 0xFF, 0xFF, 0xFF, 0xFF, 0xAA, 0xBB]"
    by code_simp
  show ?thesis
    using pg_efuse_overlay [OF ex_efuse_ok ex(3), of ?mp 16 ?msk] ex_request need
    unfolding ex count ov ex_log(2) by auto
qed

lemma clear_mask_bit_le:
  "b < length um \<Longrightarrow> bit (clear_mask map_pg mp mask_map offs um ! b) k \<Longrightarrow> bit (um ! b) k"
proof (induction map_pg mp mask_map offs um rule: clear_mask.induct)
  case (2 map_pg mp mask_map off offs um)
  have "bit (um ! b) k" if "bit (um[x := um ! x AND y] ! b) k" for x y
    using that 2(2) by (cases "x = b") (simp_all add: bit_and_iff)
  with 2 show ?case by (simp split: if_splits)
qed simp

lemma count_high_halves:
  assumes "\<forall>b < length um. drop_bit 4 (um ! b) = 0" "\<forall>i \<in> set is. 8 dvd i \<and> i div 16 < length um"
  shows "count_pg um is k = k"
  using assms(2)
  by (induction "is" arbitrary: k) (simp_all add: enough_word_en_def assms(1) dvd_eq_mod_eq_0 Let_def)

text \<open>
  C38. The check of the space does not look at the low halves of the mask. For a request that
  asks for second blocks only it passes as long as one cell is left, and whatever the request
  needs is then programmed behind the log, in the cells behind the end of the memory for the
  map as well.
\<close>

theorem pg_overruns:
  assumes c: "chip_ok env" and h: "efuse_holds s es" and a: "\<not> ef_auto_check s"
    and r: "request_ok (ef_eeprom_size s) mp n msk"
    and low: "\<forall>b < n div 16. drop_bit 4 (msk ! b) = 0" and one: "log_end es < ef_size s"
    and A: "ef_cells s = A @ replicate (length (concat (map entry_bytes (pg_new (ef_eeprom_size s) es mp n msk)))) 0xFF @ C"
      "length A = log_end es"
  shows "\<exists>s'. proc_pg_efuse_by_map_8822e env mp n msk (n div 16) s = Some (HALMAC_RET_SUCCESS, s')
    \<and> ef_cells s' = A @ concat (map entry_bytes (pg_new (ef_eeprom_size s) es mp n msk)) @ C"
proof -
  let ?ee = "ef_eeprom_size s"
  let ?um = "updated_mask ?ee es mp n msk"
  let ?start = "take (n div 16) msk @ drop (n div 16) (replicate (?ee div 16) (0 :: u8))"
  have n: "16 dvd n" "n \<le> ?ee" "n div 16 \<le> length msk" using r by (simp_all add: request_ok_def)
  have len: "length ?um = ?ee div 16" "length ?start = ?ee div 16" using n div_le_mono [of n ?ee 16] by simp_all
  have "drop_bit 4 (?um ! b) = 0" if b: "b < length ?um" for b
  proof -
    have z: "drop_bit 4 (?start ! b) = 0"
      using low b len n(3) by (cases "b < n div 16") (simp_all add: nth_append)
    have "\<not> bit (drop_bit 4 (?um ! b)) k" for k
    proof
      assume "bit (drop_bit 4 (?um ! b)) k"
      then have bit: "bit (?um ! b) (4 + k)" by (simp only: bit_drop_bit_eq o_apply)
      have "b < length ?start" using b len by simp
      from clear_mask_bit_le [OF this bit [unfolded updated_mask_def]]
      have "bit (drop_bit 4 (?start ! b)) k" unfolding bit_drop_bit_eq o_apply .
      then show False unfolding z by simp
    qed
    then show ?thesis by (auto simp: bit_eq_iff)
  qed
  moreover have "\<forall>i \<in> set (block_offsets n). 8 dvd i \<and> i div 16 < length ?um"
  proof
    fix i assume "i \<in> set (block_offsets n)"
    then have i: "8 dvd i" "i < n" by (simp_all add: in_block_offsets)
    obtain q where q: "n = 16 * q" using n(1) by (elim dvdE)
    then have "i div 16 < q" using i(2) by (simp add: less_mult_imp_div_less)
    moreover have "q \<le> ?ee div 16" using n(2) q div_le_mono [of "16 * q" ?ee 16] by simp
    ultimately show "8 dvd i \<and> i div 16 < length ?um" using i(1) len by simp
  qed
  ultimately have count: "count_pg ?um (block_offsets n) 0 = 0"
    by (intro count_high_halves) blast+
  have bytes: "pg_bytes mp ?um (block_offsets n) = concat (map entry_bytes (pg_new ?ee es mp n msk))"
    by (simp add: pg_bytes_def pg_new_def)
  obtain s2 where s2: "efuse_holds s2 es" "ef_cells s2 = ef_cells s" "ef_end s2 = log_end es" "ef_ctl s2 = ef_ctl s"
    and p: "proc_pg_efuse_by_map_8822e env mp n msk (n div 16) s =
      (case program_efuse_8822e env mp n ?um s2 of (status, s3) \<Rightarrow> Some (status, pltfm_free (?ee div 16) s3))"
    using proc_pg_steps [OF c h r] one unfolding count by auto
  have "\<not> ef_auto_check s2" "length (ef_cells s2) = EF_CELLS" using a s2(1,4) by (simp_all add: ef_ctl_def efuse_holds_def)
  then obtain s3 where "program_efuse_8822e env mp n ?um s2 = (HALMAC_RET_SUCCESS, s3)"
    "ef_cells s3 = A @ concat (map entry_bytes (pg_new ?ee es mp n msk)) @ C"
    using program_efuse_cells [OF c, of s2 A mp ?um n C] A s2 unfolding bytes by auto
  then show ?thesis using p by (simp add: pltfm_free_def)
qed

definition ex_small :: efuse where
  "ex_small = ex_efuse\<lparr>ef_eeprom_size := 32\<rparr>"

theorem pg_overruns_witness:
  "\<exists>s'. proc_pg_efuse_by_map_8822e ex_efuse_env (ex_mp @ ex_mp @ ex_ver) 32 ([0x0F, 0x0F] @ ex_ver) 2 ex_small
      = Some (HALMAC_RET_SUCCESS, s') \<and> ef_size ex_small = 32 \<and> ef_cells ex_small ! 36 = 0xFF \<and> ef_cells s' ! 36 = 0x1E"
proof -
  let ?mp = "ex_mp @ ex_mp @ ex_ver" and ?msk = "[0x0F, 0x0F] @ ex_ver"
  let ?new = "pg_new 32 ex_entries ?mp 32 ?msk"
  have ex: "ef_eeprom_size ex_small = 32" "ef_size ex_small = 32" "\<not> ef_auto_check ex_small"
    by (simp_all add: ex_small_def ex_efuse_def)
  have phy: "length ex_phy = 32" "ex_phy = take 18 ex_phy @ replicate 14 0xFF" by (simp_all add: ex_phy_def)
  have h: "efuse_holds ex_small ex_entries"
    using ex_phy_holds phy(1)
    by (simp add: efuse_holds_def ex_small_def ex_efuse_def EF_CELLS_def holds_log_def)
      (auto simp: entry_ok_def ex_entries_def)
  have r: "request_ok 32 ?mp 32 ?msk"
  proof -
    have "?mp ! (32 + i) = ?msk ! (32 div 16 + i)" for i
      by (simp add: nth_append length_ex_mp)
    then show ?thesis by (simp add: request_ok_def PG_VER_LEN_8822E_def) (simp add: ex_mp_def ex_ver_def)
  qed
  have low: "\<forall>b < 32 div 16. drop_bit 4 (?msk ! b) = 0"
  proof (intro allI impI)
    fix b :: nat assume "b < 32 div 16"
    then have "b = 0 \<or> b = 1" by auto
    then show "drop_bit 4 (?msk ! b) = 0" by (elim disjE) simp_all
  qed
  have new: "concat (map entry_bytes ?new)
      = [0x30, 0x10, 0x18, 0x19, 0x1A, 0x1B, 0x1C, 0x1D, 0x1E, 0x1F, 0x30, 0x30, 0x18, 0x19, 0x1A, 0x1B, 0x1C, 0x1D, 0x1E, 0x1F]"
    by code_simp
  have cells: "ef_cells ex_small = take 18 ex_phy @ replicate (length (concat (map entry_bytes ?new))) 0xFF @ replicate 2010 0xFF"
  proof -
    have "replicate 14 (0xFF :: u8) @ replicate 2016 0xFF = replicate 20 0xFF @ replicate 2010 0xFF"
      by (simp flip: replicate_add)
    moreover have "ef_cells ex_small = (take 18 ex_phy @ replicate 14 0xFF) @ replicate 2016 0xFF"
      by (simp only: phy(2) [symmetric]) (simp add: ex_small_def ex_efuse_def)
    moreover have "length (concat (map entry_bytes ?new)) = 20" by (simp only: new list.size)
    ultimately show ?thesis by (simp only: append_assoc)
  qed
  have A: "length (take 18 ex_phy) = log_end ex_entries" "log_end ex_entries < 32" using phy(1) by (simp_all add: ex_log(2))
  obtain s' where s': "proc_pg_efuse_by_map_8822e ex_efuse_env ?mp 32 ?msk (32 div 16) ex_small = Some (HALMAC_RET_SUCCESS, s')"
    "ef_cells s' = take 18 ex_phy @ concat (map entry_bytes ?new) @ replicate 2010 0xFF"
    using pg_overruns [OF ex_efuse_ok(1) h ex(3), of ?mp 32 ?msk "take 18 ex_phy" "replicate 2010 0xFF"] r low cells A
    unfolding ex by blast
  have "ef_cells s' ! 36 = 0x1E" "ef_cells ex_small ! 36 = 0xFF"
    unfolding s'(2) cells new using phy(1) by (simp_all add: nth_append)
  with s'(1) ex(2) show ?thesis by auto
qed

text \<open>
  Every request that passes the comparison of the versions takes memory for good: the mask of
  the programmed words is never given back.
\<close>

lemma pg_leaks_mask_map:
  assumes "chip_ok env" "efuse_holds s es" "request_ok (ef_eeprom_size s) mp n msk" "ef_map_valid s"
    and "ef_size s \<le> count_pg (updated_mask (ef_eeprom_size s) es mp n msk) (block_offsets n) 0 + log_end es"
  shows "\<exists>s'. proc_pg_efuse_by_map_8822e env mp n msk (n div 16) s = Some (HALMAC_RET_EFUSE_NOT_ENOUGH, s')
    \<and> ef_heap s' = ef_heap s + int (ef_eeprom_size s)"
  using proc_pg_steps [OF assms(1-3)] assms(4,5) by auto

end
