(* ===== verification/Ef_Api.thy ===== *)
theory Ef_Api
  imports Ef_Pg
begin

text \<open>
  The operations of the efuse interface that the driver calls, their common state machine, and
  the messages of the firmware that answer a dump (\<^verbatim>\<open>halmac_efuse_8822e.c\<close>).

  A bank is its number. \<open>None\<close> is an access outside of a buffer or through a null pointer.
\<close>

section \<open>The firmware as a dump sees it\<close>

datatype dlfw_state = HALMAC_DLFW_NONE | HALMAC_DLFW_DONE | HALMAC_GEN_INFO_SENT | HALMAC_DLFW_OTHER nat

text \<open>\<^verbatim>\<open>REG_H2C_PKT_READADDR\<close> and what \<^verbatim>\<open>send_h2c_pkt_88xx\<close> returns are parameters.\<close>

record efuse_fw =
  fw_dlfw_state :: dlfw_state
  fw_h2c_init :: u32
  fw_send_h2c :: halmac_ret_status

datatype efuse_read_cfg = HALMAC_EFUSE_R_AUTO | HALMAC_EFUSE_R_DRV | HALMAC_EFUSE_R_FW

definition HALMAC_EFUSE_BANK_WIFI :: nat where "HALMAC_EFUSE_BANK_WIFI = 0"
definition HALMAC_EFUSE_BANK_MAX :: nat where "HALMAC_EFUSE_BANK_MAX = 4"
definition BT_START_OFFSET :: nat where "BT_START_OFFSET = 0x600"
definition LIM_LOG_SIZE_USB_8822E :: nat where "LIM_LOG_SIZE_USB_8822E = 416"
definition EFUSE_PART_1_END :: nat where "EFUSE_PART_1_END = 1024"
definition C2H_DATA_OFFSET_88XX :: nat where "C2H_DATA_OFFSET_88XX = 10"

definition halmac_fw_validate :: "efuse_fw \<Rightarrow> halmac_ret_status" where
  "halmac_fw_validate fw =
     (if fw_dlfw_state fw \<noteq> HALMAC_DLFW_DONE \<and> fw_dlfw_state fw \<noteq> HALMAC_GEN_INFO_SENT then HALMAC_RET_NO_DLFW
      else HALMAC_RET_SUCCESS)"

definition reset_ofld_feature_88xx :: "efuse \<Rightarrow> efuse" where
  "reset_ofld_feature_88xx s = s\<lparr>ef_proc := HALMAC_CMD_PROCESS_IDLE, ef_cnstr := HALMAC_CMD_CNSTR_IDLE\<rparr>"

definition cfg_efuse_auto_check_88xx :: "u8 \<Rightarrow> efuse \<Rightarrow> efuse" where
  "cfg_efuse_auto_check_88xx enable s = s\<lparr>ef_auto_check := enable = 1\<rparr>"

definition switch_efuse_bank_8822e :: "nat \<Rightarrow> efuse \<Rightarrow> halmac_ret_status \<times> efuse" where
  "switch_efuse_bank_8822e bank s = (HALMAC_RET_SUCCESS, s)"

section \<open>Entry and exit\<close>

text \<open>What the operations check first, and how they take the state.\<close>

definition efuse_ready :: "efuse \<Rightarrow> halmac_ret_status" where
  "efuse_ready s =
     (if ef_proc s = HALMAC_CMD_PROCESS_SENDING then HALMAC_RET_BUSY_STATE
      else if ef_cnstr s \<noteq> HALMAC_CMD_CNSTR_IDLE then HALMAC_RET_ERROR_STATE
      else HALMAC_RET_SUCCESS)"

definition efuse_begin :: "efuse \<Rightarrow> halmac_ret_status \<times> efuse" where
  "efuse_begin s =
     (if efuse_ready s \<noteq> HALMAC_RET_SUCCESS then (efuse_ready s, s)
      else
        (case cnv_efuse_state_8822e HALMAC_CMD_CNSTR_BUSY s of
           (status, s1) \<Rightarrow>
             if status \<noteq> HALMAC_RET_SUCCESS then (HALMAC_RET_ERROR_STATE, s1)
             else switch_efuse_bank_8822e HALMAC_EFUSE_BANK_WIFI s1))"

definition efuse_done :: "efuse \<Rightarrow> halmac_ret_status \<times> efuse" where
  "efuse_done s =
     (case cnv_efuse_state_8822e HALMAC_CMD_CNSTR_IDLE s of
        (status, s1) \<Rightarrow> if status \<noteq> HALMAC_RET_SUCCESS then (HALMAC_RET_ERROR_STATE, s1) else (HALMAC_RET_SUCCESS, s1))"

section \<open>Logical bytes\<close>

definition read_logical_efuse_8822e :: "efuse_env \<Rightarrow> nat \<Rightarrow> efuse \<Rightarrow> ((halmac_ret_status \<times> u8 option) \<times> efuse) option" where
  "read_logical_efuse_8822e env offset s =
     (if offset \<ge> ef_eeprom_size s then Some ((HALMAC_RET_EFUSE_SIZE_INCORRECT, None), s)
      else
        (case efuse_begin s of
           (status, s1) \<Rightarrow>
             if status \<noteq> HALMAC_RET_SUCCESS then Some ((status, None), s1)
             else
               (case pltfm_malloc env (ef_eeprom_size s) s1 of
                  (ok, s2) \<Rightarrow>
                    if \<not> ok then Some ((HALMAC_RET_MALLOC_FAIL, None), s2)
                    else
                      (case read_log_efuse_map_8822e env s2 of
                         None \<Rightarrow> None
                       | Some ((status, mp), s3) \<Rightarrow>
                           if status \<noteq> HALMAC_RET_SUCCESS then Some ((status, None), pltfm_free (ef_eeprom_size s) s3)
                           else if offset \<ge> length mp then None
                           else
                             (case efuse_done s3 of
                                (status, s4) \<Rightarrow> Some ((status, Some (mp ! offset)), pltfm_free (ef_eeprom_size s) s4))))))"

definition write_log_efuse_8822e :: "efuse_env \<Rightarrow> nat \<Rightarrow> u8 \<Rightarrow> efuse \<Rightarrow> (halmac_ret_status \<times> efuse) option" where
  "write_log_efuse_8822e env offset val s =
     (if offset \<ge> ef_eeprom_size s then Some (HALMAC_RET_EFUSE_SIZE_INCORRECT, s)
      else
        (case efuse_begin s of
           (status, s1) \<Rightarrow>
             if status \<noteq> HALMAC_RET_SUCCESS then Some (status, s1)
             else
               (case proc_write_log_efuse_8822e env offset val s1 of
                  None \<Rightarrow> None
                | Some (status, s2) \<Rightarrow>
                    if status \<noteq> HALMAC_RET_SUCCESS then Some (status, s2) else Some (efuse_done s2))))"

definition write_log_efuse_word_8822e :: "efuse_env \<Rightarrow> nat \<Rightarrow> u16 \<Rightarrow> efuse \<Rightarrow> (halmac_ret_status \<times> efuse) option" where
  "write_log_efuse_word_8822e env offset val s =
     (if offset \<ge> ef_eeprom_size s then Some (HALMAC_RET_EFUSE_SIZE_INCORRECT, s)
      else
        (case efuse_begin s of
           (status, s1) \<Rightarrow>
             if status \<noteq> HALMAC_RET_SUCCESS then Some (status, s1)
             else
               (case proc_write_log_efuse_word_8822e env offset val s1 of
                  None \<Rightarrow> None
                | Some (status, s2) \<Rightarrow>
                    if status \<noteq> HALMAC_RET_SUCCESS then Some (status, s2) else Some (efuse_done s2))))"

section \<open>Whole maps\<close>

definition pg_efuse_by_map_8822e :: "efuse_env \<Rightarrow> pg_info \<Rightarrow> efuse \<Rightarrow> (halmac_ret_status \<times> efuse) option" where
  "pg_efuse_by_map_8822e env info s =
     (if pi_map_size info \<noteq> ef_eeprom_size s \<and> pi_map_size info \<noteq> LIM_LOG_SIZE_USB_8822E then
        Some (HALMAC_RET_EFUSE_SIZE_INCORRECT, s)
      else if pi_map_size info mod 16 > 0 then Some (HALMAC_RET_EFUSE_SIZE_INCORRECT, s)
      else if pi_mask_size info \<noteq> pi_map_size info div 16 then Some (HALMAC_RET_EFUSE_SIZE_INCORRECT, s)
      else
        (case (pi_map info, pi_mask info) of
           (None, _) \<Rightarrow> Some (HALMAC_RET_NULL_POINTER, s)
         | (Some _, None) \<Rightarrow> Some (HALMAC_RET_NULL_POINTER, s)
         | (Some mp, Some msk) \<Rightarrow>
             (case efuse_begin s of
                (status, s1) \<Rightarrow>
                  if status \<noteq> HALMAC_RET_SUCCESS then Some (status, s1)
                  else
                    (case proc_pg_efuse_by_map_8822e env mp (pi_map_size info) msk (pi_mask_size info) s1 of
                       None \<Rightarrow> None
                     | Some (status, s2) \<Rightarrow>
                         if status \<noteq> HALMAC_RET_SUCCESS then Some (status, s2) else Some (efuse_done s2)))))"

definition mask_log_efuse_8822e :: "pg_info \<Rightarrow> efuse \<Rightarrow> halmac_ret_status \<times> pg_info" where
  "mask_log_efuse_8822e info s =
     (if pi_map_size info \<noteq> ef_eeprom_size s then (HALMAC_RET_EFUSE_SIZE_INCORRECT, info)
      else if pi_map_size info mod 16 > 0 then (HALMAC_RET_EFUSE_SIZE_INCORRECT, info)
      else if pi_mask_size info \<noteq> pi_map_size info div 16 then (HALMAC_RET_EFUSE_SIZE_INCORRECT, info)
      else
        (case (pi_map info, pi_mask info) of
           (None, _) \<Rightarrow> (HALMAC_RET_NULL_POINTER, info)
         | (Some _, None) \<Rightarrow> (HALMAC_RET_NULL_POINTER, info)
         | (Some mp, Some msk) \<Rightarrow> (HALMAC_RET_SUCCESS, info\<lparr>pi_map := Some (mask_eeprom_8822e info msk mp)\<rparr>)))"

section \<open>Physical cells\<close>

definition write_wifi_phy_efuse_8822e :: "efuse_env \<Rightarrow> nat \<Rightarrow> u8 \<Rightarrow> efuse \<Rightarrow> halmac_ret_status \<times> efuse" where
  "write_wifi_phy_efuse_8822e env offset val s =
     (if offset \<ge> ef_size s + ef_prtct_size s then (HALMAC_RET_EFUSE_SIZE_INCORRECT, s)
      else
        (case efuse_begin s of
           (status, s1) \<Rightarrow>
             if status \<noteq> HALMAC_RET_SUCCESS then (status, s1)
             else
               (case write_hw_efuse_8822e env offset val (enable_efuse_sw_pwr_cut True s1) of
                  (status, s2) \<Rightarrow>
                    if status \<noteq> HALMAC_RET_SUCCESS then (status, s2)
                    else efuse_done (disable_efuse_sw_pwr_cut True s2))))"

definition read_wifi_phy_efuse_8822e :: "efuse_env \<Rightarrow> u32 \<Rightarrow> u32 \<Rightarrow> efuse \<Rightarrow> (halmac_ret_status \<times> u8 list) \<times> efuse" where
  "read_wifi_phy_efuse_8822e env offset n s =
     (let wlan_efuse_size = ef_size s + ef_prtct_size s in
      if unat offset \<ge> wlan_efuse_size \<or> unat (offset + n) > wlan_efuse_size then ((HALMAC_RET_EFUSE_SIZE_INCORRECT, []), s)
      else
        (case efuse_begin s of
           (status, s1) \<Rightarrow>
             if status \<noteq> HALMAC_RET_SUCCESS then ((status, []), s1)
             else
               (case read_hw_efuse_8822e env (unat offset) (unat n) s1 of
                  ((status, mp), s2) \<Rightarrow>
                    if status \<noteq> HALMAC_RET_SUCCESS then ((status, mp), s2)
                    else (case efuse_done s2 of (status, s3) \<Rightarrow> ((status, mp), s3)))))"

text \<open>The Bluetooth part: the state is taken before the arguments are checked.\<close>

definition write_efuse_bt_8822e :: "efuse_env \<Rightarrow> nat \<Rightarrow> u8 \<Rightarrow> nat \<Rightarrow> efuse \<Rightarrow> halmac_ret_status \<times> efuse" where
  "write_efuse_bt_8822e env offset val bank s =
     (case efuse_begin s of
        (status, s1) \<Rightarrow>
          if status \<noteq> HALMAC_RET_SUCCESS then (status, s1)
          else if offset \<ge> ef_bt_size s1 then (HALMAC_RET_EFUSE_SIZE_INCORRECT, s1)
          else if bank > HALMAC_EFUSE_BANK_MAX \<or> bank = HALMAC_EFUSE_BANK_WIFI then (HALMAC_RET_EFUSE_BANK_INCORRECT, s1)
          else
            let s2 = s1\<lparr>ef_bt_switch := True\<rparr> in
            (case write_hw_efuse_8822e env (offset + BT_START_OFFSET) val (enable_efuse_sw_pwr_cut True s2) of
               (status, s3) \<Rightarrow>
                 if status \<noteq> HALMAC_RET_SUCCESS then (status, s3\<lparr>ef_bt_switch := False\<rparr>)
                 else efuse_done ((disable_efuse_sw_pwr_cut True s3)\<lparr>ef_bt_switch := False\<rparr>)))"

definition read_efuse_bt_8822e :: "efuse_env \<Rightarrow> nat \<Rightarrow> nat \<Rightarrow> efuse \<Rightarrow> (halmac_ret_status \<times> u8 list) \<times> efuse" where
  "read_efuse_bt_8822e env offset bank s =
     (case efuse_begin s of
        (status, s1) \<Rightarrow>
          if status \<noteq> HALMAC_RET_SUCCESS then ((status, []), s1)
          else if offset \<ge> ef_bt_size s1 then ((HALMAC_RET_EFUSE_SIZE_INCORRECT, []), s1)
          else if bank > HALMAC_EFUSE_BANK_MAX \<or> bank = HALMAC_EFUSE_BANK_WIFI then ((HALMAC_RET_EFUSE_BANK_INCORRECT, []), s1)
          else
            (case read_hw_efuse_8822e env (offset + BT_START_OFFSET) 1 (s1\<lparr>ef_bt_switch := True\<rparr>) of
               ((status, mp), s2) \<Rightarrow>
                 if status \<noteq> HALMAC_RET_SUCCESS then ((status, mp), s2\<lparr>ef_bt_switch := False\<rparr>)
                 else (case efuse_done (s2\<lparr>ef_bt_switch := False\<rparr>) of (status, s3) \<Rightarrow> ((status, mp), s3))))"

definition dump_efuse_map_bt_8822e :: "efuse_env \<Rightarrow> nat \<Rightarrow> nat \<Rightarrow> efuse \<Rightarrow> (halmac_ret_status \<times> u8 list) \<times> efuse" where
  "dump_efuse_map_bt_8822e env bank n s =
     (if ef_bt_size s \<noteq> n then ((HALMAC_RET_EFUSE_SIZE_INCORRECT, []), s)
      else if bank \<ge> HALMAC_EFUSE_BANK_MAX \<or> bank = HALMAC_EFUSE_BANK_WIFI then ((HALMAC_RET_EFUSE_BANK_INCORRECT, []), s)
      else
        (case efuse_begin s of
           (status, s1) \<Rightarrow>
             if status \<noteq> HALMAC_RET_SUCCESS then ((status, []), s1)
             else
               (case read_hw_efuse_8822e env BT_START_OFFSET n (s1\<lparr>ef_bt_switch := True\<rparr>) of
                  ((status, mp), s2) \<Rightarrow>
                    if status \<noteq> HALMAC_RET_SUCCESS then ((status, mp), s2\<lparr>ef_bt_switch := False\<rparr>)
                    else (case efuse_done (s2\<lparr>ef_bt_switch := False\<rparr>) of (status, s3) \<Rightarrow> ((status, mp), s3)))))"


section \<open>Dumps\<close>

definition fresh_map :: "efuse_env \<Rightarrow> nat \<Rightarrow> u8 list" where
  "fresh_map env n = map (fe_fresh env) [0..<n]"

text \<open>The buffer of the adapter, allocated when there is none.\<close>

definition alloc_efuse_map :: "efuse_env \<Rightarrow> efuse \<Rightarrow> bool \<times> efuse" where
  "alloc_efuse_map env s =
     (if ef_map s \<noteq> None then (True, s)
      else
        (case pltfm_malloc env (ef_size s) s of
           (ok, s1) \<Rightarrow> if ok then (True, s1\<lparr>ef_map := Some (fresh_map env (ef_size s))\<rparr>) else (False, reset_ofld_feature_88xx s1)))"

definition dump_efuse_drv_8822e :: "efuse_env \<Rightarrow> efuse \<Rightarrow> halmac_ret_status \<times> efuse" where
  "dump_efuse_drv_8822e env s =
     (case alloc_efuse_map env s of
        (ok, s1) \<Rightarrow>
          if \<not> ok then (HALMAC_RET_MALLOC_FAIL, s1)
          else if ef_map_valid s1 then (HALMAC_RET_SUCCESS, s1)
          else
            (case pltfm_malloc env (ef_size s) s1 of
               (ok, s2) \<Rightarrow>
                 if \<not> ok then (HALMAC_RET_MALLOC_FAIL, s2)
                 else
                   (case read_hw_efuse_8822e env 0 (ef_size s) s2 of
                      ((status, mp), s3) \<Rightarrow>
                        if status \<noteq> HALMAC_RET_SUCCESS then (HALMAC_RET_EFUSE_R_FAIL, pltfm_free (ef_size s) s3)
                        else (HALMAC_RET_SUCCESS, pltfm_free (ef_size s) (s3\<lparr>ef_map := Some mp, ef_map_valid := True\<rparr>)))))"

definition dump_efuse_fw_8822e :: "efuse_env \<Rightarrow> efuse_fw \<Rightarrow> efuse \<Rightarrow> halmac_ret_status \<times> efuse" where
  "dump_efuse_fw_8822e env fw s =
     (let s1 = s\<lparr>ef_seq := ucast (ef_h2c_seq s), ef_h2c_seq := ef_h2c_seq s + 1\<rparr> in
      case alloc_efuse_map env s1 of
        (ok, s2) \<Rightarrow>
          if \<not> ok then (HALMAC_RET_MALLOC_FAIL, s2)
          else if ef_map_valid s2 then (HALMAC_RET_SUCCESS, s2)
          else if fw_send_h2c fw \<noteq> HALMAC_RET_SUCCESS then (fw_send_h2c fw, reset_ofld_feature_88xx s2)
          else (HALMAC_RET_SUCCESS, s2))"

definition proc_dump_efuse_8822e :: "efuse_env \<Rightarrow> efuse_fw \<Rightarrow> efuse_read_cfg \<Rightarrow> efuse \<Rightarrow> halmac_ret_status \<times> efuse" where
  "proc_dump_efuse_8822e env fw cfg s =
     (case cnv_efuse_state_8822e HALMAC_CMD_CNSTR_BUSY (s\<lparr>ef_proc := HALMAC_CMD_PROCESS_SENDING\<rparr>) of
        (status, s1) \<Rightarrow>
          if status \<noteq> HALMAC_RET_SUCCESS then (HALMAC_RET_ERROR_STATE, s1)
          else
            (case cfg of
               HALMAC_EFUSE_R_AUTO \<Rightarrow>
                 if fw_dlfw_state fw = HALMAC_DLFW_NONE \<or> fw_h2c_init fw = 0 then dump_efuse_drv_8822e env s1
                 else dump_efuse_fw_8822e env fw s1
             | HALMAC_EFUSE_R_FW \<Rightarrow> dump_efuse_fw_8822e env fw s1
             | HALMAC_EFUSE_R_DRV \<Rightarrow> dump_efuse_drv_8822e env s1))"

text \<open>
  The three dumps differ in what they make of the cells, in the length of the buffer it is put
  into, and in the request and the event.
\<close>

definition set_evnt :: "feature \<Rightarrow> bool \<Rightarrow> efuse \<Rightarrow> efuse" where
  "set_evnt f b s =
     (case f of
        DUMP_PHYSICAL_EFUSE \<Rightarrow> s\<lparr>ef_evnt_phy := b\<rparr>
      | DUMP_LOGICAL_EFUSE \<Rightarrow> s\<lparr>ef_evnt_log := b\<rparr>
      | DUMP_LOGICAL_EFUSE_MASK \<Rightarrow> s\<lparr>ef_evnt_mask := b\<rparr>)"

definition dump_content :: "feature \<Rightarrow> efuse \<Rightarrow> ((halmac_ret_status \<times> u8 list) \<times> efuse) option" where
  "dump_content f s =
     (case ef_map s of
        None \<Rightarrow> None
      | Some m \<Rightarrow>
          (case f of
             DUMP_PHYSICAL_EFUSE \<Rightarrow> if length m < ef_size s then None else Some ((HALMAC_RET_SUCCESS, take (ef_size s) m), s)
           | DUMP_LOGICAL_EFUSE \<Rightarrow> run_parser (eeprom_parser (ef_bt_switch s) (ef_size s) (ef_eeprom_size s) m) s
           | DUMP_LOGICAL_EFUSE_MASK \<Rightarrow> run_parser (eeprom_mask_parser (ef_size s) (ef_eeprom_size s) m) s))"

definition dump_efuse :: "feature \<Rightarrow> efuse_env \<Rightarrow> efuse_fw \<Rightarrow> efuse_read_cfg \<Rightarrow> efuse \<Rightarrow> (halmac_ret_status \<times> efuse) option" where
  "dump_efuse f env fw cfg s =
     (let n = (if f = DUMP_PHYSICAL_EFUSE then ef_size s else ef_eeprom_size s) in
      if cfg = HALMAC_EFUSE_R_FW \<and> halmac_fw_validate fw \<noteq> HALMAC_RET_SUCCESS then Some (HALMAC_RET_NO_DLFW, s)
      else if efuse_ready s \<noteq> HALMAC_RET_SUCCESS then Some (efuse_ready s, s)
      else
        (case switch_efuse_bank_8822e HALMAC_EFUSE_BANK_WIFI (set_evnt f True (s\<lparr>ef_proc := HALMAC_CMD_PROCESS_IDLE\<rparr>)) of
           (status, s1) \<Rightarrow>
             if status \<noteq> HALMAC_RET_SUCCESS then Some (status, s1)
             else
               (case proc_dump_efuse_8822e env fw cfg s1 of
                  (status, s2) \<Rightarrow>
                    if status \<noteq> HALMAC_RET_SUCCESS then Some (status, s2)
                    else if \<not> ef_map_valid s2 then Some (efuse_done s2)
                    else
                      (case pltfm_malloc env n (s2\<lparr>ef_proc := HALMAC_CMD_PROCESS_DONE\<rparr>) of
                         (ok, s3) \<Rightarrow>
                           if \<not> ok then Some (HALMAC_RET_MALLOC_FAIL, s3)
                           else
                             (case dump_content f s3 of
                                None \<Rightarrow> None
                              | Some ((status, mp), s4) \<Rightarrow>
                                  if status \<noteq> HALMAC_RET_SUCCESS then Some (HALMAC_RET_EEPROM_PARSING_FAIL, pltfm_free n s4)
                                  else Some (efuse_done (pltfm_free n (set_evnt f False
                                    (s4\<lparr>ef_events := ef_events s4 @ [(f, ef_proc s4, mp)]\<rparr>)))))))))"

definition dump_efuse_map_8822e :: "efuse_env \<Rightarrow> efuse_fw \<Rightarrow> efuse_read_cfg \<Rightarrow> efuse \<Rightarrow> (halmac_ret_status \<times> efuse) option" where
  "dump_efuse_map_8822e = dump_efuse DUMP_PHYSICAL_EFUSE"

definition dump_log_efuse_map_8822e :: "efuse_env \<Rightarrow> efuse_fw \<Rightarrow> efuse_read_cfg \<Rightarrow> efuse \<Rightarrow> (halmac_ret_status \<times> efuse) option" where
  "dump_log_efuse_map_8822e = dump_efuse DUMP_LOGICAL_EFUSE"

definition dump_log_efuse_mask_8822e :: "efuse_env \<Rightarrow> efuse_fw \<Rightarrow> efuse_read_cfg \<Rightarrow> efuse \<Rightarrow> (halmac_ret_status \<times> efuse) option" where
  "dump_log_efuse_mask_8822e = dump_efuse DUMP_LOGICAL_EFUSE_MASK"

definition get_efuse_available_size_8822e :: "efuse_env \<Rightarrow> efuse_fw \<Rightarrow> efuse \<Rightarrow> ((halmac_ret_status \<times> nat option) \<times> efuse) option" where
  "get_efuse_available_size_8822e env fw s =
     (case dump_log_efuse_map_8822e env fw HALMAC_EFUSE_R_DRV s of
        None \<Rightarrow> None
      | Some (status, s1) \<Rightarrow>
          Some (if status \<noteq> HALMAC_RET_SUCCESS then ((status, None), s1)
                else ((HALMAC_RET_SUCCESS, Some (ef_size s1 - ef_end s1)), s1)))"

text \<open>What a caller that waits for a dump asks for; \<open>n\<close> is the length of its buffer.\<close>

definition get_dump_status ::
  "feature \<Rightarrow> efuse_env \<Rightarrow> bool \<Rightarrow> nat option \<Rightarrow> efuse \<Rightarrow> ((halmac_ret_status \<times> nat option \<times> u8 list) \<times> efuse) option" where
  "get_dump_status f env data n s =
     (if \<not> data then Some ((HALMAC_RET_NULL_POINTER, n, []), s)
      else
        (case n of
           None \<Rightarrow> Some ((HALMAC_RET_NULL_POINTER, None, []), s)
         | Some n \<Rightarrow>
             let len = (if f = DUMP_PHYSICAL_EFUSE then ef_size s else ef_eeprom_size s) in
             if ef_proc s \<noteq> HALMAC_CMD_PROCESS_DONE then Some ((HALMAC_RET_SUCCESS, Some n, []), s)
             else if n < len then Some ((HALMAC_RET_BUFFER_TOO_SMALL, Some len, []), s)
             else
               (case pltfm_malloc env len s of
                  (ok, s1) \<Rightarrow>
                    if \<not> ok then Some ((HALMAC_RET_MALLOC_FAIL, Some len, []), s1)
                    else
                      (case dump_content f s1 of
                         None \<Rightarrow> None
                       | Some ((status, mp), s2) \<Rightarrow>
                           if status \<noteq> HALMAC_RET_SUCCESS then
                             Some ((HALMAC_RET_EEPROM_PARSING_FAIL, Some len, []), pltfm_free len s2)
                           else Some ((HALMAC_RET_SUCCESS, Some len, mp), pltfm_free len s2)))))"

definition get_dump_phy_efuse_status_8822e ::
  "efuse_env \<Rightarrow> bool \<Rightarrow> nat option \<Rightarrow> efuse \<Rightarrow> ((halmac_ret_status \<times> nat option \<times> u8 list) \<times> efuse) option" where
  "get_dump_phy_efuse_status_8822e = get_dump_status DUMP_PHYSICAL_EFUSE"

definition get_dump_log_efuse_status_8822e ::
  "efuse_env \<Rightarrow> bool \<Rightarrow> nat option \<Rightarrow> efuse \<Rightarrow> ((halmac_ret_status \<times> nat option \<times> u8 list) \<times> efuse) option" where
  "get_dump_log_efuse_status_8822e = get_dump_status DUMP_LOGICAL_EFUSE"

definition get_dump_log_efuse_mask_status_8822e ::
  "efuse_env \<Rightarrow> bool \<Rightarrow> nat option \<Rightarrow> efuse \<Rightarrow> ((halmac_ret_status \<times> nat option \<times> u8 list) \<times> efuse) option" where
  "get_dump_log_efuse_mask_status_8822e = get_dump_status DUMP_LOGICAL_EFUSE_MASK"

section \<open>Answers of the firmware\<close>

text \<open>The acknowledgement; \<open>buf\<close> is the message.\<close>

definition get_h2c_ack_phy_efuse_8822e :: "u8 list \<Rightarrow> efuse \<Rightarrow> (halmac_ret_status \<times> efuse) option" where
  "get_h2c_ack_phy_efuse_8822e buf s =
     (if length buf < 12 then None
      else if ucast (buf ! 8) \<noteq> ef_seq s then Some (HALMAC_RET_SUCCESS, s)
      else if ef_proc s \<noteq> HALMAC_CMD_PROCESS_SENDING then Some (HALMAC_RET_SUCCESS, s)
      else Some (HALMAC_RET_SUCCESS, s\<lparr>ef_fw_rc := buf ! 4\<rparr>))"

text \<open>A copy of bytes of the message into the map of the adapter.\<close>

definition copy_segment :: "u8 list \<Rightarrow> nat \<Rightarrow> nat \<Rightarrow> efuse \<Rightarrow> efuse option" where
  "copy_segment buf off n s =
     (case ef_map s of
        None \<Rightarrow> None
      | Some m \<Rightarrow>
          if length m < off + n \<or> length buf < C2H_DATA_OFFSET_88XX + n then None
          else Some (s\<lparr>ef_map := Some (take off m @ take n (drop C2H_DATA_OFFSET_88XX buf) @ drop (off + n) m)\<rparr>))"

definition signal_dump :: "feature \<Rightarrow> bool \<Rightarrow> u8 list \<Rightarrow> efuse \<Rightarrow> efuse" where
  "signal_dump f wanted mp s =
     (if wanted then set_evnt f False (s\<lparr>ef_events := ef_events s @ [(f, ef_proc s, mp)]\<rparr>) else s)"

definition finish_dump :: "efuse \<Rightarrow> (halmac_ret_status \<times> efuse) option" where
  "finish_dump s =
     (if ef_fw_rc s \<noteq> 0 then
        let s1 = s\<lparr>ef_proc := HALMAC_CMD_PROCESS_ERROR\<rparr>;
            s2 = signal_dump DUMP_PHYSICAL_EFUSE (ef_evnt_phy s1) [ef_fw_rc s1] s1;
            s3 = signal_dump DUMP_LOGICAL_EFUSE (ef_evnt_log s2) [ef_fw_rc s2] s2
        in Some (HALMAC_RET_SUCCESS, signal_dump DUMP_LOGICAL_EFUSE_MASK (ef_evnt_mask s3) [ef_fw_rc s3] s3)
      else
        let s1 = s\<lparr>ef_proc := HALMAC_CMD_PROCESS_DONE, ef_map_valid := True\<rparr> in
        (case (if ef_evnt_phy s1 then dump_content DUMP_PHYSICAL_EFUSE s1 else Some ((HALMAC_RET_SUCCESS, []), s1)) of
           None \<Rightarrow> None
         | Some ((_, m), _) \<Rightarrow>
             let s2 = signal_dump DUMP_PHYSICAL_EFUSE (ef_evnt_phy s1) m s1 in
             (case (if ef_evnt_log s2 then dump_content DUMP_LOGICAL_EFUSE s2 else Some ((HALMAC_RET_SUCCESS, []), s2)) of
                None \<Rightarrow> None
              | Some ((status, log), s3) \<Rightarrow>
                  if status \<noteq> HALMAC_RET_SUCCESS then Some (HALMAC_RET_EEPROM_PARSING_FAIL, s3)
                  else
                    let s4 = signal_dump DUMP_LOGICAL_EFUSE (ef_evnt_log s2) log s3 in
                    (case (if ef_evnt_mask s4 then dump_content DUMP_LOGICAL_EFUSE_MASK s4 else Some ((HALMAC_RET_SUCCESS, []), s4)) of
                       None \<Rightarrow> None
                     | Some ((status, msk), s5) \<Rightarrow>
                         if status \<noteq> HALMAC_RET_SUCCESS then Some (HALMAC_RET_EEPROM_PARSING_FAIL, s5)
                         else Some (HALMAC_RET_SUCCESS, signal_dump DUMP_LOGICAL_EFUSE_MASK (ef_evnt_mask s4) msk s5)))))"

definition get_efuse_data_8822e :: "efuse_env \<Rightarrow> u8 list \<Rightarrow> efuse \<Rightarrow> (halmac_ret_status \<times> efuse) option" where
  "get_efuse_data_8822e env buf s =
     (if length buf < 12 then None
      else if ucast (buf ! 8) \<noteq> ef_seq s then Some (HALMAC_RET_SUCCESS, s)
      else if ef_proc s \<noteq> HALMAC_CMD_PROCESS_SENDING then Some (HALMAC_RET_SUCCESS, s)
      else
        let seg_id = unat (buf ! 4 AND 0x7F); end_segment = bit (buf ! 4) 7; seg_size = buf ! 5;
            s1 = (if seg_id = 0 then s\<lparr>ef_seg_size := seg_size\<rparr> else s);
            eeprom_size = ef_eeprom_size s
        in (case pltfm_malloc env eeprom_size s1 of
              (ok, s2) \<Rightarrow>
                if \<not> ok then Some (HALMAC_RET_MALLOC_FAIL, s2)
                else
                  let seg_offset = seg_id * unat (ef_seg_size s2); n = unat seg_size in
                  (case (if \<not> ef_c2h_part2 s2 then copy_segment buf seg_offset n s2
                         else
                           let off = seg_offset + EFUSE_PART_1_END in
                           if off + n \<le> ef_size s2 then copy_segment buf off n s2
                           else if off < ef_size s2 then copy_segment buf off (ef_size s2 - off) s2
                           else Some s2) of
                     None \<Rightarrow> None
                   | Some s3 \<Rightarrow>
                       if \<not> end_segment then Some (HALMAC_RET_SUCCESS, pltfm_free eeprom_size s3)
                       else if \<not> ef_c2h_part2 s3 then
                         Some (HALMAC_RET_SUCCESS, pltfm_free eeprom_size (s3\<lparr>ef_c2h_part2 := True\<rparr>))
                       else
                         (case finish_dump (s3\<lparr>ef_c2h_part2 := False\<rparr>) of
                            None \<Rightarrow> None
                          | Some (status, s4) \<Rightarrow> Some (status, pltfm_free eeprom_size s4)))))"


section \<open>What reading and programming leave alone\<close>

named_theorems ctl_frame \<open>operations that keep the fields of \<open>ef_ctl\<close>\<close>

lemma malloc_frame [ctl_frame]: "pltfm_malloc env n s = (ok, s') \<Longrightarrow> ef_ctl s' = ef_ctl s"
  by (auto simp: pltfm_malloc_def ef_ctl_def)

lemma read_cells_frame: "ef_ctl (snd (read_cells env addr n s)) = ef_ctl s"
proof (induction env addr n s rule: read_cells.induct)
  case (2 env addr n s)
  have u: "ef_ctl (s\<lparr>ef_clock := ef_clock s + 1\<rparr>) = ef_ctl s" by simp
  show ?case using 2 u by (simp add: Let_def split_beta)
qed simp

lemma ctl_regs [simp]: "ef_ctl (s\<lparr>ef_regs := r\<rparr>) = ef_ctl s" "ef_ctl (s\<lparr>ef_map := m\<rparr>) = ef_ctl s"
  by (simp_all add: ef_ctl_def)

lemma read_hw_frame [ctl_frame]: "read_hw_efuse_8822e env off n s = (r, s') \<Longrightarrow> ef_ctl s' = ef_ctl s"
  using read_cells_frame [of env off "(off + n) mod 2 ^ 32 - off"
      "(enable_efuse_sw_pwr_cut False s)\<lparr>ef_regs := (ef_regs (enable_efuse_sw_pwr_cut False s))\<lparr>rg_ctrl1 :=
        rg_ctrl1 (ef_regs (enable_efuse_sw_pwr_cut False s)) OR BIT_EF_BURST\<rparr>\<rparr>"]
  unfolding read_hw_efuse_8822e_def Let_def by (auto simp: split_beta split: if_splits)

lemma write_hw_frame [ctl_frame]:
  assumes "write_hw_efuse_8822e env off v s = (r, s')"
  shows "ef_ctl s' = ef_ctl s"
proof -
  define t where "t = s\<lparr>ef_map_valid := False, ef_clock := ef_clock s + 1,
    ef_cells := (ef_cells s)[off mod EF_CELLS := fe_burn env (ef_clock s) (ef_regs s) (ef_cells s ! (off mod EF_CELLS)) v]\<rparr>"
  have "ef_ctl t = ef_ctl s" by (simp add: t_def)
  moreover have "s' = t \<or> s' = snd (read_hw_efuse_8822e env off 1 t)"
    using assms unfolding write_hw_efuse_8822e_def Let_def t_def [symmetric] by (auto simp: split_beta split: if_splits)
  ultimately show ?thesis using read_hw_frame [of env off 1 t "fst (read_hw_efuse_8822e env off 1 t)"] by auto
qed

lemma write_cells_frame [ctl_frame]: "write_cells env addr vs s = (r, s') \<Longrightarrow> ef_ctl s' = ef_ctl s"
  by (induction env addr vs s rule: write_cells.induct)
    (auto dest!: write_hw_frame split: prod.splits if_splits)

lemma read_efuse_frame [ctl_frame]: "read_efuse_8822e env off n s = Some (r, s') \<Longrightarrow> ef_ctl s' = ef_ctl s"
  by (auto simp: read_efuse_8822e_def dest!: read_hw_frame split: if_splits option.splits prod.splits)

lemma load_frame [ctl_frame]: "load_efuse_map env s = Some (r, s') \<Longrightarrow> ef_ctl s' = ef_ctl s"
  unfolding load_efuse_map_def
  by (auto dest!: read_efuse_frame malloc_frame split: if_splits option.splits prod.splits)

lemma run_parser_frame [ctl_frame]: "run_parser p s = Some (r, s') \<Longrightarrow> ef_ctl s' = ef_ctl s"
  by (auto simp: run_parser_def split: option.splits prod.splits if_splits)

lemma read_log_frame [ctl_frame]: "read_log_efuse_map_8822e env s = Some (r, s') \<Longrightarrow> ef_ctl s' = ef_ctl s"
  unfolding read_log_efuse_map_8822e_def
  by (auto dest!: load_frame run_parser_frame split: if_splits option.splits prod.splits)

lemma proc_write_log_frame [ctl_frame]: "proc_write_log_efuse_8822e env off v s = Some (r, s') \<Longrightarrow> ef_ctl s' = ef_ctl s"
  unfolding proc_write_log_efuse_8822e_def Let_def
  by (auto dest!: read_log_frame write_cells_frame malloc_frame split: if_splits option.splits prod.splits)

lemma proc_write_word_frame [ctl_frame]: "proc_write_log_efuse_word_8822e env off v s = Some (r, s') \<Longrightarrow> ef_ctl s' = ef_ctl s"
  unfolding proc_write_log_efuse_word_8822e_def Let_def
  by (auto dest!: read_log_frame write_cells_frame malloc_frame split: if_splits option.splits prod.splits)

lemma update_mask_frame [ctl_frame]:
  "update_eeprom_mask_8822e env mp n msk k um s = Some (r, s') \<Longrightarrow> ef_ctl s' = ef_ctl s"
  unfolding update_eeprom_mask_8822e_def Let_def
  by (auto dest!: read_log_frame run_parser_frame malloc_frame split: if_splits option.splits prod.splits)

lemma proc_pg_frame [ctl_frame]: "proc_pg_efuse_8822e env mp w pre off s = (r, s') \<Longrightarrow> ef_ctl s' = ef_ctl s"
  unfolding proc_pg_efuse_8822e_def Let_def
  by (auto dest!: write_hw_frame write_cells_frame split: if_splits prod.splits)

lemma program_blocks_frame: "program_blocks env mp um is s = (r, s') \<Longrightarrow> ef_ctl s' = ef_ctl s"
  by (induction env mp um "is" s rule: program_blocks.induct)
    (auto simp: Let_def dest!: proc_pg_frame split: prod.splits if_splits)

lemma program_frame [ctl_frame]: "program_efuse_8822e env mp n um s = (r, s') \<Longrightarrow> ef_ctl s' = ef_ctl s"
  unfolding program_efuse_8822e_def by (auto dest!: program_blocks_frame split: prod.splits if_splits)

lemma proc_pg_map_frame [ctl_frame]: "proc_pg_efuse_by_map_8822e env mp n msk k s = Some (r, s') \<Longrightarrow> ef_ctl s' = ef_ctl s"
  unfolding proc_pg_efuse_by_map_8822e_def Let_def
  by (auto dest!: update_mask_frame program_frame malloc_frame split: if_splits option.splits prod.splits)

section \<open>The state machine\<close>

text \<open>The operations that read or program, and with them the dumps.\<close>

inductive efuse_io :: "efuse_env \<Rightarrow> efuse \<Rightarrow> halmac_ret_status \<Rightarrow> efuse \<Rightarrow> bool" for env s where
  read_log: "read_logical_efuse_8822e env off s = Some ((st, v), s') \<Longrightarrow> efuse_io env s st s'"
| write_log: "write_log_efuse_8822e env off v s = Some (st, s') \<Longrightarrow> efuse_io env s st s'"
| write_word: "write_log_efuse_word_8822e env off w s = Some (st, s') \<Longrightarrow> efuse_io env s st s'"
| pg_map: "pg_efuse_by_map_8822e env info s = Some (st, s') \<Longrightarrow> efuse_io env s st s'"
| write_phy: "write_wifi_phy_efuse_8822e env off v s = (st, s') \<Longrightarrow> efuse_io env s st s'"
| read_phy: "read_wifi_phy_efuse_8822e env a n s = ((st, vs), s') \<Longrightarrow> efuse_io env s st s'"
| write_bt: "write_efuse_bt_8822e env off v bank s = (st, s') \<Longrightarrow> efuse_io env s st s'"
| read_bt: "read_efuse_bt_8822e env off bank s = ((st, vs), s') \<Longrightarrow> efuse_io env s st s'"
| dump_bt: "dump_efuse_map_bt_8822e env bank k s = ((st, vs), s') \<Longrightarrow> efuse_io env s st s'"

inductive efuse_op :: "efuse_env \<Rightarrow> efuse \<Rightarrow> halmac_ret_status \<Rightarrow> efuse \<Rightarrow> bool" for env s where
  io: "efuse_io env s st s' \<Longrightarrow> efuse_op env s st s'"
| dump: "dump_efuse f env fw cfg s = Some (st, s') \<Longrightarrow> efuse_op env s st s'"
| available: "get_efuse_available_size_8822e env fw s = Some ((st, n), s') \<Longrightarrow> efuse_op env s st s'"

lemma begin_ready: "efuse_ready s = HALMAC_RET_SUCCESS \<Longrightarrow> efuse_begin s = (HALMAC_RET_SUCCESS, s\<lparr>ef_cnstr := HALMAC_CMD_CNSTR_BUSY\<rparr>)"
  by (auto simp: efuse_ready_def efuse_begin_def cnv_efuse_state_8822e_def switch_efuse_bank_8822e_def split: if_splits)

lemma begin_refused: "efuse_ready s \<noteq> HALMAC_RET_SUCCESS \<Longrightarrow> efuse_begin s = (efuse_ready s, s)"
  by (simp add: efuse_begin_def)

lemma done_busy: "ef_cnstr s = HALMAC_CMD_CNSTR_BUSY \<Longrightarrow> efuse_done s = (HALMAC_RET_SUCCESS, s\<lparr>ef_cnstr := HALMAC_CMD_CNSTR_IDLE\<rparr>)"
  by (simp add: efuse_done_def cnv_efuse_state_8822e_def)

lemma ctl_cnstr: "ef_ctl s' = ef_ctl s \<Longrightarrow> ef_cnstr s' = ef_cnstr s"
  by (simp add: ef_ctl_def)

lemma cnstr_simps [simp]: "ef_cnstr (pltfm_free n s) = ef_cnstr s" "ef_cnstr (enable_efuse_sw_pwr_cut w s) = ef_cnstr s"
  "ef_cnstr (disable_efuse_sw_pwr_cut w s) = ef_cnstr s"
  by (simp_all add: pltfm_free_def enable_efuse_sw_pwr_cut_def disable_efuse_sw_pwr_cut_def)

lemma io_refused:
  assumes "efuse_ready s \<noteq> HALMAC_RET_SUCCESS" "efuse_io env s st s'"
  shows "st \<noteq> HALMAC_RET_SUCCESS \<and> s' = s"
  using assms(2,1)
proof cases
  case read_log
  then show ?thesis using assms(1) begin_refused [OF assms(1)] by (auto simp: read_logical_efuse_8822e_def split: if_splits)
next
  case write_log
  then show ?thesis using assms(1) begin_refused [OF assms(1)] by (auto simp: write_log_efuse_8822e_def split: if_splits)
next
  case write_word
  then show ?thesis using assms(1) begin_refused [OF assms(1)] by (auto simp: write_log_efuse_word_8822e_def split: if_splits)
next
  case pg_map
  then show ?thesis
    using assms(1) begin_refused [OF assms(1)]
    by (auto simp: pg_efuse_by_map_8822e_def split: if_splits option.splits)
next
  case write_phy
  then show ?thesis using assms(1) begin_refused [OF assms(1)] by (auto simp: write_wifi_phy_efuse_8822e_def split: if_splits)
next
  case read_phy
  then show ?thesis using assms(1) begin_refused [OF assms(1)]
    by (auto simp: read_wifi_phy_efuse_8822e_def Let_def split: if_splits)
next
  case write_bt
  then show ?thesis using assms(1) begin_refused [OF assms(1)] by (auto simp: write_efuse_bt_8822e_def split: if_splits)
next
  case read_bt
  then show ?thesis using assms(1) begin_refused [OF assms(1)] by (auto simp: read_efuse_bt_8822e_def split: if_splits)
next
  case dump_bt
  then show ?thesis using assms(1) begin_refused [OF assms(1)] by (auto simp: dump_efuse_map_bt_8822e_def split: if_splits)
qed

lemma op_refused:
  assumes "efuse_ready s \<noteq> HALMAC_RET_SUCCESS" "efuse_op env s st s'"
  shows "st \<noteq> HALMAC_RET_SUCCESS \<and> s' = s"
  using assms(2)
proof cases
  case io
  then show ?thesis using io_refused [OF assms(1)] by blast
next
  case dump
  then show ?thesis using assms(1) by (auto simp: dump_efuse_def Let_def split: if_splits)
next
  case available
  then show ?thesis
    using assms(1) by (auto simp: get_efuse_available_size_8822e_def dump_log_efuse_map_8822e_def dump_efuse_def Let_def
      halmac_fw_validate_def split: if_splits)
qed

definition outcome_ok :: "efuse \<Rightarrow> halmac_ret_status \<Rightarrow> efuse \<Rightarrow> bool" where
  "outcome_ok s st s' \<longleftrightarrow>
     (if st = HALMAC_RET_SUCCESS then ef_cnstr s' = HALMAC_CMD_CNSTR_IDLE else s' = s \<or> ef_cnstr s' = HALMAC_CMD_CNSTR_BUSY)"

lemma outcome_done: "ef_cnstr t = HALMAC_CMD_CNSTR_BUSY \<Longrightarrow> efuse_done t = (st, s') \<Longrightarrow> outcome_ok s st s'"
  by (auto simp: done_busy outcome_ok_def)

lemma outcome_busy: "st \<noteq> HALMAC_RET_SUCCESS \<Longrightarrow> ef_cnstr s' = HALMAC_CMD_CNSTR_BUSY \<Longrightarrow> outcome_ok s st s'"
  by (simp add: outcome_ok_def)

lemma outcome_same: "st \<noteq> HALMAC_RET_SUCCESS \<Longrightarrow> outcome_ok s st s"
  by (simp add: outcome_ok_def)


lemma io_outcome:
  assumes r: "efuse_ready s = HALMAC_RET_SUCCESS" and io: "efuse_io env s st s'"
  shows "outcome_ok s st s'"
proof -
  define t where "t = s\<lparr>ef_cnstr := HALMAC_CMD_CNSTR_BUSY\<rparr>"
  have b: "efuse_begin s = (HALMAC_RET_SUCCESS, t)" "ef_cnstr t = HALMAC_CMD_CNSTR_BUSY" "ef_eeprom_size t = ef_eeprom_size s"
    "ef_size t = ef_size s" "ef_prtct_size t = ef_prtct_size s" "ef_bt_size t = ef_bt_size s"
    using begin_ready [OF r] by (simp_all add: t_def)
  have bt: "ef_cnstr (u\<lparr>ef_bt_switch := x\<rparr>) = ef_cnstr u" for u x by simp
  from io show ?thesis
  proof cases
    case (read_log off v)
    show ?thesis
    proof (cases "off \<ge> ef_eeprom_size s")
      case True
      then show ?thesis using read_log by (auto simp: read_logical_efuse_8822e_def intro: outcome_same)
    next
      case False
      obtain ok u where m: "pltfm_malloc env (ef_eeprom_size s) t = (ok, u)" by fastforce
      have u: "ef_cnstr u = HALMAC_CMD_CNSTR_BUSY" using ctl_cnstr [OF malloc_frame [OF m]] b(2) by simp
      show ?thesis
        using read_log False b(1) m u
        by (auto simp: read_logical_efuse_8822e_def done_busy outcome_ok_def dest!: read_log_frame [THEN ctl_cnstr]
          split: if_splits option.splits prod.splits)
    qed
  next
    case (write_log off v)
    then show ?thesis
      using b by (auto simp: write_log_efuse_8822e_def dest!: proc_write_log_frame [THEN ctl_cnstr]
        intro: outcome_same outcome_busy outcome_done split: if_splits option.splits prod.splits)
  next
    case (write_word off w)
    then show ?thesis
      using b by (auto simp: write_log_efuse_word_8822e_def dest!: proc_write_word_frame [THEN ctl_cnstr]
        intro: outcome_same outcome_busy outcome_done split: if_splits option.splits prod.splits)
  next
    case (pg_map info)
    then show ?thesis
      using b by (auto simp: pg_efuse_by_map_8822e_def dest!: proc_pg_map_frame [THEN ctl_cnstr]
        intro: outcome_same outcome_busy outcome_done split: if_splits option.splits prod.splits)
  next
    case (write_phy off v)
    then show ?thesis
      using b by (auto simp: done_busy outcome_ok_def write_wifi_phy_efuse_8822e_def dest!: write_hw_frame [THEN ctl_cnstr]
         split: if_splits prod.splits)
  next
    case (read_phy a n vs)
    then show ?thesis
      using b by (auto simp: read_wifi_phy_efuse_8822e_def Let_def dest!: read_hw_frame [THEN ctl_cnstr]
        intro: outcome_same outcome_busy outcome_done split: if_splits prod.splits)
  next
    case (write_bt off v bank)
    then show ?thesis
      using b by (auto simp: done_busy outcome_ok_def write_efuse_bt_8822e_def Let_def dest!: write_hw_frame [THEN ctl_cnstr]
         split: if_splits prod.splits)
  next
    case (read_bt off bank vs)
    then show ?thesis
      using b by (auto simp: done_busy outcome_ok_def read_efuse_bt_8822e_def dest!: read_hw_frame [THEN ctl_cnstr]
         split: if_splits prod.splits)
  next
    case (dump_bt bank k vs)
    then show ?thesis
      using b by (auto simp: done_busy outcome_ok_def dump_efuse_map_bt_8822e_def dest!: read_hw_frame [THEN ctl_cnstr]
         split: if_splits prod.splits)
  qed
qed

text \<open>A run of operations.\<close>

definition efuse_step :: "efuse_env \<Rightarrow> efuse \<Rightarrow> efuse \<Rightarrow> bool" where
  "efuse_step env s s' \<longleftrightarrow> (\<exists>st. efuse_op env s st s')"

lemma run_refused:
  assumes "efuse_ready s \<noteq> HALMAC_RET_SUCCESS" "(efuse_step env)\<^sup>*\<^sup>* s t"
  shows "t = s"
  using assms(2)
proof induction
  case (step t u)
  then show ?case using op_refused [OF assms(1)] by (auto simp: efuse_step_def)
qed simp

section \<open>Properties\<close>

text \<open>
  C39. An operation that fails after it has taken the state does not give it back. From then on
  every operation of the interface is refused, whatever it is and however many there are: no
  run of them changes anything, and each returns an error. One write that finds the memory
  full, or one Bluetooth access with an offset out of range, ends all use of the efuse until
  the driver resets the feature or starts again.
\<close>

theorem failed_operation_wedges:
  assumes "efuse_ready s = HALMAC_RET_SUCCESS" "efuse_io env s st s'" "st \<noteq> HALMAC_RET_SUCCESS" "s' \<noteq> s"
    and "(efuse_step env)\<^sup>*\<^sup>* s' t" "efuse_op env t st' u"
  shows "t = s' \<and> u = s' \<and> st' \<noteq> HALMAC_RET_SUCCESS"
proof -
  have "ef_cnstr s' = HALMAC_CMD_CNSTR_BUSY"
    using io_outcome [OF assms(1,2)] assms(3,4) by (auto simp: outcome_ok_def)
  then have refused: "efuse_ready s' \<noteq> HALMAC_RET_SUCCESS" by (simp add: efuse_ready_def)
  have "t = s'" by (rule run_refused [OF refused assms(5)])
  then show ?thesis using op_refused [OF refused, of env st' u] assms(6) by simp
qed

theorem failed_operation_wedges_witness:
  "\<exists>s'. write_efuse_bt_8822e ex_efuse_env 64 0 1 ex_efuse = (HALMAC_RET_EFUSE_SIZE_INCORRECT, s') \<and>
     fst (write_wifi_phy_efuse_8822e ex_efuse_env 0 0 s') \<noteq> HALMAC_RET_SUCCESS \<and>
     snd (write_wifi_phy_efuse_8822e ex_efuse_env 0 0 s') = s'"
proof -
  let ?s' = "ex_efuse\<lparr>ef_cnstr := HALMAC_CMD_CNSTR_BUSY\<rparr>"
  have r: "efuse_ready ex_efuse = HALMAC_RET_SUCCESS" by (simp add: efuse_ready_def ex_efuse_def)
  have w: "write_efuse_bt_8822e ex_efuse_env 64 0 1 ex_efuse = (HALMAC_RET_EFUSE_SIZE_INCORRECT, ?s')"
    by (simp add: write_efuse_bt_8822e_def begin_ready [OF r]) (simp add: ex_efuse_def)
  have ne: "?s' \<noteq> ex_efuse"
  proof
    assume "?s' = ex_efuse"
    then have "ef_cnstr ?s' = ef_cnstr ex_efuse" by simp
    then show False by (simp add: ex_efuse_def)
  qed
  have op: "efuse_op ex_efuse_env ?s' (fst (write_wifi_phy_efuse_8822e ex_efuse_env 0 0 ?s')) (snd (write_wifi_phy_efuse_8822e ex_efuse_env 0 0 ?s'))"
    by (intro efuse_op.io efuse_io.write_phy [of _ 0 0]) simp
  show ?thesis
    using w failed_operation_wedges [OF r efuse_io.write_bt [OF w] _ ne rtranclp.rtrancl_refl op] by auto
qed

end
