(* ===== verification/Spec2Isabelle.thy ===== *)
theory Spec2Isabelle
  imports Coop_Submit Coop_Drain Coop_Sysfs Ie_Elems Ie_Sec Ie_Wps Sta_Tab Ef_Api
begin

text \<open>
  A verified model of the receive path of the RTL8822E USB wireless driver: from a data
  frame of the device to Ethernet packets for the kernel, with its ciphers, and the
  cooperative reception that lets other adapters (helpers) hear frames for the primary one.

  \<^bold>\<open>Configuration.\<close> The model is of the default build of the Makefile: RTL8822E on USB, station
  (CONFIG_AP_MODE, P2P, WAPI, TDLS, mesh, WDS and concurrent interfaces off), 80211W, monitor
  mode, SKB copy, CONFIG_RECV_REORDERING_CTRL, CONFIG_RX_PACKET_APPEND_FCS,
  CONFIG_COOP_RX_KERNEL_CRYPTO, NEW_CRYPTO, AES_SMALL_TABLES; not in manufacturing test mode.

  \<^bold>\<open>The path of a frame.\<close> \<^verbatim>\<open>pre_recv_entry\<close> gives the frame of a helper to cooperative reception
  and every other frame to \<^verbatim>\<open>recv_func\<close>: validation (addresses, station, duplicates, replay,
  cipher, plaintext policy), the queue of frames that wait for the pairwise key, decryption,
  reassembly of fragments, port control, the reorder window of the station and TID, and the
  conversion of an MSDU or A-MSDU to packets. Cooperative reception checks the frame against
  the session of the primary and queues it; a tasklet later feeds the queue to the same
  decryption, reorder window and conversion.

  \<^bold>\<open>Theories,\<close> in the order of their imports:

  \<^item> \<^verbatim>\<open>Prelude\<close>: integers at their width, byte buffers, return codes, shared lemmas.
  \<^item> \<^verbatim>\<open>Pn_Iv\<close>: cipher suites, IV headers, packet numbers (\<^verbatim>\<open>include/rtw_security.h\<close>,
    \<^verbatim>\<open>include/rtw_recv.h\<close>): which replay check accepts what, IV and packet number are inverse.
  \<^item> \<^verbatim>\<open>Rx_Types\<close>: \<^verbatim>\<open>union recv_frame\<close> and its pull and put operations, \<^verbatim>\<open>sta_info\<close>,
    \<^verbatim>\<open>security_priv\<close>, \<^verbatim>\<open>recv_priv\<close>, the adapter, and the frame pool with its contract, a locale.
  \<^item> \<^verbatim>\<open>Rx_Reorder\<close>: the A-MPDU reorder window of \<^verbatim>\<open>core/rtw_recv.c\<close>, refined to a window on
    unwrapped positions: order, conservation, bounds, timer, what is refused.
  \<^item> \<^verbatim>\<open>Rx_Dedup\<close>: \<^verbatim>\<open>recv_decache\<close> and the packet-number checks.
  \<^item> \<^verbatim>\<open>Sec_Arc4\<close>, \<^verbatim>\<open>Sec_Tkip\<close>, \<^verbatim>\<open>Sec_Aes\<close>, \<^verbatim>\<open>Sec_Ccmp\<close>, \<^verbatim>\<open>Sec_Gcmp\<close>, \<^verbatim>\<open>Sec_Sw\<close>: ARC4, CRC-32 and
    WEP, Michael and TKIP, AES, CCM, GCM, CCMP, GCMP and the functions on frames
    (\<^verbatim>\<open>core/rtw_security.c\<close>, \<^verbatim>\<open>core/crypto\<close>, \<^verbatim>\<open>core/rtw_swcrypto.c\<close>): decryption undoes encryption,
    table-driven and byte-wise code equals its reference, tags are checked exactly.
  \<^item> \<^verbatim>\<open>Rx_Defrag\<close>: reassembly: what is put together, and from which fragments only.
  \<^item> \<^verbatim>\<open>Rx_Amsdu\<close>: A-MSDU and MSDU to packets: parser and encoder, the injection defence.
  \<^item> \<^verbatim>\<open>Rx_Path\<close>, \<^verbatim>\<open>Rx_Func\<close>: the composition, \<^verbatim>\<open>validate_recv_frame\<close> to \<^verbatim>\<open>recv_func\<close>: no frame is
    lost or released twice, plaintext policy, port control, and where each of them fails.
  \<^item> \<^verbatim>\<open>Coop_Group\<close>, \<^verbatim>\<open>Coop_Rx\<close>: \<^verbatim>\<open>core/rtw_cooperative_rx.c\<close>, the group and the frames;
    \<^verbatim>\<open>Coop_Run\<close>: the step relation of all operations and the invariant of every run;
    \<^verbatim>\<open>Coop_Submit\<close>, \<^verbatim>\<open>Coop_Drain\<close>: what helpers may submit and what the tasklet does;
    \<^verbatim>\<open>Coop_Sysfs\<close>: what a user can do to the group through its attributes.
  \<^item> \<^verbatim>\<open>Ie_Base\<close>, \<^verbatim>\<open>Ie_Elems\<close>: the information elements of management frames,
    \<^verbatim>\<open>core/rtw_ieee80211.c\<close>: finding, replacing and removing elements in a buffer, and the parser
    of all elements, on encoded lists of elements and on any bytes; \<^verbatim>\<open>Ie_Sec\<close>: the RSN and WPA
    elements, whose parser reads back every encoded element and stays inside of any;
    \<^verbatim>\<open>Ie_Wps\<close>: the WPS element, with the attributes for which the search never returns, the
    OWE element and the bitmap of extended capabilities.
  \<^item> \<^verbatim>\<open>Hw_Cam\<close>: the key table of the hardware (\<^verbatim>\<open>core/rtw_wlan_util.c\<close>, \<^verbatim>\<open>hal/hal_com.c\<close>) and the
    handlers of the commands that set and clear keys: a refinement of a map from addresses,
    key identifiers and kinds to keys, and the runs that do not return.
  \<^item> \<^verbatim>\<open>Sta_Tab\<close>: the table of stations (\<^verbatim>\<open>core/rtw_sta_mgt.c\<close>) and their identifiers: every run
    keeps it in order and the received frames together; it refines the map of stations that the
    receive path reads; the group key of an ad-hoc network can take the entry of another key.
  \<^item> \<^verbatim>\<open>Ef_Map\<close>, \<^verbatim>\<open>Ef_Hw\<close>, \<^verbatim>\<open>Ef_Pg\<close>, \<^verbatim>\<open>Ef_Api\<close>: the one-time programmable memory of the chip
    (\<^verbatim>\<open>hal/halmac/halmac_88xx/halmac_8822e/halmac_efuse_8822e.c\<close>). \<^verbatim>\<open>Ef_Map\<close> has the log of entries
    and its two parsers, exact on every log; \<^verbatim>\<open>Ef_Hw\<close> the power of the memory, its cells (what they
    sense and burn, and when they are ready, are parameters, as is the allocator) and the logical
    writes, which refine the update of a map; \<^verbatim>\<open>Ef_Pg\<close> the programming of a map under a mask and
    the check of the space; \<^verbatim>\<open>Ef_Api\<close> the operations of the interface with the state they take and
    give back, the dumps, and the messages of the firmware that fill them.

  \<^bold>\<open>State.\<close> A frame is a record with its buffer and the offsets of \<^verbatim>\<open>rx_data\<close> and \<^verbatim>\<open>rx_tail\<close>; its
  identity \<open>rf_id\<close> stands for its address, so that conservation is a statement on multisets
  of identities: the pool, the queues and the windows of an adapter (\<open>held\<close>). Stations are
  found by their address; a pointer to a station or to a window is the key it is found by.
  \<open>None\<close> as the result of a step is an access the C program must not make: outside of a buffer,
  or through the pointer of a station that is gone. A critical section is one step. What the
  kernel and the allocators do is a parameter (\<open>coop_env\<close>, or an argument of the step).

  \<^bold>\<open>Loops and bounds.\<close> The loops over lists are structural. The drain of the frames that wait
  for a key has a termination proof (its queue gets shorter). The drain tasklet has the
  batch of 64 frames of the code as its fuel, which is more than the 48 that can wait. The
  A-MSDU parser has the 64 subframes of \<^verbatim>\<open>MAX_SUBFRAME_COUNT\<close>. Sequence numbers are 16-bit words
  with the 12-bit mask of the macros; packet numbers are 64-bit words; frame lengths are
  integers that the pull and put operations keep inside the buffer.

  \<^bold>\<open>Not modelled.\<close> Management and control frames, the access point branches, transmission apart
  from the ciphers, the statistics of stations and the radiotap header; the text of the
  statistics of cooperative reception; the MLME, the command thread, scanning, roaming, power
  saving; the hardware layers (\<^verbatim>\<open>hal\<close>) apart from the one-time memory, whose sources are the vendor's register tables, firmware
  images and calibration code; the operating system glue (\<^verbatim>\<open>os_dep\<close>, \<^verbatim>\<open>platform\<close>). Two processors
  in the same function at once are not modelled either: every operation of the group takes
  effect at one point, which is where it holds its lock or where the tasklet is stopped.
\<close>

end
